(* ===== verification/Prelude.thy ===== *)
theory Prelude
  imports Main "HOL-Library.Word" "HOL-Library.Sublist" "HOL-Library.Code_Target_Nat"
begin

text \<open>
  Shared vocabulary of the development.  A Go \<open>string\<close> or \<open>[]byte\<close> is a HOL \<open>string\<close>
  (a list of 8-bit characters, so one element is one byte), a Go \<open>rune\<close> is a \<open>nat\<close>, and
  a Go \<open>(value, error)\<close> pair that carries either the one or the other is a sum, with
  \<open>Inl\<close> for the error.  The theory also holds the lemma collections and the generic list
  facts the components share.
\<close>

unbundle bit_operations_syntax

named_theorems consume_rules
  \<open>what a scanner operation consumes: the facts the lexer proofs chain\<close>

named_theorems store_rules
  \<open>effect of the parser's store operations on the node store and the stacks\<close>

section \<open>Bytes and runes\<close>

type_synonym bytes = string

abbreviation rune :: "char \<Rightarrow> nat" where
  "rune \<equiv> of_char"

lemma rune_less [simp]: "rune c < 256"
  by (simp add: of_char_def)

lemma rune_inject [simp]: "rune a = rune b \<longleftrightarrow> a = b"
  by simp

lemma char_of_rune [simp]: "char_of (rune c) = c"
  by simp

lemma rune_char_of: "n < 256 \<Longrightarrow> rune (char_of n) = n"
  by (simp add: of_char_of)

section \<open>Results\<close>

fun bind_res :: "('e + 'a) \<Rightarrow> ('a \<Rightarrow> 'e + 'b) \<Rightarrow> 'e + 'b" where
  "bind_res (Inl e) f = Inl e"
| "bind_res (Inr x) f = f x"

lemma bind_res_Inr_iff: "bind_res r f = Inr y \<longleftrightarrow> (\<exists>x. r = Inr x \<and> f x = Inr y)"
  by (cases r) auto

lemma bind_res_cong [fundef_cong]:
  "r = r' \<Longrightarrow> (\<And>x. r' = Inr x \<Longrightarrow> f x = g x) \<Longrightarrow> bind_res r f = bind_res r' g"
  by (cases r') auto

section \<open>Lists\<close>

lemma append_eq_drop: "xs = d @ ys \<Longrightarrow> ys = drop (length d) xs"
  by simp

lemma append_cancel_len: "d @ xs = e @ xs \<Longrightarrow> d = e"
  by simp

lemma take_drop_prefix:
  assumes "r = p @ d @ q" and "n = length p" and "m = length p + length d"
  shows "take (m - n) (drop n r) = d"
  using assms by simp

lemma length_drop_less: "0 < n \<Longrightarrow> n \<le> length xs \<Longrightarrow> length (drop n xs) < length xs"
  by simp

end
