(* ===== verification/Utf8.thy ===== *)
theory Utf8
  imports Prelude
begin

text \<open>
  The part of Go's \<open>unicode/utf8\<close> and \<open>unicode\<close> packages that the source uses:
  \<open>DecodeRune\<close>, \<open>AppendRune\<close>, the rune iteration of \<open>for _, r := range s\<close>,
  \<open>DecodeLastRune\<close> and \<open>unicode.IsSpace\<close>.  Decoding never fails: an invalid sequence
  yields \<open>RuneError\<close> with size 1 and the empty string yields size 0, as in Go.
\<close>

section \<open>Decoding\<close>

definition RuneError :: nat where
  "RuneError = 0xFFFD"

definition byte_in :: "nat \<Rightarrow> nat \<Rightarrow> char \<Rightarrow> bool" where
  "byte_in lo hi b \<longleftrightarrow> lo \<le> rune b \<and> rune b \<le> hi"

fun decode_rune :: "bytes \<Rightarrow> nat \<times> nat" where
  "decode_rune [] = (RuneError, 0)"
| "decode_rune (b0 # bs) =
     (let x = rune b0 in
      if x < 0x80 then (x, 1)
      else if 0xC2 \<le> x \<and> x \<le> 0xDF then
        (case bs of
           b1 # _ \<Rightarrow> if byte_in 0x80 0xBF b1
                     then ((x - 0xC0) * 64 + (rune b1 - 0x80), 2) else (RuneError, 1)
         | [] \<Rightarrow> (RuneError, 1))
      else if 0xE0 \<le> x \<and> x \<le> 0xEF then
        (case bs of
           b1 # b2 # _ \<Rightarrow>
             if byte_in (if x = 0xE0 then 0xA0 else 0x80) (if x = 0xED then 0x9F else 0xBF) b1
                \<and> byte_in 0x80 0xBF b2
             then ((x - 0xE0) * 4096 + (rune b1 - 0x80) * 64 + (rune b2 - 0x80), 3)
             else (RuneError, 1)
         | _ \<Rightarrow> (RuneError, 1))
      else if 0xF0 \<le> x \<and> x \<le> 0xF4 then
        (case bs of
           b1 # b2 # b3 # _ \<Rightarrow>
             if byte_in (if x = 0xF0 then 0x90 else 0x80) (if x = 0xF4 then 0x8F else 0xBF) b1
                \<and> byte_in 0x80 0xBF b2 \<and> byte_in 0x80 0xBF b3
             then ((x - 0xF0) * 262144 + (rune b1 - 0x80) * 4096
                   + (rune b2 - 0x80) * 64 + (rune b3 - 0x80), 4)
             else (RuneError, 1)
         | _ \<Rightarrow> (RuneError, 1))
      else (RuneError, 1))"

lemma decode_rune_size:
  "decode_rune s = (c, n) \<Longrightarrow> n \<le> length s \<and> n \<le> 4 \<and> (n = 0 \<longleftrightarrow> s = [])"
  by (cases s) (auto simp: Let_def split: if_splits list.splits)

lemma decode_rune_size_le [simp]: "snd (decode_rune s) \<le> length s"
  using decode_rune_size [of s "fst (decode_rune s)" "snd (decode_rune s)"] by simp

lemma decode_rune_size_pos [simp]: "s \<noteq> [] \<Longrightarrow> 0 < snd (decode_rune s)"
  using decode_rune_size [of s "fst (decode_rune s)" "snd (decode_rune s)"] by simp

lemma decode_rune_ascii:
  "rune b < 0x80 \<Longrightarrow> decode_rune (b # s) = (rune b, 1)"
  by (simp add: Let_def)

lemma decode_rune_lt_128:
  "decode_rune s = (c, n) \<Longrightarrow> c < 0x80 \<Longrightarrow> n = 1 \<and> (\<exists>b t. s = b # t \<and> rune b = c)"
  by (cases s) (auto simp: Let_def RuneError_def byte_in_def split: if_splits list.splits)

section \<open>Encoding\<close>

definition surrogate :: "nat \<Rightarrow> bool" where
  "surrogate r \<longleftrightarrow> 0xD800 \<le> r \<and> r \<le> 0xDFFF"

definition valid_rune :: "nat \<Rightarrow> bool" where
  "valid_rune r \<longleftrightarrow> r \<le> 0x10FFFF \<and> \<not> surrogate r"

definition encode3 :: "nat \<Rightarrow> bytes" where
  "encode3 r = [char_of (0xE0 + r div 4096), char_of (0x80 + r div 64 mod 64),
                char_of (0x80 + r mod 64)]"

definition append_rune :: "bytes \<Rightarrow> nat \<Rightarrow> bytes" where
  "append_rune b r = b @
     (if r < 0x80 then [char_of r]
      else if r < 0x800 then [char_of (0xC0 + r div 64), char_of (0x80 + r mod 64)]
      else if r > 0x10FFFF \<or> surrogate r then encode3 RuneError
      else if r < 0x10000 then encode3 r
      else [char_of (0xF0 + r div 262144), char_of (0x80 + r div 4096 mod 64),
            char_of (0x80 + r div 64 mod 64), char_of (0x80 + r mod 64)])"

abbreviation encode_rune :: "nat \<Rightarrow> bytes" where
  "encode_rune \<equiv> append_rune []"

lemma append_rune_split: "append_rune b r = b @ encode_rune r"
  by (simp add: append_rune_def)

lemma encode_rune_nonempty [simp]: "encode_rune r \<noteq> []"
  by (simp add: append_rune_def encode3_def)

section \<open>Encoding and decoding are inverse\<close>

lemma decode_rune_2:
  "byte_in 0xC2 0xDF b0 \<Longrightarrow> byte_in 0x80 0xBF b1 \<Longrightarrow>
   decode_rune (b0 # b1 # s) = ((rune b0 - 0xC0) * 64 + (rune b1 - 0x80), 2)"
  by (simp add: byte_in_def Let_def)

lemma decode_rune_3:
  "byte_in 0xE0 0xEF b0 \<Longrightarrow>
   byte_in (if rune b0 = 0xE0 then 0xA0 else 0x80) (if rune b0 = 0xED then 0x9F else 0xBF) b1 \<Longrightarrow>
   byte_in 0x80 0xBF b2 \<Longrightarrow>
   decode_rune (b0 # b1 # b2 # s) =
     ((rune b0 - 0xE0) * 4096 + (rune b1 - 0x80) * 64 + (rune b2 - 0x80), 3)"
  by (simp add: byte_in_def Let_def)

lemma decode_rune_4:
  "byte_in 0xF0 0xF4 b0 \<Longrightarrow>
   byte_in (if rune b0 = 0xF0 then 0x90 else 0x80) (if rune b0 = 0xF4 then 0x8F else 0xBF) b1 \<Longrightarrow>
   byte_in 0x80 0xBF b2 \<Longrightarrow> byte_in 0x80 0xBF b3 \<Longrightarrow>
   decode_rune (b0 # b1 # b2 # b3 # s) =
     ((rune b0 - 0xF0) * 262144 + (rune b1 - 0x80) * 4096
      + (rune b2 - 0x80) * 64 + (rune b3 - 0x80), 4)"
  by (simp add: byte_in_def Let_def)

lemma rune_char_of_add: "a + b < 256 \<Longrightarrow> rune (char_of (a + b)) = a + b"
  by (simp add: rune_char_of)

lemma digits64_2:
  fixes r :: nat
  obtains h l where "r div 64 = h" "r mod 64 = l" "r = h * 64 + l" "l < 64"
proof (rule that)
  show "r = r div 64 * 64 + r mod 64" by simp
qed simp_all

lemma digits64_3:
  fixes r :: nat
  obtains h m l where "r div 4096 = h" "r div 64 mod 64 = m" "r mod 64 = l"
    "r = h * 4096 + m * 64 + l" "m < 64" "l < 64"
proof (rule that)
  have "r div 4096 = r div 64 div 64" by (simp add: div_mult2_eq [symmetric])
  then show "r = r div 4096 * 4096 + r div 64 mod 64 * 64 + r mod 64"
    using div_mult_mod_eq [of r 64] div_mult_mod_eq [of "r div 64" 64] by linarith
qed simp_all

lemma digits64_4:
  fixes r :: nat
  obtains g h m l where "r div 262144 = g" "r div 4096 mod 64 = h" "r div 64 mod 64 = m" "r mod 64 = l"
    "r = g * 262144 + h * 4096 + m * 64 + l" "h < 64" "m < 64" "l < 64"
proof (rule that)
  have "r div 262144 = r div 4096 div 64" by (simp add: div_mult2_eq [symmetric])
  moreover have "r div 4096 = r div 64 div 64" by (simp add: div_mult2_eq [symmetric])
  ultimately show "r = r div 262144 * 262144 + r div 4096 mod 64 * 4096 + r div 64 mod 64 * 64 + r mod 64"
    using div_mult_mod_eq [of r 64] div_mult_mod_eq [of "r div 64" 64]
      div_mult_mod_eq [of "r div 4096" 64] by linarith
qed simp_all

lemma decode_encode_2:
  assumes "0x80 \<le> r" "r < 0x800"
  shows "decode_rune (encode_rune r @ s) = (r, 2)"
proof -
  obtain h l where d: "r div 64 = h" "r mod 64 = l" "r = h * 64 + l" "l < 64"
    by (rule digits64_2)
  have b: "2 \<le> h" "h < 32" using assms d(3,4) by linarith+
  show ?thesis
    using assms b d(4)
    by (simp add: append_rune_def d(1,2) decode_rune_2 byte_in_def rune_char_of del: decode_rune.simps)
      (auto simp: d(3) byte_in_def rune_char_of)
qed

lemma decode_encode_3:
  assumes "0x800 \<le> r" "r < 0x10000" "\<not> surrogate r"
  shows "decode_rune (encode3 r @ s) = (r, 3)"
proof -
  obtain h m l where d: "r div 4096 = h" "r div 64 mod 64 = m" "r mod 64 = l"
    "r = h * 4096 + m * 64 + l" "m < 64" "l < 64"
    by (rule digits64_3)
  have b: "h < 16" "h = 0 \<longrightarrow> 32 \<le> m" "h = 13 \<longrightarrow> m < 32"
    using assms d(4,5,6) unfolding surrogate_def by linarith+
  show ?thesis
    using b d(5,6)
    by (simp add: encode3_def d(1-3) decode_rune_3 byte_in_def rune_char_of del: decode_rune.simps)
      (auto simp: d(4) byte_in_def rune_char_of)
qed

lemma decode_encode_4:
  assumes "0x10000 \<le> r" "r \<le> 0x10FFFF"
  shows "decode_rune (encode_rune r @ s) = (r, 4)"
proof -
  obtain g h m l where d: "r div 262144 = g" "r div 4096 mod 64 = h" "r div 64 mod 64 = m"
    "r mod 64 = l" "r = g * 262144 + h * 4096 + m * 64 + l" "h < 64" "m < 64" "l < 64"
    by (rule digits64_4)
  have b: "g < 5" "g = 0 \<longrightarrow> 16 \<le> h" "g = 4 \<longrightarrow> h < 16"
    using assms d(5-8) by linarith+
  show ?thesis
    using assms b d(6-8)
    by (simp add: append_rune_def surrogate_def d(1-4) decode_rune_4 byte_in_def rune_char_of
        del: decode_rune.simps)
      (auto simp: d(5) byte_in_def rune_char_of)
qed

theorem decode_encode_rune:
  assumes "valid_rune r"
  shows "decode_rune (encode_rune r @ s) = (r, length (encode_rune r))"
proof -
  consider "r < 0x80" | "0x80 \<le> r" "r < 0x800" | "0x800 \<le> r" "r < 0x10000" | "0x10000 \<le> r"
    by linarith
  then show ?thesis
  proof cases
    case 1
    then show ?thesis by (simp add: append_rune_def rune_char_of Let_def)
  next
    case 2
    then show ?thesis using decode_encode_2 [of r s] by (simp add: append_rune_def)
  next
    case 3
    with assms show ?thesis using decode_encode_3 [of r s]
      by (simp add: append_rune_def valid_rune_def encode3_def)
  next
    case 4
    with assms show ?thesis using decode_encode_4 [of r s]
      by (simp add: append_rune_def valid_rune_def)
  qed
qed

lemma char_of_rune_diff: "k \<le> rune b \<Longrightarrow> char_of (k + (rune b - k)) = b"
  by simp

lemma div_mod_64:
  fixes h l :: nat
  assumes "l < 64"
  shows "(h * 64 + l) div 64 = h" "(h * 64 + l) mod 64 = l"
  using assms by simp_all

lemma encode_decode_2:
  assumes "byte_in 0xC2 0xDF b0" "byte_in 0x80 0xBF b1"
  shows "encode_rune ((rune b0 - 0xC0) * 64 + (rune b1 - 0x80)) = [b0, b1]"
proof -
  obtain h l where d: "rune b0 = 0xC0 + h" "rune b1 = 0x80 + l" "2 \<le> h" "h < 32" "l < 64"
  proof (rule that)
    show "rune b0 = 0xC0 + (rune b0 - 0xC0)" "rune b1 = 0x80 + (rune b1 - 0x80)"
      "2 \<le> rune b0 - 0xC0" "rune b0 - 0xC0 < 32" "rune b1 - 0x80 < 64"
      using assms by (auto simp: byte_in_def)
  qed
  have c: "b0 = char_of (0xC0 + h)" "b1 = char_of (0x80 + l)"
    unfolding d(1,2) [symmetric] by simp_all
  show ?thesis
    using d(3-5) unfolding d(1,2) by (simp add: append_rune_def div_mod_64 c)
qed

lemma encode_decode_3:
  assumes "byte_in 0xE0 0xEF b0" "byte_in 0x80 0xBF b1" "byte_in 0x80 0xBF b2"
  shows "encode3 ((rune b0 - 0xE0) * 4096 + (rune b1 - 0x80) * 64 + (rune b2 - 0x80)) = [b0, b1, b2]"
proof -
  obtain h m l where d: "rune b0 = 0xE0 + h" "rune b1 = 0x80 + m" "rune b2 = 0x80 + l"
    "h < 16" "m < 64" "l < 64"
  proof (rule that)
    show "rune b0 = 0xE0 + (rune b0 - 0xE0)" "rune b1 = 0x80 + (rune b1 - 0x80)"
      "rune b2 = 0x80 + (rune b2 - 0x80)"
      "rune b0 - 0xE0 < 16" "rune b1 - 0x80 < 64" "rune b2 - 0x80 < 64"
      using assms by (auto simp: byte_in_def)
  qed
  have c: "b0 = char_of (0xE0 + h)" "b1 = char_of (0x80 + m)" "b2 = char_of (0x80 + l)"
    unfolding d(1-3) [symmetric] by simp_all
  have e: "h * 4096 + m * 64 + l = (h * 64 + m) * 64 + l" by simp
  have q: "(h * 4096 + m * 64 + l) div 64 = h * 64 + m" "(h * 4096 + m * 64 + l) mod 64 = l"
    unfolding e by (rule div_mod_64 [OF d(6)])+
  have q2: "(h * 4096 + m * 64 + l) div 4096 = h"
    using d(5,6) by (simp add: div_mult2_eq [of _ 64 64, simplified] q div_mod_64)
  show ?thesis
    unfolding d(1-3) encode3_def using d(4-6) by (simp add: q q2 div_mod_64 c)
qed

lemma encode_decode_4:
  assumes "byte_in 0xF0 0xF4 b0" "byte_in 0x80 0xBF b1" "byte_in 0x80 0xBF b2" "byte_in 0x80 0xBF b3"
    and that: "r = (rune b0 - 0xF0) * 262144 + (rune b1 - 0x80) * 4096 + (rune b2 - 0x80) * 64 + (rune b3 - 0x80)"
  shows "[char_of (0xF0 + r div 262144), char_of (0x80 + r div 4096 mod 64),
            char_of (0x80 + r div 64 mod 64), char_of (0x80 + r mod 64)] = [b0, b1, b2, b3]"
proof -
  obtain g h m l where d: "rune b0 = 0xF0 + g" "rune b1 = 0x80 + h" "rune b2 = 0x80 + m" "rune b3 = 0x80 + l"
    "g < 5" "h < 64" "m < 64" "l < 64"
  proof (rule that)
    show "rune b0 = 0xF0 + (rune b0 - 0xF0)" "rune b1 = 0x80 + (rune b1 - 0x80)"
      "rune b2 = 0x80 + (rune b2 - 0x80)" "rune b3 = 0x80 + (rune b3 - 0x80)"
      "rune b0 - 0xF0 < 5" "rune b1 - 0x80 < 64" "rune b2 - 0x80 < 64" "rune b3 - 0x80 < 64"
      using assms by (auto simp: byte_in_def)
  qed
  have c: "b0 = char_of (0xF0 + g)" "b1 = char_of (0x80 + h)" "b2 = char_of (0x80 + m)" "b3 = char_of (0x80 + l)"
    unfolding d(1-4) [symmetric] by simp_all
  have r: "r = ((g * 64 + h) * 64 + m) * 64 + l" using that unfolding d(1-4) by simp
  have q: "r div 64 = (g * 64 + h) * 64 + m" "r mod 64 = l"
    unfolding r by (rule div_mod_64 [OF d(8)])+
  have q2: "r div 4096 = g * 64 + h"
    using d(7) by (simp add: div_mult2_eq [of _ 64 64, simplified] q div_mod_64 del: distrib_right)
  have q3: "r div 262144 = g"
    using d(6) by (simp add: div_mult2_eq [of _ 4096 64, simplified] q2 div_mod_64 del: distrib_right)
  have q4: "r div 64 mod 64 = m" "r div 4096 mod 64 = h"
    unfolding q(1) q2 by (rule div_mod_64 [OF d(7)], rule div_mod_64 [OF d(6)])
  show ?thesis
    by (simp only: q(2) q3 q4 c)
qed

lemma byte_in_mono: "byte_in a b x \<Longrightarrow> c \<le> a \<Longrightarrow> b \<le> d \<Longrightarrow> byte_in c d x"
  by (auto simp: byte_in_def)

theorem encode_decode_rune:
  assumes "decode_rune s = (c, n)" "c \<noteq> RuneError"
  shows "take n s = encode_rune c"
proof (cases s)
  case Nil
  with assms show ?thesis by simp
next
  case (Cons b0 bs)
  note d = assms(1) [unfolded Cons]
  consider "rune b0 < 0x80" | "byte_in 0xC2 0xDF b0" | "byte_in 0xE0 0xEF b0" | "byte_in 0xF0 0xF4 b0"
    using d assms(2) by (auto simp: Let_def byte_in_def split: if_splits)
  then show ?thesis
  proof cases
    case 1
    with d Cons show ?thesis by (auto simp: append_rune_def)
  next
    case 2
    with d assms(2) obtain b1 t where b: "bs = b1 # t" "byte_in 0x80 0xBF b1"
      by (cases bs) (auto simp: Let_def byte_in_def split: if_splits)
    then show ?thesis using d Cons encode_decode_2 [OF 2 b(2)]
      unfolding b(1) decode_rune_2 [OF 2 b(2)] by auto
  next
    case 3
    with d assms(2) obtain b1 b2 t where b: "bs = b1 # b2 # t"
      "byte_in (if rune b0 = 0xE0 then 0xA0 else 0x80) (if rune b0 = 0xED then 0x9F else 0xBF) b1"
      "byte_in 0x80 0xBF b2"
      by (auto simp: Let_def byte_in_def split: if_splits list.splits)
    then have b1: "byte_in 0x80 0xBF b1" by (auto split: if_splits elim: byte_in_mono)
    have c: "c = (rune b0 - 0xE0) * 4096 + (rune b1 - 0x80) * 64 + (rune b2 - 0x80)" "n = 3"
      using d unfolding b(1) decode_rune_3 [OF 3 b(2,3)] by auto
    have "0x800 \<le> c" "c < 0x10000" "\<not> surrogate c"
      using 3 b(2,3) unfolding c(1) byte_in_def surrogate_def
      by (auto split: if_splits)
    then have "encode_rune c = encode3 c"
      by (auto simp: append_rune_def surrogate_def)
    with c Cons b(1) encode_decode_3 [OF 3 b1 b(3)] show ?thesis by simp
  next
    case 4
    with d assms(2) obtain b1 b2 b3 t where b: "bs = b1 # b2 # b3 # t"
      "byte_in (if rune b0 = 0xF0 then 0x90 else 0x80) (if rune b0 = 0xF4 then 0x8F else 0xBF) b1"
      "byte_in 0x80 0xBF b2" "byte_in 0x80 0xBF b3"
      by (auto simp: Let_def byte_in_def split: if_splits list.splits)
    then have b1: "byte_in 0x80 0xBF b1" by (auto split: if_splits elim: byte_in_mono)
    have c: "c = (rune b0 - 0xF0) * 262144 + (rune b1 - 0x80) * 4096
               + (rune b2 - 0x80) * 64 + (rune b3 - 0x80)" "n = 4"
      using d unfolding b(1) decode_rune_4 [OF 4 b(2-4)] by auto
    have "0x10000 \<le> c" "c \<le> 0x10FFFF"
      using 4 b(2-4) unfolding c(1) byte_in_def by (auto split: if_splits)
    with c Cons b(1) encode_decode_4 [OF 4 b1 b(3,4) c(1)] show ?thesis
      by (simp add: append_rune_def surrogate_def)
  qed
qed

lemma encode_decode_length:
  assumes "decode_rune s = (c, n)" "c \<noteq> RuneError"
  shows "s = encode_rune c @ drop n s"
  using encode_decode_rune [OF assms] append_take_drop_id [of n s] by simp

section \<open>Iterating over the runes of a string\<close>

text \<open>The runes a \<open>for _, r := range s\<close> loop sees, in order.\<close>

function rune_list :: "bytes \<Rightarrow> nat list" where
  "rune_list [] = []"
| "rune_list (b # bs) =
     fst (decode_rune (b # bs)) # rune_list (drop (snd (decode_rune (b # bs))) (b # bs))"
  by pat_completeness auto
termination
  by (relation "measure length") (simp_all del: decode_rune.simps add: length_drop_less)

declare rune_list.simps(2) [simp del]

lemma rune_list_ascii_Cons [simp]:
  "rune b < 0x80 \<Longrightarrow> rune_list (b # s) = rune b # rune_list s"
  by (simp add: rune_list.simps Let_def)

text \<open>\<open>utf8.DecodeLastRuneInString\<close>: back up over at most three continuation bytes, then decode.\<close>

fun rune_start_back :: "bytes \<Rightarrow> nat \<Rightarrow> nat \<Rightarrow> nat" where
  "rune_start_back s 0 i = i"
| "rune_start_back s (Suc k) i =
     (if i = 0 \<or> \<not> byte_in 0x80 0xBF (s ! i) then i else rune_start_back s k (i - 1))"

definition decode_last_rune :: "bytes \<Rightarrow> nat \<times> nat" where
  "decode_last_rune s =
     (if s = [] then (RuneError, 0)
      else let start = rune_start_back s 3 (length s - 1);
               (r, size) = decode_rune (drop start s)
           in if start + size \<noteq> length s then (RuneError, 1) else (r, size))"

text \<open>\<open>unicode.IsSpace\<close>.\<close>

definition is_space :: "nat \<Rightarrow> bool" where
  "is_space r \<longleftrightarrow>
     r \<in> {0x09, 0x0A, 0x0B, 0x0C, 0x0D, 0x20, 0x85, 0xA0, 0x1680, 0x2028, 0x2029, 0x202F, 0x205F, 0x3000}
     \<or> (0x2000 \<le> r \<and> r \<le> 0x200A)"

end
