(* ===== verification/Ctype.thy ===== *)
theory Ctype
  imports Utf8
begin

text \<open>
  Character classes (\<open>internal/tokenizer/ctype.go\<close>), the KDL version
  (\<open>internal/tokenizer/token.go\<close>) and the relaxed-mode flags (\<open>relaxed/relaxed.go\<close>).
\<close>

section \<open>Versions and relaxed flags\<close>

datatype version = VersionAuto | VersionV1 | VersionV2

text \<open>\<open>relaxed.Flags\<close> is a bit set; the non-negative values are all the code builds.\<close>

type_synonym flags = nat

definition NGINXSyntax :: flags where "NGINXSyntax = 1"

definition YAMLTOMLAssignments :: flags where "YAMLTOMLAssignments = 2"

definition MultiplierSuffixes :: flags where "MultiplierSuffixes = 4"

definition permit :: "flags \<Rightarrow> flags \<Rightarrow> bool" where
  "permit f q \<longleftrightarrow> f AND q \<noteq> 0"

lemma permit_0 [simp]: "\<not> permit 0 q"
  by (simp add: permit_def)

section \<open>Character classes\<close>

definition isDisallowedV2Rune :: "nat \<Rightarrow> bool" where
  "isDisallowedV2Rune c \<longleftrightarrow>
     c \<in> {0x7F, 0x200E, 0x200F, 0x202A, 0x202B, 0x202D, 0x202E, 0x2066, 0x2067, 0x2068, 0x2069, 0x202C}"

definition isWhiteSpace :: "nat \<Rightarrow> bool" where
  "isWhiteSpace c \<longleftrightarrow>
     c \<in> {0x09, 0x20, 0xA0, 0x1680, 0x2000, 0x2001, 0x2002, 0x2003, 0x2004, 0x2005, 0x2006,
          0x2007, 0x2008, 0x2009, 0x200A, 0x202F, 0x205F, 0x3000}"

definition isNewline :: "nat \<Rightarrow> bool" where
  "isNewline c \<longleftrightarrow> c \<in> {0x0D, 0x0A, 0x0B, 0x0C, 0x85, 0x2028, 0x2029}"

definition isLineSpace :: "nat \<Rightarrow> bool" where
  "isLineSpace c \<longleftrightarrow> isWhiteSpace c \<or> isNewline c"

definition isDigit :: "nat \<Rightarrow> bool" where
  "isDigit c \<longleftrightarrow> rune CHR ''0'' \<le> c \<and> c \<le> rune CHR ''9''"

definition isSign :: "nat \<Rightarrow> bool" where
  "isSign c \<longleftrightarrow> c = rune CHR ''-'' \<or> c = rune CHR ''+''"

definition isSeparator :: "nat \<Rightarrow> bool" where
  "isSeparator c \<longleftrightarrow> isWhiteSpace c \<or> isNewline c \<or> c = rune CHR '';''"

definition isBareIdentifierCharVersion :: "nat \<Rightarrow> flags \<Rightarrow> bool \<Rightarrow> version \<Rightarrow> bool" where
  "isBareIdentifierCharVersion c r first v \<longleftrightarrow>
     (if isNewline c \<or> isWhiteSpace c then False
      else if c < 0x20 \<or> c > 0x10FFFF then False
      else if isDisallowedV2Rune c then False
      else if v = VersionV2 then
        (if c \<in> set (map rune ''(){}[]/'') \<union> {0x5C, 0x22} \<union> set (map rune ''#;='') then False
         else if first \<and> isDigit c then False
         else True)
      else if first \<and> isDigit c then False
      else if c \<in> set (map rune ''{}<>;[]=,'') then False
      else if c \<in> set (map rune ''()/'') \<union> {0x5C, 0x22} then permit r NGINXSyntax
      else if c = rune CHR '':'' then \<not> permit r YAMLTOMLAssignments \<or> permit r NGINXSyntax
      else True)"

definition isBareIdentifierStartCharVersion :: "nat \<Rightarrow> flags \<Rightarrow> version \<Rightarrow> bool" where
  "isBareIdentifierStartCharVersion c r v = isBareIdentifierCharVersion c r True v"

definition isBareIdentifierStartChar :: "nat \<Rightarrow> flags \<Rightarrow> bool" where
  "isBareIdentifierStartChar c r = isBareIdentifierStartCharVersion c r VersionAuto"

definition isBareIdentifierChar :: "nat \<Rightarrow> flags \<Rightarrow> bool" where
  "isBareIdentifierChar c r = isBareIdentifierCharVersion c r False VersionAuto"

text \<open>The loop of \<open>IsBareIdentifierVersion\<close>: \<open>first\<close> is true for the first rune only.\<close>

fun bare_loop :: "flags \<Rightarrow> version \<Rightarrow> bool \<Rightarrow> nat list \<Rightarrow> bool" where
  "bare_loop rf v first [] = True"
| "bare_loop rf v first (r # rs) =
     (if \<not> isBareIdentifierCharVersion r rf first v then False else bare_loop rf v False rs)"

definition IsBareIdentifierVersion :: "bytes \<Rightarrow> flags \<Rightarrow> version \<Rightarrow> bool" where
  "IsBareIdentifierVersion s rf v =
     (if length s = 0 then False else bare_loop rf v True (rune_list s))"

definition IsBareIdentifier :: "bytes \<Rightarrow> flags \<Rightarrow> bool" where
  "IsBareIdentifier s rf = IsBareIdentifierVersion s rf VersionV1"

section \<open>Facts\<close>

lemma whitespace_not_newline: "isWhiteSpace c \<Longrightarrow> \<not> isNewline c"
  by (auto simp: isWhiteSpace_def isNewline_def)

lemma digit_not_special: "isDigit c \<Longrightarrow> \<not> isNewline c \<and> \<not> isWhiteSpace c \<and> c \<noteq> RuneError"
  by (auto simp: isDigit_def isNewline_def isWhiteSpace_def RuneError_def)

lemma bare_char_not_space:
  "isBareIdentifierCharVersion c r f v \<Longrightarrow> \<not> isNewline c \<and> \<not> isWhiteSpace c"
  by (auto simp: isBareIdentifierCharVersion_def split: if_splits)

lemma bare_start_char: "isBareIdentifierCharVersion c r True v \<Longrightarrow> isBareIdentifierCharVersion c r False v"
  by (auto simp: isBareIdentifierCharVersion_def split: if_splits)

lemma bare_loop_all:
  "bare_loop rf v False rs \<longleftrightarrow> (\<forall>r \<in> set rs. isBareIdentifierCharVersion r rf False v)"
  by (induction rs) auto

end
