(* ===== verification/Token.thy ===== *)
theory Token
  imports Ctype
begin

text \<open>
  Tokens (\<open>internal/tokenizer/token.go\<close>): the token identifiers with their classes, the
  token record, and the errors a scan can end with.
\<close>

section \<open>Token identifiers\<close>

datatype token_id =
    Unknown | Newline | Whitespace | MultiLineComment | SingleLineComment | TokenComment
  | TypeSpec | Decimal | Hexadecimal | Octal | Binary | Boolean | Null | BareIdentifier
  | SuffixedDecimal | RawString | QuotedString | ExpressionString | BraceOpen | BraceClose
  | ParensOpen | ParensClose | Equals | Semicolon | Continuation | EOF | Keyword
  | ClassWhitespace | ClassValue | ClassIdentifier | ClassNonStringValue | ClassNumber
  | ClassString | ClassTerminator | ClassEndOfLine | ClassComment

fun Classes :: "token_id \<Rightarrow> token_id list" where
  "Classes Newline = [ClassTerminator, ClassWhitespace, ClassEndOfLine]"
| "Classes Whitespace = [ClassWhitespace]"
| "Classes MultiLineComment = [ClassComment]"
| "Classes SingleLineComment = [ClassComment]"
| "Classes TokenComment = []"
| "Classes TypeSpec = []"
| "Classes Decimal = [ClassNumber, ClassValue, ClassNonStringValue]"
| "Classes Hexadecimal = [ClassNumber, ClassValue, ClassNonStringValue]"
| "Classes Octal = [ClassNumber, ClassValue, ClassNonStringValue]"
| "Classes Binary = [ClassNumber, ClassValue, ClassNonStringValue]"
| "Classes SuffixedDecimal = [ClassNumber, ClassValue, ClassNonStringValue]"
| "Classes Boolean = [ClassValue, ClassNonStringValue]"
| "Classes Null = [ClassValue, ClassNonStringValue]"
| "Classes BareIdentifier = [ClassValue, ClassIdentifier]"
| "Classes RawString = [ClassValue, ClassString, ClassIdentifier]"
| "Classes QuotedString = [ClassValue, ClassString, ClassIdentifier]"
| "Classes ExpressionString = [ClassValue, ClassString]"
| "Classes BraceOpen = []"
| "Classes BraceClose = []"
| "Classes ParensOpen = []"
| "Classes ParensClose = []"
| "Classes Equals = []"
| "Classes Semicolon = [ClassTerminator]"
| "Classes Continuation = []"
| "Classes EOF = [ClassTerminator, ClassEndOfLine]"
| "Classes Keyword = [ClassValue, ClassNonStringValue]"
| "Classes _ = []"

fun token_id_string :: "token_id \<Rightarrow> string" where
  "token_id_string Newline = ''Newline''"
| "token_id_string Whitespace = ''Whitespace''"
| "token_id_string MultiLineComment = ''MultiLineComment''"
| "token_id_string SingleLineComment = ''SingleLineComment''"
| "token_id_string TokenComment = ''TokenComment''"
| "token_id_string TypeSpec = ''TypeSpec''"
| "token_id_string Decimal = ''Decimal''"
| "token_id_string Hexadecimal = ''Hexadecimal''"
| "token_id_string Octal = ''Octal''"
| "token_id_string Binary = ''Binary''"
| "token_id_string Boolean = ''Boolean''"
| "token_id_string Null = ''Null''"
| "token_id_string BareIdentifier = ''BareIdentifier''"
| "token_id_string SuffixedDecimal = ''SuffixedDecimal''"
| "token_id_string RawString = ''RawString''"
| "token_id_string QuotedString = ''FormattedString''"
| "token_id_string ExpressionString = ''ExpressionString''"
| "token_id_string BraceOpen = ''BraceOpen''"
| "token_id_string BraceClose = ''BraceClose''"
| "token_id_string ParensOpen = ''ParensOpen''"
| "token_id_string ParensClose = ''ParensClose''"
| "token_id_string Equals = ''Equals''"
| "token_id_string Semicolon = ''Semicolon''"
| "token_id_string Continuation = ''Continuation''"
| "token_id_string EOF = ''EOF''"
| "token_id_string Keyword = ''Keyword''"
| "token_id_string _ = ''(invalid)''"

section \<open>Tokens\<close>

record token =
  t_ID :: token_id
  t_Data :: bytes
  t_Line :: nat
  t_Column :: nat
  t_Version :: version

definition token_string :: "token \<Rightarrow> string" where
  "token_string t =
     (if length (t_Data t) > 0 then token_id_string (t_ID t) @ ''('' @ t_Data t @ '')''
      else token_id_string (t_ID t))"

definition Valid :: "token \<Rightarrow> bool" where
  "Valid t \<longleftrightarrow> t_ID t \<noteq> Unknown"

text \<open>The zero value of \<open>Token\<close>, to which \<open>Clear\<close> resets.\<close>

definition no_token :: token where
  "no_token = \<lparr>t_ID = Unknown, t_Data = [], t_Line = 0, t_Column = 0, t_Version = VersionAuto\<rparr>"

definition Clear :: "token \<Rightarrow> token" where
  "Clear t = t\<lparr>t_ID := Unknown, t_Data := [], t_Line := 0, t_Column := 0, t_Version := VersionAuto\<rparr>"

lemma Clear_eq [simp]: "Clear t = no_token"
  by (simp add: Clear_def no_token_def)

lemma not_Valid_no_token [simp]: "\<not> Valid no_token"
  by (simp add: Valid_def no_token_def)

lemma no_token_sel [simp]: "t_ID no_token = Unknown" "t_Data no_token = []"
  by (simp_all add: no_token_def)

section \<open>Errors\<close>

text \<open>
  One constructor per error value or error message of the tokenizer; a message built with
  \<open>%c\<close> or \<open>%q\<close> keeps its argument.  \<open>ScanFailed\<close> is the error wrapped by
  \<open>annotatedError\<close> with its position and source excerpt.
\<close>

datatype scan_error =
    io_EOF | io_ErrUnexpectedEOF | ErrInvalidRune | ErrEndOfToken
  | UnexpectedChar nat
  | UnexpectedAfterHash nat
  | ExpectedQuoteAfterHash
  | ContentAfterTripleQuote
  | ContentAfterTripleBacktick
  | BareKeywordInV2 bytes
  | ErrClosed
  | ScanFailed scan_error nat nat bytes

definition eof_unexpected :: "scan_error \<Rightarrow> scan_error" where
  "eof_unexpected e = (if e = io_EOF then io_ErrUnexpectedEOF else e)"

lemma eof_unexpected_not_EOF [simp]: "eof_unexpected e \<noteq> io_EOF"
  by (simp add: eof_unexpected_def)

end
