(* ===== verification/Numbers.thy ===== *)
theory Numbers
  imports Token
begin

text \<open>
  Numbers (\<open>document/value.go\<close>, lines 424 to 524, and \<open>ParseSuffixedDecimal\<close> of
  \<open>document/suffixeddec.go\<close>), with the parts of \<open>strconv\<close> and \<open>math/big\<close> they call.

  A \<open>float64\<close> is a sign, a mantissa below \<open>2^53\<close> and a binary exponent, an infinity, or NaN.
  A \<open>*big.Float\<close> made by \<open>big.NewFloat(0)\<close> has 53 bits of precision and an exponent that is
  unbounded here (32 bits in the library).
\<close>

section \<open>Floating point\<close>

datatype float64 = Fin bool nat int | Inf bool | NaN

definition half_even :: "nat \<Rightarrow> nat \<Rightarrow> nat" where
  "half_even a b =
     (let q = a div b; r = a mod b
      in if 2 * r > b \<or> (2 * r = b \<and> odd q) then q + 1 else q)"

fun bit_length :: "nat \<Rightarrow> nat" where
  "bit_length n = (if n = 0 then 0 else Suc (bit_length (n div 2)))"

declare bit_length.simps [simp del]

text \<open>\<open>p/q\<close> divided by \<open>2^e\<close>, rounded to an integer.\<close>

definition scaled :: "nat \<Rightarrow> nat \<Rightarrow> int \<Rightarrow> nat" where
  "scaled p q e = (if e \<ge> 0 then half_even p (q * 2 ^ nat e) else half_even (p * 2 ^ nat (- e)) q)"

text \<open>The nearest mantissa and exponent of a positive rational; \<open>None\<close> when it overflows.\<close>

definition round64 :: "nat \<Rightarrow> nat \<Rightarrow> (nat \<times> int) option" where
  "round64 p q =
     (if p = 0 then Some (0, 0)
      else
        let e0 = int (bit_length p) - int (bit_length q) - 53;
            e1 = (if scaled p q e0 \<ge> 2 ^ 53 then e0 + 1 else e0);
            e = max e1 (- 1074);
            m = scaled p q e;
            (m', e') = (if m = 2 ^ 53 then (2 ^ 52, e + 1) else (m, e))
        in if e' > 971 then None else Some (m', e'))"

text \<open>The same without limits on the exponent, for \<open>*big.Float\<close>.\<close>

definition round53 :: "nat \<Rightarrow> nat \<Rightarrow> nat \<times> int" where
  "round53 p q =
     (if p = 0 then (0, 0)
      else
        let e0 = int (bit_length p) - int (bit_length q) - 53;
            e = (if scaled p q e0 \<ge> 2 ^ 53 then e0 + 1 else e0);
            m = scaled p q e
        in if m = 2 ^ 53 then (2 ^ 52, e + 1) else (m, e))"

text \<open>A decimal literal: sign, all digits as one number, power of ten.\<close>

type_synonym decimal = "bool \<times> nat \<times> int"

definition is_digit :: "char \<Rightarrow> bool" where
  "is_digit c \<longleftrightarrow> c \<in> set ''0123456789''"

definition digits_value :: "nat \<Rightarrow> nat list \<Rightarrow> nat" where
  "digits_value base ds = foldl (\<lambda>n d. n * base + d) 0 ds"

definition dec_digit :: "char \<Rightarrow> nat" where
  "dec_digit c = rune c - rune CHR ''0''"

definition strip_sign :: "bytes \<Rightarrow> bool \<times> bytes" where
  "strip_sign s =
     (case s of
        [] \<Rightarrow> (False, [])
      | c # t \<Rightarrow> if c = CHR ''-'' then (True, t) else if c = CHR ''+'' then (False, t) else (False, s))"

text \<open>The exponent part; its digits stop counting at 10000, as in \<open>strconv\<close>.\<close>

definition read_exponent :: "bytes \<Rightarrow> int option" where
  "read_exponent s =
     (case s of
        [] \<Rightarrow> Some 0
      | c # t \<Rightarrow>
          if c \<noteq> CHR ''e'' \<and> c \<noteq> CHR ''E'' then None
          else
            (case strip_sign t of (neg, ds) \<Rightarrow>
               if ds = [] \<or> \<not> list_all is_digit ds then None
               else
                 let e = foldl (\<lambda>e d. if e < 10000 then e * 10 + int (dec_digit d) else e) 0 ds
                 in Some (if neg then - e else e)))"

definition read_decimal :: "bytes \<Rightarrow> decimal option" where
  "read_decimal s =
     (case strip_sign s of (neg, t) \<Rightarrow>
        let ip = takeWhile is_digit t;
            t1 = dropWhile is_digit t;
            (fp, t2) =
              (case t1 of
                 [] \<Rightarrow> ([], [])
               | c # u \<Rightarrow> if c = CHR ''.'' then (takeWhile is_digit u, dropWhile is_digit u) else ([], t1))
        in if ip @ fp = [] then None
           else
             (case read_exponent t2 of
                None \<Rightarrow> None
              | Some e \<Rightarrow> Some (neg, digits_value 10 (map dec_digit (ip @ fp)), e - int (length fp))))"

datatype num_error = NumSyntax | NumRange | FloatNotBaseTen | BadSuffixChar nat | SuffixFirst

text \<open>Numerator and denominator of \<open>m * 10^e\<close>.\<close>

definition decimal_ratio :: "nat \<Rightarrow> int \<Rightarrow> nat \<times> nat" where
  "decimal_ratio m e = (if e \<ge> 0 then (m * 10 ^ nat e, 1) else (m, 10 ^ nat (- e)))"

text \<open>\<open>strconv.ParseFloat(s, 64)\<close>.\<close>

definition ParseFloat :: "bytes \<Rightarrow> num_error + float64" where
  "ParseFloat s =
     (case read_decimal s of
        None \<Rightarrow> Inl NumSyntax
      | Some (neg, m, e) \<Rightarrow>
          (case case_prod round64 (decimal_ratio m e) of
             None \<Rightarrow> Inl NumRange
           | Some (mant, ex) \<Rightarrow> Inr (Fin neg mant ex)))"

text \<open>\<open>big.NewFloat(0).SetString(s)\<close>.\<close>

definition big_float :: "bytes \<Rightarrow> bool \<times> nat \<times> int" where
  "big_float s =
     (case read_decimal s of
        None \<Rightarrow> (False, 0, 0)
      | Some (neg, m, e) \<Rightarrow> (neg, case_prod round53 (decimal_ratio m e)))"

section \<open>Integers\<close>

definition digit_value :: "char \<Rightarrow> nat option" where
  "digit_value c =
     (let n = rune c in
      if rune CHR ''0'' \<le> n \<and> n \<le> rune CHR ''9'' then Some (n - rune CHR ''0'')
      else if rune CHR ''a'' \<le> n \<and> n \<le> rune CHR ''z'' then Some (n - rune CHR ''a'' + 10)
      else if rune CHR ''A'' \<le> n \<and> n \<le> rune CHR ''Z'' then Some (n - rune CHR ''A'' + 10)
      else None)"

fun ParseUint_loop :: "nat \<Rightarrow> nat \<Rightarrow> bytes \<Rightarrow> num_error + nat" where
  "ParseUint_loop base n [] = Inr n"
| "ParseUint_loop base n (c # cs) =
     (case digit_value c of
        None \<Rightarrow> Inl NumSyntax
      | Some d \<Rightarrow>
          if d \<ge> base then Inl NumSyntax
          else if n * base + d \<ge> 2 ^ 64 then Inl NumRange
          else ParseUint_loop base (n * base + d) cs)"

text \<open>\<open>strconv.ParseInt(s, base, 64)\<close>.\<close>

definition ParseInt :: "bytes \<Rightarrow> nat \<Rightarrow> num_error + int" where
  "ParseInt s base =
     (case strip_sign s of (neg, t) \<Rightarrow>
        if t = [] then Inl NumSyntax
        else
          (case ParseUint_loop base 0 t of
             Inl e \<Rightarrow> Inl e
           | Inr un \<Rightarrow>
               if \<not> neg \<and> un \<ge> 2 ^ 63 then Inl NumRange
               else if neg \<and> un > 2 ^ 63 then Inl NumRange
               else Inr (if neg then - int un else int un)))"

text \<open>\<open>big.Int.SetString\<close>; it keeps the value of the digits it could read.\<close>

definition valid_digit :: "nat \<Rightarrow> char \<Rightarrow> bool" where
  "valid_digit base c \<longleftrightarrow> (case digit_value c of None \<Rightarrow> False | Some d \<Rightarrow> d < base)"

definition big_int :: "bytes \<Rightarrow> nat \<Rightarrow> int" where
  "big_int s base =
     (case strip_sign s of (neg, t) \<Rightarrow>
        let n = digits_value base (map (\<lambda>c. the (digit_value c)) (takeWhile (valid_digit base) t))
        in if neg then - int n else int n)"

section \<open>parseNumber\<close>

datatype number = NInt int | NBigInt int | NFloat float64 | NBigFloat "bool \<times> nat \<times> int"

definition isNonzeroSciNot :: "bytes \<Rightarrow> bool" where
  "isNonzeroSciNot b =
     (let cut = (\<lambda>x. if x \<in> set b then Some (takeWhile (\<lambda>c. c \<noteq> x) b) else None);
          coe = (case cut (CHR ''e'') of Some p \<Rightarrow> Some p | None \<Rightarrow> cut (CHR ''E''))
      in (case coe of
            None \<Rightarrow> False
          | Some p \<Rightarrow>
              let t = rev (dropWhile (\<lambda>c. c = CHR ''0'') (rev (dropWhile (\<lambda>c. c = CHR ''0'') p)))
              in length t > 0 \<and> \<not> (length t = 1 \<and> t ! 0 = CHR ''.'')))"

text \<open>One pass over the digits: how many underscores, and whether it is a float.\<close>

fun classify_loop :: "nat \<Rightarrow> nat \<Rightarrow> bool \<Rightarrow> bytes \<Rightarrow> nat \<times> bool" where
  "classify_loop base n isFloat [] = (n, isFloat)"
| "classify_loop base n isFloat (c # cs) =
     (if c = CHR ''_'' then classify_loop base (n + 1) isFloat cs
      else if c = CHR ''.'' then classify_loop base n True cs
      else if c = CHR ''e'' \<or> c = CHR ''E'' then classify_loop base n (isFloat \<or> base = 10) cs
      else classify_loop base n isFloat cs)"

definition classifyNumber :: "bytes \<Rightarrow> nat \<Rightarrow> nat \<times> bool" where
  "classifyNumber b base = classify_loop base 0 False b"

definition stripUnderscores :: "bytes \<Rightarrow> nat \<Rightarrow> bytes" where
  "stripUnderscores b underscoreCount =
     (if underscoreCount = 0 then b else filter (\<lambda>c. c \<noteq> CHR ''_'') b)"

text \<open>The callers pass the bases 2, 8, 10 and 16; \<open>ParseInt\<close> would reject 1 and those above 36.\<close>

definition parseNumber :: "bytes \<Rightarrow> nat \<Rightarrow> num_error + number" where
  "parseNumber b0 base =
     (let b1 = (if base \<noteq> 10 then drop 2 b0 else b0);
          (underscoreCount, isFloat) = classifyNumber b1 base;
          b = stripUnderscores b1 underscoreCount
      in if isFloat then
           if base \<noteq> 10 then Inl FloatNotBaseTen
           else
             (case ParseFloat b of
                Inl e \<Rightarrow> if e = NumRange then Inr (NBigFloat (big_float b)) else Inl e
              | Inr f \<Rightarrow>
                  (case f of
                     Fin _ m _ \<Rightarrow> if m = 0 \<and> isNonzeroSciNot b then Inr (NBigFloat (big_float b)) else Inr (NFloat f)
                   | _ \<Rightarrow> Inr (NFloat f)))
         else
           (case ParseInt b base of
              Inl e \<Rightarrow> if e = NumRange then Inr (NBigInt (big_int b base)) else Inl e
            | Inr n \<Rightarrow> Inr (NInt n)))"

section \<open>Integer literals\<close>

text \<open>The digits of a literal: digits of the base, and underscores anywhere.\<close>

definition literal_digits :: "nat \<Rightarrow> bytes \<Rightarrow> bool" where
  "literal_digits base ds \<longleftrightarrow> (\<forall>c \<in> set ds. c = CHR ''_'' \<or> valid_digit base c)
     \<and> filter (\<lambda>c. c \<noteq> CHR ''_'') ds \<noteq> []"

definition literal_value :: "nat \<Rightarrow> bytes \<Rightarrow> nat" where
  "literal_value base ds =
     digits_value base (map (\<lambda>c. the (digit_value c)) (filter (\<lambda>c. c \<noteq> CHR ''_'') ds))"

lemma no_dot_digit: "\<not> valid_digit base (CHR ''.'')"
  by (simp add: valid_digit_def digit_value_def)

lemma no_e_digit: "\<not> valid_digit 10 (CHR ''e'')" "\<not> valid_digit 10 (CHR ''E'')"
  by (simp_all add: valid_digit_def digit_value_def)

lemma classify_plain:
  "\<forall>c \<in> set b. c = CHR ''_'' \<or> valid_digit base c \<Longrightarrow>
     classify_loop base n False b = (n + length (filter (\<lambda>c. c = CHR ''_'') b), False)"
proof (induction b arbitrary: n)
  case (Cons c b)
  have c: "c = CHR ''_'' \<or> valid_digit base c" using Cons.prems by simp
  have IH: "classify_loop base m False b = (m + length (filter (\<lambda>c. c = CHR ''_'') b), False)" for m
    by (rule Cons.IH) (use Cons.prems in simp)
  show ?case
  proof (cases "c = CHR ''_''")
    case False
    with c have v: "valid_digit base c" by simp
    have "c \<noteq> CHR ''.''" using v no_dot_digit [of base] by metis
    moreover have "(c = CHR ''e'' \<or> c = CHR ''E'') \<longrightarrow> base \<noteq> 10" using v no_e_digit by metis
    ultimately show ?thesis using False by (simp add: IH)
  qed (simp add: IH)
qed simp

lemma strip_filter:
  "stripUnderscores b (length (filter (\<lambda>c. c = CHR ''_'') b)) = filter (\<lambda>c. c \<noteq> CHR ''_'') b"
  by (auto simp: stripUnderscores_def filter_empty_conv filter_id_conv)

lemma digits_grow: "0 < base \<Longrightarrow> m \<le> foldl (\<lambda>n d. n * base + d) m (xs :: nat list)"
proof (induction xs arbitrary: m)
  case (Cons x xs)
  have "m \<le> m * base + x" using Cons.prems by (cases base) auto
  also have "\<dots> \<le> foldl (\<lambda>n d. n * base + d) (m * base + x) xs" by (rule Cons.IH [OF Cons.prems])
  finally show ?case by simp
qed simp

lemma ParseUint_loop_value:
  assumes "\<forall>c \<in> set ds. valid_digit base c" "0 < base" "n < 2 ^ 64"
  shows "ParseUint_loop base n ds =
     (if foldl (\<lambda>n d. n * base + d) n (map (\<lambda>c. the (digit_value c)) ds) \<ge> 2 ^ 64 then Inl NumRange
      else Inr (foldl (\<lambda>n d. n * base + d) n (map (\<lambda>c. the (digit_value c)) ds)))"
  using assms(1,3)
proof (induction ds arbitrary: n)
  case (Cons c ds)
  then obtain d where d: "digit_value c = Some d" "d < base"
    by (auto simp: valid_digit_def split: option.splits)
  show ?case
  proof (cases "n * base + d \<ge> 2 ^ 64")
    case True
    have "2 ^ 64 \<le> foldl (\<lambda>n d. n * base + d) (n * base + d) (map (\<lambda>c. the (digit_value c)) ds)"
      using True digits_grow [OF assms(2)] le_trans by blast
    with True d show ?thesis by simp
  next
    case False
    with Cons.IH [of "n * base + d"] Cons.prems d show ?thesis by simp
  qed
qed simp

lemma takeWhile_all: "\<forall>x \<in> set xs. P x \<Longrightarrow> takeWhile P xs = xs"
  by (induction xs) auto

lemma strip_sign_digit: "valid_digit base c \<Longrightarrow> strip_sign (c # cs) = (False, c # cs)"
  by (auto simp: strip_sign_def valid_digit_def digit_value_def)

lemma parse_digits:
  assumes "\<forall>c \<in> set b. valid_digit base c" "b \<noteq> []" "0 < base"
  shows "ParseInt b base =
     (if digits_value base (map (\<lambda>c. the (digit_value c)) b) \<ge> 2 ^ 63 then Inl NumRange
      else Inr (int (digits_value base (map (\<lambda>c. the (digit_value c)) b))))
    \<and> big_int b base = int (digits_value base (map (\<lambda>c. the (digit_value c)) b))"
proof -
  have s: "strip_sign b = (False, b)"
    using assms(1,2) by (cases b) (auto intro: strip_sign_digit)
  show ?thesis
    using ParseUint_loop_value [OF assms(1,3), of 0] assms(2)
    by (simp add: ParseInt_def big_int_def s digits_value_def takeWhile_all [OF assms(1)])
qed

lemma parse_literal:
  assumes "literal_digits base ds" "0 < base" "length pre = (if base = 10 then 0 else 2)"
  shows "parseNumber (pre @ ds) base =
     Inr (if literal_value base ds < 2 ^ 63 then NInt (int (literal_value base ds))
          else NBigInt (int (literal_value base ds)))"
proof -
  let ?b = "filter (\<lambda>c. c \<noteq> CHR ''_'') ds"
  have "(if base \<noteq> 10 then drop 2 (pre @ ds) else pre @ ds) = ds"
    using assms(3) by auto
  moreover have "classifyNumber ds base = (length (filter (\<lambda>c. c = CHR ''_'') ds), False)"
    using assms(1) by (simp add: classifyNumber_def classify_plain literal_digits_def)
  moreover have "\<forall>c \<in> set ?b. valid_digit base c" "?b \<noteq> []"
    using assms(1) by (auto simp: literal_digits_def)
  from parse_digits [OF this assms(2)] have
    "ParseInt ?b base = (if literal_value base ds \<ge> 2 ^ 63 then Inl NumRange else Inr (int (literal_value base ds)))"
    "big_int ?b base = int (literal_value base ds)"
    by (simp_all add: literal_value_def)
  ultimately show ?thesis
    by (simp add: parseNumber_def strip_filter)
qed

text \<open>C20: integer literals are read exactly, in every base and at any length.  The prefix is
  dropped, underscores are ignored, and the value is an \<open>int64\<close> when it fits and a
  \<open>*big.Int\<close> with the same exact value when it does not; no literal is rejected, truncated or
  wrapped around.\<close>

theorem parseNumber_integer:
  assumes "literal_digits base ds" "0 < base" "length pre = (if base = 10 then 0 else 2)"
  shows "parseNumber (pre @ ds) base =
     Inr (if literal_value base ds < 2 ^ 63 then NInt (int (literal_value base ds))
          else NBigInt (int (literal_value base ds)))"
  by (rule parse_literal [OF assms])

lemma parseNumber_integer_witness:
  "parseNumber (''0x'' @ ''ffff_ffff_ffff_ffff'') 16 =
     Inr (if literal_value 16 ''ffff_ffff_ffff_ffff'' < 2 ^ 63
          then NInt (int (literal_value 16 ''ffff_ffff_ffff_ffff''))
          else NBigInt (int (literal_value 16 ''ffff_ffff_ffff_ffff'')))"
proof (rule parseNumber_integer)
  show "literal_digits 16 ''ffff_ffff_ffff_ffff''" by code_simp
qed simp_all

end
