(* ===== verification/Quote.thy ===== *)
theory Quote
  imports Utf8
begin

text \<open>
  Quoting and unquoting of strings (\<open>document/strings.go\<close>, lines 1 to 389 and 599 to 608).
  The two quoting loops copy chunks of the input between indices \<open>start\<close> and \<open>i\<close>; they are
  modelled with their indices and shown equal to the byte-by-byte definitions
  \<open>quote_bytes\<close> and \<open>unquote_bytes\<close>.
\<close>

declare decode_rune.simps [simp del]

lemma decode_rune_size_sym:
  "(r, n) = decode_rune s \<Longrightarrow> s \<noteq> [] \<Longrightarrow> 0 < n \<and> n \<le> length s"
  using decode_rune_size [OF sym, of r n s] by auto

section \<open>Tables\<close>

definition noEscapeTable :: "char \<Rightarrow> bool" where
  "noEscapeTable c \<longleftrightarrow> rune c \<le> 0x7e \<and> 0x20 \<le> rune c \<and> c \<noteq> CHR 0x5C \<and> c \<noteq> CHR 0x22"

definition hexTable :: "char \<Rightarrow> nat" where
  "hexTable c =
     (if c \<in> set ''0123456789'' then rune c - rune CHR ''0''
      else if c \<in> set ''abcdef'' then rune c - rune CHR ''a'' + 10
      else if c \<in> set ''ABCDEF'' then rune c - rune CHR ''A'' + 10
      else 0)"

text \<open>\<open>s[a:b]\<close>.\<close>

definition slice :: "bytes \<Rightarrow> nat \<Rightarrow> nat \<Rightarrow> bytes" where
  "slice s a b = take (b - a) (drop a s)"

lemma slice_empty [simp]: "slice s a a = []"
  by (simp add: slice_def)

lemma slice_all: "slice s a (length s) = drop a s"
  by (simp add: slice_def)

lemma slice_extend:
  "a \<le> i \<Longrightarrow> i + n \<le> length s \<Longrightarrow> slice s a (i + n) = slice s a i @ take n (drop i s)"
  using take_add [of "i - a" n "drop a s"] by (simp add: slice_def)

section \<open>Quoting\<close>

text \<open>\<open>strconv.AppendUint(b, c, 16)\<close> for a byte.\<close>

definition hex_digit_char :: "nat \<Rightarrow> char" where
  "hex_digit_char d = ''0123456789abcdef'' ! d"

definition byte_hex :: "nat \<Rightarrow> bytes" where
  "byte_hex n = (if n < 16 then [hex_digit_char n] else [hex_digit_char (n div 16), hex_digit_char (n mod 16)])"

definition invalid_marker :: bytes where
  "invalid_marker = CHR 0x5C # ''ufffd''"

text \<open>The switch for one byte below 0x80 that needs an escape.\<close>

definition quote_escape :: "char \<Rightarrow> char \<Rightarrow> bytes" where
  "quote_escape q c =
     (if c = q \<or> c = CHR 0x5C \<or> c = CHR ''/'' then [CHR 0x5C, c]
      else if c = CHR 0x0A then [CHR 0x5C, CHR ''n'']
      else if c = CHR 0x0D then [CHR 0x5C, CHR ''r'']
      else if c = CHR 0x09 then [CHR 0x5C, CHR ''t'']
      else if c = CHR 0x08 then [CHR 0x5C, CHR ''b'']
      else if c = CHR 0x0C then [CHR 0x5C, CHR ''f'']
      else [CHR 0x5C, CHR ''u''] @ byte_hex (rune c))"

lemma decode_nth_size:
  "i < length s \<Longrightarrow> decode_rune (drop i s) = (r, sz) \<Longrightarrow> 0 < sz \<and> i + sz \<le> length s"
  using decode_rune_size [of "drop i s" r sz] by (auto simp: not_less)

lemma decode_nth_size_sym:
  "i < length s \<Longrightarrow> (r, sz) = decode_rune (drop i s) \<Longrightarrow> 0 < sz \<and> i + sz \<le> length s"
  using decode_nth_size [OF _ sym] .

function quote_loop :: "char \<Rightarrow> bytes \<Rightarrow> bytes \<Rightarrow> nat \<Rightarrow> nat \<Rightarrow> bytes" where
  "quote_loop q s b start i =
     (if i < length s then
        let c = s ! i in
        if noEscapeTable c then quote_loop q s b start (i + 1)
        else if rune c \<ge> 0x80 then
          (case decode_rune (drop i s) of (r, sz) \<Rightarrow>
             if r = RuneError \<and> sz = 1 then
               let b' = (if start < i then b @ slice s start i else b)
               in quote_loop q s (b' @ invalid_marker) (i + sz) (i + sz)
             else quote_loop q s b start (i + sz))
        else
          let b' = (if start < i then b @ slice s start i else b)
          in quote_loop q s (b' @ quote_escape q c) (i + 1) (i + 1)
      else if start < length s then b @ drop start s
      else b)"
  by pat_completeness auto
termination
  by (relation "measure (\<lambda>(_, s, _, _, i). length s - i)") (auto dest: decode_nth_size_sym)

declare quote_loop.simps [simp del]

definition AppendQuotedString :: "bytes \<Rightarrow> bytes \<Rightarrow> char \<Rightarrow> bytes" where
  "AppendQuotedString b0 s q =
     (let b = b0 @ [q]
      in (case dropWhile noEscapeTable s of
            [] \<Rightarrow> b @ s @ [q]
          | _ \<Rightarrow> quote_loop q s b 0 (length (takeWhile noEscapeTable s)) @ [q]))"

definition QuoteString :: "bytes \<Rightarrow> bytes" where
  "QuoteString s = AppendQuotedString [] s (CHR 0x22)"

text \<open>The reference: one byte or one multi-byte rune at a time.\<close>

function quote_bytes :: "char \<Rightarrow> bytes \<Rightarrow> bytes" where
  "quote_bytes q [] = []"
| "quote_bytes q (c # s) =
     (if noEscapeTable c then c # quote_bytes q s
      else if rune c \<ge> 0x80 then
        (case decode_rune (c # s) of (r, sz) \<Rightarrow>
           if r = RuneError \<and> sz = 1 then invalid_marker @ quote_bytes q s
           else take sz (c # s) @ quote_bytes q (drop sz (c # s)))
      else quote_escape q c @ quote_bytes q s)"
  by pat_completeness auto
termination
  by (relation "measure (\<lambda>(_, s). length s)") (auto dest: decode_rune_size_sym)

declare quote_bytes.simps(2) [simp del]

lemma quote_loop_eq:
  assumes "start \<le> i" "i \<le> length s"
  shows "quote_loop q s b start i = b @ slice s start i @ quote_bytes q (drop i s)"
  using assms
proof (induction q s b start i rule: quote_loop.induct)
  case (1 q s b start i)
  show ?case
  proof (cases "i < length s")
    case False
    with "1.prems" have "i = length s" by simp
    with "1.prems" show ?thesis
      by (auto simp: quote_loop.simps [of q s b start "length s"] slice_all)
  next
    case True
    then have d: "drop i s = s ! i # drop (Suc i) s" by (simp add: Cons_nth_drop_Suc)
    obtain r sz where r: "decode_rune (drop i s) = (r, sz)" by fastforce
    note sz = decode_nth_size [OF True r]
    have one: "slice s start (Suc i) = slice s start i @ [s ! i]"
      using slice_extend [of start i 1 s] "1.prems" True d by simp
    have b': "(if start < i then b @ slice s start i else b) = b @ slice s start i"
      using "1.prems"(1) by auto
    show ?thesis
    proof (cases "noEscapeTable (s ! i) \<or> rune (s ! i) < 128")
      case simple: True
      with True d one b' "1.IH"(1,4) "1.prems" show ?thesis
        by (auto simp: quote_loop.simps [of q s b start i] quote_bytes.simps Let_def)
    next
      case False
      have dd: "drop (i + sz) s = drop sz (s ! i # drop (Suc i) s)" using d by (metis drop_drop add.commute)
      from False True d r sz b' dd "1.IH"(2,3) [OF True refl] "1.prems" slice_extend [of start i sz s] show ?thesis
        by (auto simp: quote_loop.simps [of q s b start i] quote_bytes.simps Let_def)
    qed
  qed
qed

lemma quote_bytes_plain:
  "dropWhile noEscapeTable s = [] \<Longrightarrow> quote_bytes q s = s"
  by (induction s) (auto simp: quote_bytes.simps split: if_splits)

lemma quote_bytes_prefix:
  "quote_bytes q s = takeWhile noEscapeTable s @ quote_bytes q (dropWhile noEscapeTable s)"
  by (induction s) (auto simp: quote_bytes.simps)

lemma quoted_bytes: "AppendQuotedString b s q = b @ [q] @ quote_bytes q s @ [q]"
proof (cases "dropWhile noEscapeTable s")
  case Nil
  show ?thesis
    unfolding AppendQuotedString_def Let_def Nil quote_bytes_plain [OF Nil] by simp
next
  case (Cons c cs)
  have "length (takeWhile noEscapeTable s) \<le> length s" by (rule length_takeWhile_le)
  from quote_loop_eq [OF le0 this] Cons show ?thesis
    by (simp add: AppendQuotedString_def slice_def takeWhile_eq_take [symmetric]
        dropWhile_eq_drop [symmetric] quote_bytes_prefix [of q s])
qed

text \<open>C30: \<open>AppendQuotedString\<close>, with its fast path and its chunk-copying index loop, is the
  byte-by-byte definition \<open>quote_bytes\<close> between two quotes, appended to the buffer.\<close>

theorem AppendQuotedString_eq:
  "AppendQuotedString b s q = b @ [q] @ quote_bytes q s @ [q]"
  by (rule quoted_bytes)

section \<open>Unquoting\<close>

text \<open>The errors of \<open>strings.go\<close>: \<open>ErrInvalid\<close> and the three messages about multi-line strings.\<close>

datatype quote_error =
    ErrInvalid | ContentAfterOpening | ContentOnClosingLine | InsufficientIndentation

definition isWhitespaceEscapeChar :: "char \<Rightarrow> bool" where
  "isWhitespaceEscapeChar c \<longleftrightarrow> c = CHR '' '' \<or> c = CHR 0x09 \<or> c = CHR 0x0D \<or> c = CHR 0x0A"

definition isWhitespaceEscapeRune :: "nat \<Rightarrow> bool" where
  "isWhitespaceEscapeRune r \<longleftrightarrow> is_space r"

text \<open>The loop over the blanks of a whitespace escape; returns the bytes after them.\<close>

function skip_spaces :: "bytes \<Rightarrow> bytes" where
  "skip_spaces s =
     (if s = [] then []
      else (case decode_rune s of (r, sz) \<Rightarrow>
              if isWhitespaceEscapeRune r then skip_spaces (drop sz s) else s))"
  by pat_completeness auto
termination
  by (relation "measure length") (auto dest: decode_rune_size_sym)

declare skip_spaces.simps [simp del]

text \<open>The hexadecimal digits, last one first.\<close>

fun hex_back :: "bytes \<Rightarrow> nat \<Rightarrow> nat \<Rightarrow> nat" where
  "hex_back [] factor r = r"
| "hex_back (c # cs) factor r = hex_back cs (factor * 16) (r + hexTable c * factor)"

text \<open>
  The escape \<open>u{...}\<close>, on the bytes from the \<open>u\<close> on: the rune and the bytes after the
  closing brace.
\<close>

definition unicode_escape :: "bytes \<Rightarrow> quote_error + nat \<times> bytes" where
  "unicode_escape t =
     (if length t \<le> 3 \<or> t ! 1 \<noteq> CHR ''{'' then Inl ErrInvalid
      else
        let digits = takeWhile (\<lambda>c. c \<noteq> CHR ''}'') (drop 2 t);
            rest = dropWhile (\<lambda>c. c \<noteq> CHR ''}'') (drop 2 t)
        in if rest = [] then Inl ErrInvalid
           else if length digits > 6 then Inl ErrInvalid
           else
             let r = hex_back (rev digits) 1 0
             in if r > 0x10FFFF then Inl ErrInvalid
                else if 0xD800 \<le> r \<and> r \<le> 0xDFFF then Inl ErrInvalid
                else Inr (r, tl rest))"

text \<open>
  One escape, on the bytes after the backslash: the bytes it stands for and what follows it.
\<close>

definition unquote_escape :: "char \<Rightarrow> bytes \<Rightarrow> quote_error + bytes \<times> bytes" where
  "unquote_escape q t =
     (if t = [] then Inl ErrInvalid
      else
        let c = hd t
        in if isWhitespaceEscapeChar c then Inr ([], skip_spaces t)
           else if c = q \<or> c = CHR 0x5C then Inr ([c], tl t)
           else if c = CHR ''n'' then Inr ([CHR 0x0A], tl t)
           else if c = CHR ''r'' then Inr ([CHR 0x0D], tl t)
           else if c = CHR ''t'' then Inr ([CHR 0x09], tl t)
           else if c = CHR ''b'' then Inr ([CHR 0x08], tl t)
           else if c = CHR ''f'' then Inr ([CHR 0x0C], tl t)
           else if c = CHR ''s'' then Inr ([CHR '' ''], tl t)
           else if c = CHR ''u'' then
             (case unicode_escape t of
                Inl e \<Rightarrow> Inl e | Inr (r, t') \<Rightarrow> Inr (encode_rune r, t'))
           else if c = CHR ''/'' then Inr ([c], tl t)
           else Inl ErrInvalid)"

lemma skip_spaces_suffix: "suffix (skip_spaces s) s"
proof (induction s rule: skip_spaces.induct)
  case (1 s)
  show ?case
    using "1" suffix_order.trans [OF _ suffix_drop]
    by (subst skip_spaces.simps) (auto split: prod.splits)
qed

lemma unquote_escape_suffix:
  assumes "unquote_escape q t = Inr (out, t')"
  shows "suffix t' t"
proof -
  have u: "suffix t' t" if "unicode_escape t = Inr (r, t')" for r t'
  proof -
    have "suffix (tl (dropWhile (\<lambda>c. c \<noteq> CHR ''}'') (drop 2 t))) t"
      by (meson suffix_dropWhile suffix_drop suffix_order.trans suffix_tl)
    with that show ?thesis by (auto simp: unicode_escape_def Let_def split: if_splits)
  qed
  show ?thesis
    using assms u by (auto simp: unquote_escape_def Let_def skip_spaces_suffix suffix_tl
        split: if_splits sum.splits)
qed

lemma unquote_escape_shorter:
  "unquote_escape q t = Inr (out, t') \<Longrightarrow> t \<noteq> [] \<and> length t' \<le> length t"
  using unquote_escape_suffix suffix_length_le
  by (fastforce simp: unquote_escape_def split: if_splits)

function unquote_loop :: "char \<Rightarrow> bytes \<Rightarrow> bytes \<Rightarrow> nat \<Rightarrow> nat \<Rightarrow> quote_error + bytes" where
  "unquote_loop q s b start i =
     (if i < length s then
        let c = s ! i in
        if \<not> (c = CHR 0x5C \<or> rune c \<ge> 0x80) then unquote_loop q s b start (i + 1)
        else if rune c \<ge> 0x80 then
          (case decode_rune (drop i s) of (r, sz) \<Rightarrow>
             if r = RuneError \<and> sz = 1 then
               let b' = (if start < i then b @ slice s start i else b)
               in unquote_loop q s (b' @ invalid_marker) (i + sz) (i + sz)
             else unquote_loop q s b start (i + sz))
        else
          let b' = (if start < i then b @ slice s start i else b)
          in (case unquote_escape q (drop (i + 1) s) of
                Inl e \<Rightarrow> Inl e
              | Inr (out, t) \<Rightarrow>
                  unquote_loop q s (b' @ out) (length s - length t) (length s - length t))
      else if start < length s then Inr (b @ drop start s)
      else Inr b)"
  by pat_completeness auto
termination
  by (relation "measure (\<lambda>(_, s, _, _, i). length s - i)")
    (auto dest: decode_nth_size_sym unquote_escape_shorter)

declare unquote_loop.simps [simp del]

definition plain_byte :: "char \<Rightarrow> bool" where
  "plain_byte c \<longleftrightarrow> \<not> (c = CHR 0x5C \<or> rune c \<ge> 0x80)"

definition AppendUnquotedString :: "bytes \<Rightarrow> bytes \<Rightarrow> char \<Rightarrow> quote_error + bytes" where
  "AppendUnquotedString b s0 q =
     (if length s0 < 2 \<or> s0 ! 0 \<noteq> q \<or> s0 ! (length s0 - 1) \<noteq> q then Inl ErrInvalid
      else
        let s = slice s0 1 (length s0 - 1)
        in (case dropWhile plain_byte s of
              [] \<Rightarrow> Inr (b @ s)
            | _ \<Rightarrow> unquote_loop q s b 0 (length (takeWhile plain_byte s))))"

definition UnquoteString :: "bytes \<Rightarrow> quote_error + bytes" where
  "UnquoteString s =
     (if length s = 0 then Inr []
      else
        let q = s ! 0
        in if q = CHR 0x22 \<or> q = CHR 0x27 \<or> q = CHR 0x60 then AppendUnquotedString [] s q
           else Inl ErrInvalid)"

definition appendUnquotedContentQuoted :: "bytes \<Rightarrow> bytes \<Rightarrow> char \<Rightarrow> quote_error + bytes" where
  "appendUnquotedContentQuoted b s q = AppendUnquotedString b ([q] @ s @ [q]) q"

definition appendUnquotedContent :: "bytes \<Rightarrow> bytes \<Rightarrow> quote_error + bytes" where
  "appendUnquotedContent b s = appendUnquotedContentQuoted b s (CHR 0x22)"

text \<open>The reference: byte by byte.\<close>

function unquote_bytes :: "char \<Rightarrow> bytes \<Rightarrow> quote_error + bytes" where
  "unquote_bytes q [] = Inr []"
| "unquote_bytes q (c # s) =
     (if c = CHR 0x5C then
        (case unquote_escape q s of
           Inl e \<Rightarrow> Inl e
         | Inr (out, t) \<Rightarrow> bind_res (unquote_bytes q t) (\<lambda>r. Inr (out @ r)))
      else if rune c \<ge> 0x80 then
        (case decode_rune (c # s) of (r, sz) \<Rightarrow>
           if r = RuneError \<and> sz = 1 then
             bind_res (unquote_bytes q s) (\<lambda>t. Inr (invalid_marker @ t))
           else bind_res (unquote_bytes q (drop sz (c # s))) (\<lambda>t. Inr (take sz (c # s) @ t)))
      else bind_res (unquote_bytes q s) (\<lambda>t. Inr (c # t)))"
  by pat_completeness auto
termination
  by (relation "measure (\<lambda>(_, s). length s)")
    (auto dest: decode_rune_size_sym unquote_escape_shorter)

declare unquote_bytes.simps(2) [simp del]

lemma bind_res_assoc: "bind_res (bind_res r f) g = bind_res r (\<lambda>x. bind_res (f x) g)"
  by (cases r) auto

lemma suffix_drop_length: "suffix t s \<Longrightarrow> drop (length s - length t) s = t"
  by (auto simp: suffix_def)

lemma unquote_loop_eq:
  assumes "start \<le> i" "i \<le> length s"
  shows "unquote_loop q s b start i =
     bind_res (unquote_bytes q (drop i s)) (\<lambda>r. Inr (b @ slice s start i @ r))"
  using assms
proof (induction q s b start i rule: unquote_loop.induct)
  case (1 q s b start i)
  show ?case
  proof (cases "i < length s")
    case False
    with "1.prems" have "i = length s" by simp
    with "1.prems" show ?thesis
      by (auto simp: unquote_loop.simps [of q s b start "length s"] slice_all)
  next
    case True
    then have d: "drop i s = s ! i # drop (Suc i) s" by (simp add: Cons_nth_drop_Suc)
    have b': "(if start < i then b @ slice s start i else b) = b @ slice s start i"
      using "1.prems"(1) by auto
    consider (plain) "\<not> (s ! i = CHR 0x5C \<or> rune (s ! i) \<ge> 0x80)" | (multi) "rune (s ! i) \<ge> 0x80"
      | (escape) "s ! i = CHR 0x5C" "\<not> rune (s ! i) \<ge> 0x80"
      by force
    then show ?thesis
    proof cases
      case plain
      have "slice s start (Suc i) = slice s start i @ [s ! i]"
        using slice_extend [of start i 1 s] "1.prems" True d by simp
      with plain True d "1.IH"(1) "1.prems" show ?thesis
        by (simp add: unquote_loop.simps [of q s b start i] unquote_bytes.simps bind_res_assoc)
    next
      case multi
      obtain r sz where r: "decode_rune (drop i s) = (r, sz)" by fastforce
      note sz = decode_nth_size [OF True r]
      have dd: "drop (i + sz) s = drop sz (s ! i # drop (Suc i) s)" using d by (metis drop_drop add.commute)
      have bs: "s ! i \<noteq> CHR 0x5C" using multi by auto
      from multi bs True d r sz b' dd "1.IH"(2,3) [OF True refl] "1.prems" slice_extend [of start i sz s]
      show ?thesis
        by (auto simp: unquote_loop.simps [of q s b start i] unquote_bytes.simps bind_res_assoc Let_def)
    next
      case escape
      show ?thesis
      proof (cases "unquote_escape q (drop (Suc i) s)")
        case (Inl e)
        with escape True d show ?thesis
          by (simp add: unquote_loop.simps [of q s b start i] unquote_bytes.simps Let_def)
      next
        case (Inr p)
        then obtain out t where e: "unquote_escape q (drop (Suc i) s) = Inr (out, t)" by (cases p) auto
        from unquote_escape_suffix [OF e] have "suffix t s"
          using suffix_drop suffix_order.trans by blast
        with suffix_drop_length [OF this] escape True d e b' "1.IH"(4) [OF True refl] show ?thesis
          by (simp add: unquote_loop.simps [of q s b start i] unquote_bytes.simps bind_res_assoc Let_def)
      qed
    qed
  qed
qed

lemma unquote_bytes_plain: "dropWhile plain_byte s = [] \<Longrightarrow> unquote_bytes q s = Inr s"
  by (induction s) (auto simp: unquote_bytes.simps plain_byte_def split: if_splits)

lemma unquote_bytes_prefix:
  "unquote_bytes q s =
     bind_res (unquote_bytes q (dropWhile plain_byte s)) (\<lambda>r. Inr (takeWhile plain_byte s @ r))"
proof (induction s)
  case Nil
  then show ?case by simp
next
  case (Cons c s)
  show ?case
  proof (cases "plain_byte c")
    case True
    with Cons show ?thesis by (simp add: unquote_bytes.simps plain_byte_def bind_res_assoc)
  next
    case False
    then show ?thesis by (cases "unquote_bytes q (c # s)") simp_all
  qed
qed

lemma unquoted_bytes:
  "AppendUnquotedString b s0 q =
     (if 2 \<le> length s0 \<and> s0 ! 0 = q \<and> s0 ! (length s0 - 1) = q
      then bind_res (unquote_bytes q (slice s0 1 (length s0 - 1))) (\<lambda>r. Inr (b @ r))
      else Inl ErrInvalid)"
proof -
  define s where "s = slice s0 1 (length s0 - 1)"
  have "(case dropWhile plain_byte s of
              [] \<Rightarrow> Inr (b @ s)
            | _ \<Rightarrow> unquote_loop q s b 0 (length (takeWhile plain_byte s)))
        = bind_res (unquote_bytes q s) (\<lambda>r. Inr (b @ r))"
  proof (cases "dropWhile plain_byte s")
    case Nil
    show ?thesis unfolding Nil unquote_bytes_plain [OF Nil] by simp
  next
    case (Cons c cs)
    have "length (takeWhile plain_byte s) \<le> length s" by (rule length_takeWhile_le)
    from unquote_loop_eq [OF le0 this] Cons show ?thesis
      by (simp add: slice_def takeWhile_eq_take [symmetric] bind_res_assoc
          dropWhile_eq_drop [symmetric] unquote_bytes_prefix [of q s])
  qed
  then show ?thesis
    unfolding AppendUnquotedString_def s_def [symmetric] Let_def by (simp del: One_nat_def)
qed

text \<open>C29: \<open>AppendUnquotedString\<close> fails exactly when the outer quotes are missing or the
  byte-by-byte definition \<open>unquote_bytes\<close> fails on what is between them, and otherwise appends
  what that definition returns: its fast path and its index loop change nothing.\<close>

theorem AppendUnquotedString_eq:
  "AppendUnquotedString b s0 q =
     (if 2 \<le> length s0 \<and> s0 ! 0 = q \<and> s0 ! (length s0 - 1) = q
      then bind_res (unquote_bytes q (slice s0 1 (length s0 - 1))) (\<lambda>r. Inr (b @ r))
      else Inl ErrInvalid)"
  by (rule unquoted_bytes)

lemma slice_quoted: "slice (q # s @ [q']) 1 (length (q # s @ [q']) - 1) = s"
  by (simp add: slice_def)

lemma AppendUnquotedString_quoted:
  "AppendUnquotedString b (q # s @ [q]) q = bind_res (unquote_bytes q s) (\<lambda>r. Inr (b @ r))"
  unfolding unquoted_bytes slice_quoted by (simp add: nth_append)

section \<open>Round trip\<close>

text \<open>
  Strings that survive quoting: UTF-8, and no control character but the five with a short
  escape.
\<close>

function quotable :: "bytes \<Rightarrow> bool" where
  "quotable [] = True"
| "quotable (c # s) =
     (if rune c < 0x80 then
        (noEscapeTable c \<or> c \<in> {CHR 0x22, CHR 0x5C, CHR 0x0A, CHR 0x0D, CHR 0x09, CHR 0x08, CHR 0x0C})
        \<and> quotable s
      else
        (case decode_rune (c # s) of (r, sz) \<Rightarrow>
           \<not> (r = RuneError \<and> sz = 1) \<and> quotable (drop sz (c # s))))"
  by pat_completeness auto
termination
  by (relation "measure length") (auto dest: decode_rune_size_sym)

declare quotable.simps(2) [simp del]

lemma decode_rune_append:
  assumes "decode_rune s = (r, sz)" "\<not> (r = RuneError \<and> sz \<le> 1)"
  shows "decode_rune (take sz s @ t) = (r, sz)"
  using assms
  by (cases s) (auto simp: decode_rune.simps Let_def split: if_splits list.splits)

lemma quote_bytes_append_multi:
  assumes "decode_rune (c # s) = (r, sz)" "\<not> (r = RuneError \<and> sz = 1)" "rune c \<ge> 0x80"
  shows "unquote_bytes q (take sz (c # s) @ t) =
           bind_res (unquote_bytes q t) (\<lambda>u. Inr (take sz (c # s) @ u))"
proof -
  have sz: "0 < sz" "sz \<le> length (c # s)" using decode_rune_size [OF assms(1)] by auto
  have d: "decode_rune (take sz (c # s) @ t) = (r, sz)"
    by (rule decode_rune_append [OF assms(1)]) (use assms(2) sz in auto)
  obtain rest where rest: "take sz (c # s) @ t = c # rest" using sz by (cases sz) auto
  have "drop sz (c # rest) = t" "take sz (c # rest) = take sz (c # s)"
    using sz by (simp_all flip: rest)
  moreover have "c \<noteq> CHR 0x5C" using assms(3) by auto
  ultimately show ?thesis
    using assms d by (auto simp: rest unquote_bytes.simps)
qed

lemma unquote_quote_escape:
  assumes "c \<in> {CHR 0x22, CHR 0x5C, CHR 0x0A, CHR 0x0D, CHR 0x09, CHR 0x08, CHR 0x0C}"
  shows "unquote_bytes (CHR 0x22) (quote_escape (CHR 0x22) c @ t) =
    bind_res (unquote_bytes (CHR 0x22) t) (\<lambda>u. Inr (c # u))"
  using assms
  by (auto simp: quote_escape_def unquote_bytes.simps unquote_escape_def isWhitespaceEscapeChar_def)

lemma unquote_quote_bytes:
  "quotable s \<Longrightarrow> unquote_bytes (CHR 0x22) (quote_bytes (CHR 0x22) s) = Inr s"
proof (induction s rule: quotable.induct)
  case 1
  then show ?case by simp
next
  case (2 c s)
  show ?case
  proof (cases "rune c < 0x80")
    case True
    with "2.prems" have q: "quotable s" and c: "noEscapeTable c \<or>
        c \<in> {CHR 0x22, CHR 0x5C, CHR 0x0A, CHR 0x0D, CHR 0x09, CHR 0x08, CHR 0x0C}"
      by (simp_all add: quotable.simps)
    show ?thesis
    proof (cases "noEscapeTable c")
      case True
      then have "c \<noteq> CHR 0x5C" "rune c < 128" by (auto simp: noEscapeTable_def)
      with True "2.IH"(1) [OF \<open>rune c < 0x80\<close> q] show ?thesis
        by (simp add: quote_bytes.simps unquote_bytes.simps)
    next
      case False
      with c True "2.IH"(1) [OF \<open>rune c < 0x80\<close> q] show ?thesis
        by (simp add: quote_bytes.simps unquote_quote_escape)
    qed
  next
    case False
    obtain r sz where d: "decode_rune (c # s) = (r, sz)" by fastforce
    have n: "\<not> noEscapeTable c" using False by (simp add: noEscapeTable_def)
    from "2.prems" False d have q: "\<not> (r = RuneError \<and> sz = 1)" "quotable (drop sz (c # s))"
      by (auto simp: quotable.simps)
    have eq: "quote_bytes (CHR 0x22) (c # s) = take sz (c # s) @ quote_bytes (CHR 0x22) (drop sz (c # s))"
      using d q n False by (auto simp: quote_bytes.simps)
    from "2.IH"(2) [OF False d [symmetric] q(2)] quote_bytes_append_multi [OF d q(1)] False
    show ?thesis unfolding eq by simp
  qed
qed

lemma unquote_quoted:
  assumes "quotable s"
  shows "UnquoteString (QuoteString s) = Inr s"
  using unquote_quote_bytes [OF assms]
  by (simp add: UnquoteString_def QuoteString_def quoted_bytes AppendUnquotedString_quoted)

text \<open>C17: unquoting undoes quoting.  Every UTF-8 string without control characters other than
  newline, carriage return, tab, backspace and form feed, of whatever length and script, comes
  back from \<open>UnquoteString (QuoteString s)\<close> unchanged.\<close>

theorem unquote_quote:
  assumes "quotable s"
  shows "UnquoteString (QuoteString s) = Inr s"
  by (rule unquote_quoted [OF assms])

lemma unquote_quote_witness:
  "UnquoteString (QuoteString (''a'' @ [CHR 0x0A, CHR 0x22, CHR 0xC3, CHR 0xA9])) =
     Inr (''a'' @ [CHR 0x0A, CHR 0x22, CHR 0xC3, CHR 0xA9])"
  by (rule unquote_quote) code_simp

text \<open>Other control characters do not survive: the writer emits \<open>u\<close> and bare digits after
  the backslash, and the reader requires braces, so what was written is rejected.  The same
  happens to a double quote inside a backtick-quoted expression, and a backtick there is
  written without an escape.\<close>

theorem control_characters_rejected:
  "UnquoteString (QuoteString [CHR 0x01]) = Inl ErrInvalid
   \<and> UnquoteString (QuoteString [CHR 0x7F]) = Inl ErrInvalid
   \<and> UnquoteString (AppendQuotedString [] [CHR 0x22] (CHR 0x60)) = Inl ErrInvalid
   \<and> AppendQuotedString [] [CHR 0x60] (CHR 0x60) = [CHR 0x60, CHR 0x60, CHR 0x60]"
  by code_simp

section \<open>Raw strings\<close>

text \<open>\<open>strings.Contains\<close>.\<close>

fun contains :: "bytes \<Rightarrow> bytes \<Rightarrow> bool" where
  "contains s t = (prefix t s \<or> (case s of [] \<Rightarrow> False | _ # s' \<Rightarrow> contains s' t))"

declare contains.simps [simp del]

lemma contains_iff: "contains s t \<longleftrightarrow> (\<exists>u v. s = u @ t @ v)"
proof (induction s)
  case Nil
  then show ?case by (simp add: contains.simps)
next
  case (Cons c s)
  show ?case
  proof
    assume "contains (c # s) t"
    then consider "prefix t (c # s)" | "contains s t" by (auto simp: contains.simps [of "c # s"])
    then show "\<exists>u v. c # s = u @ t @ v"
    proof cases
      case 1
      then show ?thesis by (auto simp: prefix_def intro: exI [of _ "[]"])
    next
      case 2
      with Cons obtain u v where "s = u @ t @ v" by blast
      then show ?thesis by (intro exI [of _ "c # u"] exI [of _ v]) simp
    qed
  next
    assume "\<exists>u v. c # s = u @ t @ v"
    then obtain u v where "c # s = u @ t @ v" by blast
    then have "prefix t (c # s) \<or> (\<exists>u v. s = u @ t @ v)"
      by (cases u) (auto simp: prefix_def)
    with Cons show "contains (c # s) t" by (simp add: contains.simps [of "c # s"])
  qed
qed

lemma contains_length: "contains s t \<Longrightarrow> length t \<le> length s"
  by (auto simp: contains_iff)

definition raw_terminator :: "nat \<Rightarrow> bytes" where
  "raw_terminator n = CHR 0x22 # replicate n (CHR ''#'')"

text \<open>
  The search loop: \<open>hashes\<close> grows until the terminator does not occur.  Its bound is the
  capacity of the slice it grows, which stays above the length, so the loop always ends with a
  result and the \<open>invalid\<close> branch after it is never taken.
\<close>

function min_hashes :: "bytes \<Rightarrow> bytes \<Rightarrow> nat \<Rightarrow> nat" where
  "min_hashes q s n = (if contains s (q @ replicate n (CHR ''#'')) then min_hashes q s (n + 1) else n)"
  by pat_completeness auto
termination
  by (relation "measure (\<lambda>(_, s, n). Suc (length s) - n)") (auto dest: contains_length)

declare min_hashes.simps [simp del]

definition raw_hash_count :: "bytes \<Rightarrow> int \<Rightarrow> nat" where
  "raw_hash_count s hashCount =
     (if hashCount < 0 then min_hashes [CHR 0x22] s 1 - 1 else nat hashCount)"

definition AppendRawString :: "bytes \<Rightarrow> bytes \<Rightarrow> int \<Rightarrow> bytes" where
  "AppendRawString b s hashCount =
     (let n = raw_hash_count s hashCount
      in b @ ''r'' @ replicate n (CHR ''#'') @ [CHR 0x22] @ s @ [CHR 0x22] @ replicate n (CHR ''#''))"

definition AppendRawStringV2 :: "bytes \<Rightarrow> bytes \<Rightarrow> int \<Rightarrow> bytes" where
  "AppendRawStringV2 b s hashCount =
     (let n = raw_hash_count s hashCount
      in b @ replicate n (CHR ''#'') @ [CHR 0x22] @ s @ [CHR 0x22] @ replicate n (CHR ''#''))"

lemma min_hashes_least:
  "n \<le> min_hashes q s n \<and> \<not> contains s (q @ replicate (min_hashes q s n) (CHR ''#''))
   \<and> (\<forall>k. n \<le> k \<and> k < min_hashes q s n \<longrightarrow> contains s (q @ replicate k (CHR ''#'')))"
proof (induction q s n rule: min_hashes.induct)
  case (1 q s n)
  show ?case
  proof (cases "contains s (q @ replicate n (CHR ''#''))")
    case True
    with "1" show ?thesis
      by (auto simp: min_hashes.simps [of q s n]) (metis Suc_leI le_neq_implies_less)
  next
    case False
    then show ?thesis by (auto simp: min_hashes.simps [of q s n])
  qed
qed

text \<open>C40: the automatic hash count is one too small.  For every string with a double quote,
  the terminator of the raw string that \<open>AppendRawString\<close> and \<open>AppendRawStringV2\<close> build in
  automatic mode (\<open>hashCount\<close> -1) occurs inside the string, so a reader stops there; one hash
  more would not occur.\<close>

theorem automatic_hashes_too_few:
  assumes "CHR 0x22 \<in> set s"
  shows "contains s (raw_terminator (raw_hash_count s (-1)))
    \<and> \<not> contains s (raw_terminator (raw_hash_count s (-1) + 1))"
proof -
  let ?m = "min_hashes [CHR 0x22] s 1"
  have m: "1 \<le> ?m" "\<not> contains s (raw_terminator ?m)"
    "\<And>k. 1 \<le> k \<Longrightarrow> k < ?m \<Longrightarrow> contains s (raw_terminator k)"
    using min_hashes_least [of 1 "[CHR 0x22]" s] by (auto simp: raw_terminator_def)
  have "contains s (raw_terminator 0)"
    using split_list [OF assms] by (force simp: contains_iff raw_terminator_def)
  with m have "contains s (raw_terminator (?m - 1))"
    by (cases "?m - 1") auto
  with m show ?thesis by (simp add: raw_hash_count_def)
qed

lemma automatic_hashes_too_few_witness:
  "contains [CHR ''a'', CHR 0x22, CHR ''b''] (raw_terminator (raw_hash_count [CHR ''a'', CHR 0x22, CHR ''b''] (-1)))
   \<and> \<not> contains [CHR ''a'', CHR 0x22, CHR ''b'']
        (raw_terminator (raw_hash_count [CHR ''a'', CHR 0x22, CHR ''b''] (-1) + 1))"
  by (rule automatic_hashes_too_few) simp

end
