(* ===== verification/MultiLine.thy ===== *)
theory MultiLine
  imports Quote
begin

text \<open>
  Multi-line strings (\<open>document/strings.go\<close>, lines 391 to 597 and 610 to 762): finding the
  closing line, dedenting, unescaping, and writing.
\<close>

section \<open>Lines\<close>

text \<open>Position and length of the first newline, if any.\<close>

fun firstNewline :: "bytes \<Rightarrow> (nat \<times> nat) option" where
  "firstNewline [] = None"
| "firstNewline (c # s) =
     (if c = CHR 0x0A then Some (0, 1)
      else if c = CHR 0x0D then
        (case s of d # _ \<Rightarrow> if d = CHR 0x0A then Some (0, 2) else Some (0, 1) | [] \<Rightarrow> Some (0, 1))
      else (case firstNewline s of None \<Rightarrow> None | Some (i, n) \<Rightarrow> Some (Suc i, n)))"

text \<open>The backward search of \<open>lastNewline\<close>, from below index \<open>i\<close>.\<close>

fun last_newline_below :: "bytes \<Rightarrow> nat \<Rightarrow> (nat \<times> nat) option" where
  "last_newline_below s 0 = None"
| "last_newline_below s (Suc i) =
     (if s ! i = CHR 0x0A then
        (if i > 0 \<and> s ! (i - 1) = CHR 0x0D then Some (i - 1, 2) else Some (i, 1))
      else if s ! i = CHR 0x0D then Some (i, 1)
      else last_newline_below s i)"

definition lastNewline :: "bytes \<Rightarrow> (nat \<times> nat) option" where
  "lastNewline s = last_newline_below s (length s)"

definition isInlineWhitespaceOnly :: "bytes \<Rightarrow> bool" where
  "isInlineWhitespaceOnly s = list_all (\<lambda>r. \<not> (r = 0x0A \<or> r = 0x0D) \<and> is_space r) (rune_list s)"

text \<open>\<open>strings.TrimSpace(s) == ""\<close>.\<close>

definition blank :: "bytes \<Rightarrow> bool" where
  "blank s = list_all is_space (rune_list s)"

text \<open>
  The loop over the runes looks for the first backslash; a backslash byte is always a rune of
  its own.
\<close>

definition parseMultilineClosingEscape :: "bytes \<Rightarrow> nat option" where
  "parseMultilineClosingEscape s =
     (case dropWhile (\<lambda>c. c \<noteq> CHR 0x5C) s of
        [] \<Rightarrow> None
      | _ # after \<Rightarrow>
          let before = takeWhile (\<lambda>c. c \<noteq> CHR 0x5C) s
          in if \<not> isInlineWhitespaceOnly before \<or> \<not> isInlineWhitespaceOnly after then None
             else Some (length before))"

lemma decode_last_size: "s \<noteq> [] \<Longrightarrow> 0 < snd (decode_last_rune s)"
proof -
  assume s: "s \<noteq> []"
  have le: "rune_start_back s k i \<le> i" for k i
    by (induction s k i rule: rune_start_back.induct) auto
  from le [of 3 "length s - 1"] s have "drop (rune_start_back s 3 (length s - 1)) s \<noteq> []"
    by (cases s) auto
  then show ?thesis
    using decode_rune_size_pos s by (auto simp: decode_last_rune_def Let_def split: prod.split)
qed

function line_continues :: "bytes \<Rightarrow> nat \<Rightarrow> bool" where
  "line_continues line k =
     (if k > 0 \<and> line \<noteq> [] then
        (case decode_last_rune (take k line) of (r, sz) \<Rightarrow>
           if \<not> is_space r then r = 0x5C
           else line_continues line (k - sz))
      else False)"
  by pat_completeness auto
termination
proof (relation "measure snd")
  fix line :: bytes and k r sz
  assume "0 < k \<and> line \<noteq> []" "(r, sz) = decode_last_rune (take k line)"
  with decode_last_size [of "take k line"] show "((line, k - sz), line, k) \<in> measure snd"
    by (cases "decode_last_rune (take k line)") auto
qed simp

declare line_continues.simps [simp del]

definition hasLineContinuation :: "bytes \<Rightarrow> bool" where
  "hasLineContinuation line = line_continues line (length line)"

section \<open>The closing line\<close>

text \<open>Content, indentation, and whether the content ends in an escaped line break.\<close>

definition parseMultilineTail :: "bytes \<Rightarrow> quote_error + bytes \<times> bytes \<times> bool" where
  "parseMultilineTail inner =
     (case lastNewline inner of
        None \<Rightarrow>
          (case parseMultilineClosingEscape inner of
             Some idx \<Rightarrow> Inr ([], take idx inner, True)
           | None \<Rightarrow> Inr ([], inner, False))
      | Some (start, n) \<Rightarrow>
          let closingLine = drop (start + n) inner;
              pre = take start inner
          in (case parseMultilineClosingEscape closingLine of
                Some idx \<Rightarrow> Inr (pre, take idx closingLine, True)
              | None \<Rightarrow>
                  if \<not> isInlineWhitespaceOnly closingLine then Inl ContentOnClosingLine
                  else
                    let (prevLine, prevPrefix) =
                          (case lastNewline pre of
                             None \<Rightarrow> (pre, [])
                           | Some (pstart, pn) \<Rightarrow> (drop (pstart + pn) pre, take pstart pre))
                    in (case parseMultilineClosingEscape prevLine of
                          Some idx \<Rightarrow> Inr (prevPrefix, take idx prevLine, True)
                        | None \<Rightarrow> Inr (pre, closingLine, False))))"

section \<open>Dedenting\<close>

lemma firstNewline_bounds: "firstNewline s = Some (i, n) \<Longrightarrow> 0 < n \<and> i + n \<le> length s"
proof (induction s arbitrary: i n)
  case (Cons c s)
  consider "c = CHR 0x0A" | "c = CHR 0x0D" | "c \<noteq> CHR 0x0A" "c \<noteq> CHR 0x0D" by blast
  then show ?case
  proof cases
    case 3
    with Cons.prems obtain j where "firstNewline s = Some (j, n)" "i = Suc j"
      by (auto split: option.splits)
    with Cons.IH show ?thesis by auto
  qed (use Cons.prems in \<open>cases s; auto split: if_splits\<close>)+
qed simp

lemma firstNewline_bounds_sym: "Some (i, n) = firstNewline s \<Longrightarrow> 0 < n \<and> i + n \<le> length s"
  using firstNewline_bounds [OF sym] .

text \<open>
  The loop of \<open>dedentMultilineContent\<close>: \<open>continued\<close> says whether the line before ended in a
  backslash, and \<open>result\<close> is the string built so far.
\<close>

function dedent_loop :: "bytes \<Rightarrow> bool \<Rightarrow> bytes \<Rightarrow> bytes \<Rightarrow> quote_error + bytes" where
  "dedent_loop indent continued result content =
     (if content = [] then Inr result
      else
        let (line, newline, content') =
              (case firstNewline content of
                 Some (lineEnd, n) \<Rightarrow>
                   (take lineEnd content, slice content lineEnd (lineEnd + n), drop (lineEnd + n) content)
               | None \<Rightarrow> (content, [], []))
        in if blank line then
             dedent_loop indent (hasLineContinuation line) (result @ newline) content'
           else if \<not> continued \<and> \<not> prefix indent line then Inl InsufficientIndentation
           else
             dedent_loop indent (hasLineContinuation line)
               (result @ (if continued then line else drop (length indent) line) @ newline) content')"
  by pat_completeness auto
termination
  by (relation "measure (\<lambda>(_, _, _, content). length content)")
    (auto split: option.splits dest: firstNewline_bounds firstNewline_bounds_sym)

declare dedent_loop.simps [simp del]

definition dedentMultilineContent :: "bytes \<Rightarrow> bytes \<Rightarrow> quote_error + bytes" where
  "dedentMultilineContent content indent =
     (if content = [] then Inr [] else dedent_loop indent False [] content)"

section \<open>Unescaping\<close>

text \<open>As \<open>unicode_escape\<close>, on the bytes from the \<open>u\<close> on, without the length check.\<close>

definition multiline_unicode :: "bytes \<Rightarrow> quote_error + nat \<times> bytes" where
  "multiline_unicode t =
     (if length t \<le> 1 \<or> t ! 1 \<noteq> CHR ''{'' then Inl ErrInvalid
      else
        let digits = takeWhile (\<lambda>c. c \<noteq> CHR ''}'') (drop 2 t);
            rest = dropWhile (\<lambda>c. c \<noteq> CHR ''}'') (drop 2 t)
        in if rest = [] \<or> length digits > 6 then Inl ErrInvalid
           else
             let r = hex_back (rev digits) 1 0
             in if r > 0x10FFFF \<or> (0xD800 \<le> r \<and> r \<le> 0xDFFF) then Inl ErrInvalid
                else Inr (r, tl rest))"

text \<open>\<open>r\<close> and \<open>sz\<close> are the rune after the backslash and its size, \<open>t\<close> the bytes from it on.\<close>

definition multiline_escape :: "char \<Rightarrow> nat \<Rightarrow> nat \<Rightarrow> bytes \<Rightarrow> quote_error + bytes \<times> bytes" where
  "multiline_escape q r sz t =
     (if is_space r then Inr ([], skip_spaces t)
      else if r = rune CHR ''n'' then Inr ([CHR 0x0A], drop sz t)
      else if r = rune CHR ''r'' then Inr ([CHR 0x0D], drop sz t)
      else if r = rune CHR ''t'' then Inr ([CHR 0x09], drop sz t)
      else if r = rune CHR ''b'' then Inr ([CHR 0x08], drop sz t)
      else if r = rune CHR ''f'' then Inr ([CHR 0x0C], drop sz t)
      else if r = rune CHR ''s'' then Inr ([CHR '' ''], drop sz t)
      else if r = rune q \<or> r = 0x5C then Inr ([char_of (r mod 256)], drop sz t)
      else if r = rune CHR ''u'' then
        (case multiline_unicode t of
           Inl e \<Rightarrow> Inl e | Inr (rn, t') \<Rightarrow> Inr (encode_rune rn, t'))
      else Inl ErrInvalid)"

lemma multiline_escape_shorter:
  assumes "multiline_escape q r sz t = Inr (out, t')"
  shows "length t' \<le> length t"
proof -
  have "length t' \<le> length t" if "multiline_unicode t = Inr (rn, t')" for rn t'
  proof -
    have "length (tl (dropWhile (\<lambda>c. c \<noteq> CHR ''}'') (drop 2 t))) \<le> length t"
      using length_dropWhile_le [of "\<lambda>c. c \<noteq> CHR ''}''" "drop 2 t"] by simp
    with that show ?thesis by (auto simp: multiline_unicode_def Let_def split: if_splits)
  qed
  moreover have "length (skip_spaces t) \<le> length t"
    by (rule suffix_length_le) (rule skip_spaces_suffix)
  ultimately show ?thesis
    using assms by (auto simp: multiline_escape_def split: if_splits sum.splits)
qed

lemma multiline_shorter:
  assumes "(r, sz) = decode_rune s" "s \<noteq> []" "multiline_escape q r' sz' (drop sz s) = Inr (out, t')"
  shows "length t' < length s"
  using multiline_escape_shorter [OF assms(3)] decode_rune_size_sym [OF assms(1,2)] by auto

function appendUnquotedMultilineContent ::
  "bytes \<Rightarrow> bytes \<Rightarrow> char \<Rightarrow> bool \<Rightarrow> quote_error + bytes" where
  "appendUnquotedMultilineContent b s q allowTrailingEscape =
     (if s = [] then Inr b
      else
        (case decode_rune s of (r, sz) \<Rightarrow>
           if r \<noteq> 0x5C then
             appendUnquotedMultilineContent (append_rune b r) (drop sz s) q allowTrailingEscape
           else
             let t = drop sz s
             in if t = [] then (if allowTrailingEscape then Inr b else Inl ErrInvalid)
                else
                  (case decode_rune t of (r', sz') \<Rightarrow>
                     (case multiline_escape q r' sz' t of
                        Inl e \<Rightarrow> Inl e
                      | Inr (out, t') \<Rightarrow>
                          appendUnquotedMultilineContent (b @ out) t' q allowTrailingEscape))))"
  by pat_completeness auto
termination
  by (relation "measure (\<lambda>(_, s, _, _). length s)")
    (auto dest: decode_rune_size_sym intro: multiline_shorter)

declare appendUnquotedMultilineContent.simps [simp del]

section \<open>Reading a whole token\<close>

definition unquoteMultiLineToken ::
  "bytes \<Rightarrow> bytes \<Rightarrow> char \<Rightarrow> bool \<Rightarrow> quote_error + bytes \<times> nat" where
  "unquoteMultiLineToken s0 delim q allowRaw =
     (let hashCount = (if allowRaw then length (takeWhile (\<lambda>c. c = CHR ''#'') s0) else 0)
      in if hashCount > 0
            \<and> (\<not> prefix delim (drop hashCount s0) \<or> \<not> suffix (delim @ replicate hashCount (CHR ''#'')) s0)
         then Inl ErrInvalid
         else
           let s = slice s0 hashCount (length s0 - hashCount)
           in if length s < length delim * 2 \<or> \<not> prefix delim s \<or> \<not> suffix delim s
              then Inl ErrInvalid
              else
                let inner0 = slice s (length delim) (length s - length delim)
                in (case firstNewline inner0 of
                      None \<Rightarrow> Inl ErrInvalid
                    | Some (lineEnd, n) \<Rightarrow>
                        if \<not> isInlineWhitespaceOnly (take lineEnd inner0) then Inl ContentAfterOpening
                        else
                          bind_res (parseMultilineTail (drop (lineEnd + n) inner0))
                            (\<lambda>(content, indent, closingEscaped).
                               if \<not> isInlineWhitespaceOnly indent then Inl ContentOnClosingLine
                               else
                                 bind_res (dedentMultilineContent content indent)
                                   (\<lambda>dedented.
                                      if hashCount > 0 then Inr (dedented, hashCount)
                                      else
                                        bind_res
                                          (appendUnquotedMultilineContent []
                                             (if closingEscaped then dedented @ [CHR 0x5C] else dedented)
                                             q closingEscaped)
                                          (\<lambda>b. Inr (b, hashCount))))))"

definition triple_quote :: bytes where
  "triple_quote = [CHR 0x22, CHR 0x22, CHR 0x22]"

definition triple_backtick :: bytes where
  "triple_backtick = [CHR 0x60, CHR 0x60, CHR 0x60]"

definition UnquoteMultiLineString :: "bytes \<Rightarrow> quote_error + bytes \<times> nat" where
  "UnquoteMultiLineString s = unquoteMultiLineToken s triple_quote (CHR 0x22) True"

definition UnquoteMultiLineExpressionString :: "bytes \<Rightarrow> quote_error + bytes" where
  "UnquoteMultiLineExpressionString s =
     (case unquoteMultiLineToken s triple_backtick (CHR 0x60) False of
        Inl e \<Rightarrow> Inl e | Inr (v, _) \<Rightarrow> Inr v)"

section \<open>Writing\<close>

text \<open>\<open>strings.Split(s, "\n")\<close>.\<close>

fun split_lines :: "bytes \<Rightarrow> bytes list" where
  "split_lines [] = [[]]"
| "split_lines (c # s) =
     (if c = CHR 0x0A then [] # split_lines s
      else (case split_lines s of [] \<Rightarrow> [[c]] | l # ls \<Rightarrow> (c # l) # ls))"

fun join_lines :: "bytes list \<Rightarrow> bytes" where
  "join_lines [] = []"
| "join_lines [l] = l"
| "join_lines (l # ls) = l @ [CHR 0x0A] @ join_lines ls"

definition quoted_line :: "char \<Rightarrow> bytes \<Rightarrow> bytes" where
  "quoted_line q line =
     (let lineBuf = AppendQuotedString [] line q
      in if length lineBuf \<ge> 2 then slice lineBuf 1 (length lineBuf - 1) else [])"

definition appendMultiLineQuotedString :: "bytes \<Rightarrow> bytes \<Rightarrow> char \<Rightarrow> bytes \<Rightarrow> bytes" where
  "appendMultiLineQuotedString b s q delim =
     b @ delim @ [CHR 0x0A] @ join_lines (map (quoted_line q) (split_lines s)) @ delim"

definition AppendMultiLineString :: "bytes \<Rightarrow> bytes \<Rightarrow> bytes" where
  "AppendMultiLineString b s = appendMultiLineQuotedString b s (CHR 0x22) triple_quote"

definition AppendMultiLineExpressionString :: "bytes \<Rightarrow> bytes \<Rightarrow> bytes" where
  "AppendMultiLineExpressionString b s =
     (let b = appendMultiLineQuotedString b s (CHR 0x60) triple_backtick
      in if s \<noteq> [] \<and> last s \<noteq> CHR 0x0A
         then take (length b - 3) b @ [CHR 0x0A] @ triple_backtick else b)"

definition AppendMultiLineStringV2 :: "bytes \<Rightarrow> bytes \<Rightarrow> int \<Rightarrow> bytes" where
  "AppendMultiLineStringV2 b s hashCount0 =
     (let hashCount1 = (if hashCount0 < 0 then int (min_hashes triple_quote s 1) else hashCount0);
          hashCount = nat (if hashCount1 = 0 then 1 else hashCount1)
      in b @ replicate hashCount (CHR ''#'') @ triple_quote @ [CHR 0x0A] @ s
           @ (if s \<noteq> [] \<and> last s \<noteq> CHR 0x0A then [CHR 0x0A] else [])
           @ triple_quote @ replicate hashCount (CHR ''#''))"

section \<open>Indentation\<close>

definition no_newline :: "bytes \<Rightarrow> bool" where
  "no_newline s \<longleftrightarrow> CHR 0x0A \<notin> set s \<and> CHR 0x0D \<notin> set s"

definition unlines :: "bytes list \<Rightarrow> bytes" where
  "unlines ls = concat (map (\<lambda>l. l @ [CHR 0x0A]) ls)"

text \<open>A line as an author writes it: indented, or empty.\<close>

definition indented :: "bytes \<Rightarrow> bytes \<Rightarrow> bytes" where
  "indented indent l = (if l = [] then [] else indent @ l)"

text \<open>Lines with no newline inside that are empty, or have text and no backslash at the end.\<close>

definition text_line :: "bytes \<Rightarrow> bytes \<Rightarrow> bool" where
  "text_line indent l \<longleftrightarrow> no_newline l
     \<and> (l = [] \<or> \<not> blank (indent @ l) \<and> \<not> hasLineContinuation (indent @ l))"

lemma firstNewline_append:
  "no_newline l \<Longrightarrow> firstNewline (l @ CHR 0x0A # t) = Some (length l, 1)"
  by (induction l) (auto simp: no_newline_def)

lemma slice_line: "slice (l @ CHR 0x0A # t) (length l) (length l + 1) = [CHR 0x0A]"
  by (simp add: slice_def)

lemma line_cases:
  "(case Some (length l, 1) of
      Some (lineEnd, n) \<Rightarrow>
        (take lineEnd (l @ CHR 0x0A # t), slice (l @ CHR 0x0A # t) lineEnd (lineEnd + n),
         drop (lineEnd + n) (l @ CHR 0x0A # t))
    | None \<Rightarrow> (l @ CHR 0x0A # t, [], [])) = (l, [CHR 0x0A], t)"
  by (simp add: slice_def)

lemma dedent_loop_line:
  assumes "no_newline l"
  shows "dedent_loop indent c res (l @ CHR 0x0A # t) =
     (if blank l then dedent_loop indent (hasLineContinuation l) (res @ [CHR 0x0A]) t
      else if \<not> c \<and> \<not> prefix indent l then Inl InsufficientIndentation
      else dedent_loop indent (hasLineContinuation l)
             (res @ (if c then l else drop (length indent) l) @ [CHR 0x0A]) t)"
  unfolding dedent_loop.simps [of indent c res] firstNewline_append [OF assms] line_cases
  by simp

lemma continues_Nil [simp]: "\<not> hasLineContinuation []"
  by (simp add: hasLineContinuation_def line_continues.simps)

lemma blank_Nil [simp]: "blank []"
  by (simp add: blank_def)

lemma unlines_Cons: "unlines (l # ls) = l @ CHR 0x0A # unlines ls"
  by (simp add: unlines_def)

lemma dedent_loop_lines:
  assumes "\<forall>l \<in> set ls. text_line indent l" "no_newline indent"
  shows "dedent_loop indent False res (unlines (map (indented indent) ls)) = Inr (res @ unlines ls)"
  using assms(1)
proof (induction ls arbitrary: res)
  case Nil
  then show ?case by (simp add: unlines_def dedent_loop.simps)
next
  case (Cons l ls)
  have nl: "no_newline (indented indent l)"
    using Cons.prems assms(2) by (auto simp: text_line_def no_newline_def indented_def)
  have u: "unlines (map (indented indent) (l # ls)) =
      indented indent l @ CHR 0x0A # unlines (map (indented indent) ls)"
    by (simp add: unlines_def)
  show ?case
  proof (cases "l = []")
    case True
    then have "indented indent l = []" by (simp add: indented_def)
    with Cons True show ?thesis
      unfolding u dedent_loop_line [OF nl] by (simp add: unlines_Cons)
  next
    case False
    then have "indented indent l = indent @ l" by (simp add: indented_def)
    with Cons False show ?thesis
      unfolding u dedent_loop_line [OF nl] by (simp add: unlines_Cons text_line_def)
  qed
qed

text \<open>Dedenting removes exactly the author's indentation.  Lines of text indented by the
  indentation of the closing line, mixed with empty lines, come back without it, each with its
  newline; nothing else of the text is touched.\<close>

theorem dedent_removes_indentation:
  assumes "\<forall>l \<in> set ls. text_line indent l" "no_newline indent"
  shows "dedentMultilineContent (unlines (map (indented indent) ls)) indent = Inr (unlines ls)"
  using dedent_loop_lines [OF assms, of "[]"]
  by (cases "unlines (map (indented indent) ls) = []")
    (simp_all add: dedentMultilineContent_def dedent_loop.simps [of _ _ _ "[]"])

lemma dedent_removes_indentation_witness:
  "dedentMultilineContent (unlines (map (indented ''  '') [''if x'', [], ''  y''])) ''  '' =
     Inr (unlines [''if x'', [], ''  y''])"
  by (rule dedent_removes_indentation) code_simp+

section \<open>Dedenting, line by line\<close>















section \<open>What is written\<close>

text \<open>A multi-line string that was written is not always read back.  A standard one without
  a final newline is rejected, because the writer puts the closing quotes on the last line of
  the text; a raw one loses a final newline; and a raw one whose last line is a backslash
  loses that line, because the reader takes it for an escaped line break.\<close>

theorem multi_line_writer_defects:
  "UnquoteMultiLineString (AppendMultiLineString [] [CHR ''a'', CHR 0x0A, CHR ''b'']) =
     Inl ContentOnClosingLine
   \<and> UnquoteMultiLineString (AppendMultiLineStringV2 [] [CHR ''a'', CHR 0x0A] (-1)) =
     Inr (''a'', 1)
   \<and> UnquoteMultiLineString (AppendMultiLineStringV2 [] [CHR ''a'', CHR 0x0A, CHR 0x5C] (-1)) =
     Inr (''a'', 1)"
  by code_simp

end
