(* ===== verification/Value.thy ===== *)
theory Value
  imports Numbers MultiLine Ctype
begin

text \<open>
  Values (\<open>document/value.go\<close>, \<open>document/suffixeddec.go\<close>, \<open>document/expression.go\<close>): how a token
  becomes a value, and how a value is written.
\<close>

section \<open>Values\<close>

text \<open>
  What the \<open>interface{}\<close> field holds.  All signed and unsigned integer types are \<open>VInt\<close>:
  the code treats them alike.  \<open>VSuffixed\<close> is number and suffix.
\<close>

datatype go_value =
    VNil
  | VInt int
  | VBigInt int
  | VFloat float64
  | VBigFloat "bool \<times> nat \<times> int"
  | VBool bool
  | VString bytes
  | VExpression bytes
  | VSuffixed bytes bytes

text \<open>Flags; the block's \<open>iota\<close> is 1 at \<open>FlagRaw\<close>.\<close>

definition FlagNone :: nat where "FlagNone = 0"

definition FlagRaw :: nat where "FlagRaw = 2"

definition FlagQuoted :: nat where "FlagQuoted = 4"

definition FlagBinary :: nat where "FlagBinary = 8"

definition FlagOctal :: nat where "FlagOctal = 16"

definition FlagHexadecimal :: nat where "FlagHexadecimal = 32"

definition FlagBareSuffixed :: nat where "FlagBareSuffixed = 64"

definition FlagMultiLine :: nat where "FlagMultiLine = 128"

definition FlagBare :: nat where "FlagBare = 256"

definition FlagExpression :: nat where "FlagExpression = 512"

lemmas flag_defs =
  FlagNone_def FlagRaw_def FlagQuoted_def FlagBinary_def FlagOctal_def FlagHexadecimal_def
  FlagBareSuffixed_def FlagMultiLine_def FlagBare_def FlagExpression_def

definition Has :: "nat \<Rightarrow> nat \<Rightarrow> bool" where
  "Has f flag \<longleftrightarrow> f AND flag \<noteq> 0"

record kdl_value =
  v_Type :: bytes
  v_Value :: go_value
  v_Flag :: nat
  v_RawHashes :: nat

definition no_value :: "kdl_value" where
  "no_value = \<lparr>v_Type = [], v_Value = VNil, v_Flag = 0, v_RawHashes = 0\<rparr>"

datatype value_error =
    QuoteFailed quote_error
  | NumberFailed num_error
  | RawMissingQuote
  | RawOutOfRange
  | UnknownKeyword bytes

section \<open>Suffixed decimals\<close>

text \<open>
  The scan of \<open>ParseSuffixedDecimal\<close>: index, where the suffix starts, and whether letters and
  digits are mixed.  It looks at bytes, so the micro sign is compared with one byte.
\<close>

fun suffix_loop :: "nat \<Rightarrow> nat option \<Rightarrow> bool \<Rightarrow> bytes \<Rightarrow> num_error + nat option \<times> bool" where
  "suffix_loop i start duration [] = Inr (start, duration)"
| "suffix_loop i start duration (c # cs) =
     (if c \<in> set ''0123456789.'' then suffix_loop (i + 1) start duration cs
      else if c \<in> set ''hsu'' \<or> c = CHR 0xB5 then
        suffix_loop (i + 1) (if start = None then Some i else start) True cs
      else if c \<in> set ''kKmMgGtTpPbB'' then
        (if start = None then suffix_loop (i + 1) (Some i) duration cs
         else suffix_loop (i + 1) start (duration \<or> c \<noteq> CHR ''b'') cs)
      else Inl (BadSuffixChar (rune c)))"

definition ParseSuffixedDecimal :: "bytes \<Rightarrow> num_error + bytes \<times> bytes" where
  "ParseSuffixedDecimal b =
     (case suffix_loop 0 None False b of
        Inl e \<Rightarrow> Inl e
      | Inr (start, duration) \<Rightarrow>
          if start = Some 0 then Inl SuffixFirst
          else if duration then Inr ([], b)
          else (case start of None \<Rightarrow> Inr (b, []) | Some i \<Rightarrow> Inr (take i b, drop i b)))"

definition suffixed_string :: "bytes \<Rightarrow> bytes \<Rightarrow> bytes" where
  "suffixed_string num suf = num @ suf"

section \<open>From tokens\<close>

definition unquoteQuotedTokenString :: "bytes \<Rightarrow> value_error + bytes" where
  "unquoteQuotedTokenString b =
     (case UnquoteString b of Inl e \<Rightarrow> Inl (QuoteFailed e) | Inr s \<Rightarrow> Inr s)"

text \<open>\<open>RawOutOfRange\<close> stands for the panic of the slice expression.\<close>

definition unquoteRawTokenString :: "bytes \<Rightarrow> value_error + bytes \<times> nat" where
  "unquoteRawTokenString b =
     (if CHR 0x22 \<notin> set b then Inl RawMissingQuote
      else
        let p = length (takeWhile (\<lambda>c. c \<noteq> CHR 0x22) b);
            hashCount = (if p > 0 \<and> b ! 0 = CHR ''r'' then p - 1 else p);
            content = drop (p + 1) b
        in if length content < 1 + hashCount then Inl RawOutOfRange
           else Inr (take (length content - 1 - hashCount) content, hashCount))"

definition isMultilineStringToken :: "bytes \<Rightarrow> bool" where
  "isMultilineStringToken s \<longleftrightarrow>
     prefix triple_quote s
     \<or> (prefix ''#'' s \<and> prefix triple_quote (dropWhile (\<lambda>c. c = CHR ''#'') s))"

definition isMultilineExpressionToken :: "bytes \<Rightarrow> bool" where
  "isMultilineExpressionToken s \<longleftrightarrow> prefix triple_backtick s"

definition keywordValue :: "bytes \<Rightarrow> value_error + go_value" where
  "keywordValue d =
     (if d = ''#inf'' then Inr (VFloat (Inf False))
      else if d = ''#-inf'' then Inr (VFloat (Inf True))
      else if d = ''#nan'' then Inr (VFloat NaN)
      else Inl (UnknownKeyword d))"

fun number_value :: "number \<Rightarrow> go_value" where
  "number_value (NInt n) = VInt n"
| "number_value (NBigInt n) = VBigInt n"
| "number_value (NFloat f) = VFloat f"
| "number_value (NBigFloat f) = VBigFloat f"

definition token_number :: "bytes \<Rightarrow> nat \<Rightarrow> nat \<Rightarrow> value_error + kdl_value" where
  "token_number b base flag =
     (case parseNumber b base of
        Inl e \<Rightarrow> Inl (NumberFailed e)
      | Inr n \<Rightarrow> Inr (no_value\<lparr>v_Value := number_value n, v_Flag := flag\<rparr>))"

definition ValueFromTokenInto :: "token \<Rightarrow> value_error + kdl_value" where
  "ValueFromTokenInto t =
     (let s = t_Data t in
      case t_ID t of
        QuotedString \<Rightarrow>
          if isMultilineStringToken s then
            (case UnquoteMultiLineString s of
               Inl e \<Rightarrow> Inl (QuoteFailed e)
             | Inr (x, n) \<Rightarrow>
                 Inr (no_value\<lparr>v_Value := VString x, v_RawHashes := n,
                   v_Flag := (if prefix ''#'' s then FlagMultiLine OR FlagRaw else FlagMultiLine)\<rparr>))
          else bind_res (unquoteQuotedTokenString s)
                 (\<lambda>x. Inr (no_value\<lparr>v_Value := VString x, v_Flag := FlagQuoted\<rparr>))
      | ExpressionString \<Rightarrow>
          if isMultilineExpressionToken s then
            (case UnquoteMultiLineExpressionString s of
               Inl e \<Rightarrow> Inl (QuoteFailed e)
             | Inr x \<Rightarrow> Inr (no_value\<lparr>v_Value := VExpression x, v_Flag := FlagExpression OR FlagMultiLine\<rparr>))
          else
            (case UnquoteString s of
               Inl e \<Rightarrow> Inl (QuoteFailed e)
             | Inr x \<Rightarrow> Inr (no_value\<lparr>v_Value := VExpression x, v_Flag := FlagExpression\<rparr>))
      | BareIdentifier \<Rightarrow> Inr (no_value\<lparr>v_Value := VString s, v_Flag := FlagBare\<rparr>)
      | Binary \<Rightarrow> token_number s 2 FlagBinary
      | RawString \<Rightarrow>
          bind_res (unquoteRawTokenString s)
            (\<lambda>(x, n). Inr (no_value\<lparr>v_Value := VString x, v_RawHashes := n, v_Flag := FlagRaw\<rparr>))
      | Decimal \<Rightarrow> token_number s 10 FlagNone
      | SuffixedDecimal \<Rightarrow>
          (case ParseSuffixedDecimal s of
             Inl e \<Rightarrow> Inl (NumberFailed e)
           | Inr (num, suf) \<Rightarrow> Inr (no_value\<lparr>v_Value := VSuffixed num suf\<rparr>))
      | Octal \<Rightarrow> token_number s 8 FlagOctal
      | Hexadecimal \<Rightarrow> token_number s 16 FlagHexadecimal
      | Boolean \<Rightarrow> Inr (no_value\<lparr>v_Value := VBool (s = ''true'' \<or> s = ''#true'')\<rparr>)
      | Null \<Rightarrow> Inr no_value
      | Keyword \<Rightarrow> bind_res (keywordValue s) (\<lambda>x. Inr (no_value\<lparr>v_Value := x\<rparr>))
      | _ \<Rightarrow> Inr no_value)"

definition ValueFromToken :: "token \<Rightarrow> value_error + kdl_value" where
  "ValueFromToken t = ValueFromTokenInto t"

section \<open>Raw string tokens\<close>

lemma takeWhile_hashes:
  "takeWhile (\<lambda>c. c \<noteq> CHR 0x22) (replicate n (CHR ''#'') @ CHR 0x22 # t) = replicate n (CHR ''#'')"
  by (induction n) auto

lemma unquote_raw:
  assumes "pre = [] \<or> pre = ''r''"
  shows "unquoteRawTokenString
     (pre @ replicate n (CHR ''#'') @ [CHR 0x22] @ s @ [CHR 0x22] @ replicate n (CHR ''#'')) = Inr (s, n)"
proof -
  let ?t = "pre @ replicate n (CHR ''#'') @ [CHR 0x22] @ s @ [CHR 0x22] @ replicate n (CHR ''#'')"
  have tw: "takeWhile (\<lambda>c. c \<noteq> CHR 0x22) ?t = pre @ replicate n (CHR ''#'')"
    using assms by (auto simp: takeWhile_hashes)
  have dr: "drop (length pre + n + 1) ?t = s @ [CHR 0x22] @ replicate n (CHR ''#'')"
    by simp
  have hd: "(if length (pre @ replicate n (CHR ''#'')) > 0 \<and> ?t ! 0 = CHR ''r''
      then length (pre @ replicate n (CHR ''#'')) - 1 else length (pre @ replicate n (CHR ''#''))) = n"
    using assms by (cases n) auto
  have mem: "CHR 0x22 \<in> set ?t" by simp
  show ?thesis
    unfolding unquoteRawTokenString_def tw Let_def hd
    using mem dr by (simp add: ac_simps)
qed

text \<open>C32: the content of a raw string token is what was put in it, byte for byte, with its hash
  count, in both syntaxes: no escape is processed and the quotes inside are kept.\<close>

theorem raw_token_content:
  "unquoteRawTokenString (AppendRawString [] s (int n)) = Inr (s, n)
   \<and> unquoteRawTokenString (AppendRawStringV2 [] s (int n)) = Inr (s, n)"
  using unquote_raw [of "''r''" n s] unquote_raw [of "[]" n s]
  by (simp add: AppendRawString_def AppendRawStringV2_def raw_hash_count_def Let_def)

end
