(* ===== verification/Render.thy ===== *)
theory Render
  imports Value
begin

text \<open>
  Writing a value (\<open>document/value.go\<close>, lines 58 to 422), with the number formatting of
  \<open>strconv\<close> and \<open>math/big\<close> it calls.
\<close>

section \<open>Integers\<close>

fun nat_digits :: "nat \<Rightarrow> nat \<Rightarrow> nat list" where
  "nat_digits base n = (if base < 2 \<or> n < base then [n] else nat_digits base (n div base) @ [n mod base])"

declare nat_digits.simps [simp del]

text \<open>\<open>strconv.AppendInt\<close>, and \<open>(*big.Int).Append\<close>, which writes the same.\<close>

definition append_int :: "bytes \<Rightarrow> int \<Rightarrow> nat \<Rightarrow> bytes" where
  "append_int b n base =
     b @ (if n < 0 then ''-'' else []) @ map hex_digit_char (nat_digits base (nat \<bar>n\<bar>))"

section \<open>Floating point\<close>

text \<open>The exponent of the first digit, counted so that \<open>0.1 \<le> x / 10^dp < 1\<close>.\<close>

function small_point :: "nat \<Rightarrow> nat \<Rightarrow> int" where
  "small_point p q = (if p = 0 \<or> p * 10 \<ge> q then 0 else small_point (p * 10) q - 1)"
  by pat_completeness auto
termination
  by (relation "measure (\<lambda>(p, q). q - p)") auto

declare small_point.simps [simp del]

definition dec_point :: "nat \<Rightarrow> nat \<Rightarrow> int" where
  "dec_point p q = (if p \<ge> q then int (length (nat_digits 10 (p div q))) else small_point p q)"

definition ratio2 :: "nat \<Rightarrow> int \<Rightarrow> nat \<times> nat" where
  "ratio2 m e = (if e \<ge> 0 then (m * 2 ^ nat e, 1) else (m, 2 ^ nat (- e)))"

text \<open>\<open>n\<close> significant digits of \<open>p/q\<close>, as a number, and its exponent.\<close>

definition significant :: "nat \<Rightarrow> nat \<Rightarrow> nat \<Rightarrow> nat \<times> int" where
  "significant n p q =
     (let dp = dec_point p q;
          k = int n - dp;
          d = (if k \<ge> 0 then half_even (p * 10 ^ nat k) q else half_even p (q * 10 ^ nat (- k)))
      in (d, - k))"

text \<open>
  The fewest digits that read back as the same float (\<open>back\<close> is the reading).  Seventeen digits
  always do, so the search stops there.
\<close>

fun shortest :: "(nat \<Rightarrow> nat \<Rightarrow> (nat \<times> int) option) \<Rightarrow> nat \<times> int \<Rightarrow> nat \<Rightarrow> nat \<Rightarrow> nat \<times> int" where
  "shortest back x 0 n = case_prod (significant n) (case_prod ratio2 x)"
| "shortest back x (Suc fuel) n =
     (let (d, k) = case_prod (significant n) (case_prod ratio2 x)
      in if case_prod back (decimal_ratio d k) = Some x then (d, k)
         else shortest back x fuel (n + 1))"

text \<open>Digits without trailing zeros, and the decimal point.\<close>

definition digits_point :: "nat \<times> int \<Rightarrow> nat list \<times> int" where
  "digits_point dk =
     (let ds = nat_digits 10 (fst dk);
          t = rev (dropWhile (\<lambda>d. d = 0) (rev ds))
      in (t, int (length ds) + snd dk))"

definition zeros :: "nat \<Rightarrow> bytes" where
  "zeros n = replicate n (CHR ''0'')"

definition digit_chars :: "nat list \<Rightarrow> bytes" where
  "digit_chars ds = map hex_digit_char ds"

text \<open>The \<open>'f'\<close> and \<open>'E'\<close> formats with as many digits as there are.\<close>

definition format_f :: "nat list \<times> int \<Rightarrow> bytes" where
  "format_f x =
     (case x of (ds, dp) \<Rightarrow>
        let ip = (if dp \<le> 0 then ''0''
                  else digit_chars (take (nat dp) ds) @ zeros (nat dp - length ds));
            fp = (if dp \<le> 0 then zeros (nat (- dp)) @ digit_chars ds else digit_chars (drop (nat dp) ds))
        in if fp = [] \<or> ds = [] then ip else ip @ ''.'' @ fp)"

definition format_exp :: "int \<Rightarrow> bytes" where
  "format_exp e =
     (if e < 0 then ''-'' else ''+'') @
     (if \<bar>e\<bar> < 10 then ''0'' else []) @ digit_chars (nat_digits 10 (nat \<bar>e\<bar>))"

definition format_E :: "nat list \<times> int \<Rightarrow> bytes" where
  "format_E x =
     (case x of (ds, dp) \<Rightarrow>
        (case ds of
           [] \<Rightarrow> ''0'' @ ''E'' @ format_exp 0
         | d # r \<Rightarrow>
             digit_chars [d] @ (if r = [] then [] else ''.'' @ digit_chars r) @ ''E'' @ format_exp (dp - 1)))"

definition sign_bytes :: "bool \<Rightarrow> bytes" where
  "sign_bytes neg = (if neg then ''-'' else [])"

text \<open>
  The \<open>float64\<close> branch.  The test on \<open>math.Log10\<close> is made on the exact value: above \<open>10^9\<close> or
  below \<open>10^-9\<close>, and not zero.
\<close>

definition append_float :: "bytes \<Rightarrow> float64 \<Rightarrow> bool \<Rightarrow> bytes" where
  "append_float b x v2 =
     (case x of
        Inf neg \<Rightarrow>
          b @ (if v2 then (if neg then ''#-inf'' else ''#inf'') else (if neg then ''-Inf'' else ''+Inf''))
      | NaN \<Rightarrow> b @ (if v2 then ''#nan'' else ''NaN'')
      | Fin neg m e \<Rightarrow>
          (case ratio2 m e of (p, q) \<Rightarrow>
             let ds = (if m = 0 then ([], 1) else digits_point (shortest round64 (m, e) 16 1))
             in if m \<noteq> 0 \<and> (p > 10 ^ 9 * q \<or> p * 10 ^ 9 < q) then b @ sign_bytes neg @ format_E ds
                else b @ sign_bytes neg @ (if m = 0 then ''0'' else format_f ds)
                     @ (if p mod q = 0 then ''.0'' else [])))"

text \<open>The \<open>*big.Float\<close> branch: \<open>MantExp\<close> and \<open>Append\<close>, in \<open>'E'\<close> or with six decimals.\<close>

definition format_f6 :: "nat \<Rightarrow> nat \<Rightarrow> bytes" where
  "format_f6 p q =
     (let n = half_even (p * 10 ^ 6) q;
          fs = nat_digits 10 (n mod 10 ^ 6)
      in digit_chars (nat_digits 10 (n div 10 ^ 6)) @ ''.'' @ zeros (6 - length fs) @ digit_chars fs)"

definition append_big_float :: "bytes \<Rightarrow> bool \<times> nat \<times> int \<Rightarrow> bytes" where
  "append_big_float b x =
     (case x of (neg, m, e) \<Rightarrow>
        let ex = (if m = 0 then 0 else e + int (bit_length m))
        in if ex > 9 \<or> ex < - 9 then
             b @ sign_bytes neg @ format_E (digits_point (shortest (\<lambda>p q. Some (round53 p q)) (m, e) 16 1))
           else b @ sign_bytes neg @ case_prod format_f6 (ratio2 m e))"

section \<open>Options\<close>

definition voTranslateStringFlags :: nat where "voTranslateStringFlags = 0"

definition voUseNumericFlags :: nat where "voUseNumericFlags = 2"

definition voStrictStringFlags :: nat where "voStrictStringFlags = 4"

definition voSimpleString :: nat where "voSimpleString = 8"

definition voNoQuotes :: nat where "voNoQuotes = 16"

definition voNoBare :: nat where "voNoBare = 32"

definition voVersionV2 :: nat where "voVersionV2 = 64"

lemmas vo_defs =
  voTranslateStringFlags_def voUseNumericFlags_def voStrictStringFlags_def voSimpleString_def
  voNoQuotes_def voNoBare_def voVersionV2_def

section \<open>Values\<close>

text \<open>
  Base, prefix and buffer chosen from the numeric flags.  The hexadecimal case replaces the
  buffer unconditionally, so whatever it held is gone.
\<close>

definition numeric_base :: "kdl_value \<Rightarrow> bytes \<Rightarrow> nat \<Rightarrow> nat \<times> bytes \<times> bytes" where
  "numeric_base v b opts =
     (if Has opts voUseNumericFlags then
        (if Has (v_Flag v) FlagBinary then (2, ''0b'', b)
         else if Has (v_Flag v) FlagOctal then (8, ''0o'', b)
         else if Has (v_Flag v) FlagHexadecimal then (16, ''0x'', [])
         else (10, [], b))
      else (10, [], b))"

definition append_string_value :: "kdl_value \<Rightarrow> bytes \<Rightarrow> nat \<Rightarrow> bytes \<Rightarrow> bytes" where
  "append_string_value v b opts x =
     (let f = v_Flag v;
          v2 = Has opts voVersionV2;
          strict = Has opts voStrictStringFlags;
          isBare = IsBareIdentifierVersion x 0 (if v2 then VersionV2 else VersionV1)
      in if Has f FlagBareSuffixed \<or> (Has f FlagBare \<and> v2)
            \<or> (\<not> Has opts voNoBare \<and> (Has opts voNoQuotes \<or> (isBare \<and> Has opts voSimpleString)))
         then b @ x
         else
           let hashes = (if v_RawHashes v = 0 then - 1 else int (v_RawHashes v))
           in if Has f FlagMultiLine \<and> strict then
                (if Has f FlagRaw \<and> v2 then AppendMultiLineStringV2 b x hashes
                 else AppendMultiLineString b x)
              else if Has f FlagRaw \<and> strict then
                (if v2 then AppendRawStringV2 b x hashes else AppendRawString b x hashes)
              else if Has f FlagQuoted \<or> (Has f FlagRaw \<and> \<not> strict) \<or> (Has f FlagMultiLine \<and> \<not> strict)
              then AppendQuotedString b x (CHR 0x22)
              else if isBare \<and> \<not> Has opts voNoBare then b @ x
              else AppendQuotedString b x (CHR 0x22))"

definition append_expression :: "kdl_value \<Rightarrow> bytes \<Rightarrow> nat \<Rightarrow> bytes \<Rightarrow> bytes" where
  "append_expression v b opts x =
     (if Has opts voNoQuotes then b @ x
      else if Has (v_Flag v) FlagMultiLine \<or> CHR 0x0A \<in> set x
      then AppendMultiLineExpressionString b x
      else AppendQuotedString b x (CHR 0x60))"

definition append_value :: "kdl_value \<Rightarrow> bytes \<Rightarrow> nat \<Rightarrow> bytes" where
  "append_value v b0 opts =
     (let v2 = Has opts voVersionV2 in
      if v_Value v = VNil then b0 @ (if v2 then ''#null'' else ''null'')
      else
        (case numeric_base v b0 opts of (base, pre, b) \<Rightarrow>
           (case v_Value v of
              VNil \<Rightarrow> b
            | VInt n \<Rightarrow> append_int (if base \<noteq> 10 then b @ pre else b) n base
            | VBigInt n \<Rightarrow> append_int b n base
            | VFloat f \<Rightarrow> append_float b f v2
            | VBigFloat f \<Rightarrow> append_big_float b f
            | VBool x \<Rightarrow>
                b @ (if v2 then (if x then ''#true'' else ''#false'') else (if x then ''true'' else ''false''))
            | VString x \<Rightarrow> append_string_value v b opts x
            | VExpression x \<Rightarrow> append_expression v b opts x
            | VSuffixed num suf \<Rightarrow> b @ num @ suf)))"

definition AppendTo :: "kdl_value \<Rightarrow> bytes \<Rightarrow> bytes" where
  "AppendTo v b = append_value v b voSimpleString"

definition value_string :: "kdl_value \<Rightarrow> nat \<Rightarrow> version \<Rightarrow> bytes" where
  "value_string v opts0 ver =
     (let opts = (if ver = VersionV2 then opts0 OR voVersionV2 else opts0);
          b = (if length (v_Type v) > 0 then ''('' @ v_Type v @ '')'' else [])
      in append_value v b opts)"

definition String :: "kdl_value \<Rightarrow> bytes" where
  "String v = value_string v (voStrictStringFlags OR voUseNumericFlags) VersionV1"

definition FormattedString :: "kdl_value \<Rightarrow> bytes" where
  "FormattedString v = value_string v (voNoBare OR voUseNumericFlags) VersionV1"

definition UnformattedString :: "kdl_value \<Rightarrow> bytes" where
  "UnformattedString v = value_string v voNoBare VersionV1"

definition NodeNameString :: "kdl_value \<Rightarrow> bytes" where
  "NodeNameString v = value_string v voSimpleString VersionV1"

definition StringV2 :: "kdl_value \<Rightarrow> bytes" where
  "StringV2 v = value_string v (voStrictStringFlags OR voUseNumericFlags) VersionV2"

definition FormattedStringV2 :: "kdl_value \<Rightarrow> bytes" where
  "FormattedStringV2 v = value_string v (voNoBare OR voUseNumericFlags OR voStrictStringFlags) VersionV2"

definition UnformattedStringV2 :: "kdl_value \<Rightarrow> bytes" where
  "UnformattedStringV2 v = value_string v voSimpleString VersionV2"

definition NodeNameStringV2 :: "kdl_value \<Rightarrow> bytes" where
  "NodeNameStringV2 v = value_string v voSimpleString VersionV2"

definition ValueString :: "kdl_value \<Rightarrow> bytes" where
  "ValueString v = append_value v [] (voNoQuotes OR voUseNumericFlags)"

text \<open>\<open>ResolvedValue\<close>: an expression is returned as it is, a string without quotes.\<close>

definition ResolvedValue :: "kdl_value \<Rightarrow> go_value" where
  "ResolvedValue v =
     (case v_Value v of
        VExpression _ \<Rightarrow> v_Value v
      | VString _ \<Rightarrow> VString (value_string v voNoQuotes VersionV1)
      | _ \<Rightarrow> v_Value v)"

definition ResolvedValueV2 :: "kdl_value \<Rightarrow> go_value" where
  "ResolvedValueV2 v =
     (case v_Value v of
        VExpression _ \<Rightarrow> v_Value v
      | VString _ \<Rightarrow> VString (value_string v voNoQuotes VersionV2)
      | _ \<Rightarrow> v_Value v)"

section \<open>Integers are read back as written\<close>

lemma nat_digits_value: "2 \<le> base \<Longrightarrow> digits_value base (nat_digits base n) = n"
proof (induction base n rule: nat_digits.induct)
  case (1 base n)
  then show ?case
    by (cases "n < base")
      (simp_all add: nat_digits.simps [of base n] digits_value_def)
qed

lemma nat_digits_less: "2 \<le> base \<Longrightarrow> d \<in> set (nat_digits base n) \<Longrightarrow> d < base"
proof (induction base n rule: nat_digits.induct)
  case (1 base n)
  then show ?case
    by (cases "n < base") (auto simp: nat_digits.simps [of base n])
qed

lemma nat_digits_nonempty [simp]: "nat_digits base n \<noteq> []"
  by (simp add: nat_digits.simps [of base n])

lemma hex_digit_char_value: "d < 16 \<Longrightarrow> digit_value (hex_digit_char d) = Some d"
proof -
  assume "d < 16"
  then have "d \<in> {0, 1, 2, 3, 4, 5, 6, 7, 8, 9, 10, 11, 12, 13, 14, 15}"
    by simp presburger
  then show ?thesis by (auto simp: hex_digit_char_def digit_value_def)
qed

lemma hex_digit_char_not: "d < 16 \<Longrightarrow> hex_digit_char d \<noteq> CHR ''_''"
  using hex_digit_char_value [of d] by (auto simp: digit_value_def)

lemma written_digits:
  assumes "2 \<le> base" "base \<le> 16"
  shows "literal_digits base (map hex_digit_char (nat_digits base n))
    \<and> literal_value base (map hex_digit_char (nat_digits base n)) = n"
proof -
  have d: "d < 16" "d < base" if "d \<in> set (nat_digits base n)" for d
    using nat_digits_less [OF assms(1) that] assms(2) by auto
  have f: "filter (\<lambda>c. c \<noteq> CHR ''_'') (map hex_digit_char (nat_digits base n))
      = map hex_digit_char (nat_digits base n)"
    using d hex_digit_char_not by (auto simp: filter_id_conv)
  have m: "map (\<lambda>c. the (digit_value c)) (map hex_digit_char (nat_digits base n)) = nat_digits base n"
    using d by (simp add: hex_digit_char_value map_idI)
  have "valid_digit base c" if "c \<in> set (map hex_digit_char (nat_digits base n))" for c
    using that d hex_digit_char_value by (auto simp: valid_digit_def)
  moreover have "literal_value base (map hex_digit_char (nat_digits base n)) = n"
    unfolding literal_value_def f m by (rule nat_digits_value [OF assms(1)])
  ultimately show ?thesis
    unfolding literal_digits_def f by simp
qed

lemma parseNumber_negative:
  assumes "literal_digits 10 ds"
  shows "parseNumber (CHR ''-'' # ds) 10 =
     Inr (if literal_value 10 ds \<le> 2 ^ 63 then NInt (- int (literal_value 10 ds))
          else NBigInt (- int (literal_value 10 ds)))"
proof -
  let ?b = "filter (\<lambda>c. c \<noteq> CHR ''_'') ds" and ?v = "literal_value 10 ds"
  have v: "\<forall>c \<in> set ?b. valid_digit 10 c" "?b \<noteq> []"
    using assms by (auto simp: literal_digits_def)
  have c: "classifyNumber (CHR ''-'' # ds) 10 = (length (filter (\<lambda>c. c = CHR ''_'') ds), False)"
    using assms by (simp add: classifyNumber_def classify_plain literal_digits_def)
  have s: "stripUnderscores (CHR ''-'' # ds) (length (filter (\<lambda>c. c = CHR ''_'') ds)) = CHR ''-'' # ?b"
    using strip_filter [of "CHR ''-'' # ds"] by simp
  have u: "ParseUint_loop 10 0 ?b = (if ?v \<ge> 2 ^ 64 then Inl NumRange else Inr ?v)"
    using ParseUint_loop_value [OF v(1), of 0] by (simp add: literal_value_def digits_value_def)
  have "ParseInt (CHR ''-'' # ?b) 10 = (if ?v > 2 ^ 63 then Inl NumRange else Inr (- int ?v))"
    using v(2) u by (auto simp: ParseInt_def strip_sign_def)
  moreover have "big_int (CHR ''-'' # ?b) 10 = - int ?v"
    by (simp add: big_int_def strip_sign_def takeWhile_all [OF v(1)] literal_value_def)
  ultimately show ?thesis
    by (simp add: parseNumber_def c s)
qed

lemma parse_written:
  assumes "base \<in> {2, 8, 10, 16}" "0 \<le> n \<or> base = 10" "length pre = (if base = 10 then 0 else 2)"
  shows "parseNumber (pre @ append_int [] n base) base =
     Inr (if - (2 ^ 63) \<le> n \<and> n < 2 ^ 63 then NInt n else NBigInt n)"
proof -
  have b: "2 \<le> base" "base \<le> 16" using assms(1) by auto
  note w = written_digits [OF b, of "nat \<bar>n\<bar>"]
  show ?thesis
  proof (cases "n < 0")
    case True
    then have "base = 10" "pre = []" using assms by auto
    with parseNumber_negative [of "map hex_digit_char (nat_digits 10 (nat \<bar>n\<bar>))"] w True
    show ?thesis by (auto simp: append_int_def)
  next
    case False
    with parse_literal [OF conjunct1 [OF w] _ assms(3)] b w
    show ?thesis by (auto simp: append_int_def)
  qed
qed

text \<open>
  Integers as the parser makes them: an \<open>int64\<close> with the flag of its base, not negative unless it
  is decimal, or a larger integer in decimal, without an annotation.
\<close>

definition integer_value :: "kdl_value \<Rightarrow> bool" where
  "integer_value v \<longleftrightarrow> v_Type v = [] \<and> v_RawHashes v = 0 \<and>
     (case v_Value v of
        VInt n \<Rightarrow> - (2 ^ 63) \<le> n \<and> n < 2 ^ 63
          \<and> (v_Flag v = FlagNone \<or> 0 \<le> n \<and> v_Flag v \<in> {FlagBinary, FlagOctal, FlagHexadecimal})
      | VBigInt n \<Rightarrow> \<not> (- (2 ^ 63) \<le> n \<and> n < 2 ^ 63) \<and> v_Flag v = FlagNone
      | _ \<Rightarrow> False)"

definition integer_token :: "kdl_value \<Rightarrow> token_id" where
  "integer_token v =
     (if v_Flag v = FlagBinary then Binary else if v_Flag v = FlagOctal then Octal
      else if v_Flag v = FlagHexadecimal then Hexadecimal else Decimal)"

lemma integer_value_cases:
  assumes "integer_value v"
  obtains (small) n fl pre and base :: nat where "v = no_value\<lparr>v_Value := VInt n, v_Flag := fl\<rparr>"
      "- (2 ^ 63) \<le> n \<and> n < 2 ^ 63" "0 \<le> n \<or> base = 10"
      "(fl, base, pre, integer_token v) \<in> {(FlagNone, 10, [], Decimal), (FlagBinary, 2, ''0b'', Binary),
         (FlagOctal, 8, ''0o'', Octal), (FlagHexadecimal, 16, ''0x'', Hexadecimal)}"
  | (big) n where "v = no_value\<lparr>v_Value := VBigInt n\<rparr>" "\<not> (- (2 ^ 63) \<le> n \<and> n < 2 ^ 63)" "integer_token v = Decimal"
proof -
  obtain ty val fl h where v: "v = \<lparr>v_Type = ty, v_Value = val, v_Flag = fl, v_RawHashes = h\<rparr>" by (cases v)
  with assms have e: "ty = []" "h = 0" by (simp_all add: integer_value_def)
  show thesis
  proof (cases val)
    case (VInt n)
    then have n: "- (2 ^ 63) \<le> n \<and> n < 2 ^ 63" "fl = FlagNone \<or> 0 \<le> n \<and> fl \<in> {FlagBinary, FlagOctal, FlagHexadecimal}"
      using assms v by (simp_all add: integer_value_def)
    have "v = no_value\<lparr>v_Value := VInt n, v_Flag := fl\<rparr>" using VInt v e by (simp add: no_value_def)
    note s = small [OF this n(1)]
    from n(2) consider "fl = FlagNone" | "0 \<le> n" "fl = FlagBinary" | "0 \<le> n" "fl = FlagOctal"
      | "0 \<le> n" "fl = FlagHexadecimal" by blast
    then show thesis
    proof cases
      case 1 then show thesis using s [of 10 "[]"] v by (simp add: integer_token_def flag_defs)
    next
      case 2 then show thesis using s [of 2 "''0b''"] v by (simp add: integer_token_def flag_defs)
    next
      case 3 then show thesis using s [of 8 "''0o''"] v by (simp add: integer_token_def flag_defs)
    next
      case 4 then show thesis using s [of 16 "''0x''"] v by (simp add: integer_token_def flag_defs)
    qed
  next
    case (VBigInt n)
    then have "fl = FlagNone" "\<not> (- (2 ^ 63) \<le> n \<and> n < 2 ^ 63)" using assms v by (simp_all add: integer_value_def)
    with big [of n] VBigInt v e show thesis by (simp add: no_value_def integer_token_def flag_defs)
  qed (use assms v in \<open>simp_all add: integer_value_def\<close>)
qed

text \<open>The four writers that heed the flags.\<close>

lemma flag_writers:
  assumes "v_Type v = []" "render \<in> {FormattedString, FormattedStringV2, String, StringV2}"
  obtains opts where "Has opts voUseNumericFlags" "render v = append_value v [] opts"
proof -
  have "Has (voNoBare OR voUseNumericFlags) voUseNumericFlags"
    "Has ((voNoBare OR voUseNumericFlags OR voStrictStringFlags) OR voVersionV2) voUseNumericFlags"
    "Has (voStrictStringFlags OR voUseNumericFlags) voUseNumericFlags"
    "Has ((voStrictStringFlags OR voUseNumericFlags) OR voVersionV2) voUseNumericFlags"
    by code_simp+
  with that assms show thesis
    by (auto simp: FormattedString_def FormattedStringV2_def String_def StringV2_def value_string_def Let_def)
qed

text \<open>C19: an integer value comes back from the text that the writers of a value make of it.  Every
  \<open>int64\<close> in decimal, every non-negative one in binary, octal and hexadecimal with its prefix,
  and every larger integer in decimal, is the same value again, with the flag of its base, when
  the text that \<open>FormattedString\<close>, \<open>String\<close> or their counterparts for version 2 return is the
  content of a token of that base; and the text begins with the prefix by which the scanner knows
  that base.\<close>

theorem integer_round_trip:
  assumes "integer_value v" "render \<in> {FormattedString, FormattedStringV2, String, StringV2}"
    and "t_ID t = integer_token v" "t_Data t = render v"
  shows "ValueFromTokenInto t = Inr v
    \<and> prefix (if v_Flag v = FlagBinary then ''0b'' else if v_Flag v = FlagOctal then ''0o''
         else if v_Flag v = FlagHexadecimal then ''0x'' else []) (t_Data t)"
proof -
  have "v_Type v = []" using assms(1) by (simp add: integer_value_def)
  from flag_writers [OF this assms(2)] obtain opts where
    o: "Has opts voUseNumericFlags" "t_Data t = append_value v [] opts" using assms(4) by metis
  show ?thesis using assms(1)
  proof (cases v rule: integer_value_cases)
    case (small n fl pre base)
    have "numeric_base v [] opts = (base, pre, [])"
      using small(1,4) o(1) by (auto simp: numeric_base_def no_value_def Has_def flag_defs)
    then have "t_Data t = pre @ append_int [] n base"
      using o(2) small(1,4) by (auto simp: append_value_def no_value_def append_int_def)
    moreover have "parseNumber (pre @ append_int [] n base) base = Inr (NInt n)"
      using parse_written [of base n pre] small(2-4) by auto
    ultimately show ?thesis
      using small(1,4) assms(3) by (auto simp: ValueFromTokenInto_def token_number_def no_value_def flag_defs)
  next
    case (big n)
    have "numeric_base v [] opts = (10, [], [])"
      using big(1) by (simp add: numeric_base_def no_value_def Has_def)
    then have "t_Data t = append_int [] n 10" using o(2) big(1) by (simp add: append_value_def no_value_def)
    with parse_written [of 10 n "[]"] big assms(3) show ?thesis
      by (simp add: ValueFromTokenInto_def token_number_def no_value_def flag_defs)
  qed
qed

lemma integer_round_trip_witness:
  "let v = no_value\<lparr>v_Value := VInt 48879, v_Flag := FlagHexadecimal\<rparr>; w = no_value\<lparr>v_Value := VBigInt (- (2 ^ 70))\<rparr> in
     ValueFromTokenInto (no_token\<lparr>t_ID := Hexadecimal, t_Data := FormattedString v\<rparr>) = Inr v
     \<and> prefix ''0x'' (FormattedString v)
     \<and> ValueFromTokenInto (no_token\<lparr>t_ID := Decimal, t_Data := StringV2 w\<rparr>) = Inr w"
proof -
  let ?v = "no_value\<lparr>v_Value := VInt 48879, v_Flag := FlagHexadecimal\<rparr>" and ?w = "no_value\<lparr>v_Value := VBigInt (- (2 ^ 70))\<rparr>"
  have "integer_value ?v" "integer_token ?v = Hexadecimal" "integer_value ?w" "integer_token ?w = Decimal"
    by (simp_all add: integer_value_def integer_token_def no_value_def flag_defs)
  then show ?thesis
    using integer_round_trip [of ?v FormattedString "no_token\<lparr>t_ID := Hexadecimal, t_Data := FormattedString ?v\<rparr>"]
      integer_round_trip [of ?w StringV2 "no_token\<lparr>t_ID := Decimal, t_Data := StringV2 ?w\<rparr>"]
    by (simp add: Let_def) (simp add: no_value_def flag_defs)
qed

text \<open>A larger integer is written in the base of its flag but without the prefix, so it is read as
  another one.\<close>

lemma big_hexadecimal_misread:
  "ValueFromTokenInto (no_token\<lparr>t_ID := Hexadecimal, t_Data := ''0x10000000000000000''\<rparr>)
     = Inr (no_value\<lparr>v_Value := VBigInt (2 ^ 64), v_Flag := FlagHexadecimal\<rparr>)
   \<and> FormattedString (no_value\<lparr>v_Value := VBigInt (2 ^ 64), v_Flag := FlagHexadecimal\<rparr>) = ''10000000000000000''"
  by code_simp

section \<open>Formatting flags\<close>

text \<open>A hexadecimal value loses its type annotation when it is written: the branch for the
  flag replaces the buffer that holds the annotation.  Whatever annotation the value has, the
  text is the one of the value without annotation.\<close>

theorem hexadecimal_drops_annotation:
  assumes "v_Flag v = FlagHexadecimal" "v_Value v \<noteq> VNil"
  shows "FormattedString v = FormattedString (v\<lparr>v_Type := []\<rparr>)
    \<and> String v = String (v\<lparr>v_Type := []\<rparr>)"
proof -
  have sel: "v_Flag (v\<lparr>v_Type := t\<rparr>) = v_Flag v" "v_RawHashes (v\<lparr>v_Type := t\<rparr>) = v_RawHashes v"
    "v_Value (v\<lparr>v_Type := t\<rparr>) = v_Value v" for t
    by simp_all
  have nb: "numeric_base v b opts = (16, ''0x'', [])" if "Has opts voUseNumericFlags" for b opts
    using that assms(1) by (simp add: numeric_base_def Has_def flag_defs)
  have nb': "numeric_base (v\<lparr>v_Type := []\<rparr>) b opts = (16, ''0x'', [])" if "Has opts voUseNumericFlags" for b opts
    using that assms(1) by (simp add: numeric_base_def Has_def flag_defs)
  have str: "append_string_value (v\<lparr>v_Type := []\<rparr>) b opts x = append_string_value v b opts x" for b opts x
    unfolding append_string_value_def sel by (rule refl)
  have expr: "append_expression (v\<lparr>v_Type := []\<rparr>) b opts x = append_expression v b opts x" for b opts x
    unfolding append_expression_def sel by (rule refl)
  have "append_value v b opts = append_value (v\<lparr>v_Type := []\<rparr>) b' opts"
    if "Has opts voUseNumericFlags" for b b' opts
    using assms(2)
    unfolding append_value_def nb [OF that] nb' [OF that] str expr Let_def prod.case sel
    by (cases "v_Value v") simp_all
  moreover have "Has (voNoBare OR voUseNumericFlags) voUseNumericFlags"
    "Has (voStrictStringFlags OR voUseNumericFlags) voUseNumericFlags"
    by (simp_all add: Has_def vo_defs)
  ultimately show ?thesis
    by (simp add: FormattedString_def String_def value_string_def Let_def)
qed

lemma hexadecimal_drops_annotation_witness:
  "FormattedString \<lparr>v_Type = ''u8'', v_Value = VInt 255, v_Flag = FlagHexadecimal, v_RawHashes = 0\<rparr> = ''0xff''
   \<and> FormattedString \<lparr>v_Type = ''u8'', v_Value = VInt 255, v_Flag = FlagNone, v_RawHashes = 0\<rparr> = ''(u8)255''"
proof -
  have "FormattedString (\<lparr>v_Type = ''u8'', v_Value = VInt 255, v_Flag = FlagHexadecimal, v_RawHashes = 0\<rparr>
      \<lparr>v_Type := []\<rparr>) = ''0xff''"
    by code_simp
  moreover have "FormattedString \<lparr>v_Type = ''u8'', v_Value = VInt 255, v_Flag = FlagNone, v_RawHashes = 0\<rparr>
      = ''(u8)255''"
    by code_simp
  ultimately show ?thesis
    using hexadecimal_drops_annotation
      [of "\<lparr>v_Type = ''u8'', v_Value = VInt 255, v_Flag = FlagHexadecimal, v_RawHashes = 0\<rparr>"]
    by simp
qed

end
