(* ===== verification/Properties.thy ===== *)
theory Properties
  imports Render
begin

text \<open>
  The ordered property list of a node (\<open>document/properties.go\<close>): a slice of keys and a map.
\<close>

section \<open>State and operations\<close>

text \<open>\<open>p_order\<close> is \<open>None\<close> while the slice is nil.\<close>

record properties =
  p_order :: "bytes list option"
  p_props :: "bytes \<rightharpoonup> kdl_value"

definition no_properties :: properties where
  "no_properties = \<lparr>p_order = None, p_props = Map.empty\<rparr>"

definition Allocated :: "properties \<Rightarrow> bool" where
  "Allocated p \<longleftrightarrow> p_order p \<noteq> None"

definition Alloc :: "properties \<Rightarrow> properties" where
  "Alloc p = p\<lparr>p_order := Some [], p_props := Map.empty\<rparr>"

definition order :: "properties \<Rightarrow> bytes list" where
  "order p = (case p_order p of None \<Rightarrow> [] | Some ks \<Rightarrow> ks)"

definition Get :: "properties \<Rightarrow> bytes \<Rightarrow> kdl_value option" where
  "Get p key = p_props p key"

definition Len :: "properties \<Rightarrow> nat" where
  "Len p = length (order p)"

definition Unordered :: "properties \<Rightarrow> bytes \<rightharpoonup> kdl_value" where
  "Unordered p = p_props p"

definition Add :: "bytes \<Rightarrow> kdl_value \<Rightarrow> properties \<Rightarrow> properties" where
  "Add name val p =
     (let p1 = (if p_props p name = None then p\<lparr>p_order := Some (order p @ [name])\<rparr> else p)
      in p1\<lparr>p_props := (p_props p1)(name \<mapsto> val)\<rparr>)"

definition Exist :: "properties \<Rightarrow> bool" where
  "Exist p \<longleftrightarrow> length (order p) > 0"

text \<open>\<open>if !Allocated() { Alloc() }; Add(name, val)\<close>, as the node operations call it.\<close>

definition AddAllocated :: "bytes \<Rightarrow> kdl_value \<Rightarrow> properties \<Rightarrow> properties" where
  "AddAllocated name val p = Add name val (if Allocated p then p else Alloc p)"

section \<open>Writing\<close>

definition property_key :: "bytes \<Rightarrow> version \<Rightarrow> bytes" where
  "property_key k ver =
     (if length k > 0 \<and> IsBareIdentifierVersion k 0 ver then k else AppendQuotedString [] k (CHR 0x22))"

text \<open>The loop over the keys; every key of the slice is in the map.\<close>

definition property_text :: "(kdl_value \<Rightarrow> bytes) \<Rightarrow> version \<Rightarrow> properties \<Rightarrow> bytes" where
  "property_text show_value ver p =
     concat (map (\<lambda>k. '' '' @ property_key k ver @ ''=''
       @ (case p_props p k of None \<Rightarrow> [] | Some v \<Rightarrow> show_value v)) (order p))"

definition properties_string :: "bool \<Rightarrow> version \<Rightarrow> properties \<Rightarrow> bytes" where
  "properties_string unformatted ver p =
     property_text
       (if unformatted then (if ver = VersionV2 then UnformattedStringV2 else UnformattedString)
        else (if ver = VersionV2 then FormattedStringV2 else FormattedString)) ver p"

definition properties_AppendTo :: "properties \<Rightarrow> bytes \<Rightarrow> bytes" where
  "properties_AppendTo p b = b @ property_text UnformattedString VersionV1 p"

section \<open>The interface: an ordered map\<close>

text \<open>
  What the rest of the program relies on: the keys in the order of their first insertion, each
  once, and the last value of each.
\<close>

locale ordered_map =
  fixes ok :: "'m \<Rightarrow> bool"
    and emp :: 'm
    and add :: "'k \<Rightarrow> 'v \<Rightarrow> 'm \<Rightarrow> 'm"
    and get :: "'m \<Rightarrow> 'k \<Rightarrow> 'v option"
    and keys :: "'m \<Rightarrow> 'k list"
  assumes ok_emp: "ok emp"
    and ok_add: "ok m \<Longrightarrow> ok (add k v m)"
    and get_emp: "get emp k = None"
    and keys_emp: "keys emp = []"
    and get_add: "ok m \<Longrightarrow> get (add k v m) k' = (if k' = k then Some v else get m k')"
    and keys_add: "ok m \<Longrightarrow> keys (add k v m) = (if k \<in> set (keys m) then keys m else keys m @ [k])"
begin

definition build :: "('k \<times> 'v) list \<Rightarrow> 'm" where
  "build kvs = fold (\<lambda>(k, v). add k v) kvs emp"

lemma build_snoc: "build (kvs @ [(k, v)]) = add k v (build kvs)"
  by (simp add: build_def)

lemma ok_build: "ok (build kvs)"
proof (induction kvs rule: rev_induct)
  case (snoc x xs)
  then show ?case by (cases x) (simp add: build_snoc ok_add)
qed (simp add: build_def ok_emp)

lemma distinct_keys_build: "distinct (keys (build kvs))"
proof (induction kvs rule: rev_induct)
  case (snoc x xs)
  then show ?case by (cases x) (simp add: build_snoc keys_add ok_build)
qed (simp add: build_def keys_emp)

lemma keys_build: "keys (build kvs) = rev (remdups (rev (map fst kvs)))"
proof (induction kvs rule: rev_induct)
  case (snoc x xs)
  then show ?case by (cases x) (simp add: build_snoc keys_add ok_build)
qed (simp add: build_def keys_emp)

lemma get_build: "get (build kvs) k = map_of (rev kvs) k"
proof (induction kvs rule: rev_induct)
  case (snoc x xs)
  then show ?case by (cases x) (simp add: build_snoc get_add ok_build)
qed (simp add: build_def get_emp)

end

text \<open>The invariant of \<open>Properties\<close>: the slice lists the keys of the map, each once.\<close>

definition ok_properties :: "properties \<Rightarrow> bool" where
  "ok_properties p \<longleftrightarrow> distinct (order p) \<and> set (order p) = dom (p_props p)
     \<and> (p_order p = None \<longrightarrow> p_props p = Map.empty)"

interpretation props: ordered_map ok_properties no_properties AddAllocated Get order
proof
  show "ok_properties no_properties"
    by (simp add: ok_properties_def no_properties_def order_def)
next
  fix m k v
  assume "ok_properties m"
  then show "ok_properties (AddAllocated k v m)"
    by (cases "p_order m")
      (auto simp: ok_properties_def AddAllocated_def Add_def Allocated_def Alloc_def order_def
        Let_def dom_def insert_absorb)
next
  fix m k v k'
  assume "ok_properties m"
  then show "Get (AddAllocated k v m) k' = (if k' = k then Some v else Get m k')"
    by (auto simp: ok_properties_def AddAllocated_def Add_def Allocated_def Alloc_def order_def
        Let_def Get_def)
next
  fix m k v
  assume "ok_properties m"
  then show "order (AddAllocated k v m) = (if k \<in> set (order m) then order m else order m @ [k])"
    by (cases "p_order m")
      (auto simp: ok_properties_def AddAllocated_def Add_def Allocated_def Alloc_def order_def
        Let_def dom_def)
qed (simp_all add: no_properties_def Get_def order_def)

text \<open>C31: properties keep the order of the document.  After any sequence of additions, the list
  holds each key once, in the order in which the keys first appeared, and looking a key up
  returns the last value it was given; the invariant between slice and map holds throughout.\<close>

theorem properties_ordered:
  "let p = fold (\<lambda>(k, v). AddAllocated k v) kvs no_properties in
     ok_properties p \<and> distinct (order p)
     \<and> order p = rev (remdups (rev (map fst kvs)))
     \<and> (\<forall>k. Get p k = map_of (rev kvs) k)"
  using props.ok_build props.distinct_keys_build props.keys_build props.get_build
  by (simp add: props.build_def)

end
