(* ===== verification/Context.thy ===== *)
theory Context
  imports Properties
begin

text \<open>
  The parser's data: nodes (\<open>document/node.go\<close>, lines 11 to 167, and \<open>document/document.go\<close>), the
  states (\<open>parser/state.go\<close>), the ring of recent tokens (\<open>parser/recent.go\<close>), the errors
  (\<open>parser/errors.go\<close>) and the context with its stacks (\<open>parser/context.go\<close>).

  Nodes are shared and mutated through pointers, so they live in a store: a list of nodes, a
  pointer being a position in it.  Allocation appends to the store; the pooling allocator of
  \<open>document/allocator.go\<close> hands out fresh zero nodes too, which the theory \<open>Building\<close> proves.
\<close>

section \<open>Nodes\<close>

text \<open>\<open>nil\<close> byte slices are \<open>None\<close>.\<close>

record comment =
  cm_Before :: "bytes option"
  cm_After :: "bytes option"

type_synonym ref = nat

record node =
  n_Name :: "kdl_value option"
  n_Type :: bytes
  n_Arguments :: "kdl_value list"
  n_Properties :: properties
  n_Children :: "ref list"
  n_Comment :: "comment option"

definition new_node :: node where
  "new_node = \<lparr>n_Name = None, n_Type = [], n_Arguments = [], n_Properties = no_properties,
     n_Children = [], n_Comment = None\<rparr>"

definition AddNode :: "ref \<Rightarrow> node \<Rightarrow> node" where
  "AddNode child n = n\<lparr>n_Children := n_Children n @ [child]\<rparr>"

definition SetNameValue :: "kdl_value \<Rightarrow> node \<Rightarrow> node" where
  "SetNameValue v n = n\<lparr>n_Name := Some v\<rparr>"

definition AddArgumentValue :: "kdl_value \<Rightarrow> node \<Rightarrow> node" where
  "AddArgumentValue v n = n\<lparr>n_Arguments := n_Arguments n @ [v]\<rparr>"

definition AddPropertyValue :: "bytes \<Rightarrow> kdl_value \<Rightarrow> bytes \<Rightarrow> node \<Rightarrow> node" where
  "AddPropertyValue name v typeAnnot n =
     n\<lparr>n_Properties :=
         AddAllocated name (if typeAnnot \<noteq> [] then v\<lparr>v_Type := typeAnnot\<rparr> else v) (n_Properties n)\<rparr>"

section \<open>States\<close>

datatype parser_state =
    stateDocument | stateNode | stateNodeParams | stateNodeEnd | stateArgProp | stateProperty
  | statePropertyValue | stateChildren | stateTypeAnnot | stateTypeDone

fun state_string :: "parser_state \<Rightarrow> string" where
  "state_string stateDocument = ''document''"
| "state_string stateNode = ''node''"
| "state_string stateNodeParams = ''node parameters''"
| "state_string stateNodeEnd = ''node end''"
| "state_string stateArgProp = ''argument or property''"
| "state_string stateProperty = ''property''"
| "state_string statePropertyValue = ''property value''"
| "state_string stateChildren = ''children''"
| "state_string stateTypeAnnot = ''type annotation''"
| "state_string stateTypeDone = ''type annotation close''"

section \<open>Recent tokens\<close>

definition recentTokensCount :: nat where "recentTokensCount = 5"

record recent_tokens =
  r_tokens :: "token list"
  r_head :: nat

definition no_recent :: recent_tokens where
  "no_recent = \<lparr>r_tokens = replicate recentTokensCount no_token, r_head = 0\<rparr>"

definition recent_Add :: "token \<Rightarrow> recent_tokens \<Rightarrow> recent_tokens" where
  "recent_Add t r =
     (let h = (r_head r + 1) mod recentTokensCount
      in r\<lparr>r_head := h, r_tokens := (r_tokens r)[h := t]\<rparr>)"

text \<open>The loop of \<open>Get\<close>: \<open>k\<close> steps are left, \<open>n\<close> is the last position visited.\<close>

fun recent_loop :: "token list \<Rightarrow> nat \<Rightarrow> nat \<Rightarrow> token list" where
  "recent_loop ts 0 n = []"
| "recent_loop ts (Suc k) n =
     (let n' = (n + 1) mod recentTokensCount
      in if t_ID (ts ! n') \<noteq> Unknown then ts ! n' # recent_loop ts k n' else recent_loop ts k n')"

definition recent_Get :: "recent_tokens \<Rightarrow> token list" where
  "recent_Get r = recent_loop (r_tokens r) (length (r_tokens r)) (r_head r)"

text \<open>\<open>TrailingNewlines\<close>; a \<open>nil\<close> result and an empty one are written alike by the callers.\<close>

fun trailing_loop :: "token list \<Rightarrow> nat \<Rightarrow> nat \<Rightarrow> bool \<Rightarrow> bytes \<Rightarrow> bytes" where
  "trailing_loop ts 0 n sig white = white"
| "trailing_loop ts (Suc k) n sig white =
     (let n' = (n + 1) mod recentTokensCount;
          t = ts ! n';
          white' =
            (if t_ID t = Newline then
               white @ (if sig \<and> length (t_Data t) > 0 then tl (t_Data t) else t_Data t)
             else if t_ID t \<noteq> Whitespace \<and> length white > 0 then []
             else white)
      in trailing_loop ts k n' (t_ID t \<notin> {Newline, Whitespace, SingleLineComment, MultiLineComment}) white')"

definition TrailingNewlines :: "recent_tokens \<Rightarrow> bytes" where
  "TrailingNewlines r = trailing_loop (r_tokens r) (length (r_tokens r) - 1) (r_head r) False []"

section \<open>The context\<close>

type_synonym parse_flags = nat

definition ParseComments :: parse_flags where "ParseComments = 1"

record parse_options =
  o_RelaxedNonCompliant :: flags
  o_Flags :: parse_flags
  o_Version :: version

text \<open>
  The fields of \<open>ParseContext\<close>, with the node store.  \<open>states\<close> and \<open>node\<close> are stacks with their
  top at the end.  \<open>VersionSetter\<close> and \<open>versionMarkerStep\<close> are not used by the code.
\<close>

record ctx =
  c_store :: "node list"
  c_doc :: "ref list"
  c_states :: "parser_state list"
  c_state :: parser_state
  c_node :: "ref list"
  c_ident :: token
  c_typeAnnot :: token
  c_continuation :: bool
  c_continuationNewlineSeen :: bool
  c_justContinuedLine :: bool
  c_ignoreNextNode :: bool
  c_ignoreNextArgProp :: bool
  c_ignoreChildren :: int
  c_afterIgnoredChildBlock :: bool
  c_ignoreChildBlockFromContinuation :: bool
  c_ignoreFromContinuation :: bool
  c_opts :: parse_options
  c_comment :: bytes
  c_lastAddedNode :: "ref option"
  c_recent :: recent_tokens

definition NewContextOptions :: "parse_options \<Rightarrow> ctx" where
  "NewContextOptions opts =
     \<lparr>c_store = [], c_doc = [], c_states = [], c_state = stateDocument, c_node = [],
      c_ident = no_token, c_typeAnnot = no_token, c_continuation = False,
      c_continuationNewlineSeen = False, c_justContinuedLine = False, c_ignoreNextNode = False,
      c_ignoreNextArgProp = False, c_ignoreChildren = 0, c_afterIgnoredChildBlock = False,
      c_ignoreChildBlockFromContinuation = False, c_ignoreFromContinuation = False,
      c_opts = opts, c_comment = [], c_lastAddedNode = None, c_recent = no_recent\<rparr>"

section \<open>Errors\<close>

definition single_quoted :: "string \<Rightarrow> string" where
  "single_quoted s = [CHR 0x27] @ s @ [CHR 0x27]"

fun tokenLabel :: "token_id \<Rightarrow> string" where
  "tokenLabel BareIdentifier = ''identifier''"
| "tokenLabel QuotedString = ''string''"
| "tokenLabel RawString = ''raw string''"
| "tokenLabel ExpressionString = ''expression string''"
| "tokenLabel Decimal = ''number''"
| "tokenLabel Hexadecimal = ''number''"
| "tokenLabel Octal = ''number''"
| "tokenLabel Binary = ''number''"
| "tokenLabel SuffixedDecimal = ''number''"
| "tokenLabel Boolean = ''boolean''"
| "tokenLabel Null = ''null''"
| "tokenLabel Keyword = ''keyword''"
| "tokenLabel Whitespace = ''whitespace''"
| "tokenLabel Newline = ''newline''"
| "tokenLabel SingleLineComment = ''comment''"
| "tokenLabel MultiLineComment = ''comment''"
| "tokenLabel TokenComment = ''token comment '' @ single_quoted ''/-''"
| "tokenLabel Continuation = ''line continuation '' @ single_quoted [CHR 0x5C]"
| "tokenLabel BraceOpen = single_quoted ''{''"
| "tokenLabel BraceClose = single_quoted ''}''"
| "tokenLabel ParensOpen = single_quoted ''(''"
| "tokenLabel ParensClose = single_quoted '')''"
| "tokenLabel Equals = single_quoted ''=''"
| "tokenLabel Semicolon = single_quoted '';''"
| "tokenLabel EOF = ''end of input''"
| "tokenLabel tid = token_id_string tid"

definition expectedInState :: "ctx \<Rightarrow> string" where
  "expectedInState c =
     (case c_state c of
        stateDocument \<Rightarrow>
          ''a node name, type annotation, comment, newline, '' @ single_quoted '';'' @ '', or end of input''
      | stateChildren \<Rightarrow> ''a child node, comment, type annotation, newline, or '' @ single_quoted ''}''
      | stateTypeAnnot \<Rightarrow> ''a type name or string type annotation''
      | stateTypeDone \<Rightarrow> single_quoted '')'' @ '' to close the type annotation''
      | stateNode \<Rightarrow>
          ''whitespace, comment, '' @ single_quoted ''{'' @ '', newline, '' @ single_quoted '';''
          @ '', line continuation, or end of input''
      | stateNodeParams \<Rightarrow>
          if Valid (c_typeAnnot c) then ''a value after the type annotation''
          else ''an argument, property, child block, comment, newline, '' @ single_quoted '';''
               @ '', or end of input''
      | stateNodeEnd \<Rightarrow> ''newline or end of input''
      | stateProperty \<Rightarrow> single_quoted ''='' @ '' after the property name''
      | stateArgProp \<Rightarrow>
          single_quoted ''='' @ '' for a property, whitespace or newline to finish the argument, ''
          @ single_quoted ''{'' @ '' for children, or end of input''
      | statePropertyValue \<Rightarrow>
          if Valid (c_typeAnnot c) then ''a property value after the type annotation''
          else ''a property value'')"

text \<open>
  \<open>NilNode\<close> stands for the panic of a method call on a nil node.
\<close>

datatype parse_error =
    ErrReenterState
  | errNodeStackEmpty
  | errStateStackEmpty
  | NilNode
  | BadValue value_error
  | Message string

definition unexpectedToken :: "ctx \<Rightarrow> token \<Rightarrow> parse_error" where
  "unexpectedToken c t =
     (if t_ID t = EOF then Message (''unexpected end of input; expected '' @ expectedInState c)
      else Message (''unexpected '' @ tokenLabel (t_ID t) @ ''; expected '' @ expectedInState c))"

definition expectedValueAfterType :: "ctx \<Rightarrow> token \<Rightarrow> parse_error" where
  "expectedValueAfterType c t =
     (if t_ID t = EOF then Message ''unexpected end of input; expected a value after the type annotation''
      else Message (''unexpected '' @ tokenLabel (t_ID t) @ ''; expected a value after the type annotation''))"

definition missingSeparatorError :: "token \<Rightarrow> parse_error" where
  "missingSeparatorError t =
     Message (''missing whitespace, newline, comment, or '' @ single_quoted '';'' @ '' before ''
       @ tokenLabel (t_ID t))"

definition unexpectedAfterIgnoredChildBlock :: "token \<Rightarrow> parse_error" where
  "unexpectedAfterIgnoredChildBlock t =
     (if t_ID t = EOF then
        Message ''unexpected end of input after ignored child block; expected newline, line continuation, or end of input''
      else
        Message (''unexpected '' @ tokenLabel (t_ID t)
          @ '' after ignored child block; expected newline, line continuation, or end of input''))"

section \<open>Operations of the context\<close>

text \<open>A step returns its error, if any, and the context it leaves behind.\<close>

type_synonym step = "ctx \<Rightarrow> parse_error option \<times> ctx"

definition ok :: step where
  "ok c = (None, c)"

definition fail :: "parse_error \<Rightarrow> step" where
  "fail e c = (Some e, c)"

text \<open>\<open>if err := f(); err != nil { return err }\<close>, then \<open>g\<close>.\<close>

definition andThen :: "step \<Rightarrow> step \<Rightarrow> step" where
  "andThen f g c = (case f c of (Some e, c') \<Rightarrow> (Some e, c') | (None, c') \<Rightarrow> g c')"

definition newNode :: "ctx \<Rightarrow> ref \<times> ctx" where
  "newNode c = (length (c_store c), c\<lparr>c_store := c_store c @ [new_node]\<rparr>)"

definition update_node :: "ref \<Rightarrow> (node \<Rightarrow> node) \<Rightarrow> ctx \<Rightarrow> ctx" where
  "update_node r f c = c\<lparr>c_store := (c_store c)[r := f (c_store c ! r)]\<rparr>"

definition addNode :: "ctx \<Rightarrow> ref \<times> ctx" where
  "addNode c =
     (case newNode c of (n, c1) \<Rightarrow>
        let c2 = (if length (c_node c1) > 0 then update_node (last (c_node c1)) (AddNode n) c1
                  else c1\<lparr>c_doc := c_doc c1 @ [n]\<rparr>)
        in (n, c2\<lparr>c_node := c_node c2 @ [n], c_lastAddedNode := Some n\<rparr>))"

definition createNode :: "ctx \<Rightarrow> ref \<times> ctx" where
  "createNode c =
     (case newNode c of (n, c1) \<Rightarrow> (n, c1\<lparr>c_node := c_node c1 @ [n], c_lastAddedNode := Some n\<rparr>))"

definition setNodeNameToken :: "ref \<Rightarrow> token \<Rightarrow> step" where
  "setNodeNameToken n t c =
     (case ValueFromTokenInto t of
        Inl e \<Rightarrow> (Some (BadValue e), c)
      | Inr v \<Rightarrow> (None, update_node n (SetNameValue v) c))"

definition typed :: "token \<Rightarrow> kdl_value \<Rightarrow> kdl_value" where
  "typed typeAnnot v = (if Valid typeAnnot then v\<lparr>v_Type := t_Data typeAnnot\<rparr> else v)"

text \<open>\<open>currentNode\<close> is \<open>None\<close> when the stack is empty.\<close>

definition currentNode :: "ctx \<Rightarrow> ref option" where
  "currentNode c = (if length (c_node c) = 0 then None else Some (last (c_node c)))"

definition addArgumentToken :: "ref option \<Rightarrow> token \<Rightarrow> token \<Rightarrow> step" where
  "addArgumentToken n t typeAnnot c =
     (case ValueFromTokenInto t of
        Inl e \<Rightarrow> (Some (BadValue e), c)
      | Inr v \<Rightarrow>
          (case n of
             None \<Rightarrow> (Some NilNode, c)
           | Some r \<Rightarrow> (None, update_node r (AddArgumentValue (typed typeAnnot v)) c)))"

definition addPropertyToken :: "ref option \<Rightarrow> token \<Rightarrow> token \<Rightarrow> token \<Rightarrow> step" where
  "addPropertyToken n name val typeAnnot c =
     (case ValueFromTokenInto name of
        Inl e \<Rightarrow> (Some (BadValue e), c)
      | Inr nt \<Rightarrow>
          (case ValueFromTokenInto val of
             Inl e \<Rightarrow> (Some (BadValue e), c)
           | Inr vt \<Rightarrow>
               (case n of
                  None \<Rightarrow> (Some NilNode, c)
                | Some r \<Rightarrow>
                    (None, update_node r (AddPropertyValue (ValueString nt) (typed typeAnnot vt) []) c))))"

definition popNode :: step where
  "popNode c =
     (if length (c_node c) = 0 then (Some errNodeStackEmpty, c)
      else (None, c\<lparr>c_node := butlast (c_node c)\<rparr>))"

definition pushState :: "parser_state \<Rightarrow> ctx \<Rightarrow> ctx" where
  "pushState newState c = c\<lparr>c_states := c_states c @ [c_state c], c_state := newState\<rparr>"

definition popState :: step where
  "popState c =
     (if length (c_states c) = 0 then (Some errStateStackEmpty, c)
      else (None, c\<lparr>c_state := last (c_states c), c_states := butlast (c_states c)\<rparr>))"

definition popNodeAndState :: step where
  "popNodeAndState = andThen popState popNode"

definition startContinuation :: "ctx \<Rightarrow> ctx" where
  "startContinuation c = c\<lparr>c_continuation := True, c_continuationNewlineSeen := False\<rparr>"

definition stopContinuation :: "ctx \<Rightarrow> ctx" where
  "stopContinuation c = c\<lparr>c_continuation := False, c_continuationNewlineSeen := False\<rparr>"

definition markIgnoreFromContinuation :: "ctx \<Rightarrow> ctx" where
  "markIgnoreFromContinuation c =
     c\<lparr>c_ignoreFromContinuation := c_justContinuedLine c, c_justContinuedLine := False\<rparr>"

definition clear_typeAnnot :: "ctx \<Rightarrow> ctx" where
  "clear_typeAnnot c = c\<lparr>c_typeAnnot := Clear (c_typeAnnot c)\<rparr>"

definition clear_ident :: "ctx \<Rightarrow> ctx" where
  "clear_ident c = c\<lparr>c_ident := Clear (c_ident c)\<rparr>"

end
