(* ===== verification/Transitions.thy ===== *)
theory Transitions
  imports Context
begin

text \<open>
  The transition table of the parser (\<open>internal/parser/transitions.go\<close>): one definition per
  handler, in the order of the source, named after state and token, and the table itself.
\<close>

section \<open>Shared pieces\<close>

definition v2 :: "ctx \<Rightarrow> bool" where
  "v2 c \<longleftrightarrow> o_Version (c_opts c) = VersionV2"

definition comments_on :: "ctx \<Rightarrow> bool" where
  "comments_on c \<longleftrightarrow> o_Flags (c_opts c) AND ParseComments \<noteq> 0"

definition relaxed :: "flags \<Rightarrow> ctx \<Rightarrow> bool" where
  "relaxed q c \<longleftrightarrow> permit (o_RelaxedNonCompliant (c_opts c)) q"

definition reject :: "token \<Rightarrow> step" where
  "reject t c = (Some (unexpectedToken c t), c)"

definition only_v2 :: "token \<Rightarrow> step" where
  "only_v2 t c = (if \<not> v2 c then reject t c else ok c)"

definition not_after_type_v1 :: "token \<Rightarrow> step" where
  "not_after_type_v1 t c = (if Valid (c_typeAnnot c) \<and> \<not> v2 c then reject t c else ok c)"

definition write_comment :: "bytes \<Rightarrow> ctx \<Rightarrow> ctx" where
  "write_comment b c = c\<lparr>c_comment := c_comment c @ b\<rparr>"

definition trim_newline :: "bytes \<Rightarrow> bytes" where
  "trim_newline b = (if b \<noteq> [] \<and> last b = CHR 0x0A then butlast b else b)"

text \<open>Leaving a node because of a closing brace: pop it and let the caller send the brace again.\<close>

definition close_node :: step where
  "close_node = andThen popNodeAndState (fail ErrReenterState)"

text \<open>The part of the node handlers after the node was made: its comment and its type.\<close>

definition node_comment :: "ref \<Rightarrow> ctx \<Rightarrow> ctx" where
  "node_comment n c =
     (if comments_on c then
        let c = write_comment (TrailingNewlines (c_recent c)) c
        in if length (c_comment c) > 0 then
             (update_node n (\<lambda>m. m\<lparr>n_Comment :=
                Some \<lparr>cm_Before = Some (trim_newline (c_comment c)), cm_After = None\<rparr>\<rparr>) c)\<lparr>c_comment := []\<rparr>
           else c
      else c)"

definition node_type :: "ref \<Rightarrow> ctx \<Rightarrow> ctx" where
  "node_type n c =
     (if Valid (c_typeAnnot c) then
        clear_typeAnnot (update_node n (\<lambda>m. m\<lparr>n_Type := t_Data (c_typeAnnot c)\<rparr>) c)
      else c)"

definition start_node :: "bool \<Rightarrow> token \<Rightarrow> step" where
  "start_node ignored t c =
     (case (if ignored then (case createNode c of (n, c) \<Rightarrow> (n, c\<lparr>c_ignoreNextNode := False\<rparr>))
            else addNode c) of
        (n, c) \<Rightarrow>
          (case setNodeNameToken n t c of
             (Some e, c) \<Rightarrow> (Some e, c)
           | (None, c) \<Rightarrow> (None, pushState stateNode (node_type n (node_comment n c)))))"

section \<open>stateDocument\<close>

definition doc_Whitespace :: "token \<Rightarrow> step" where
  "doc_Whitespace = not_after_type_v1"

definition doc_Identifier :: "token \<Rightarrow> step" where
  "doc_Identifier t c = start_node (c_ignoreNextNode c) t c"

definition open_annotation :: "token \<Rightarrow> step" where
  "open_annotation t c = ok (pushState stateTypeAnnot c)"

definition doc_Terminator :: "token \<Rightarrow> step" where
  "doc_Terminator t c =
     (if Valid (c_typeAnnot c) then (Some (expectedValueAfterType c t), c) else ok c)"

definition doc_Comment :: "token \<Rightarrow> step" where
  "doc_Comment t c =
     (if Valid (c_typeAnnot c) \<and> \<not> v2 c then reject t c
      else if comments_on c then
        ok (write_comment (t_Data t) (write_comment (TrailingNewlines (c_recent c)) c))
      else ok c)"

definition doc_TokenComment :: "token \<Rightarrow> step" where
  "doc_TokenComment t c =
     (if Valid (c_typeAnnot c) then reject t c
      else ok ((markIgnoreFromContinuation c)\<lparr>c_ignoreNextNode := True\<rparr>))"

definition start_continuation :: "token \<Rightarrow> step" where
  "start_continuation t c = ok (startContinuation c)"

section \<open>stateChildren\<close>

definition children_Newline :: "token \<Rightarrow> step" where
  "children_Newline t c = ok c"

definition children_Identifier :: "token \<Rightarrow> step" where
  "children_Identifier t c = start_node (c_ignoreNextNode c \<or> c_ignoreChildren c > 0) t c"

definition leave_ignored :: "ctx \<Rightarrow> ctx" where
  "leave_ignored c =
     (if c_ignoreChildren c > 0 then
        let c = c\<lparr>c_ignoreChildren := c_ignoreChildren c - 1\<rparr>
        in if c_ignoreChildren c = 0 then
             c\<lparr>c_afterIgnoredChildBlock := \<not> c_ignoreChildBlockFromContinuation c,
               c_ignoreChildBlockFromContinuation := False\<rparr>
           else c
      else c)"

text \<open>\<open>append(After, b...)\<close>: appending nothing to \<open>nil\<close> leaves \<open>nil\<close>.\<close>

definition append_after :: "bytes \<Rightarrow> node \<Rightarrow> node" where
  "append_after b n =
     (let cm = (case n_Comment n of None \<Rightarrow> \<lparr>cm_Before = None, cm_After = None\<rparr> | Some cm \<Rightarrow> cm);
          a = (case cm_After cm of None \<Rightarrow> (if b = [] then None else Some b) | Some x \<Rightarrow> Some (x @ b))
      in n\<lparr>n_Comment := Some (cm\<lparr>cm_After := a\<rparr>)\<rparr>)"

definition block_comment :: step where
  "block_comment c =
     (if comments_on c then
        let c = write_comment (TrailingNewlines (c_recent c)) c
        in if length (c_comment c) > 0 then
             (case c_lastAddedNode c of
                None \<Rightarrow> (Some NilNode, c)
              | Some n \<Rightarrow>
                  ok ((update_node n (append_after (trim_newline (c_comment c))) c)\<lparr>c_comment := []\<rparr>))
           else ok c
      else ok c)"

definition children_BraceClose :: "token \<Rightarrow> step" where
  "children_BraceClose t c =
     (if c_ignoreNextNode c then reject t c
      else andThen block_comment popState (leave_ignored c))"

section \<open>stateTypeAnnot and stateTypeDone\<close>

definition annot_Continuation :: "token \<Rightarrow> step" where
  "annot_Continuation t c = (if \<not> v2 c then reject t c else ok (startContinuation c))"

definition annot_Name :: "token \<Rightarrow> step" where
  "annot_Name t c = ok (c\<lparr>c_typeAnnot := t, c_state := stateTypeDone\<rparr>)"

definition annot_ParensClose :: "token \<Rightarrow> step" where
  "annot_ParensClose t = popState"

section \<open>stateNode\<close>

definition goto_state :: "parser_state \<Rightarrow> token \<Rightarrow> step" where
  "goto_state st t c = ok (c\<lparr>c_state := st\<rparr>)"

definition node_Terminator :: "token \<Rightarrow> step" where
  "node_Terminator t c = (if c_continuation c then ok c else popNodeAndState c)"

definition node_Equals :: "token \<Rightarrow> step" where
  "node_Equals t c =
     (if relaxed YAMLTOMLAssignments c then ok (c\<lparr>c_state := stateNodeParams\<rparr>) else reject t c)"

definition ignore_block :: "ctx \<Rightarrow> ctx" where
  "ignore_block c =
     c\<lparr>c_ignoreChildBlockFromContinuation := c_ignoreFromContinuation c,
       c_ignoreFromContinuation := False, c_ignoreChildren := c_ignoreChildren c + 1\<rparr>"

definition node_BraceOpen :: "token \<Rightarrow> step" where
  "node_BraceOpen t c =
     (let c = (if c_ignoreNextNode c \<or> c_ignoreChildren c > 0
               then (ignore_block c)\<lparr>c_ignoreNextNode := False\<rparr> else c)
      in ok (pushState stateChildren c))"

definition node_Comment :: "token \<Rightarrow> step" where
  "node_Comment t c = (if v2 c then ok c else reject t c)"

definition close_brace :: "token \<Rightarrow> step" where
  "close_brace t = close_node"

section \<open>stateNodeParams\<close>

definition params_Equals :: "token \<Rightarrow> step" where
  "params_Equals t c =
     (if relaxed YAMLTOMLAssignments c \<and> \<not> Valid (c_typeAnnot c) \<and> \<not> Valid (c_ident c) then ok c
      else reject t c)"

definition params_TokenComment :: "token \<Rightarrow> step" where
  "params_TokenComment t c =
     (if Valid (c_typeAnnot c) then reject t c
      else ok ((markIgnoreFromContinuation c)\<lparr>c_ignoreNextArgProp := True\<rparr>))"

definition params_SingleLineComment :: "token \<Rightarrow> step" where
  "params_SingleLineComment t c =
     (if c_ignoreNextArgProp c then ok c else ok (c\<lparr>c_state := stateNodeEnd\<rparr>))"

definition params_BareIdentifier :: "token \<Rightarrow> step" where
  "params_BareIdentifier t c =
     (if relaxed NGINXSyntax c \<or> v2 c then ok (c\<lparr>c_ident := t, c_state := stateArgProp\<rparr>)
      else ok (c\<lparr>c_ident := t, c_state := stateProperty\<rparr>))"

text \<open>The annotation is cleared before it is used.\<close>

definition params_SuffixedDecimal :: "token \<Rightarrow> step" where
  "params_SuffixedDecimal t c0 =
     (let c = clear_ident (clear_typeAnnot c0)
      in andThen
           (\<lambda>c. if c_ignoreNextArgProp c then ok (c\<lparr>c_ignoreNextArgProp := False\<rparr>)
                else addArgumentToken (currentNode c) t (c_typeAnnot c) c)
           (\<lambda>c. ok (c\<lparr>c_state := stateNodeParams\<rparr>)) c)"

definition params_Value :: "token \<Rightarrow> step" where
  "params_Value t c = ok (c\<lparr>c_ident := t, c_state := stateArgProp\<rparr>)"

definition params_BraceOpen :: "token \<Rightarrow> step" where
  "params_BraceOpen t c =
     (let c = (if c_ignoreNextArgProp c \<or> c_ignoreChildren c > 0
               then (ignore_block c)\<lparr>c_ignoreNextArgProp := False\<rparr> else c)
      in ok (pushState stateChildren c))"

definition params_Terminator :: "token \<Rightarrow> step" where
  "params_Terminator t c =
     (if c_continuation c then ok c
      else if c_ignoreNextArgProp c then (if t_ID t = Newline then ok c else reject t c)
      else if Valid (c_typeAnnot c) then (Some (expectedValueAfterType c t), c)
      else popNodeAndState c)"

section \<open>stateNodeEnd\<close>

definition nop :: "token \<Rightarrow> step" where
  "nop t = ok"

definition end_EndOfLine :: "token \<Rightarrow> step" where
  "end_EndOfLine t c =
     (if c_continuation c then ok ((stopContinuation c)\<lparr>c_state := stateNodeParams\<rparr>)
      else popNodeAndState c)"

section \<open>stateProperty\<close>

definition property_Equals :: "token \<Rightarrow> step" where
  "property_Equals t c =
     (if Valid (c_typeAnnot c) then reject t c else ok (c\<lparr>c_state := statePropertyValue\<rparr>))"

section \<open>stateArgProp\<close>

text \<open>\<open>if c.ignoreNextArgProp { ... = false } else if err := c.addArgumentToken(...)\<close>.\<close>

definition queue_argument :: step where
  "queue_argument c =
     (if c_ignoreNextArgProp c then ok (c\<lparr>c_ignoreNextArgProp := False\<rparr>)
      else addArgumentToken (currentNode c) (c_ident c) (c_typeAnnot c) c)"

definition clear_both :: step where
  "clear_both c = ok (clear_ident (clear_typeAnnot c))"

text \<open>The same when an identifier is queued; nothing otherwise.\<close>

definition flush_ident :: step where
  "flush_ident c = (if Valid (c_ident c) then andThen queue_argument clear_both c else ok c)"

definition argprop_TokenComment :: "token \<Rightarrow> step" where
  "argprop_TokenComment t =
     andThen
       (\<lambda>c. if c_ignoreNextArgProp c then ok (c\<lparr>c_ignoreNextArgProp := False\<rparr>)
            else if Valid (c_ident c) then addArgumentToken (currentNode c) (c_ident c) (c_typeAnnot c) c
            else ok c)
       (\<lambda>c. if Valid (c_ident c) then
              ok ((markIgnoreFromContinuation ((clear_ident (clear_typeAnnot c))\<lparr>c_ignoreNextArgProp := True\<rparr>))
                   \<lparr>c_state := stateNodeParams\<rparr>)
            else if Valid (c_typeAnnot c) then (Some (expectedValueAfterType c t), c)
            else ok ((markIgnoreFromContinuation (c\<lparr>c_ignoreNextArgProp := True\<rparr>))\<lparr>c_state := stateNodeParams\<rparr>))"

definition argprop_BraceOpen :: "token \<Rightarrow> step" where
  "argprop_BraceOpen t =
     andThen flush_ident
       (\<lambda>c. let c = (if c_ignoreNextArgProp c \<or> c_ignoreChildren c > 0
                     then c\<lparr>c_ignoreNextArgProp := False, c_ignoreChildren := c_ignoreChildren c + 1\<rparr> else c)
            in ok (pushState stateChildren c))"

definition argprop_Equals :: "token \<Rightarrow> step" where
  "argprop_Equals t c =
     (if Valid (c_typeAnnot c) \<or> t_ID (c_ident c) \<notin> {BareIdentifier, QuotedString, RawString}
      then reject t c else ok (c\<lparr>c_state := statePropertyValue\<rparr>))"

definition argprop_Whitespace :: "token \<Rightarrow> step" where
  "argprop_Whitespace t c =
     (if v2 c then ok c
      else andThen (andThen queue_argument clear_both) (\<lambda>c. ok (c\<lparr>c_state := stateNodeParams\<rparr>)) c)"

definition argprop_Terminator :: "token \<Rightarrow> step" where
  "argprop_Terminator t c = (if c_continuation c then ok c else andThen flush_ident popNodeAndState c)"

definition argprop_Value :: "token \<Rightarrow> step" where
  "argprop_Value t = andThen (andThen queue_argument clear_both) (\<lambda>c. ok (c\<lparr>c_ident := t\<rparr>))"

definition argprop_BraceClose :: "token \<Rightarrow> step" where
  "argprop_BraceClose t = andThen flush_ident close_node"

section \<open>statePropertyValue\<close>

definition propvalue_Value :: "token \<Rightarrow> step" where
  "propvalue_Value t =
     andThen
       (\<lambda>c. if c_ignoreNextArgProp c then ok (c\<lparr>c_ignoreNextArgProp := False\<rparr>)
            else addPropertyToken (currentNode c) (c_ident c) t (c_typeAnnot c) c)
       (andThen clear_both (\<lambda>c. ok (c\<lparr>c_state := stateNode\<rparr>)))"

section \<open>The table\<close>

text \<open>One table for each state, from tokens and classes of tokens to handlers.\<close>

definition in_stateDocument :: "token_id \<Rightarrow> (token \<Rightarrow> step) option" where [simp]:
  "in_stateDocument tid =
     (case tid of
        Whitespace \<Rightarrow> Some doc_Whitespace
      | ClassIdentifier \<Rightarrow> Some doc_Identifier
      | ParensOpen \<Rightarrow> Some open_annotation
      | ClassTerminator \<Rightarrow> Some doc_Terminator
      | ClassComment \<Rightarrow> Some doc_Comment
      | TokenComment \<Rightarrow> Some doc_TokenComment
      | Continuation \<Rightarrow> Some start_continuation
      | _ \<Rightarrow> None)"

definition in_stateChildren :: "token_id \<Rightarrow> (token \<Rightarrow> step) option" where [simp]:
  "in_stateChildren tid =
     (case tid of
        Whitespace \<Rightarrow> Some not_after_type_v1
      | ClassComment \<Rightarrow> Some doc_Comment
      | Continuation \<Rightarrow> Some start_continuation
      | TokenComment \<Rightarrow> Some doc_TokenComment
      | ParensOpen \<Rightarrow> Some open_annotation
      | Newline \<Rightarrow> Some children_Newline
      | ClassIdentifier \<Rightarrow> Some children_Identifier
      | BraceClose \<Rightarrow> Some children_BraceClose
      | _ \<Rightarrow> None)"

definition in_stateTypeAnnot :: "token_id \<Rightarrow> (token \<Rightarrow> step) option" where [simp]:
  "in_stateTypeAnnot tid =
     (case tid of
        Whitespace \<Rightarrow> Some only_v2
      | ClassComment \<Rightarrow> Some only_v2
      | Continuation \<Rightarrow> Some annot_Continuation
      | BareIdentifier \<Rightarrow> Some annot_Name
      | ClassString \<Rightarrow> Some annot_Name
      | _ \<Rightarrow> None)"

definition in_stateTypeDone :: "token_id \<Rightarrow> (token \<Rightarrow> step) option" where [simp]:
  "in_stateTypeDone tid =
     (case tid of
        Whitespace \<Rightarrow> Some only_v2
      | ClassComment \<Rightarrow> Some only_v2
      | Continuation \<Rightarrow> Some annot_Continuation
      | ParensClose \<Rightarrow> Some annot_ParensClose
      | _ \<Rightarrow> None)"

definition in_stateNode :: "token_id \<Rightarrow> (token \<Rightarrow> step) option" where [simp]:
  "in_stateNode tid =
     (case tid of
        Whitespace \<Rightarrow> Some (goto_state stateNodeParams)
      | ClassTerminator \<Rightarrow> Some node_Terminator
      | Equals \<Rightarrow> Some node_Equals
      | BraceOpen \<Rightarrow> Some node_BraceOpen
      | Continuation \<Rightarrow> Some start_continuation
      | ClassComment \<Rightarrow> Some node_Comment
      | BraceClose \<Rightarrow> Some close_brace
      | _ \<Rightarrow> None)"

definition in_stateNodeParams :: "token_id \<Rightarrow> (token \<Rightarrow> step) option" where [simp]:
  "in_stateNodeParams tid =
     (case tid of
        Whitespace \<Rightarrow> Some not_after_type_v1
      | Equals \<Rightarrow> Some params_Equals
      | TokenComment \<Rightarrow> Some params_TokenComment
      | ClassComment \<Rightarrow> Some not_after_type_v1
      | SingleLineComment \<Rightarrow> Some params_SingleLineComment
      | Continuation \<Rightarrow> Some start_continuation
      | ParensOpen \<Rightarrow> Some open_annotation
      | BareIdentifier \<Rightarrow> Some params_BareIdentifier
      | BraceClose \<Rightarrow> Some close_brace
      | SuffixedDecimal \<Rightarrow> Some params_SuffixedDecimal
      | ClassString \<Rightarrow> Some params_Value
      | ClassNonStringValue \<Rightarrow> Some params_Value
      | BraceOpen \<Rightarrow> Some params_BraceOpen
      | ClassTerminator \<Rightarrow> Some params_Terminator
      | _ \<Rightarrow> None)"

definition in_stateNodeEnd :: "token_id \<Rightarrow> (token \<Rightarrow> step) option" where [simp]:
  "in_stateNodeEnd tid =
     (case tid of
        Whitespace \<Rightarrow> Some nop
      | ClassEndOfLine \<Rightarrow> Some end_EndOfLine
      | _ \<Rightarrow> None)"

definition in_stateProperty :: "token_id \<Rightarrow> (token \<Rightarrow> step) option" where [simp]:
  "in_stateProperty tid =
     (case tid of
        Equals \<Rightarrow> Some property_Equals
      | BraceClose \<Rightarrow> Some close_brace
      | _ \<Rightarrow> None)"

definition in_stateArgProp :: "token_id \<Rightarrow> (token \<Rightarrow> step) option" where [simp]:
  "in_stateArgProp tid =
     (case tid of
        TokenComment \<Rightarrow> Some argprop_TokenComment
      | BraceOpen \<Rightarrow> Some argprop_BraceOpen
      | Equals \<Rightarrow> Some argprop_Equals
      | Whitespace \<Rightarrow> Some argprop_Whitespace
      | ClassComment \<Rightarrow> Some node_Comment
      | Continuation \<Rightarrow> Some start_continuation
      | ClassTerminator \<Rightarrow> Some argprop_Terminator
      | ClassValue \<Rightarrow> Some argprop_Value
      | BraceClose \<Rightarrow> Some argprop_BraceClose
      | _ \<Rightarrow> None)"

definition in_statePropertyValue :: "token_id \<Rightarrow> (token \<Rightarrow> step) option" where [simp]:
  "in_statePropertyValue tid =
     (case tid of
        Whitespace \<Rightarrow> Some only_v2
      | ClassComment \<Rightarrow> Some only_v2
      | Continuation \<Rightarrow> Some annot_Continuation
      | ParensOpen \<Rightarrow> Some open_annotation
      | ClassValue \<Rightarrow> Some propvalue_Value
      | BraceClose \<Rightarrow> Some close_brace
      | _ \<Rightarrow> None)"

fun stateTransitions :: "parser_state \<Rightarrow> token_id \<Rightarrow> (token \<Rightarrow> step) option" where
  "stateTransitions stateDocument = in_stateDocument"
| "stateTransitions stateChildren = in_stateChildren"
| "stateTransitions stateTypeAnnot = in_stateTypeAnnot"
| "stateTransitions stateTypeDone = in_stateTypeDone"
| "stateTransitions stateNode = in_stateNode"
| "stateTransitions stateNodeParams = in_stateNodeParams"
| "stateTransitions stateNodeEnd = in_stateNodeEnd"
| "stateTransitions stateProperty = in_stateProperty"
| "stateTransitions stateArgProp = in_stateArgProp"
| "stateTransitions statePropertyValue = in_statePropertyValue"

end
