(* ===== verification/Scanner.thy ===== *)
theory Scanner
  imports Token
begin

text \<open>
  The scanner's state and its primitive operations (\<open>internal/tokenizer/scanner.go\<close>, lines
  15 to 388): decoding ahead (\<open>peek*\<close>), consuming (\<open>get\<close>, \<open>skip\<close>), the mark stack, and the two
  reading loops \<open>readWhile\<close> and \<open>readUntil\<close>.

  The state is that of a scanner over a slice (\<open>NewSlice\<close>): there is no reader, so \<open>refill\<close>
  changes nothing.  The scanner over a reader, its buffer and the cache \<open>peeked\<close> of decoded runes are
  in the theory \<open>Streaming\<close>, which shows in which cases neither can be seen.
\<close>

section \<open>State\<close>

record scanner =
  s_raw :: bytes
  s_input :: bytes
  s_line :: nat
  s_column :: nat
  s_marks :: "nat list"
  s_relaxed :: flags
  s_version :: version
  s_versionMarkerDetected :: bool

text \<open>
  The fields \<open>token\<close> and \<open>err\<close> belong to the loop around the lexer: only \<open>Scan\<close>, \<open>ScanAll\<close> and
  \<open>Close\<close> touch them; \<open>ParseComments\<close> is only handed to the parser.  They are kept in a record around the rest, which is what the reading
  functions work on.
\<close>

record scan_state =
  sc :: scanner
  s_ParseComments :: bool
  s_token :: token
  s_err :: "scan_error option"

definition sliceScanner :: "bytes \<Rightarrow> scanner" where
  "sliceScanner inp = \<lparr>s_raw = inp, s_input = inp, s_line = 0, s_column = 0, s_marks = [],
     s_relaxed = 0, s_version = VersionAuto, s_versionMarkerDetected = False\<rparr>"

definition NewSlice :: "bytes \<Rightarrow> scan_state" where
  "NewSlice inp = \<lparr>sc = sliceScanner inp, s_ParseComments = False, s_token = no_token, s_err = None\<rparr>"

text \<open>
  \<open>New\<close> on a reader whose whole content is \<open>inp\<close>: reading nothing at all leaves \<open>io.EOF\<close> in
  \<open>err\<close>.
\<close>

definition New :: "bytes \<Rightarrow> scan_state" where
  "New inp = (NewSlice inp)\<lparr>s_err := if inp = [] then Some io_EOF else None\<rparr>"

section \<open>Looking ahead\<close>

definition decode1 :: "bytes \<Rightarrow> scan_error + nat \<times> nat" where
  "decode1 inp =
     (case decode_rune inp of (c, sz) \<Rightarrow>
        if sz = 0 then Inl io_EOF
        else if c = RuneError then Inl ErrInvalidRune
        else Inr (c, sz))"

definition peekSize :: "scanner \<Rightarrow> scan_error + nat \<times> nat" where
  "peekSize s = decode1 (s_input s)"

definition peek :: "scanner \<Rightarrow> scan_error + nat" where
  "peek s = (case peekSize s of Inl e \<Rightarrow> Inl e | Inr (c, _) \<Rightarrow> Inr c)"

definition peekTwoSize :: "scanner \<Rightarrow> scan_error + nat \<times> nat \<times> nat \<times> nat" where
  "peekTwoSize s =
     (case decode1 (s_input s) of Inl e \<Rightarrow> Inl e
      | Inr (c1, sz1) \<Rightarrow>
          (case decode1 (drop sz1 (s_input s)) of Inl e \<Rightarrow> Inl e
           | Inr (c2, sz2) \<Rightarrow> Inr (c1, sz1, c2, sz2)))"

definition peekTwo :: "scanner \<Rightarrow> scan_error + nat \<times> nat" where
  "peekTwo s = (case peekTwoSize s of Inl e \<Rightarrow> Inl e | Inr (c1, _, c2, _) \<Rightarrow> Inr (c1, c2))"

fun decode_at :: "nat \<Rightarrow> bytes \<Rightarrow> scan_error + nat \<times> nat" where
  "decode_at 0 inp = decode1 inp"
| "decode_at (Suc n) inp =
     (case decode1 inp of Inl e \<Rightarrow> Inl e | Inr (_, sz) \<Rightarrow> decode_at n (drop sz inp))"

definition peekAtSize :: "nat \<Rightarrow> scanner \<Rightarrow> scan_error + nat \<times> nat" where
  "peekAtSize n s = decode_at n (s_input s)"

definition peekAt :: "nat \<Rightarrow> scanner \<Rightarrow> scan_error + nat" where
  "peekAt n s = (case peekAtSize n s of Inl e \<Rightarrow> Inl e | Inr (c, _) \<Rightarrow> Inr c)"

definition peekThree :: "scanner \<Rightarrow> scan_error + nat \<times> nat \<times> nat" where
  "peekThree s =
     (case peekAtSize 0 s of Inl e \<Rightarrow> Inl e
      | Inr (c1, _) \<Rightarrow>
          (case peekAtSize 1 s of Inl e \<Rightarrow> Inl e
           | Inr (c2, _) \<Rightarrow>
               (case peekAtSize 2 s of Inl e \<Rightarrow> Inl e | Inr (c3, _) \<Rightarrow> Inr (c1, c2, c3))))"

section \<open>Consuming\<close>

definition get :: "scanner \<Rightarrow> (scan_error + nat) \<times> scanner" where
  "get s =
     (case decode1 (s_input s) of
        Inl e \<Rightarrow> (Inl e, s)
      | Inr (c, sz) \<Rightarrow>
          (Inr c,
           (if isNewline c then s\<lparr>s_line := s_line s + 1, s_column := 1\<rparr>
            else s\<lparr>s_column := s_column s + 1\<rparr>)\<lparr>s_input := drop sz (s_input s)\<rparr>))"

definition skip :: "scanner \<Rightarrow> scanner" where
  "skip s = snd (get s)"

definition copyInput :: "nat \<Rightarrow> scanner \<Rightarrow> bytes" where
  "copyInput sz s = take sz (s_input s)"

definition Offset :: "scanner \<Rightarrow> nat" where
  "Offset s = length (s_raw s) - length (s_input s)"

section \<open>Marks\<close>

definition pushMark :: "scanner \<Rightarrow> scanner" where
  "pushMark s = s\<lparr>s_marks := s_marks s @ [length (s_raw s) - length (s_input s)]\<rparr>"

definition popMark :: "scanner \<Rightarrow> scanner" where
  "popMark s = (if length (s_marks s) > 0 then s\<lparr>s_marks := butlast (s_marks s)\<rparr> else s)"

definition copyFromMark :: "scanner \<Rightarrow> bytes" where
  "copyFromMark s =
     (let p = last (s_marks s); newPos = length (s_raw s) - length (s_input s)
      in take (newPos - p) (drop p (s_raw s)))"

text \<open>\<open>s.pushMark(); defer s.popMark()\<close> around a function body.\<close>

definition with_mark :: "(scanner \<Rightarrow> 'r \<times> scanner) \<Rightarrow> scanner \<Rightarrow> 'r \<times> scanner" where
  "with_mark f s = (case f (pushMark s) of (r, s') \<Rightarrow> (r, popMark s'))"

section \<open>Consumption\<close>

text \<open>
  \<open>adv s d s'\<close>: going from \<open>s\<close> to \<open>s'\<close> consumed exactly the bytes \<open>d\<close> and touched nothing
  but the position.  \<open>wf\<close>: the input is the unread end of the raw buffer.
\<close>

definition adv :: "scanner \<Rightarrow> bytes \<Rightarrow> scanner \<Rightarrow> bool" where
  "adv s d s' \<longleftrightarrow> s_input s = d @ s_input s' \<and> s_raw s' = s_raw s \<and> s_marks s' = s_marks s
     \<and> s_relaxed s' = s_relaxed s \<and> s_version s' = s_version s
     \<and> s_versionMarkerDetected s' = s_versionMarkerDetected s"

definition wf :: "scanner \<Rightarrow> bool" where
  "wf s \<longleftrightarrow> suffix (s_input s) (s_raw s)"

definition wf_mark :: "scanner \<Rightarrow> bool" where
  "wf_mark s \<longleftrightarrow> wf s \<and> s_marks s \<noteq> [] \<and> last (s_marks s) \<le> Offset s"

lemma wf_sliceScanner [simp]: "wf (sliceScanner inp)"
  by (simp add: wf_def sliceScanner_def)

lemma adv_refl [simp, intro]: "adv s [] s"
  by (simp add: adv_def)

lemma adv_trans: "adv s d s' \<Longrightarrow> adv s' e s'' \<Longrightarrow> adv s (d @ e) s''"
  by (simp add: adv_def)

lemma adv_wf: "adv s d s' \<Longrightarrow> wf s \<Longrightarrow> wf s'"
  by (auto simp: adv_def wf_def suffix_def)

lemma adv_length: "adv s d s' \<Longrightarrow> length (s_input s) = length d + length (s_input s')"
  by (simp add: adv_def)

lemma adv_unique: "adv s d s' \<Longrightarrow> adv s e s' \<Longrightarrow> d = e"
  by (simp add: adv_def)

lemma adv_wf_mark: "adv s d s' \<Longrightarrow> wf_mark s \<Longrightarrow> wf_mark s'"
  by (auto simp: wf_mark_def adv_wf adv_def Offset_def)

lemma wf_mark_wf [simp]: "wf_mark s \<Longrightarrow> wf s"
  by (simp add: wf_mark_def)

lemma copyFromMark_adv:
  assumes "adv s d s'" "wf_mark s"
  shows "copyFromMark s' = copyFromMark s @ d"
proof -
  obtain p where p: "s_raw s = p @ d @ s_input s'"
    using assms by (auto simp: adv_def wf_mark_def wf_def suffix_def)
  have "last (s_marks s) \<le> length p"
    using assms p by (simp add: wf_mark_def Offset_def adv_def)
  then show ?thesis
    using assms(1) p by (simp add: copyFromMark_def adv_def Let_def)
qed

lemma wf_mark_pushMark [simp]: "wf s \<Longrightarrow> wf_mark (pushMark s)"
  by (simp add: wf_mark_def pushMark_def wf_def Offset_def)

lemma copyFromMark_pushMark [simp]: "copyFromMark (pushMark s) = []"
  by (simp add: copyFromMark_def pushMark_def)

lemma pushMark_input [simp]: "s_input (pushMark s) = s_input s"
  by (simp add: pushMark_def)

lemma popMark_input [simp]: "s_input (popMark s) = s_input s"
  by (simp add: popMark_def)

lemma pushMark_decode [simp]:
  "peekSize (pushMark s) = peekSize s" "peek (pushMark s) = peek s"
  "peekTwo (pushMark s) = peekTwo s" "peekThree (pushMark s) = peekThree s"
  unfolding peekSize_def peek_def peekTwo_def peekTwoSize_def peekThree_def peekAtSize_def pushMark_input
  by (rule refl)+

lemma pop_push_adv: "adv (pushMark s) d s' \<Longrightarrow> adv s d (popMark s')"
  by (auto simp: adv_def pushMark_def popMark_def)

text \<open>The rule that carries most lexer proofs: a marked body returns what it consumed.\<close>

lemma with_mark_adv:
  assumes "with_mark f s = (r, s')" "\<And>s1 r s2. f s1 = (r, s2) \<Longrightarrow> \<exists>d. adv s1 d s2"
  shows "\<exists>d. adv s d s'"
  using assms by (fastforce simp: with_mark_def split: prod.splits intro: pop_push_adv)

lemma decode1_Inr:
  "decode1 inp = Inr (c, n) \<Longrightarrow>
     0 < n \<and> n \<le> 4 \<and> n \<le> length inp \<and> c \<noteq> RuneError \<and> take n inp = encode_rune c"
  using decode_rune_size [of inp c n] encode_decode_rune [of inp c n]
  by (auto simp: decode1_def split: prod.splits if_splits)

lemma decode1_EOF_iff: "decode1 inp = Inl io_EOF \<longleftrightarrow> inp = []"
  using decode_rune_size [of inp "fst (decode_rune inp)" "snd (decode_rune inp)"]
  by (auto simp: decode1_def split: prod.splits)

lemma decode1_ascii: "rune b < 0x80 \<Longrightarrow> decode1 (b # s) = Inr (rune b, 1)"
  by (simp add: decode1_def Let_def RuneError_def)

lemma get_Inr:
  assumes "get s = (Inr c, s')"
  shows "adv s (encode_rune c) s' \<and> peek s = Inr c"
proof -
  obtain n where n: "decode1 (s_input s) = Inr (c, n)"
    using assms by (auto simp: get_def split: sum.splits)
  then have "s_input s' = drop n (s_input s)"
    using assms by (auto simp: get_def)
  moreover have "take n (s_input s) = encode_rune c"
    using decode1_Inr [OF n] by simp
  ultimately show ?thesis
    using assms n append_take_drop_id [of n "s_input s"]
    by (auto simp: adv_def get_def peek_def peekSize_def split: if_splits)
qed

lemma get_Inl: "get s = (Inl e, s') \<Longrightarrow> s' = s \<and> peek s = Inl e"
  by (auto simp: get_def peek_def peekSize_def split: sum.splits)

lemma get_adv: "get s = (r, s') \<Longrightarrow> \<exists>d. adv s d s'"
  by (cases r) (auto dest: get_Inl get_Inr)

lemma peek_get: "peek s = Inr c \<Longrightarrow> \<exists>s'. get s = (Inr c, s')"
  by (auto simp: get_def peek_def peekSize_def split: sum.splits)

lemma skip_adv: "peek s = Inr c \<Longrightarrow> adv s (encode_rune c) (skip s)"
  using peek_get [of s c] get_Inr by (auto simp: skip_def)

lemma skip_adv_ex: "\<exists>d. adv s d (skip s)"
  using get_adv [of s "fst (get s)" "snd (get s)"] by (simp add: skip_def)

lemma peek_skip_less [simp]: "peek s = Inr c \<Longrightarrow> length (s_input (skip s)) < length (s_input s)"
  using adv_length [OF skip_adv [of s c]] by simp

lemma get_less [simp]: "get s = (Inr c, s') \<Longrightarrow> length (s_input s') < length (s_input s)"
  using get_Inr [of s c s'] by (auto simp: adv_def)

lemma peek_EOF_iff: "peek s = Inl io_EOF \<longleftrightarrow> s_input s = []"
  using decode1_EOF_iff [of "s_input s"] by (auto simp: peek_def peekSize_def split: sum.splits)

section \<open>Reading while a predicate holds\<close>

text \<open>
  \<open>readWhile\<close> passes each rune to a closure.  The closure's captured variables are the
  state \<open>st\<close>, threaded through the loop and returned at the end; it also sees the scanner,
  because the closure of \<open>readQuotedStringQ\<close> peeks ahead.
\<close>

type_synonym 'c closure = "'c \<Rightarrow> nat \<Rightarrow> scanner \<Rightarrow> bool \<times> 'c"

definition readWhile_stop :: "bool \<Rightarrow> nat \<Rightarrow> nat \<Rightarrow> scanner \<Rightarrow> scan_error + bytes" where
  "readWhile_stop valid c minLength s =
     (if \<not> valid then Inl (UnexpectedChar c)
      else let literal = copyFromMark s
           in if length literal < minLength then Inl ErrEndOfToken else Inr literal)"

function readWhile_loop ::
  "'c closure \<Rightarrow> nat \<Rightarrow> bool \<Rightarrow> 'c \<Rightarrow> scanner \<Rightarrow> ((scan_error + bytes) \<times> 'c) \<times> scanner" where
  "readWhile_loop validRune minLength valid st s =
     (case peek s of
        Inl e \<Rightarrow>
          if e \<noteq> io_EOF then ((Inl e, st), s)
          else ((readWhile_stop valid 0 minLength s, st), s)
      | Inr c \<Rightarrow>
          (case validRune st c s of (ok, st') \<Rightarrow>
             if ok then readWhile_loop validRune minLength True st' (skip s)
             else ((readWhile_stop valid c minLength s, st'), s)))"
  by pat_completeness auto
termination
  by (relation "measure (\<lambda>(_, _, _, _, s). length (s_input s))") auto

declare readWhile_loop.simps [simp del]

definition readWhileC ::
  "'c closure \<Rightarrow> 'c \<Rightarrow> nat \<Rightarrow> scanner \<Rightarrow> ((scan_error + bytes) \<times> 'c) \<times> scanner" where
  "readWhileC validRune st minLength = with_mark (readWhile_loop validRune minLength False st)"

text \<open>A closure that captures nothing.\<close>

definition readWhile :: "(nat \<Rightarrow> bool) \<Rightarrow> nat \<Rightarrow> scanner \<Rightarrow> (scan_error + bytes) \<times> scanner" where
  "readWhile validRune minLength s =
     (case readWhileC (\<lambda>_ c _. (validRune c, ())) () minLength s of ((r, _), s') \<Rightarrow> (r, s'))"

lemma readWhile_loop_spec:
  assumes "readWhile_loop p m valid st s = ((r, st'), s')"
  shows "\<exists>d. adv s d s' \<and> (\<forall>lit. r = Inr lit \<longrightarrow>
           (wf_mark s \<longrightarrow> lit = copyFromMark s @ d) \<and> m \<le> length lit \<and> (valid \<or> d \<noteq> []))"
  using assms
proof (induction p m valid st s arbitrary: r st' s' rule: readWhile_loop.induct)
  case (1 p m valid st s)
  show ?case
  proof (cases "peek s")
    case (Inl e)
    with "1.prems" show ?thesis
      by (intro exI [of _ "[]"])
        (auto simp: readWhile_loop.simps [of p m valid st s] readWhile_stop_def Let_def split: if_splits)
  next
    case (Inr c)
    obtain ok st1 where p: "p st c s = (ok, st1)" by fastforce
    show ?thesis
    proof (cases ok)
      case True
      with "1.prems" Inr p have rec: "readWhile_loop p m True st1 (skip s) = ((r, st'), s')"
        by (simp add: readWhile_loop.simps [of p m valid st s])
      from "1.IH" [OF Inr p [symmetric] True rec] obtain d where d: "adv (skip s) d s'"
        "\<forall>lit. r = Inr lit \<longrightarrow>
           (wf_mark (skip s) \<longrightarrow> lit = copyFromMark (skip s) @ d) \<and> m \<le> length lit"
        by auto
      have a: "adv s (encode_rune c) (skip s)" by (rule skip_adv [OF Inr])
      show ?thesis
        using adv_trans [OF a d(1)] d(2) copyFromMark_adv [OF a] adv_wf_mark [OF a]
        by (intro exI [of _ "encode_rune c @ d"]) auto
    next
      case False
      with "1.prems" Inr p show ?thesis
        by (intro exI [of _ "[]"])
          (auto simp: readWhile_loop.simps [of p m valid st s] readWhile_stop_def Let_def split: if_splits)
    qed
  qed
qed

lemma readWhileC_spec:
  assumes "readWhileC p st m s = ((r, st'), s')"
  shows "\<exists>d. adv s d s' \<and> (\<forall>lit. r = Inr lit \<longrightarrow> (wf s \<longrightarrow> lit = d) \<and> m \<le> length lit \<and> d \<noteq> [])"
proof -
  obtain s2 where s2: "readWhile_loop p m False st (pushMark s) = ((r, st'), s2)" "s' = popMark s2"
    using assms by (auto simp: readWhileC_def with_mark_def split: prod.splits)
  from readWhile_loop_spec [OF s2(1)] s2(2) show ?thesis
    by (auto intro: pop_push_adv)
qed

lemma readWhile_spec:
  assumes "readWhile p m s = (r, s')"
  shows "\<exists>d. adv s d s' \<and> (\<forall>lit. r = Inr lit \<longrightarrow> (wf s \<longrightarrow> lit = d) \<and> m \<le> length lit \<and> d \<noteq> [])"
  using assms readWhileC_spec [of "\<lambda>_ c _. (p c, ())" "()" m s]
  by (auto simp: readWhile_def split: prod.splits)

section \<open>Reading until a predicate holds\<close>

text \<open>\<open>readUntil\<close> returns its bytes together with an error, if any.\<close>

function readUntil_loop ::
  "(nat \<Rightarrow> bool) \<Rightarrow> bool \<Rightarrow> scanner \<Rightarrow> (bytes \<times> scan_error option) \<times> scanner" where
  "readUntil_loop stop includeStopChar s =
     (case peek s of
        Inl e \<Rightarrow> ((copyFromMark s, Some (eof_unexpected e)), s)
      | Inr c \<Rightarrow>
          if \<not> stop c then readUntil_loop stop includeStopChar (skip s)
          else let s' = (if includeStopChar then skip s else s)
               in ((copyFromMark s', None), s'))"
  by pat_completeness auto
termination
  by (relation "measure (\<lambda>(_, _, s). length (s_input s))") auto

declare readUntil_loop.simps [simp del]

definition readUntil ::
  "(nat \<Rightarrow> bool) \<Rightarrow> bool \<Rightarrow> scanner \<Rightarrow> (bytes \<times> scan_error option) \<times> scanner" where
  "readUntil stop includeStopChar = with_mark (readUntil_loop stop includeStopChar)"

lemma readUntil_loop_spec:
  assumes "readUntil_loop p inc s = ((lit, e), s')"
  shows "\<exists>d. adv s d s' \<and> (wf_mark s \<longrightarrow> lit = copyFromMark s @ d)"
  using assms
proof (induction p inc s arbitrary: lit e s' rule: readUntil_loop.induct)
  case (1 p inc s)
  show ?case
  proof (cases "peek s")
    case (Inl e')
    with "1.prems" show ?thesis
      by (intro exI [of _ "[]"]) (auto simp: readUntil_loop.simps [of p inc s])
  next
    case (Inr c)
    have a: "adv s (encode_rune c) (skip s)" by (rule skip_adv [OF Inr])
    show ?thesis
    proof (cases "p c")
      case False
      with "1.prems" Inr have "readUntil_loop p inc (skip s) = ((lit, e), s')"
        by (simp add: readUntil_loop.simps [of p inc s])
      from "1.IH" [OF Inr False this] obtain d where d: "adv (skip s) d s'"
        "wf_mark (skip s) \<longrightarrow> lit = copyFromMark (skip s) @ d" by auto
      show ?thesis
        using adv_trans [OF a d(1)] d(2) copyFromMark_adv [OF a] adv_wf_mark [OF a]
        by (intro exI [of _ "encode_rune c @ d"]) auto
    next
      case True
      with "1.prems" Inr a copyFromMark_adv [OF a] show ?thesis
        by (intro exI [of _ "if inc then encode_rune c else []"])
          (auto simp: readUntil_loop.simps [of p inc s] Let_def)
    qed
  qed
qed

lemma readUntil_spec:
  assumes "readUntil p inc s = ((lit, e), s')"
  shows "\<exists>d. adv s d s' \<and> (wf s \<longrightarrow> lit = d)"
proof -
  obtain s2 where s2: "readUntil_loop p inc (pushMark s) = ((lit, e), s2)" "s' = popMark s2"
    using assms by (auto simp: readUntil_def with_mark_def split: prod.splits)
  from readUntil_loop_spec [OF s2(1)] s2(2) show ?thesis
    by (auto intro: pop_push_adv)
qed

end
