(* ===== verification/ReadType.thy ===== *)
theory ReadType
  imports Scanner
begin

text \<open>
  The token readers (\<open>internal/tokenizer/readtype.go\<close>): comments, raw, quoted and
  multi-line strings, bare identifiers, the KDL v2 \<open>#\<close> tokens and the numbers.  Each reader
  is a function from the scanner to its result and the scanner after it; every loop is a
  function of its own, terminating because it consumes input.
\<close>

lemma skip_le [simp]: "length (s_input (skip s)) \<le> length (s_input s)"
  using skip_adv_ex [of s] by (auto simp: adv_def)

lemma get_skip_less [simp]:
  "get s = (Inr c, s1) \<Longrightarrow> length (s_input (skip s1)) < length (s_input s)"
  using get_less [of s c s1] skip_le [of s1] by linarith

lemma get_less_sym: "(Inr c, s1) = get s \<Longrightarrow> length (s_input s1) < length (s_input s)"
  by (metis get_less)

lemma get_skip_less_sym:
  "(Inr c, s1) = get s \<Longrightarrow> length (s_input (skip s1)) < length (s_input s)"
  by (metis get_skip_less)

lemma get_less_trans_sym:
  "(Inr c, s2) = get s1 \<Longrightarrow> length (s_input s1) < n \<Longrightarrow> length (s_input s2) < n"
  by (metis get_less less_trans)

lemma skip_less_trans: "length (s_input s) < n \<Longrightarrow> length (s_input (skip s)) < n"
  using skip_le [of s] by linarith

section \<open>Whitespace and comments\<close>

definition readWhitespace :: "scanner \<Rightarrow> bytes \<times> scanner" where
  "readWhitespace s =
     (case readWhile isWhiteSpace 1 s of (Inl _, s') \<Rightarrow> ([], s') | (Inr ws, s') \<Rightarrow> (ws, s'))"

definition skipWhitespace :: "scanner \<Rightarrow> scan_error option \<times> scanner" where
  "skipWhitespace s =
     (case readWhile isWhiteSpace 0 s of (Inl e, s') \<Rightarrow> (Some e, s') | (Inr _, s') \<Rightarrow> (None, s'))"

function multiLineComment_loop :: "int \<Rightarrow> scanner \<Rightarrow> (scan_error + bytes) \<times> scanner" where
  "multiLineComment_loop depth s =
     (case get s of
        (Inl e, s1) \<Rightarrow> (Inl (eof_unexpected e), s1)
      | (Inr c, s1) \<Rightarrow>
          if c = rune CHR ''*'' then
            (if peek s1 = Inr (rune CHR ''/'') then
               let s2 = skip s1
               in if depth - 1 = 0 then (Inr (copyFromMark s2), s2)
                  else multiLineComment_loop (depth - 1) s2
             else multiLineComment_loop depth s1)
          else if c = rune CHR ''/'' then
            (if peek s1 = Inr (rune CHR ''*'') then multiLineComment_loop (depth + 1) (skip s1)
             else multiLineComment_loop depth s1)
          else multiLineComment_loop depth s1)"
  by pat_completeness auto
termination
  by (relation "measure (\<lambda>(_, s). length (s_input s))") (auto intro: get_less_sym get_skip_less_sym)

declare multiLineComment_loop.simps [simp del]

definition readMultiLineComment :: "scanner \<Rightarrow> (scan_error + bytes) \<times> scanner" where
  "readMultiLineComment = with_mark (multiLineComment_loop 0)"

definition readSingleLineComment :: "scanner \<Rightarrow> (scan_error + bytes) \<times> scanner" where
  "readSingleLineComment s =
     (case readUntil isNewline False s of
        ((literal, None), s') \<Rightarrow> (Inr literal, s')
      | ((literal, Some e), s') \<Rightarrow>
          if e = io_ErrUnexpectedEOF then (Inr literal, s') else (Inl e, s'))"

section \<open>Raw strings\<close>

text \<open>The loop that counts closing hashes: \<open>k\<close> more are wanted, \<open>m\<close> were matched.\<close>

fun match_hashes :: "nat \<Rightarrow> nat \<Rightarrow> scanner \<Rightarrow> nat \<times> scanner" where
  "match_hashes 0 m s = (m, s)"
| "match_hashes (Suc k) m s =
     (if peek s = Inr (rune CHR ''#'') then match_hashes k (m + 1) (skip s) else (m, s))"

lemma match_hashes_le [simp]:
  "match_hashes k m s = (n, s') \<Longrightarrow> length (s_input s') \<le> length (s_input s)"
  by (induction k m s rule: match_hashes.induct) (auto split: if_splits intro: order_trans)

lemma match_hashes_less_sym:
  "(m, s2) = match_hashes k j s1 \<Longrightarrow> length (s_input s1) < n \<Longrightarrow> length (s_input s2) < n"
  by (metis match_hashes_le order_le_less_trans)

lemma match_hashes_skip2_less_sym:
  "(m, s2) = match_hashes k j (skip (skip s1)) \<Longrightarrow> length (s_input s1) < n \<Longrightarrow> length (s_input s2) < n"
  by (erule match_hashes_less_sym) (intro skip_less_trans)

function readRawStringContent :: "nat \<Rightarrow> scanner \<Rightarrow> (scan_error + unit) \<times> scanner" where
  "readRawStringContent hashCount s =
     (case get s of
        (Inl e, s1) \<Rightarrow> (Inl (eof_unexpected e), s1)
      | (Inr c, s1) \<Rightarrow>
          if c = 0x22 then
            (case match_hashes hashCount 0 s1 of (matchedHashes, s2) \<Rightarrow>
               if matchedHashes = hashCount then (Inr (), s2)
               else readRawStringContent hashCount s2)
          else if s_version s1 = VersionV2 \<and> isNewline c then (Inl (UnexpectedChar c), s1)
          else readRawStringContent hashCount s1)"
  by pat_completeness auto
termination
  by (relation "measure (\<lambda>(_, s). length (s_input s))")
    (auto intro: get_less_sym match_hashes_less_sym)

declare readRawStringContent.simps [simp del]

function rawString_hashLoop :: "nat \<Rightarrow> scanner \<Rightarrow> (scan_error + nat) \<times> scanner" where
  "rawString_hashLoop startHashes s =
     (case get s of
        (Inl e, s1) \<Rightarrow> (Inl (eof_unexpected e), s1)
      | (Inr c, s1) \<Rightarrow>
          if c = 0x22 then (Inr startHashes, s1)
          else if c = rune CHR ''#'' then rawString_hashLoop (startHashes + 1) s1
          else (Inl (UnexpectedChar c), s1))"
  by pat_completeness auto
termination
  by (relation "measure (\<lambda>(_, s). length (s_input s))") (auto intro: get_less_sym)

declare rawString_hashLoop.simps [simp del]

definition rawString_body :: "scanner \<Rightarrow> (scan_error + bytes) \<times> scanner" where
  "rawString_body s =
     (case get s of
        (Inl e, s1) \<Rightarrow> (Inl (eof_unexpected e), s1)
      | (Inr c, s1) \<Rightarrow>
          if c \<noteq> rune CHR ''r'' then (Inl (UnexpectedChar c), s1)
          else
            (case rawString_hashLoop 0 s1 of
               (Inl e, s2) \<Rightarrow> (Inl e, s2)
             | (Inr startHashes, s2) \<Rightarrow>
                 (case readRawStringContent startHashes s2 of
                    (Inl e, s3) \<Rightarrow> (Inl e, s3)
                  | (Inr _, s3) \<Rightarrow> (Inr (copyFromMark s3), s3))))"

definition readRawString :: "scanner \<Rightarrow> (scan_error + bytes) \<times> scanner" where
  "readRawString = with_mark rawString_body"

section \<open>Quoted strings\<close>

text \<open>The variables captured by the closure of \<open>readQuotedStringQ\<close>.\<close>

record quote_state =
  q_escaped :: bool
  q_foldingWhitespace :: bool
  q_done :: bool
  q_first :: bool

definition quoted_rune :: "nat \<Rightarrow> quote_state closure" where
  "quoted_rune q st c s =
     (if q_first st then (True, st\<lparr>q_first := False\<rparr>)
      else if q_done st then (False, st)
      else if q_foldingWhitespace st \<and> (isWhiteSpace c \<or> isNewline c) then (True, st)
      else
        let st = st\<lparr>q_foldingWhitespace := False\<rparr>
        in if c = 0x5C then
             (if s_version s = VersionV2 \<and> peekAt 1 s = Inr (rune CHR ''/'') then (False, st)
              else (True, st\<lparr>q_escaped := \<not> q_escaped st\<rparr>))
           else if c = q then
             (if q_escaped st then (True, st\<lparr>q_escaped := False\<rparr>)
              else (True, st\<lparr>q_done := True\<rparr>))
           else if c = 0x20 \<or> c = 0x09 then
             (if s_version s = VersionV2 \<and> q_escaped st
              then (True, st\<lparr>q_escaped := False, q_foldingWhitespace := True\<rparr>)
              else (True, st))
           else if c = 0x0A \<or> c = 0x0D then
             (if s_version s \<noteq> VersionV2 then (True, st)
              else if \<not> q_escaped st then (False, st)
              else (True, st\<lparr>q_escaped := False, q_foldingWhitespace := True\<rparr>))
           else (True, st\<lparr>q_escaped := False\<rparr>))"

definition quote_start :: quote_state where
  "quote_start = \<lparr>q_escaped = False, q_foldingWhitespace = False, q_done = False, q_first = True\<rparr>"

definition readQuotedStringQ :: "nat \<Rightarrow> scanner \<Rightarrow> (scan_error + bytes) \<times> scanner" where
  "readQuotedStringQ q s =
     (case peek s of
        Inl e \<Rightarrow> (Inl (eof_unexpected e), s)
      | Inr c \<Rightarrow>
          if c \<noteq> q then (Inl (UnexpectedChar c), s)
          else (case readWhileC (quoted_rune q) quote_start 2 s of ((r, _), s') \<Rightarrow> (r, s')))"

definition readQuotedString :: "scanner \<Rightarrow> (scan_error + bytes) \<times> scanner" where
  "readQuotedString = readQuotedStringQ 0x22"

definition readSingleQuotedString :: "scanner \<Rightarrow> (scan_error + bytes) \<times> scanner" where
  "readSingleQuotedString = readQuotedStringQ 0x27"

definition readExpressionString :: "scanner \<Rightarrow> (scan_error + bytes) \<times> scanner" where
  "readExpressionString = readQuotedStringQ 0x60"

section \<open>Bare identifiers\<close>

definition bare_read :: "scanner \<Rightarrow> (scan_error + token_id \<times> bytes) \<times> scanner" where
  "bare_read s =
     (case readWhile (\<lambda>c. isBareIdentifierCharVersion c (s_relaxed s) False (s_version s)) 1 s of
        (Inl e, s') \<Rightarrow> (Inl e, s')
      | (Inr literal, s') \<Rightarrow>
          if s_version s' = VersionV2
             \<and> literal \<in> {''true'', ''false'', ''null'', ''inf'', ''-inf'', ''nan''}
          then (Inl (BareKeywordInV2 literal), s')
          else if literal = ''true'' \<or> literal = ''false'' then (Inr (Boolean, literal), s')
          else if literal = ''null'' then (Inr (Null, literal), s')
          else (Inr (BareIdentifier, literal), s'))"

definition readBareIdentifier :: "scanner \<Rightarrow> (scan_error + token_id \<times> bytes) \<times> scanner" where
  "readBareIdentifier s =
     (case peek s of
        Inl e \<Rightarrow> (Inl (eof_unexpected e), s)
      | Inr c \<Rightarrow>
          if c = rune CHR ''+'' \<or> c = rune CHR ''-'' then
            (case peekTwo s of
               Inl e \<Rightarrow>
                 if e = io_EOF then
                   (case readWhile isSign 1 s of
                      (Inl e', s') \<Rightarrow> (Inl e', s')
                    | (Inr literal, s') \<Rightarrow> (Inr (BareIdentifier, literal), s'))
                 else (Inl e, s)
             | Inr (_, c2) \<Rightarrow>
                 if isDigit c2 then (Inl (UnexpectedChar c2), s) else bare_read s)
          else if \<not> isBareIdentifierStartCharVersion c (s_relaxed s) (s_version s)
          then (Inl (UnexpectedChar c), s)
          else bare_read s)"

section \<open>Multi-line strings\<close>

fun get3 :: "nat \<Rightarrow> scanner \<Rightarrow> (scan_error + unit) \<times> scanner" where
  "get3 0 s = (Inr (), s)"
| "get3 (Suc n) s =
     (case get s of (Inl _, s1) \<Rightarrow> (Inl io_ErrUnexpectedEOF, s1) | (Inr _, s1) \<Rightarrow> get3 n s1)"

text \<open>After the opening delimiter: blanks, then a newline that is left unread.\<close>

function opening_line :: "scan_error \<Rightarrow> scanner \<Rightarrow> (scan_error + unit) \<times> scanner" where
  "opening_line err s =
     (case peek s of
        Inl _ \<Rightarrow> (Inl io_ErrUnexpectedEOF, s)
      | Inr c \<Rightarrow>
          if c = 0x20 \<or> c = 0x09 then opening_line err (skip s)
          else if c = 0x0A \<or> c = 0x0D then (Inr (), s)
          else (Inl err, s))"
  by pat_completeness auto
termination
  by (relation "measure (\<lambda>(_, s). length (s_input s))") auto

declare opening_line.simps [simp del]

function multiLineExpression_loop :: "scanner \<Rightarrow> (scan_error + bytes) \<times> scanner" where
  "multiLineExpression_loop s =
     (case get s of
        (Inl e, s1) \<Rightarrow> (Inl (eof_unexpected e), s1)
      | (Inr c, s1) \<Rightarrow>
          if c = 0x5C then
            (case get s1 of
               (Inl _, s2) \<Rightarrow> (Inl io_ErrUnexpectedEOF, s2)
             | (Inr _, s2) \<Rightarrow> multiLineExpression_loop s2)
          else if c = 0x60 \<and> peekTwo s1 = Inr (0x60, 0x60) then
            let s2 = skip (skip s1) in (Inr (copyFromMark s2), s2)
          else multiLineExpression_loop s1)"
  by pat_completeness auto
termination
  by (relation "measure (\<lambda>s. length (s_input s))")
    (auto intro: get_less_sym get_less_trans_sym)

declare multiLineExpression_loop.simps [simp del]

definition multiLineExpression_body :: "scanner \<Rightarrow> (scan_error + bytes) \<times> scanner" where
  "multiLineExpression_body s =
     (case get3 3 s of
        (Inl e, s1) \<Rightarrow> (Inl e, s1)
      | (Inr _, s1) \<Rightarrow>
          (case opening_line ContentAfterTripleBacktick s1 of
             (Inl e, s2) \<Rightarrow> (Inl e, s2)
           | (Inr _, s2) \<Rightarrow> multiLineExpression_loop s2))"

definition readMultiLineExpressionString :: "scanner \<Rightarrow> (scan_error + bytes) \<times> scanner" where
  "readMultiLineExpressionString = with_mark multiLineExpression_body"

function multiLineString_loop :: "nat \<Rightarrow> scanner \<Rightarrow> (scan_error + bytes) \<times> scanner" where
  "multiLineString_loop hashCount s =
     (case get s of
        (Inl e, s1) \<Rightarrow> (Inl (eof_unexpected e), s1)
      | (Inr c, s1) \<Rightarrow>
          if c = 0x5C \<and> hashCount = 0 then
            (case get s1 of
               (Inl _, s2) \<Rightarrow> (Inl io_ErrUnexpectedEOF, s2)
             | (Inr _, s2) \<Rightarrow> multiLineString_loop hashCount s2)
          else if c = 0x22 \<and> peekTwo s1 = Inr (0x22, 0x22) then
            (case match_hashes hashCount 0 (skip (skip s1)) of (matchedHashes, s2) \<Rightarrow>
               if matchedHashes = hashCount then (Inr (copyFromMark s2), s2)
               else multiLineString_loop hashCount s2)
          else multiLineString_loop hashCount s1)"
  by pat_completeness auto
termination
  by (relation "measure (\<lambda>(_, s). length (s_input s))")
    (auto intro: get_less_sym get_less_trans_sym match_hashes_skip2_less_sym)

declare multiLineString_loop.simps [simp del]

definition readMultiLineStringRawNoMark :: "nat \<Rightarrow> scanner \<Rightarrow> (scan_error + bytes) \<times> scanner" where
  "readMultiLineStringRawNoMark hashCount s =
     (case get3 3 s of
        (Inl e, s1) \<Rightarrow> (Inl e, s1)
      | (Inr _, s1) \<Rightarrow>
          (case opening_line ContentAfterTripleQuote s1 of
             (Inl e, s2) \<Rightarrow> (Inl e, s2)
           | (Inr _, s2) \<Rightarrow> multiLineString_loop hashCount s2))"

definition readMultiLineStringRaw :: "nat \<Rightarrow> scanner \<Rightarrow> (scan_error + bytes) \<times> scanner" where
  "readMultiLineStringRaw hashCount = with_mark (readMultiLineStringRawNoMark hashCount)"

definition readMultiLineString :: "scanner \<Rightarrow> (scan_error + bytes) \<times> scanner" where
  "readMultiLineString = readMultiLineStringRaw 0"

end
