(* ===== verification/ReadIdent.thy ===== *)
theory ReadIdent
  imports ReadType
begin

text \<open>
  The remaining readers of \<open>internal/tokenizer/readtype.go\<close>: the KDL v2 tokens that start with
  \<open>#\<close>, the dispatch of \<open>readIdentifier\<close>, and the numbers.
\<close>

section \<open>Hash tokens\<close>

text \<open>The loop over \<open>[]rune(word)\<close> that expects the runes of a keyword one by one.\<close>

fun expect_runes :: "nat list \<Rightarrow> scanner \<Rightarrow> (scan_error + unit) \<times> scanner" where
  "expect_runes [] s = (Inr (), s)"
| "expect_runes (expected # rs) s =
     (case get s of
        (Inl e, s1) \<Rightarrow> (Inl e, s1)
      | (Inr ch, s1) \<Rightarrow>
          if ch \<noteq> expected then (Inl (UnexpectedChar ch), s1) else expect_runes rs s1)"

definition hash_keyword ::
  "string \<Rightarrow> token_id \<Rightarrow> scanner \<Rightarrow> (scan_error + token_id \<times> bytes) \<times> scanner" where
  "hash_keyword word tid s =
     (case expect_runes (map rune word) s of
        (Inl e, s1) \<Rightarrow> (Inl e, s1)
      | (Inr _, s1) \<Rightarrow> (Inr (tid, copyFromMark s1), s1))"

function count_hashes :: "nat \<Rightarrow> scanner \<Rightarrow> (scan_error + nat) \<times> scanner" where
  "count_hashes hashCount s =
     (case peek s of
        Inl _ \<Rightarrow> (Inl io_ErrUnexpectedEOF, s)
      | Inr c \<Rightarrow>
          if c \<noteq> rune CHR ''#'' then (Inr hashCount, s)
          else count_hashes (hashCount + 1) (skip s))"
  by pat_completeness auto
termination
  by (relation "measure (\<lambda>(_, s). length (s_input s))") auto

declare count_hashes.simps [simp del]

definition hash_string :: "scanner \<Rightarrow> (scan_error + token_id \<times> bytes) \<times> scanner" where
  "hash_string s =
     (case count_hashes 1 s of
        (Inl e, s1) \<Rightarrow> (Inl e, s1)
      | (Inr hashCount, s1) \<Rightarrow>
          if peekThree s1 = Inr (0x22, 0x22, 0x22) then
            (case readMultiLineStringRawNoMark hashCount s1 of
               (Inl e, s2) \<Rightarrow> (Inl e, s2)
             | (Inr literal, s2) \<Rightarrow> (Inr (QuotedString, literal), s2))
          else
            (case peek s1 of
               Inl _ \<Rightarrow> (Inl io_ErrUnexpectedEOF, s1)
             | Inr c \<Rightarrow>
                 if c \<noteq> 0x22 then (Inl ExpectedQuoteAfterHash, s1)
                 else
                   (case readRawStringContent hashCount (skip s1) of
                      (Inl e, s2) \<Rightarrow> (Inl e, s2)
                    | (Inr _, s2) \<Rightarrow> (Inr (RawString, copyFromMark s2), s2))))"

definition hash_body :: "scanner \<Rightarrow> (scan_error + token_id \<times> bytes) \<times> scanner" where
  "hash_body s =
     (case get s of
        (Inl e, s1) \<Rightarrow> (Inl e, s1)
      | (Inr _, s1) \<Rightarrow>
          (case peek s1 of
             Inl e \<Rightarrow> (Inl (eof_unexpected e), s1)
           | Inr c \<Rightarrow>
               if c = 0x22 \<or> c = rune CHR ''#'' then hash_string s1
               else if c = rune CHR ''t'' then hash_keyword ''true'' Boolean s1
               else if c = rune CHR ''f'' then hash_keyword ''false'' Boolean s1
               else if c = rune CHR ''n'' then
                 (case peekTwo s1 of
                    Inl e \<Rightarrow> (Inl e, s1)
                  | Inr (_, c2) \<Rightarrow>
                      if c2 = rune CHR ''u'' then hash_keyword ''null'' Null s1
                      else hash_keyword ''nan'' Keyword s1)
               else if c = rune CHR ''i'' then hash_keyword ''inf'' Keyword s1
               else if c = rune CHR ''-'' then hash_keyword ''-inf'' Keyword s1
               else (Inl (UnexpectedAfterHash c), s1)))"

definition readHashToken :: "scanner \<Rightarrow> (scan_error + token_id \<times> bytes) \<times> scanner" where
  "readHashToken = with_mark hash_body"

section \<open>Identifiers\<close>

text \<open>Pairs the literal of a reader with its token id.\<close>

definition as_token ::
  "token_id \<Rightarrow> (scan_error + bytes) \<times> scanner \<Rightarrow> (scan_error + token_id \<times> bytes) \<times> scanner" where
  "as_token tid r =
     (case r of (Inl e, s) \<Rightarrow> (Inl e, s) | (Inr literal, s) \<Rightarrow> (Inr (tid, literal), s))"

text \<open>The part of \<open>readIdentifier\<close> after its switch.\<close>

definition identifier_rest :: "nat \<Rightarrow> scanner \<Rightarrow> (scan_error + token_id \<times> bytes) \<times> scanner" where
  "identifier_rest c s =
     (case peekTwo s of
        Inl _ \<Rightarrow> readBareIdentifier s
      | Inr (_, c2) \<Rightarrow>
          if \<not> isBareIdentifierStartCharVersion c (s_relaxed s) (s_version s)
             \<and> \<not> (c = rune CHR ''-'' \<and> \<not> isDigit c2)
          then (Inl (UnexpectedChar c), s)
          else readBareIdentifier s)"

definition readIdentifier :: "scanner \<Rightarrow> (scan_error + token_id \<times> bytes) \<times> scanner" where
  "readIdentifier s =
     (case peek s of
        Inl e \<Rightarrow> (Inl e, s)
      | Inr c \<Rightarrow>
          if c \<le> 0x20 \<or> c > 0x10FFFF then (Inl (UnexpectedChar c), s)
          else if c = rune CHR ''r'' \<and> s_version s \<noteq> VersionV2
                  \<and> peekTwo s \<in> {Inr (c, rune CHR ''#''), Inr (c, 0x22)} then
            as_token RawString (readRawString s)
          else if c = 0x22 then
            (if s_version s = VersionV2 \<and> peekThree s = Inr (c, 0x22, 0x22)
             then as_token QuotedString (readMultiLineString s)
             else as_token QuotedString (readQuotedString s))
          else if c = 0x60 then
            (if peekThree s = Inr (c, 0x60, 0x60)
             then as_token ExpressionString (readMultiLineExpressionString s)
             else as_token ExpressionString (readExpressionString s))
          else if c = 0x27 \<and> s_version s \<noteq> VersionV2 \<and> permit (s_relaxed s) NGINXSyntax then
            as_token QuotedString (readSingleQuotedString s)
          else identifier_rest c s)"

section \<open>Numbers\<close>

text \<open>Captured variables of the closure of \<open>readInteger\<close>.\<close>

record integer_state =
  i_first :: bool
  i_multiplierOK :: bool
  i_hasMultiplier :: bool

definition multiplier_runes :: "nat set" where
  "multiplier_runes = set (map rune ''hmsukKMgGtTb'') \<union> {0xB5}"

definition integer_rune :: "flags \<Rightarrow> integer_state closure" where
  "integer_rune r st c s =
     (if \<not> permit r MultiplierSuffixes then
        (if i_first st then (isDigit c, st\<lparr>i_first := False\<rparr>)
         else (isDigit c \<or> c = rune CHR ''_'', st))
      else if i_first st \<and> (c = rune CHR ''+'' \<or> c = rune CHR ''-'') then
        (True, st\<lparr>i_first := False, i_multiplierOK := False\<rparr>)
      else
        let st = st\<lparr>i_first := False\<rparr>
        in if i_multiplierOK st \<and> c \<in> multiplier_runes then (True, st\<lparr>i_hasMultiplier := True\<rparr>)
           else (isDigit c \<or> c = rune CHR ''_'', st))"

definition integer_start :: integer_state where
  "integer_start = \<lparr>i_first = True, i_multiplierOK = True, i_hasMultiplier = False\<rparr>"

definition readInteger :: "scanner \<Rightarrow> (scan_error + token_id \<times> bytes) \<times> scanner" where
  "readInteger s =
     (case readWhileC (integer_rune (s_relaxed s)) integer_start 1 s of
        ((Inl e, _), s') \<Rightarrow> (Inl e, s')
      | ((Inr data, st), s') \<Rightarrow>
          (Inr (if i_hasMultiplier st then SuffixedDecimal else Decimal, data), s'))"

definition signedInteger_body :: "scanner \<Rightarrow> (scan_error + token_id \<times> bytes) \<times> scanner" where
  "signedInteger_body s =
     (case peek s of
        Inl e \<Rightarrow> (Inl e, s)
      | Inr c \<Rightarrow>
          (case readInteger (if c = rune CHR ''+'' \<or> c = rune CHR ''-'' then skip s else s) of
             (Inl e, s2) \<Rightarrow> (Inl e, s2)
           | (Inr (tokenID, _), s2) \<Rightarrow> (Inr (tokenID, copyFromMark s2), s2)))"

definition readSignedInteger :: "scanner \<Rightarrow> (scan_error + token_id \<times> bytes) \<times> scanner" where
  "readSignedInteger = with_mark signedInteger_body"

text \<open>The three parts of \<open>readDecimal\<close> after the leading integer.\<close>

definition decimal_fraction :: "token_id \<Rightarrow> scanner \<Rightarrow> (scan_error + token_id) \<times> scanner" where
  "decimal_fraction tokenID s =
     (if peek s = Inr (rune CHR ''.'') then
        (case readInteger (skip s) of
           (Inl e, s1) \<Rightarrow> (Inl e, s1)
         | (Inr (tokenID', _), s1) \<Rightarrow> (Inr tokenID', s1))
      else (Inr tokenID, s))"

definition decimal_exponent :: "scanner \<Rightarrow> (scan_error + unit) \<times> scanner" where
  "decimal_exponent s =
     (if peek s = Inr (rune CHR ''e'') \<or> peek s = Inr (rune CHR ''E'') then
        (case readSignedInteger (skip s) of
           (Inl e, s1) \<Rightarrow> (Inl e, s1)
         | (Inr _, s1) \<Rightarrow> (Inr (), s1))
      else (Inr (), s))"

definition decimal_end ::
  "token_id \<Rightarrow> scanner \<Rightarrow> (scan_error + token_id \<times> bytes) \<times> scanner" where
  "decimal_end tokenID s =
     (case peek s of
        Inl _ \<Rightarrow> (Inr (tokenID, copyFromMark s), s)
      | Inr c \<Rightarrow>
          if isSeparator c then (Inr (tokenID, copyFromMark s), s)
          else if permit (s_relaxed s) NGINXSyntax \<and> isBareIdentifierChar c (s_relaxed s) then
            (case readWhile (\<lambda>c. isBareIdentifierChar c (s_relaxed s)) 1 s of
               (Inl e, s1) \<Rightarrow> (Inl e, s1)
             | (Inr _, s1) \<Rightarrow> (Inr (BareIdentifier, copyFromMark s1), s1))
          else (Inl (UnexpectedChar c), s))"

definition decimal_body :: "scanner \<Rightarrow> (scan_error + token_id \<times> bytes) \<times> scanner" where
  "decimal_body s =
     (case readSignedInteger s of
        (Inl e, s1) \<Rightarrow> (Inl e, s1)
      | (Inr (tokenID, _), s1) \<Rightarrow>
          (case decimal_fraction tokenID s1 of
             (Inl e, s2) \<Rightarrow> (Inl e, s2)
           | (Inr tokenID', s2) \<Rightarrow>
               (case decimal_exponent s2 of
                  (Inl e, s3) \<Rightarrow> (Inl e, s3)
                | (Inr _, s3) \<Rightarrow> decimal_end tokenID' s3)))"

definition readDecimal :: "scanner \<Rightarrow> (scan_error + token_id \<times> bytes) \<times> scanner" where
  "readDecimal = with_mark decimal_body"

text \<open>\<open>readNumericBase\<close>; the captured variable of its closures counts the two prefix runes.\<close>

definition base_rune :: "(nat \<Rightarrow> bool) \<Rightarrow> nat closure" where
  "base_rune digit n c s = (if n < 2 then (True, n + 1) else (digit c \<or> c = rune CHR ''_'', n))"

definition readNumericBase :: "(nat \<Rightarrow> bool) \<Rightarrow> scanner \<Rightarrow> (scan_error + bytes) \<times> scanner" where
  "readNumericBase digit s =
     (case readWhileC (base_rune digit) 0 3 s of
        ((Inl e, _), s') \<Rightarrow> (Inl e, s')
      | ((Inr lit, _), s') \<Rightarrow>
          if lit ! 2 = CHR ''_'' then (Inl (UnexpectedChar (rune CHR ''_'')), s')
          else
            (case peek s' of
               Inl _ \<Rightarrow> (Inr lit, s')
             | Inr c \<Rightarrow>
                 if \<not> isWhiteSpace c \<and> \<not> isNewline c then (Inl (UnexpectedChar c), s')
                 else (Inr lit, s')))"

definition hex_digit :: "nat \<Rightarrow> bool" where
  "hex_digit c \<longleftrightarrow> isDigit c \<or> (rune CHR ''a'' \<le> c \<and> c \<le> rune CHR ''f'')
     \<or> (rune CHR ''A'' \<le> c \<and> c \<le> rune CHR ''F'')"

definition octal_digit :: "nat \<Rightarrow> bool" where
  "octal_digit c \<longleftrightarrow> rune CHR ''0'' \<le> c \<and> c \<le> rune CHR ''7''"

definition binary_digit :: "nat \<Rightarrow> bool" where
  "binary_digit c \<longleftrightarrow> c = rune CHR ''0'' \<or> c = rune CHR ''1''"

definition readHexadecimal :: "scanner \<Rightarrow> (scan_error + bytes) \<times> scanner" where
  "readHexadecimal = readNumericBase hex_digit"

definition readOctal :: "scanner \<Rightarrow> (scan_error + bytes) \<times> scanner" where
  "readOctal = readNumericBase octal_digit"

definition readBinary :: "scanner \<Rightarrow> (scan_error + bytes) \<times> scanner" where
  "readBinary = readNumericBase binary_digit"

end
