(* ===== verification/Excerpt.thy ===== *)
theory Excerpt
  imports Scanner
begin

text \<open>
  Source excerpts for error messages (\<open>internal/tokenizer/scanner.go\<close>, lines 784 to 892).
  The code indexes and slices the raw buffer; a Go panic for an index or a slice bound out of
  range is the value \<open>None\<close>.
\<close>

section \<open>Definitions\<close>

definition Pos :: "scanner \<Rightarrow> nat \<times> nat" where
  "Pos s = (s_line s + 1, s_column s + 1)"

text \<open>\<open>b[i]\<close>, \<open>b[i:j]\<close> and \<open>b[i] = c\<close>.  Go allows a slice of \<open>b\<close> up to its capacity; here the
  bound is its length, so that no byte outside the buffer is ever shown.\<close>

definition byte_at :: "bytes \<Rightarrow> nat \<Rightarrow> char option" where
  "byte_at b i = (if i < length b then Some (b ! i) else None)"

definition subslice :: "bytes \<Rightarrow> nat \<Rightarrow> nat \<Rightarrow> bytes option" where
  "subslice b i j = (if i \<le> j \<and> j \<le> length b then Some (take (j - i) (drop i b)) else None)"

definition set_byte :: "nat \<Rightarrow> char \<Rightarrow> bytes \<Rightarrow> bytes option" where
  "set_byte i c b = (if i < length b then Some (b[i := c]) else None)"

text \<open>The backward search for the start of the line, and the forward one for its end.\<close>

fun line_start :: "bytes \<Rightarrow> nat \<Rightarrow> nat option" where
  "line_start raw 0 = Some 0"
| "line_start raw (Suc start) =
     Option.bind (byte_at raw start)
       (\<lambda>c. if isNewline (rune c) then Some (Suc start) else line_start raw start)"

function line_end :: "bytes \<Rightarrow> nat \<Rightarrow> nat option" where
  "line_end raw e =
     (if e < length raw then
        Option.bind (byte_at raw e) (\<lambda>c. if \<not> isNewline (rune c) then line_end raw (Suc e) else Some e)
      else Some e)"
  by pat_completeness auto
termination
  by (relation "measure (\<lambda>(raw, e). length raw - e)") auto

declare line_end.simps [simp del]

definition tabs_to_spaces :: "bytes \<Rightarrow> bytes" where
  "tabs_to_spaces = map (\<lambda>c. if c = CHR 0x09 then CHR 0x20 else c)"

text \<open>\<open>line[0], line[1], line[2] = '.', '.', '.'\<close>\<close>

definition set_dots :: "bytes \<Rightarrow> bytes option" where
  "set_dots line =
     Option.bind (set_byte 0 (CHR ''.'') line) (\<lambda>line.
       Option.bind (set_byte 1 (CHR ''.'') line) (set_byte 2 (CHR ''.'')))"

text \<open>Lines 821 to 847: the excerpt, once the offset and the line's bounds are known.\<close>

definition format_excerpt :: "bytes \<Rightarrow> nat \<Rightarrow> nat \<Rightarrow> nat \<Rightarrow> bytes option" where
  "format_excerpt raw offset start e =
     (let caret = offset - start + 1;
          elided = caret > 64;
          start' = (if elided then start + (caret - 64) else start);
          caret' = (if elided then 64 else caret)
      in Option.bind (subslice raw start' e) (\<lambda>line0.
           let line = tabs_to_spaces line0
           in Option.bind (if elided then set_dots line else Some line) (\<lambda>line.
                Some (line @ [CHR 0x0A] @ replicate (caret' - 1) CHR 0x20 @ ''^''))))"

definition extractLineAtOffset :: "bytes \<Rightarrow> int \<Rightarrow> bytes option" where
  "extractLineAtOffset raw offset0 =
     (if length raw = 0 then Some ''^''
      else
        let offset1 = (if offset0 < 0 then 0 else nat offset0);
            offset = (if offset1 > length raw then length raw else offset1);
            search = (if offset = length raw then offset - 1 else offset)
        in Option.bind (line_start raw search) (\<lambda>start.
             Option.bind (line_end raw start) (\<lambda>e. format_excerpt raw offset start e)))"

text \<open>The loop of \<open>ExtractLineAtPosition\<close> that finds the first byte of a line: \<open>k\<close> is the
  current line, \<open>ls\<close> its start, \<open>i\<close> the index.\<close>

function find_line :: "bytes \<Rightarrow> nat \<Rightarrow> nat \<Rightarrow> nat \<Rightarrow> nat \<Rightarrow> nat option" where
  "find_line raw line i k ls =
     (if i < length raw \<and> k < line then
        Option.bind (byte_at raw i) (\<lambda>c.
          if isNewline (rune c) then find_line raw line (Suc i) (Suc k) (Suc i)
          else find_line raw line (Suc i) k ls)
      else Some ls)"
  by pat_completeness auto
termination
  by (relation "measure (\<lambda>(raw, _, i, _, _). length raw - i)") auto

declare find_line.simps [simp del]

definition ExtractLineAtPosition :: "bytes \<Rightarrow> int \<Rightarrow> int \<Rightarrow> bytes option" where
  "ExtractLineAtPosition raw line0 column0 =
     (if length raw = 0 then Some ''^''
      else
        let line = (if line0 < 1 then 1 else nat line0);
            column1 = (if column0 < 1 then 1 else nat column0)
        in Option.bind (find_line raw line 0 1 0) (\<lambda>lineStart.
             Option.bind (line_end raw lineStart) (\<lambda>lineEnd.
               let lineWidth = lineEnd - lineStart + 1;
                   column = (if column1 > lineWidth then lineWidth else column1);
                   offset1 = lineStart + column - 1;
                   offset = (if offset1 \<ge> length raw then length raw - 1 else offset1)
               in extractLineAtOffset raw (int offset))))"

definition annotatedError :: "scan_error \<Rightarrow> scanner \<Rightarrow> scan_error" where
  "annotatedError err s =
     (case Pos s of (line, column) \<Rightarrow>
        ScanFailed err line column
          (case extractLineAtOffset (s_raw s) (int (length (s_raw s) - length (s_input s))) of
             Some excerpt \<Rightarrow> excerpt | None \<Rightarrow> []))"

section \<open>The searches stay inside the line\<close>

lemma byte_at_Some [simp]: "i < length b \<Longrightarrow> byte_at b i = Some (b ! i)"
  by (simp add: byte_at_def)

definition newline_at :: "bytes \<Rightarrow> nat \<Rightarrow> bool" where
  "newline_at raw i \<longleftrightarrow> isNewline (rune (raw ! i))"

text \<open>What the two searches find: the first and the last index of a stretch without newlines.\<close>

lemma line_start_finds:
  "n \<le> length raw \<Longrightarrow> \<exists>k \<le> n. line_start raw n = Some k \<and> (\<forall>i. k \<le> i \<and> i < n \<longrightarrow> \<not> newline_at raw i)"
proof (induction n)
  case (Suc n)
  then obtain k where "k \<le> n" "line_start raw n = Some k" "\<forall>i. k \<le> i \<and> i < n \<longrightarrow> \<not> newline_at raw i" by auto
  with Suc.prems show ?case
    by (cases "newline_at raw n") (auto simp: newline_at_def less_Suc_eq)
qed simp

lemma line_end_finds:
  "e \<le> length raw \<Longrightarrow> \<exists>k. line_end raw e = Some k \<and> e \<le> k \<and> k \<le> length raw
     \<and> (\<forall>i. e \<le> i \<and> i < k \<longrightarrow> \<not> newline_at raw i) \<and> (k = length raw \<or> newline_at raw k)"
proof (induction raw e rule: line_end.induct)
  case (1 raw e)
  show ?case
  proof (cases "e < length raw \<and> \<not> newline_at raw e")
    case True
    with "1.IH" [of "raw ! e"] obtain k where "line_end raw (Suc e) = Some k" "Suc e \<le> k" "k \<le> length raw"
      "\<forall>i. Suc e \<le> i \<and> i < k \<longrightarrow> \<not> newline_at raw i" "k = length raw \<or> newline_at raw k"
      by (auto simp: newline_at_def)
    moreover from this(4) True have "\<forall>i. e \<le> i \<and> i < k \<longrightarrow> \<not> newline_at raw i"
      by (metis Suc_leI le_neq_implies_less)
    moreover have "line_end raw e = line_end raw (Suc e)"
      using True by (simp add: line_end.simps [of raw e] newline_at_def)
    ultimately show ?thesis by (intro exI [of _ k]) simp
  next
    case False
    with "1.prems" show ?thesis
      by (intro exI [of _ e]) (auto simp: line_end.simps [of raw e] newline_at_def)
  qed
qed

lemma length_tabs_to_spaces [simp]: "length (tabs_to_spaces s) = length s"
  by (simp add: tabs_to_spaces_def)

lemma nth_tabs_to_spaces:
  "i < length s \<Longrightarrow> s ! i \<noteq> CHR 0x09 \<Longrightarrow> tabs_to_spaces s ! i = s ! i"
  by (simp add: tabs_to_spaces_def)

lemma set_dots_long: "3 \<le> length line \<Longrightarrow> set_dots line = Some (''...'' @ drop 3 line)"
proof -
  assume "3 \<le> length line"
  then obtain a b c l where "line = a # b # c # l"
    by (cases line; cases "tl line"; cases "tl (tl line)") auto
  then show ?thesis by (simp add: set_dots_def set_byte_def numeral_2_eq_2)
qed

section \<open>Safety and placement of the caret\<close>

text \<open>The line around an offset: it holds the offset, or the offset is the end of the buffer.\<close>

lemma extract_line:
  assumes "raw \<noteq> []" "offset \<le> length raw"
  obtains start e where "extractLineAtOffset raw (int offset) = format_excerpt raw offset start e"
    "start \<le> offset" "offset \<le> Suc e" "e \<le> length raw" "start \<le> e"
    "offset < length raw \<longrightarrow> newline_at raw offset \<or> offset < e"
proof -
  define search where "search = (if offset = length raw then offset - 1 else offset)"
  have s: "search < length raw" "search \<le> offset" "offset \<le> Suc search" using assms by (auto simp: search_def)
  from line_start_finds [of search raw] s obtain start where
    a: "start \<le> search" "line_start raw search = Some start" "\<forall>i. start \<le> i \<and> i < search \<longrightarrow> \<not> newline_at raw i"
    by auto
  from line_end_finds [of start raw] a(1) s(1) obtain e where
    e: "line_end raw start = Some e" "start \<le> e" "e \<le> length raw"
      "\<forall>i. start \<le> i \<and> i < e \<longrightarrow> \<not> newline_at raw i" "e = length raw \<or> newline_at raw e" by auto
  have "search \<le> e" using a(3) e(2,5) s(1) by (metis leI less_le_not_le)
  moreover have "extractLineAtOffset raw (int offset) = format_excerpt raw offset start e"
    using assms a(2) e(1) unfolding search_def
    by (cases "offset = length raw") (simp_all add: extractLineAtOffset_def Let_def)
  moreover have "offset < length raw \<longrightarrow> newline_at raw offset \<or> offset < e"
    using calculation(1) e(5) by (auto simp: search_def le_less)
  ultimately show thesis using that [of start e] a(1) e s by simp
qed

text \<open>An excerpt as a text: the line, from its elided start on, and the caret.\<close>

lemma format_excerpt_text:
  assumes "start \<le> offset" "offset \<le> Suc e" "e \<le> length raw" "start \<le> e"
  defines "beg \<equiv> (if 64 < offset - start + 1 then offset - 63 else start)"
  defines "line \<equiv> tabs_to_spaces (take (e - beg) (drop beg raw))"
  shows "format_excerpt raw offset start e = Some ((if beg = start then line else ''...'' @ drop 3 line)
      @ [CHR 0x0A] @ replicate (offset - beg) CHR 0x20 @ ''^'')"
    and "length line = e - beg" "beg \<le> offset" "offset - beg \<le> 63"
proof -
  show l: "length line = e - beg" using assms(3) by (simp add: line_def)
  show "beg \<le> offset" "offset - beg \<le> 63" using assms(1) by (auto simp: beg_def)
  have "beg \<le> e" using assms(1-4) by (auto simp: beg_def)
  then have sub: "subslice raw beg e = Some (take (e - beg) (drop beg raw))"
    using assms(3) by (simp add: subslice_def)
  show "format_excerpt raw offset start e = Some ((if beg = start then line else ''...'' @ drop 3 line)
      @ [CHR 0x0A] @ replicate (offset - beg) CHR 0x20 @ ''^'')"
  proof (cases "64 < offset - start + 1")
    case True
    then have f: "beg = offset - 63" "beg \<noteq> start" "start + (offset - start + 1 - 64) = beg"
      by (auto simp: beg_def)
    have "3 \<le> length line" using l f(1) True assms(2) by simp
    moreover have "offset - beg = 63" using f(1) True by simp
    ultimately show ?thesis
      using True f(2) sub set_dots_long [of line] unfolding format_excerpt_def Let_def f(3) line_def
      by simp
  next
    case False
    then have "beg = start" by (simp add: beg_def)
    with False sub show ?thesis by (simp add: format_excerpt_def Let_def line_def)
  qed
qed

lemma clamp_offset: "extractLineAtOffset raw off = extractLineAtOffset raw (int (min (nat off) (length raw)))"
  by (auto simp: extractLineAtOffset_def Let_def min_def)

lemma extractLineAtOffset_some: "extractLineAtOffset raw off \<noteq> None"
proof (cases "raw = []")
  case False
  show ?thesis
    by (subst clamp_offset, rule extract_line [OF False, of "min (nat off) (length raw)"])
      (simp_all add: format_excerpt_text)
qed (simp add: extractLineAtOffset_def)

text \<open>The search for a line stops behind the newline before it, or behind the last one.\<close>

definition newlines :: "bytes \<Rightarrow> nat" where
  "newlines b = length (filter (\<lambda>c. isNewline (rune c)) b)"

lemma newlines_take_Suc:
  "i < length b \<Longrightarrow> newlines (take (Suc i) b) = newlines (take i b) + (if newline_at b i then 1 else 0)"
  by (simp add: newlines_def newline_at_def take_Suc_conv_app_nth)

lemma newlines_take_le: "newlines (take i b) \<le> newlines b"
proof -
  have "newlines b = newlines (take i b) + newlines (drop i b)"
    by (simp add: newlines_def flip: length_append filter_append)
  then show ?thesis by simp
qed

lemma newlines_stretch:
  assumes "\<forall>i. s \<le> i \<and> i < e \<longrightarrow> \<not> newline_at b i" "s \<le> n" "n \<le> e" "e \<le> length b"
  shows "newlines (take n b) = newlines (take s b)"
  using assms(2,3)
proof (induction n rule: nat_induct_at_least)
  case (Suc n)
  with assms(1,4) newlines_take_Suc [of n b] show ?case by simp
qed simp

lemma find_line_finds:
  assumes "i \<le> length raw" "ls \<le> i" "newlines (take ls raw) = newlines (take i raw)"
    "k = Suc (newlines (take i raw))" "k \<le> line"
  shows "\<exists>s \<le> length raw. find_line raw line i k ls = Some s \<and> newlines (take s raw) = min (line - 1) (newlines raw)"
  using assms
proof (induction raw line i k ls rule: find_line.induct)
  case (1 raw line i k ls)
  show ?case
  proof (cases "i < length raw \<and> k < line")
    case True
    then have n: "newlines (take (Suc i) raw) = newlines (take i raw) + (if newline_at raw i then 1 else 0)"
      by (intro newlines_take_Suc) simp
    show ?thesis
    proof (cases "newline_at raw i")
      case t: True
      with True n "1.prems" "1.IH"(1) [OF True, of "raw ! i"] show ?thesis
        by (auto simp: find_line.simps [of raw line i _ ls] newline_at_def)
    next
      case f: False
      with True n "1.prems" "1.IH"(2) [OF True, of "raw ! i"] show ?thesis
        by (auto simp: find_line.simps [of raw line i _ ls] newline_at_def)
    qed
  next
    case False
    with "1.prems" newlines_take_le [of i raw] show ?thesis
      by (intro exI [of _ ls]) (auto simp: find_line.simps [of raw line i _ ls] min_def)
  qed
qed

text \<open>C33: for every buffer and every position, valid or not, both excerpt functions return an
  excerpt: no byte that their four loops read, no slice they take, and none of the three bytes
  they overwrite with dots when the line is elided, is out of range, so error reporting never
  panics.  Moreover \<open>ExtractLineAtPosition\<close> shows a byte of the buffer in the line asked for, or
  in the last line when there are fewer; only when that lies behind the end of the buffer, it
  shows the last byte.\<close>

theorem excerpts_never_panic:
  "extractLineAtOffset raw off \<noteq> None \<and> ExtractLineAtPosition raw line column \<noteq> None
   \<and> (raw = [] \<or> (\<exists>i < length raw. ExtractLineAtPosition raw line column = extractLineAtOffset raw (int i)
        \<and> (newlines (take i raw) = min (nat (line - 1)) (newlines raw) \<or> i = length raw - 1)))"
proof (cases "raw = []")
  case False
  define l where "l = (if line < 1 then 1 else nat line)"
  define c where "c = (if column < 1 then 1 else nat column)"
  have "l - 1 = nat (line - 1)" "1 \<le> l" by (auto simp: l_def)
  then obtain s where s: "s \<le> length raw" "find_line raw l 0 1 0 = Some s"
    "newlines (take s raw) = min (nat (line - 1)) (newlines raw)"
    using find_line_finds [of 0 raw 0 1 l] by (auto simp: newlines_def)
  from line_end_finds [OF s(1)] obtain e where
    e: "line_end raw s = Some e" "s \<le> e" "e \<le> length raw" "\<forall>i. s \<le> i \<and> i < e \<longrightarrow> \<not> newline_at raw i" by blast
  define n where "n = s + (if c > e - s + 1 then e - s + 1 else c) - 1"
  have n: "s \<le> n" "n \<le> e" using e(2) by (auto simp: n_def c_def)
  have "ExtractLineAtPosition raw line column = extractLineAtOffset raw (int (if n \<ge> length raw then length raw - 1 else n))"
    using False s(2) e(1) by (simp add: ExtractLineAtPosition_def Let_def l_def [symmetric] c_def [symmetric] n_def)
  moreover have "newlines (take n raw) = min (nat (line - 1)) (newlines raw)"
    using newlines_stretch [OF e(4) n e(3)] s(3) by simp
  ultimately have "\<exists>i < length raw. ExtractLineAtPosition raw line column = extractLineAtOffset raw (int i)
        \<and> (newlines (take i raw) = min (nat (line - 1)) (newlines raw) \<or> i = length raw - 1)"
    using False by (intro exI [of _ "if n \<ge> length raw then length raw - 1 else n"]) auto
  with extractLineAtOffset_some show ?thesis by auto
qed (simp add: extractLineAtOffset_def ExtractLineAtPosition_def)

text \<open>C34: the caret stands under the byte it reports: the excerpt is one line, a newline, at
  most 63 blanks and the caret, and the byte above the caret is the one at the offset.\<close>

theorem extractLineAtOffset_caret:
  assumes "i < length raw" "\<not> isNewline (rune (raw ! i))" "raw ! i \<noteq> CHR 0x09"
    and "extractLineAtOffset raw (int i) = Some x"
  shows "\<exists>line pad. x = line @ [CHR 0x0A] @ replicate pad CHR 0x20 @ ''^'' \<and> pad \<le> 63
           \<and> pad < length line \<and> line ! pad = raw ! i"
proof -
  have ne: "raw \<noteq> []" "i \<le> length raw" using assms(1) by auto
  from extract_line [OF ne] assms(1) obtain start e where
    x: "extractLineAtOffset raw (int i) = format_excerpt raw i start e"
    and b: "start \<le> i" "i \<le> Suc e" "e \<le> length raw" "start \<le> e" "newline_at raw i \<or> i < e" by metis
  define beg where "beg = (if 64 < i - start + 1 then i - 63 else start)"
  define line where "line = tabs_to_spaces (take (e - beg) (drop beg raw))"
  note f = format_excerpt_text [OF b(1-4), folded beg_def, folded line_def]
  define line' where "line' = (if beg = start then line else ''...'' @ drop 3 line)"
  have e: "i < e" using b(5) assms(2) by (simp add: newline_at_def)
  have nth: "line ! (i - beg) = raw ! i"
    using assms(3) e f(3) b(3) by (simp add: line_def nth_tabs_to_spaces)
  have "x = line' @ [CHR 0x0A] @ replicate (i - beg) CHR 0x20 @ ''^''"
    using x f(1) assms(4) by (simp add: line'_def)
  moreover have "i - beg < length line' \<and> line' ! (i - beg) = raw ! i"
    using f(2,3) nth e by (auto simp: line'_def nth_append beg_def split: if_splits)
  ultimately show ?thesis using f(4) by blast
qed

theorem extractLineAtOffset_caret_witness:
  "\<exists>line pad. ''ab'' @ [CHR 0x0A] @ '' ^'' = line @ [CHR 0x0A] @ replicate pad CHR 0x20 @ ''^'' \<and> pad \<le> 63
           \<and> pad < length line \<and> line ! pad = CHR ''b''"
proof -
  have h: "extractLineAtOffset ''ab'' (int 1) = Some (''ab'' @ [CHR 0x0A] @ '' ^'')"
    by code_simp
  show ?thesis
    using extractLineAtOffset_caret [OF _ _ _ h] by (simp add: isNewline_def)
qed

end
