(* ===== verification/ReadNext.thy ===== *)
theory ReadNext
  imports ReadIdent Excerpt
begin

text \<open>
  Version detection, the token dispatch and the scan loop
  (\<open>internal/tokenizer/scanner.go\<close>, lines 392 to 782 and 966 to 1042).
\<close>

section \<open>Version marker\<close>

lemma decode_at_length: "decode_at n inp = Inr x \<Longrightarrow> n < length inp"
proof (induction n arbitrary: inp)
  case 0
  then show ?case by (cases inp) (auto simp: decode1_def)
next
  case (Suc n)
  then obtain c sz where d: "decode1 inp = Inr (c, sz)" "decode_at n (drop sz inp) = Inr x"
    by (auto split: sum.splits)
  from Suc.IH [OF d(2)] decode1_Inr [OF d(1)] show ?case by auto
qed

lemma peekAt_length: "peekAt n s = Inr c \<Longrightarrow> n < length (s_input s)"
  by (auto simp: peekAt_def peekAtSize_def split: sum.splits dest: decode_at_length)

definition isBlank :: "nat \<Rightarrow> bool" where
  "isBlank c \<longleftrightarrow> c = 0x20 \<or> c = 0x09"

function skip_blanks :: "nat \<Rightarrow> scanner \<Rightarrow> nat" where
  "skip_blanks index s =
     (case peekAt index s of
        Inl _ \<Rightarrow> index
      | Inr c \<Rightarrow> if isBlank c then skip_blanks (index + 1) s else index)"
  by pat_completeness auto
termination
  by (relation "measure (\<lambda>(i, s). length (s_input s) - i)")
    (auto dest!: peekAt_length intro: diff_less_mono2)

declare skip_blanks.simps [simp del]

fun match_marker :: "nat list \<Rightarrow> nat \<Rightarrow> scanner \<Rightarrow> nat option" where
  "match_marker [] index s = Some index"
| "match_marker (expected # rs) index s =
     (if peekAt index s = Inr expected then match_marker rs (index + 1) s else None)"

text \<open>Lines 478 to 508: the version number and what must follow it.\<close>

definition detect_number :: "nat \<Rightarrow> scanner \<Rightarrow> scanner" where
  "detect_number index s =
     (case peekAt index s of
        Inl _ \<Rightarrow> s
      | Inr c \<Rightarrow>
          (case (if c = rune CHR ''1'' then Some VersionV1
                 else if c = rune CHR ''2'' then Some VersionV2 else None) of
             None \<Rightarrow> s
           | Some v \<Rightarrow>
               (case peekAt (skip_blanks (index + 1) s) s of
                  Inl e \<Rightarrow>
                    if e = io_EOF then s\<lparr>s_version := v, s_versionMarkerDetected := True\<rparr> else s
                | Inr c' \<Rightarrow>
                    if isNewline c' then s\<lparr>s_version := v, s_versionMarkerDetected := True\<rparr> else s)))"

definition detectVersion :: "scanner \<Rightarrow> scanner" where
  "detectVersion s =
     (if s_versionMarkerDetected s then s
      else
        let i0 = (if peekAt 0 s = Inr 0xFEFF then 1 else 0)
        in if peekAt i0 s \<noteq> Inr (rune CHR ''/'') then
             (case peekAt i0 s of
                Inl _ \<Rightarrow> s
              | Inr c \<Rightarrow> if c \<noteq> 0 then s\<lparr>s_versionMarkerDetected := True\<rparr> else s)
           else if peekAt (i0 + 1) s \<noteq> Inr (rune CHR ''-'') then s
           else
             (case match_marker (map rune ''kdl-version'') (skip_blanks (i0 + 2) s) s of
                None \<Rightarrow> s
              | Some i1 \<Rightarrow>
                  (case peekAt i1 s of
                     Inl _ \<Rightarrow> s
                   | Inr c \<Rightarrow> if isBlank c then detect_number (skip_blanks i1 s) s else s)))"

section \<open>One token\<close>

text \<open>The token's id and data; \<open>readNext\<close> adds the position.  First the branches of the
  switch that are longer than a line.\<close>

type_synonym lexeme = "(scan_error + token_id \<times> bytes) \<times> scanner"

definition next_single :: "token_id \<Rightarrow> nat \<Rightarrow> scanner \<Rightarrow> lexeme" where
  "next_single tid sz s = (Inr (tid, copyInput sz s), skip s)"

definition next_return :: "nat \<Rightarrow> scanner \<Rightarrow> lexeme" where
  "next_return sz s =
     (case peekTwoSize s of
        Inl _ \<Rightarrow> (Inr (Newline, copyInput sz s), skip s)
      | Inr (_, _, nextC, nextSize) \<Rightarrow>
          if nextC = 0x0A then (Inr (Newline, copyInput (sz + nextSize) s), skip (skip s))
          else (Inr (Newline, copyInput sz s), skip s))"

definition next_slash :: "scanner \<Rightarrow> lexeme" where
  "next_slash s =
     (case peekTwo s of
        Inl e \<Rightarrow> (Inl e, s)
      | Inr (_, c) \<Rightarrow>
          if c = rune CHR ''*'' then as_token MultiLineComment (readMultiLineComment s)
          else if c = rune CHR ''/'' then as_token SingleLineComment (readSingleLineComment s)
          else if c = rune CHR ''-'' then (Inr (TokenComment, copyInput 2 s), skip (skip s))
          else if permit (s_relaxed s) NGINXSyntax then readIdentifier s
          else (Inl (UnexpectedChar c), s))"

definition next_signed :: "nat \<Rightarrow> scanner \<Rightarrow> lexeme" where
  "next_signed c s =
     (case peekTwo s of
        Inl e \<Rightarrow>
          if e = io_EOF \<and> c \<noteq> rune CHR ''?'' then readIdentifier s else (Inl e, s)
      | Inr (_, c2) \<Rightarrow>
          if c = rune CHR ''?'' then readIdentifier s
          else if isDigit c2 then readDecimal s
          else readIdentifier s)"

definition next_zero :: "scanner \<Rightarrow> lexeme" where
  "next_zero s =
     (case peekTwo s of
        Inl e \<Rightarrow> (Inl e, s)
      | Inr (_, c) \<Rightarrow>
          if c = rune CHR ''x'' then as_token Hexadecimal (readHexadecimal s)
          else if c = rune CHR ''o'' then as_token Octal (readOctal s)
          else if c = rune CHR ''b'' then as_token Binary (readBinary s)
          else readDecimal s)"

definition next_default :: "nat \<Rightarrow> scanner \<Rightarrow> lexeme" where
  "next_default c s =
     (if c = rune CHR ''.'' \<and> s_version s = VersionV2
         \<and> (case peekTwo s of Inl _ \<Rightarrow> False | Inr (_, c2) \<Rightarrow> isDigit c2)
      then (Inl (UnexpectedChar c), s)
      else if c = rune CHR ''#'' \<and> s_version s = VersionV2 then readHashToken s
      else if c = rune CHR ''#'' \<and> permit (s_relaxed s) NGINXSyntax then
        as_token SingleLineComment (readSingleLineComment s)
      else if c = rune CHR '':'' \<and> permit (s_relaxed s) YAMLTOMLAssignments then
        next_single Whitespace 1 s
      else readIdentifier s)"

definition next_lexeme :: "scanner \<Rightarrow> lexeme" where
  "next_lexeme s =
     (case peekSize s of
        Inl e \<Rightarrow> (Inl e, s)
      | Inr (c, sz) \<Rightarrow>
          if isWhiteSpace c then
            (case readWhitespace s of (ws, s') \<Rightarrow> (Inr (Whitespace, ws), s'))
          else if c = 0xFEFF then
            (if Offset s \<noteq> 0 then (Inl (UnexpectedChar c), s) else next_single Whitespace sz s)
          else if c = 0x0D then next_return sz s
          else if isNewline c then next_single Newline sz s
          else if c = rune CHR ''/'' then next_slash s
          else if c = rune CHR ''('' then
            (if permit (s_relaxed s) NGINXSyntax then readIdentifier s
             else next_single ParensOpen 1 s)
          else if c = rune CHR '')'' then
            (if permit (s_relaxed s) NGINXSyntax then readIdentifier s
             else next_single ParensClose 1 s)
          else if c = rune CHR ''{'' then next_single BraceOpen 1 s
          else if c = rune CHR ''}'' then next_single BraceClose 1 s
          else if c = rune CHR ''='' then next_single Equals 1 s
          else if c = rune CHR '';'' then next_single Semicolon 1 s
          else if c = rune CHR '','' then (Inl (UnexpectedChar c), s)
          else if c = 0x5C then
            (if permit (s_relaxed s) NGINXSyntax then readIdentifier s
             else next_single Continuation 1 s)
          else if c = rune CHR ''?'' \<or> c = rune CHR ''+'' \<or> c = rune CHR ''-'' then next_signed c s
          else if c = rune CHR ''0'' then next_zero s
          else if isDigit c then readDecimal s
          else next_default c s)"

definition readNext :: "scanner \<Rightarrow> (scan_error + token) \<times> scanner" where
  "readNext s0 =
     (let s = (if s_version s0 = VersionAuto \<and> \<not> s_versionMarkerDetected s0
               then detectVersion s0 else s0)
      in (case next_lexeme s of
            (Inl e, s') \<Rightarrow> (Inl e, s')
          | (Inr (tid, data), s') \<Rightarrow>
              (Inr \<lparr>t_ID = tid, t_Data = data, t_Line = s_line s, t_Column = s_column s,
                    t_Version = s_version s\<rparr>, s')))"

end
