(* ===== verification/Lexing.thy ===== *)
theory Lexing
  imports ReadNext
begin

section \<open>Progress\<close>

definition adve :: "scanner \<Rightarrow> scanner \<Rightarrow> bool" where
  "adve s s' \<longleftrightarrow> (\<exists>d. adv s d s')"

abbreviation shorter :: "scanner \<Rightarrow> scanner \<Rightarrow> bool" where
  "shorter s' s \<equiv> length (s_input s') < length (s_input s)"

lemma adve_refl [simp, intro]: "adve s s"
  unfolding adve_def by blast

lemma adve_trans: "adve s s1 \<Longrightarrow> adve s1 s2 \<Longrightarrow> adve s s2"
  unfolding adve_def by (blast intro: adv_trans)

lemma adve_length: "adve s s' \<Longrightarrow> length (s_input s') \<le> length (s_input s)"
  by (auto simp: adve_def adv_def)

lemma adve_get: "get s = (r, s1) \<Longrightarrow> adve s s1"
  unfolding adve_def by (rule get_adv)

lemma get_adve [simp, intro]: "adve s (snd (get s))"
  by (rule adve_get [of s "fst (get s)"]) simp

lemma adve_skip [simp, intro]: "adve s (skip s)"
  unfolding adve_def by (rule skip_adv_ex)

lemma adve_via_skip: "adve (skip s) t \<Longrightarrow> adve s t"
  by (rule adve_trans [OF adve_skip])

lemma snd_adve: "f = (r, s') \<Longrightarrow> adve s (snd f) \<Longrightarrow> adve s s'"
  by simp

lemma shorter_get: "get s = (Inr c, s1) \<Longrightarrow> adve s1 s2 \<Longrightarrow> shorter s2 s"
  by (drule get_less, drule adve_length) linarith

lemma shorter_skip: "peek s = Inr c \<Longrightarrow> adve (skip s) s2 \<Longrightarrow> shorter s2 s"
  by (drule peek_skip_less, drule adve_length) linarith

section \<open>Bodies that return what they marked\<close>

text \<open>
  \<open>marks g s p\<close>: the result \<open>p\<close> of running from \<open>s\<close> only advanced, and if it is a success
  its data (\<open>g\<close>) is what \<open>copyFromMark\<close> returns at the end.  The rules follow the shape of
  the reader bodies.
\<close>

definition marks :: "('a \<Rightarrow> bytes) \<Rightarrow> scanner \<Rightarrow> (scan_error + 'a) \<times> scanner \<Rightarrow> bool" where
  "marks g s p \<longleftrightarrow> adve s (snd p) \<and> (\<forall>x. fst p = Inr x \<longrightarrow> g x = copyFromMark (snd p))"

definition eats :: "scanner \<Rightarrow> (scan_error + 'a) \<times> scanner \<Rightarrow> bool" where
  "eats s p \<longleftrightarrow> (\<forall>x. fst p = Inr x \<longrightarrow> shorter (snd p) s)"

lemma marks_err [intro, simp]: "marks g s (Inl e, s)"
  by (simp add: marks_def)

lemma marks_ret [intro, simp]: "g x = copyFromMark s \<Longrightarrow> marks g s (Inr x, s)"
  by (simp add: marks_def)

text \<open>The shape of a call whose error is passed on.\<close>

lemma marks_bind:
  assumes "adve s (snd r)" and "\<And>x s1. r = (Inr x, s1) \<Longrightarrow> marks g s1 (K x s1)"
  shows "marks g s (case r of (Inl e, s1) \<Rightarrow> (Inl (h e), s1) | (Inr x, s1) \<Rightarrow> K x s1)"
  using assms by (auto simp: marks_def split: prod.splits sum.splits intro: adve_trans)

lemma marks_adve: "adve s s1 \<Longrightarrow> marks g s1 p \<Longrightarrow> marks g s p"
  by (auto simp: marks_def intro: adve_trans)

lemma marks_get: "get s = (r, s1) \<Longrightarrow> marks g s1 p \<Longrightarrow> marks g s p"
  by (blast intro: marks_adve adve_get)

lemma marks_skip: "marks g (skip s) p \<Longrightarrow> marks g s p"
  by (blast intro: marks_adve)

lemma eats_get: "get s = (Inr c, s1) \<Longrightarrow> marks g s1 p \<Longrightarrow> eats s p"
  by (auto simp: eats_def marks_def intro: shorter_get)

lemma eats_err [simp, intro]: "eats s (Inl e, s')"
  by (simp add: eats_def)

lemmas marks_rules = marks_get marks_skip

lemma multiLineComment_loop_marks: "marks (\<lambda>x. x) s (multiLineComment_loop depth s)"
proof (induction depth s rule: multiLineComment_loop.induct)
  case (1 depth s)
  obtain r1 s1 where g: "get s = (r1, s1)" by fastforce
  show ?case
    apply (rule marks_get [OF g])
    using "1" g unfolding multiLineComment_loop.simps [of depth s]
    by (auto simp: Let_def split: sum.splits intro: marks_skip)
qed

lemma match_hashes_adve: "match_hashes k m s = (n, s') \<Longrightarrow> adve s s'"
  by (induction k m s rule: match_hashes.induct) (auto split: if_splits intro: adve_trans)

lemma marks_match_hashes: "match_hashes k m s = (n, s1) \<Longrightarrow> marks g s1 p \<Longrightarrow> marks g s p"
  by (blast intro: marks_adve match_hashes_adve)

text \<open>For readers whose success carries no data of their own: they only advance.\<close>

lemma readRawStringContent_adve: "adve s (snd (readRawStringContent h s))"
proof (induction h s rule: readRawStringContent.induct)
  case (1 h s)
  obtain r1 s1 where g: "get s = (r1, s1)" by fastforce
  show ?case
    apply (rule adve_trans [OF adve_get [OF g]])
    using "1" g unfolding readRawStringContent.simps [of h s]
    by (auto split: sum.splits prod.splits intro: adve_trans dest: match_hashes_adve)
qed

lemma rawString_hashLoop_adve: "adve s (snd (rawString_hashLoop n s))"
proof (induction n s rule: rawString_hashLoop.induct)
  case (1 n s)
  obtain r1 s1 where g: "get s = (r1, s1)" by fastforce
  show ?case
    apply (rule adve_trans [OF adve_get [OF g]])
    using "1" g unfolding rawString_hashLoop.simps [of n s]
    by (auto split: sum.splits)
qed

lemma get3_adve: "adve s (snd (get3 n s))"
  by (induction n s rule: get3.induct)
    (auto split: sum.splits prod.splits intro: adve_get adve_trans)

lemma opening_line_adve: "adve s (snd (opening_line e s))"
proof (induction e s rule: opening_line.induct)
  case (1 e s)
  show ?case
    using "1" unfolding opening_line.simps [of e s]
    by (auto split: sum.splits intro: adve_trans [OF adve_skip])
qed

lemma count_hashes_adve: "adve s (snd (count_hashes n s))"
proof (induction n s rule: count_hashes.induct)
  case (1 n s)
  show ?case
    using "1" unfolding count_hashes.simps [of n s]
    by (auto split: sum.splits intro: adve_trans [OF adve_skip])
qed

lemma expect_runes_adve: "adve s (snd (expect_runes rs s))"
  by (induction rs s rule: expect_runes.induct)
    (auto split: sum.splits prod.splits intro: adve_get adve_trans)

lemmas advances [simp, intro] =
  readRawStringContent_adve rawString_hashLoop_adve get3_adve opening_line_adve
  count_hashes_adve expect_runes_adve

lemmas advances_skip [simp] = advances [THEN adve_via_skip]

lemma rawString_body_marks: "marks (\<lambda>x. x) s (rawString_body s)"
  unfolding rawString_body_def by (rule marks_bind, simp, auto intro!: marks_bind)

lemma marks_skip2: "marks g (skip (skip s)) p \<Longrightarrow> marks g s p"
  by (rule marks_skip, rule marks_skip)

lemma multiLineExpression_loop_marks: "marks (\<lambda>x. x) s (multiLineExpression_loop s)"
proof (induction s rule: multiLineExpression_loop.induct)
  case (1 s)
  obtain r1 s1 where g: "get s = (r1, s1)" by fastforce
  show ?case
    apply (rule marks_get [OF g])
    using "1" g unfolding multiLineExpression_loop.simps [of s]
    by (auto simp: Let_def split: sum.splits prod.splits intro: marks_skip2 marks_get)
qed

lemma multiLineString_loop_marks: "marks (\<lambda>x. x) s (multiLineString_loop h s)"
proof (induction h s rule: multiLineString_loop.induct)
  case (1 h s)
  obtain r1 s1 where g: "get s = (r1, s1)" by fastforce
  show ?case
    apply (rule marks_get [OF g])
    using "1" g unfolding multiLineString_loop.simps [of h s]
    by (auto simp: Let_def split: sum.splits prod.splits
        intro: marks_get marks_skip [OF marks_skip [OF marks_match_hashes]])
qed

lemma multiLineExpression_body_marks: "marks (\<lambda>x. x) s (multiLineExpression_body s)"
  unfolding multiLineExpression_body_def
  by (auto intro!: marks_bind [where h = "\<lambda>e. e"] multiLineExpression_loop_marks)

lemma readMultiLineStringRawNoMark_marks: "marks (\<lambda>x. x) s (readMultiLineStringRawNoMark h s)"
  unfolding readMultiLineStringRawNoMark_def
  by (auto intro!: marks_bind [where h = "\<lambda>e. e"] multiLineString_loop_marks)

lemma marks_snd:
  "marks (\<lambda>x. x) s r \<Longrightarrow>
     marks snd s (case r of (Inl e, s2) \<Rightarrow> (Inl e, s2) | (Inr x, s2) \<Rightarrow> (Inr (tid, x), s2))"
  by (auto simp: marks_def split: prod.splits sum.splits)

lemma hash_keyword_marks: "marks snd s (hash_keyword word tid s)"
  unfolding hash_keyword_def by (auto intro!: marks_bind [where h = "\<lambda>e. e"])

lemma hash_string_marks: "marks snd s (hash_string s)"
  unfolding hash_string_def
  by (auto intro!: marks_bind [where h = "\<lambda>e. e"] marks_snd readMultiLineStringRawNoMark_marks split: sum.split)

lemma hash_body_marks: "marks snd s (hash_body s)"
  unfolding hash_body_def
  by (auto intro!: marks_bind [where h = "\<lambda>e. e"] hash_string_marks hash_keyword_marks
      split: sum.split)

section \<open>Readers that return exactly what they consumed\<close>

definition reads :: "('a \<Rightarrow> bytes) \<Rightarrow> scanner \<Rightarrow> (scan_error + 'a) \<times> scanner \<Rightarrow> bool" where
  "reads g s p \<longleftrightarrow> adve s (snd p)
     \<and> (\<forall>x. fst p = Inr x \<longrightarrow> wf s \<longrightarrow> adv s (g x) (snd p))"

lemma reads_adve: "reads g s p \<Longrightarrow> adve s (snd p)"
  by (simp add: reads_def)

lemma reads_err [simp, intro]: "reads g s (Inl e, s)"
  by (simp add: reads_def)

lemma reads_with_mark:
  assumes "\<And>s. marks g s (f s)"
  shows "reads g s (with_mark f s)"
proof -
  obtain r s1 where f: "f (pushMark s) = (r, s1)" by fastforce
  with assms [of "pushMark s"] obtain d where d: "adv (pushMark s) d s1"
    "\<And>x. r = Inr x \<Longrightarrow> g x = copyFromMark s1"
    by (auto simp: marks_def adve_def)
  moreover have "wf s \<Longrightarrow> copyFromMark s1 = d"
    using copyFromMark_adv [OF d(1)] by simp
  ultimately show ?thesis
    by (auto simp: reads_def adve_def with_mark_def f dest: pop_push_adv)
qed

lemma readWhileC_adve [simp, intro]: "adve s (snd (readWhileC p st m s))"
proof -
  obtain r st' s' where r: "readWhileC p st m s = ((r, st'), s')" by (metis prod.exhaust)
  with readWhileC_spec [OF r] show ?thesis by (auto simp: adve_def)
qed

lemma readWhile_reads: "reads (\<lambda>x. x) s (readWhile p m s)"
proof -
  obtain r s' where r: "readWhile p m s = (r, s')" by fastforce
  with readWhile_spec [OF r] show ?thesis by (auto simp: adve_def reads_def)
qed

text \<open>Passing a result on under another token id, or turning it into an error.\<close>

definition relays :: "('a \<Rightarrow> bytes) \<Rightarrow> ('b \<Rightarrow> bytes) \<Rightarrow> (scan_error + 'a) \<times> scanner \<Rightarrow>
    (scan_error + 'b) \<times> scanner \<Rightarrow> bool" where
  "relays g h p q \<longleftrightarrow> snd q = snd p
     \<and> (\<forall>y. fst q = Inr y \<longrightarrow> (\<exists>x. fst p = Inr x \<and> h y = g x))"

lemma reads_relays: "reads g s p \<Longrightarrow> relays g h p q \<Longrightarrow> reads h s q"
  by (fastforce simp: reads_def relays_def)

lemma as_token_reads: "reads (\<lambda>x. x) s p \<Longrightarrow> reads snd s (as_token tid p)"
  by (erule reads_relays) (auto simp: relays_def as_token_def split: prod.splits sum.splits)

lemma readWhileC_reads:
  "reads (\<lambda>x. x) s (case readWhileC p st m s of ((r, _), s') \<Rightarrow> (r, s'))"
proof -
  obtain r st' s' where r: "readWhileC p st m s = ((r, st'), s')" by (metis prod.exhaust)
  with readWhileC_spec [OF r] show ?thesis by (auto simp: adve_def reads_def)
qed

text \<open>
  \<open>readWhitespace\<close> drops the error of \<open>readWhile\<close>, and with it the blanks it has already
  consumed: that happens only in front of a byte sequence that is not UTF-8.
\<close>

lemma readWhile_loop_fails:
  assumes "readWhile_loop p m True st s = ((Inl e, st'), s')"
  shows "(\<exists>e'. peek s' = Inl e' \<and> e' \<noteq> io_EOF) \<or> length (copyFromMark s') < m"
  using assms
proof (induction p m True st s arbitrary: st' s' rule: readWhile_loop.induct)
  case (1 p m st s)
  then show ?case
    by (cases "peek s")
      (fastforce simp: readWhile_loop.simps [of p m True st s] readWhile_stop_def Let_def
        split: if_splits prod.splits)+
qed

lemma popMark_peek [simp]: "peek (popMark s) = peek s"
  by (simp add: peek_def peekSize_def)

lemma readWhile_starts:
  assumes "peek s = Inr c" "p c" and r: "readWhile p 1 s = (r, s')"
  shows "shorter s' s \<and> (\<forall>e. r = Inl e \<longrightarrow> wf s \<longrightarrow> (\<exists>e'. peek s' = Inl e' \<and> e' \<noteq> io_EOF))"
proof -
  let ?p = "\<lambda>_ c _. (p c, ())" and ?s = "pushMark s"
  obtain st s2 where s2: "readWhile_loop ?p 1 False () ?s = ((r, st), s2)" "s' = popMark s2"
    using r by (auto simp: readWhile_def readWhileC_def with_mark_def split: prod.splits)
  then have run: "readWhile_loop ?p 1 True () (skip ?s) = ((r, st), s2)"
    using assms(1,2) by (simp add: readWhile_loop.simps [of ?p 1 False "()" ?s] del: One_nat_def)
  have a: "adv ?s (encode_rune c) (skip ?s)" by (rule skip_adv) (simp add: assms(1))
  from readWhile_loop_spec [OF run] obtain d where d: "adv (skip ?s) d s2" by blast
  from adv_trans [OF a d] have ad: "adv ?s (encode_rune c @ d) s2" .
  show ?thesis
    using readWhile_loop_fails [where p = ?p and m = 1 and s = "skip ?s"] run
      copyFromMark_adv [OF ad] adv_length [OF ad] encode_rune_nonempty [of c] s2(2)
    by fastforce
qed

lemma readWhitespace_spec:
  assumes "peek s = Inr c" "isWhiteSpace c" and r: "readWhitespace s = (ws, s')"
  shows "shorter s' s \<and> adve s s'
    \<and> (wf s \<longrightarrow> adv s ws s' \<or> (\<exists>e. peek s' = Inl e \<and> e \<noteq> io_EOF))"
proof -
  obtain r' where r': "readWhile isWhiteSpace 1 s = (r', s')"
    using r by (auto simp: readWhitespace_def split: prod.splits sum.splits)
  with r readWhile_starts [OF assms(1,2) r'] readWhile_spec [OF r'] show ?thesis
    by (auto simp: readWhitespace_def adve_def split: sum.splits)
qed

lemma readMultiLineComment_reads: "reads (\<lambda>x. x) s (readMultiLineComment s)"
  unfolding readMultiLineComment_def by (rule reads_with_mark) (rule multiLineComment_loop_marks)

lemma readSingleLineComment_reads: "reads (\<lambda>x. x) s (readSingleLineComment s)"
proof -
  obtain lit e s' where r: "readUntil isNewline False s = ((lit, e), s')" by (metis prod.exhaust)
  with readUntil_spec [OF r] show ?thesis
    by (auto simp: readSingleLineComment_def adve_def reads_def split: option.splits)
qed

lemma readRawString_reads: "reads (\<lambda>x. x) s (readRawString s)"
  unfolding readRawString_def by (rule reads_with_mark) (rule rawString_body_marks)

lemma readQuotedStringQ_reads: "reads (\<lambda>x. x) s (readQuotedStringQ q s)"
  unfolding readQuotedStringQ_def by (auto simp: readWhileC_reads split: sum.split)

lemma bare_read_reads: "reads snd s (bare_read s)"
  by (rule reads_relays [OF readWhile_reads
        [of s "\<lambda>c. isBareIdentifierCharVersion c (s_relaxed s) False (s_version s)" 1]])
    (auto simp: bare_read_def relays_def split: prod.splits sum.splits)

lemma sign_read_reads:
  "reads snd s (case readWhile isSign 1 s of
       (Inl e', s') \<Rightarrow> (Inl e', s') | (Inr literal, s') \<Rightarrow> (Inr (BareIdentifier, literal), s'))"
  by (rule reads_relays [OF readWhile_reads [of s isSign 1]]) (auto simp: relays_def split: prod.splits sum.splits)

lemma readBareIdentifier_reads: "reads snd s (readBareIdentifier s)"
  unfolding readBareIdentifier_def
  by (auto simp: bare_read_reads intro!: sign_read_reads [unfolded One_nat_def] split: sum.split)

lemma readMultiLineString_reads: "reads (\<lambda>x. x) s (readMultiLineString s)"
  unfolding readMultiLineString_def readMultiLineStringRaw_def
  by (rule reads_with_mark) (rule readMultiLineStringRawNoMark_marks)

lemma readMultiLineExpressionString_reads: "reads (\<lambda>x. x) s (readMultiLineExpressionString s)"
  unfolding readMultiLineExpressionString_def
  by (rule reads_with_mark) (rule multiLineExpression_body_marks)

lemma readHashToken_reads: "reads snd s (readHashToken s)"
  unfolding readHashToken_def by (rule reads_with_mark) (rule hash_body_marks)

lemmas string_reads =
  readRawString_reads readQuotedStringQ_reads readMultiLineString_reads
  readMultiLineExpressionString_reads readBareIdentifier_reads

lemma readIdentifier_reads: "reads snd s (readIdentifier s)"
  unfolding readIdentifier_def identifier_rest_def readQuotedString_def readExpressionString_def
    readSingleQuotedString_def
  by (auto simp: string_reads as_token_reads split: sum.split)

lemma readInteger_reads: "reads snd s (readInteger s)"
  by (rule reads_relays [OF readWhileC_reads
        [of s "integer_rune (s_relaxed s)" integer_start 1]])
    (auto simp: readInteger_def relays_def split: prod.splits sum.splits)

lemma readInteger_adve [simp, intro]: "adve s (snd (readInteger s))"
  by (rule reads_adve [OF readInteger_reads])

lemma readWhile_adve [simp, intro]: "adve s (snd (readWhile p m s))"
  by (rule reads_adve [OF readWhile_reads])

lemma signedInteger_body_marks: "marks snd s (signedInteger_body s)"
  unfolding signedInteger_body_def
  by (auto intro!: marks_bind [where h = "\<lambda>e. e"] simp: adve_via_skip split: sum.split)

lemma readSignedInteger_reads: "reads snd s (readSignedInteger s)"
  unfolding readSignedInteger_def by (rule reads_with_mark) (rule signedInteger_body_marks)

lemma readSignedInteger_adve [simp, intro]: "adve s (snd (readSignedInteger s))"
  by (rule reads_adve [OF readSignedInteger_reads])

lemma adve_relay:
  "adve s (snd r) \<Longrightarrow>
     adve s (snd (case r of (Inl e, s1) \<Rightarrow> (Inl e, s1) | (Inr x, s1) \<Rightarrow> (Inr (h x), s1)))"
  by (auto split: prod.splits sum.splits)

lemma decimal_fraction_adve [simp, intro]: "adve s (snd (decimal_fraction t s))"
proof -
  obtain r s1 where r: "readInteger (skip s) = (r, s1)" by fastforce
  then have "adve s s1" using adve_via_skip [OF readInteger_adve [of "skip s"]] by simp
  with r show ?thesis by (auto simp: decimal_fraction_def split: sum.split)
qed

lemma decimal_exponent_adve [simp, intro]: "adve s (snd (decimal_exponent s))"
  using adve_relay [of s "readSignedInteger (skip s)" "\<lambda>_. ()"] unfolding decimal_exponent_def
  by (simp add: adve_via_skip case_prod_beta)

lemma decimal_end_marks: "marks snd s (decimal_end t s)"
  unfolding decimal_end_def by (auto intro!: marks_bind [where h = "\<lambda>e. e"] split: sum.split)

lemma decimal_body_marks: "marks snd s (decimal_body s)"
  unfolding decimal_body_def
  by (auto intro!: marks_bind [where h = "\<lambda>e. e"] decimal_end_marks)

lemma readDecimal_reads: "reads snd s (readDecimal s)"
  unfolding readDecimal_def by (rule reads_with_mark) (rule decimal_body_marks)

lemma readNumericBase_reads: "reads (\<lambda>x. x) s (readNumericBase digit s)"
  by (rule reads_relays [OF readWhileC_reads [of s "base_rune digit" 0 3]])
    (auto simp: readNumericBase_def relays_def split: prod.splits sum.splits)

section \<open>The next token\<close>

lemma adv_copyInput: "adv s d s' \<Longrightarrow> copyInput (length d) s = d"
  by (simp add: adv_def copyInput_def)

lemma peekSize_peek: "peekSize s = Inr (c, n) \<Longrightarrow> peek s = Inr c \<and> n = length (encode_rune c)"
  using decode1_Inr [of "s_input s" c n] by (auto simp: peek_def peekSize_def dest: arg_cong [where f = length])

lemma peek_peekSize: "peek s = Inr c \<Longrightarrow> \<exists>n. peekSize s = Inr (c, n) \<and> n = length (encode_rune c)"
proof -
  assume "peek s = Inr c"
  then obtain n where "peekSize s = Inr (c, n)" by (auto simp: peek_def split: sum.splits)
  with peekSize_peek [OF this] show ?thesis by blast
qed

lemma next_single_reads:
  assumes "peek s = Inr c" "sz = length (encode_rune c)"
  shows "reads snd s (next_single tid sz s)" "eats s (next_single tid sz s)"
  using skip_adv [OF assms(1)] adv_copyInput [OF skip_adv [OF assms(1)]] assms
  by (auto simp: reads_def eats_def next_single_def adve_def)

lemma peekTwoSize_skip2:
  assumes "peekTwoSize s = Inr (c1, n1, c2, n2)"
  shows "adv s (encode_rune c1 @ encode_rune c2) (skip (skip s))
    \<and> n1 = length (encode_rune c1) \<and> n2 = length (encode_rune c2) \<and> peek s = Inr c1"
proof -
  have p: "peekSize s = Inr (c1, n1)" "decode1 (drop n1 (s_input s)) = Inr (c2, n2)"
    using assms by (auto simp: peekTwoSize_def peekSize_def split: sum.splits)
  from peekSize_peek [OF p(1)] have a: "adv s (encode_rune c1) (skip s)" "n1 = length (encode_rune c1)"
    "peek s = Inr c1"
    using skip_adv by auto
  then have "peekSize (skip s) = Inr (c2, n2)"
    using p(2) by (simp add: peekSize_def adv_def)
  from peekSize_peek [OF this] have "adv (skip s) (encode_rune c2) (skip (skip s))"
    "n2 = length (encode_rune c2)"
    using skip_adv by auto
  with a show ?thesis by (simp add: adv_trans)
qed

lemma peekTwo_peek: "peekTwo s = Inr (c1, c2) \<Longrightarrow> peek s = Inr c1"
  by (auto simp: peekTwo_def split: sum.splits dest: peekTwoSize_skip2)

lemma peekTwo_skip2:
  "peekTwo s = Inr (c1, c2) \<Longrightarrow> adv s (encode_rune c1 @ encode_rune c2) (skip (skip s))"
  by (auto simp: peekTwo_def split: sum.splits dest: peekTwoSize_skip2)

text \<open>A two-rune token, and a one-rune token.\<close>

lemma reads_eats_copy:
  assumes "adv s d s'" "d \<noteq> []" "sz = length d"
  shows "reads snd s (Inr (tid, copyInput sz s), s')" "eats s (Inr (tid, copyInput sz s), s')"
  using assms adv_copyInput [OF assms(1)] adv_length [OF assms(1)]
  by (auto simp: reads_def eats_def adve_def)

lemma eats_with_mark: "(\<And>s. eats s (f s)) \<Longrightarrow> eats s (with_mark f s)"
proof -
  assume f: "\<And>s. eats s (f s)"
  show ?thesis
    using f [of "pushMark s"] by (auto simp: eats_def with_mark_def split: prod.splits)
qed

lemma eats_get_bind:
  assumes "\<And>c s1. get s = (Inr c, s1) \<Longrightarrow> marks g s1 (K c s1)"
  shows "eats s (case get s of (Inl e, s1) \<Rightarrow> (Inl (h e), s1) | (Inr c, s1) \<Rightarrow> K c s1)"
  using assms by (auto split: prod.splits sum.splits intro: eats_get)

lemma eats_relays: "eats s p \<Longrightarrow> relays g h p q \<Longrightarrow> eats s q"
  by (auto simp: eats_def relays_def)

lemma multiLineComment_eats: "eats s (readMultiLineComment s)"
  unfolding readMultiLineComment_def
proof (rule eats_with_mark)
  fix s
  show "eats s (multiLineComment_loop 0 s)"
    unfolding multiLineComment_loop.simps [of 0 s]
    by (rule eats_get_bind [where h = eof_unexpected and g = "\<lambda>x. x"])
      (auto simp: Let_def split: sum.split intro: multiLineComment_loop_marks marks_skip)
qed

lemma rawString_eats: "eats s (readRawString s)"
  unfolding readRawString_def rawString_body_def
  by (rule eats_with_mark, rule eats_get_bind [where g = "\<lambda>x. x"]) (auto intro!: marks_bind [where h = "\<lambda>e. e"])

lemma readWhileC_eats: "eats s (case readWhileC p st m s of ((r, _), s') \<Rightarrow> (r, s'))"
proof -
  obtain r st' s' where r: "readWhileC p st m s = ((r, st'), s')" by (metis prod.exhaust)
  with readWhileC_spec [OF r] show ?thesis by (auto simp: adv_def eats_def)
qed

lemma readWhile_eats: "eats s (readWhile p m s)"
proof -
  obtain r s' where r: "readWhile p m s = (r, s')" by fastforce
  with readWhile_spec [OF r] show ?thesis by (auto simp: adv_def eats_def)
qed

lemma readQuotedStringQ_eats: "eats s (readQuotedStringQ q s)"
  unfolding readQuotedStringQ_def by (auto simp: readWhileC_eats split: sum.split)

lemma opened_eats:
  assumes "\<And>s. marks (\<lambda>x. x) s (loop s)"
  shows "eats s (case get3 3 s of
        (Inl e, s1) \<Rightarrow> (Inl e, s1)
      | (Inr _, s1) \<Rightarrow>
          (case opening_line err s1 of
             (Inl e, s2) \<Rightarrow> (Inl e, s2)
           | (Inr _, s2) \<Rightarrow> loop s2))"
proof (cases "get s")
  case (Pair r s1)
  show ?thesis
  proof (cases r)
    case (Inr c)
    have "eats s (case get3 2 s1 of
        (Inl e, s1) \<Rightarrow> (Inl e, s1)
      | (Inr _, s1) \<Rightarrow>
          (case opening_line err s1 of
             (Inl e, s2) \<Rightarrow> (Inl e, s2)
           | (Inr _, s2) \<Rightarrow> loop s2))"
      by (rule eats_get [OF Pair [unfolded Inr]])
        (auto intro!: marks_bind [where h = "\<lambda>e. e"] assms)
    with Pair Inr show ?thesis by (simp add: numeral_3_eq_3 numeral_2_eq_2)
  qed (simp add: Pair numeral_3_eq_3)
qed

lemma multiLineString_eats: "eats s (readMultiLineString s)"
  unfolding readMultiLineString_def readMultiLineStringRaw_def readMultiLineStringRawNoMark_def
  by (rule eats_with_mark, rule opened_eats, rule multiLineString_loop_marks)

lemma multiLineExpression_eats: "eats s (readMultiLineExpressionString s)"
  unfolding readMultiLineExpressionString_def multiLineExpression_body_def
  by (rule eats_with_mark, rule opened_eats, rule multiLineExpression_loop_marks)

lemma hashToken_eats: "eats s (readHashToken s)"
  unfolding readHashToken_def hash_body_def
  by (rule eats_with_mark, rule eats_get_bind [where g = snd and h = "\<lambda>e. e"])
    (auto intro: hash_string_marks hash_keyword_marks split: sum.split)

lemma relays_as_token: "relays (\<lambda>x. x) snd p (as_token tid p)"
  by (auto simp: relays_def as_token_def split: prod.splits sum.splits)

lemmas as_token_eats = eats_relays [OF _ relays_as_token]

lemma bare_read_eats: "eats s (bare_read s)"
  by (rule eats_relays [where g = "\<lambda>x. x" and h = snd, OF readWhile_eats
        [of s "\<lambda>c. isBareIdentifierCharVersion c (s_relaxed s) False (s_version s)" 1]])
    (auto simp: bare_read_def relays_def split: prod.splits sum.splits)

lemma sign_read_eats:
  "eats s (case readWhile isSign 1 s of
       (Inl e', s') \<Rightarrow> (Inl e', s') | (Inr literal, s') \<Rightarrow> (Inr (BareIdentifier, literal), s'))"
  by (rule eats_relays [where g = "\<lambda>x. x" and h = snd, OF readWhile_eats [of s isSign 1]])
    (auto simp: relays_def split: prod.splits sum.splits)

lemma readBareIdentifier_eats: "eats s (readBareIdentifier s)"
  unfolding readBareIdentifier_def
  by (auto simp: bare_read_eats intro!: sign_read_eats [unfolded One_nat_def] split: sum.split)

lemma readIdentifier_eats: "eats s (readIdentifier s)"
  unfolding readIdentifier_def identifier_rest_def readQuotedString_def readExpressionString_def
    readSingleQuotedString_def
  by (auto simp: readBareIdentifier_eats split: sum.split
      intro!: as_token_eats rawString_eats readQuotedStringQ_eats multiLineString_eats
        multiLineExpression_eats)

lemma readInteger_eats: "eats s (readInteger s)"
  by (rule eats_relays [where g = "\<lambda>x. x" and h = snd, OF readWhileC_eats
        [of s "integer_rune (s_relaxed s)" integer_start 1]])
    (auto simp: readInteger_def relays_def split: prod.splits sum.splits)

text \<open>A call that eats, followed by one that only advances.\<close>

lemma eats_bind:
  assumes "eats s r" "\<And>x s1. r = (Inr x, s1) \<Longrightarrow> adve s1 (snd (K x s1))"
  shows "eats s (case r of (Inl e, s1) \<Rightarrow> (Inl (h e), s1) | (Inr x, s1) \<Rightarrow> K x s1)"
  using assms
  by (fastforce simp: eats_def split: prod.splits sum.splits dest: adve_length)

lemma marks_snd_adve: "marks g s p \<Longrightarrow> adve s (snd p)"
  by (simp add: marks_def)

lemma eats_skip: "eats (skip s) p \<Longrightarrow> eats s p"
  using adve_length [OF adve_skip [of s]] order_less_le_trans by (fastforce simp: eats_def)

lemma signedInteger_eats: "eats s (readSignedInteger s)"
  unfolding readSignedInteger_def
proof (rule eats_with_mark)
  fix s
  have "eats s (readInteger (if b then skip s else s))" for b
    by (simp add: readInteger_eats eats_skip)
  from this [of True] this [of False] show "eats s (signedInteger_body s)"
    unfolding signedInteger_body_def
    by (auto intro!: eats_bind [where h = "\<lambda>e. e"] split: sum.split)
qed

lemma decimal_eats: "eats s (readDecimal s)"
  unfolding readDecimal_def decimal_body_def
proof (rule eats_with_mark)
  fix s :: scanner
  have "adve s (snd (case decimal_fraction t s of
             (Inl e, s2) \<Rightarrow> (Inl e, s2)
           | (Inr tokenID', s2) \<Rightarrow>
               (case decimal_exponent s2 of
                  (Inl e, s3) \<Rightarrow> (Inl e, s3)
                | (Inr _, s3) \<Rightarrow> decimal_end tokenID' s3)))" for s t
    by (rule marks_snd_adve [where g = snd])
      (auto intro!: marks_bind [where h = "\<lambda>e. e"] decimal_end_marks)
  then show "eats s (case readSignedInteger s of
        (Inl e, s1) \<Rightarrow> (Inl e, s1)
      | (Inr (tokenID, _), s1) \<Rightarrow>
          (case decimal_fraction tokenID s1 of
             (Inl e, s2) \<Rightarrow> (Inl e, s2)
           | (Inr tokenID', s2) \<Rightarrow>
               (case decimal_exponent s2 of
                  (Inl e, s3) \<Rightarrow> (Inl e, s3)
                | (Inr _, s3) \<Rightarrow> decimal_end tokenID' s3)))"
    by (auto intro!: eats_bind [where h = "\<lambda>e. e"] signedInteger_eats)
qed

lemma numericBase_eats: "eats s (readNumericBase digit s)"
  by (rule eats_relays [where g = "\<lambda>x. x" and h = "\<lambda>x. x", OF readWhileC_eats [of s "base_rune digit" 0 3]])
    (auto simp: readNumericBase_def relays_def split: prod.splits sum.splits)

lemma readUntil_eats:
  assumes c: "peek s = Inr c" "\<not> stop c" and r: "readUntil stop inc s = (r, s')"
  shows "shorter s' s"
proof -
  let ?s = "pushMark s"
  obtain s2 where s2: "readUntil_loop stop inc ?s = (r, s2)" "s' = popMark s2"
    using r by (auto simp: readUntil_def with_mark_def split: prod.splits)
  then have "readUntil_loop stop inc (skip ?s) = (r, s2)"
    using c by (simp add: readUntil_loop.simps [of stop inc ?s])
  with readUntil_loop_spec [of stop inc "skip ?s" "fst r" "snd r" s2]
  have "adve (skip ?s) s2" by (auto simp: adve_def)
  with s2(2) shorter_skip [of ?s c s2] c(1) show ?thesis by simp
qed

lemma singleLineComment_eats:
  assumes "peek s = Inr c" "\<not> isNewline c"
  shows "eats s (readSingleLineComment s)"
proof -
  obtain r s' where r: "readUntil isNewline False s = (r, s')" by fastforce
  with readUntil_eats [OF assms r] show ?thesis
    by (cases r) (auto simp: eats_def readSingleLineComment_def split: option.splits)
qed

section \<open>The dispatch\<close>

text \<open>Both properties at once, in the shape the branches of the switch have.\<close>

definition lexes :: "scanner \<Rightarrow> lexeme \<Rightarrow> bool" where
  "lexes s p \<longleftrightarrow> reads snd s p \<and> eats s p"

lemma lexes_err [simp]: "lexes s (Inl e, s)"
  by (simp add: lexes_def)

lemma lexes_as_token: "reads (\<lambda>x. x) s p \<Longrightarrow> eats s p \<Longrightarrow> lexes s (as_token tid p)"
  by (simp add: lexes_def as_token_reads as_token_eats)

lemma lexes_copy:
  "adv s d s' \<Longrightarrow> d \<noteq> [] \<Longrightarrow> sz = length d \<Longrightarrow> lexes s (Inr (tid, copyInput sz s), s')"
  by (simp add: lexes_def reads_eats_copy)

lemma readers_lex [simp]:
  "lexes s (readIdentifier s)" "lexes s (readHashToken s)" "lexes s (readDecimal s)"
  "lexes s (as_token tid (readHexadecimal s))" "lexes s (as_token tid (readOctal s))"
  "lexes s (as_token tid (readBinary s))" "lexes s (as_token tid (readMultiLineComment s))"
  by (simp_all add: lexes_def readIdentifier_reads readIdentifier_eats readHashToken_reads
      hashToken_eats readDecimal_reads decimal_eats as_token_reads as_token_eats
      readNumericBase_reads numericBase_eats readMultiLineComment_reads multiLineComment_eats
      readHexadecimal_def readOctal_def readBinary_def)

lemma single_line_lexes:
  "peek s = Inr c \<Longrightarrow> \<not> isNewline c \<Longrightarrow> lexes s (as_token tid (readSingleLineComment s))"
  by (simp add: lexes_as_token readSingleLineComment_reads singleLineComment_eats)

lemma next_single_lexes:
  "peek s = Inr c \<Longrightarrow> sz = length (encode_rune c) \<Longrightarrow> lexes s (next_single tid sz s)"
  unfolding next_single_def by (rule lexes_copy [OF skip_adv]) auto

lemma next_return_lexes:
  assumes "peekSize s = Inr (c, sz)"
  shows "lexes s (next_return sz s)"
proof -
  note one = lexes_copy [OF skip_adv, of s c sz Newline]
  have p: "peek s = Inr c" "sz = length (encode_rune c)" using peekSize_peek [OF assms] by auto
  have two: "lexes s (Inr (Newline, copyInput (sz + n2) s), skip (skip s))"
    if "peekTwoSize s = Inr (c1, n1, c2, n2)" for c1 n1 c2 n2
    using peekTwoSize_skip2 [OF that] p by (auto intro!: lexes_copy)
  show ?thesis
    unfolding next_return_def using p one two by (auto split: sum.split)
qed

lemma next_slash_lexes:
  assumes "peek s = Inr (rune CHR ''/'')"
  shows "lexes s (next_slash s)"
proof -
  have "lexes s (Inr (TokenComment, copyInput 2 s), skip (skip s))"
    if "peekTwo s = Inr (c1, rune CHR ''-'')" for c1
    using lexes_copy [OF peekTwo_skip2 [OF that]] peekTwo_peek [OF that] assms
    by (simp add: append_rune_def numeral_2_eq_2)
  moreover have "\<not> isNewline (rune CHR ''/'')" by (simp add: isNewline_def)
  ultimately show ?thesis
    unfolding next_slash_def using assms by (auto simp: single_line_lexes split: sum.split)
qed

lemma next_default_lexes:
  assumes "peek s = Inr c"
  shows "lexes s (next_default c s)"
proof -
  have "\<not> isNewline (rune CHR ''#'')" by (simp add: isNewline_def)
  then show ?thesis
    unfolding next_default_def
    using assms by (auto simp: single_line_lexes append_rune_def intro!: next_single_lexes)
qed

lemma next_zero_lexes: "lexes s (next_zero s)"
  unfolding next_zero_def by (auto split: sum.split)

lemma next_signed_lexes: "lexes s (next_signed c s)"
  unfolding next_signed_def by (auto split: sum.split)

text \<open>
  Every token takes at least one byte off the input, and its data is exactly the bytes taken,
  unless the token is whitespace in front of bytes that are not UTF-8.
\<close>

lemma if_lexes:
  "(b \<Longrightarrow> lexes s p) \<Longrightarrow> (\<not> b \<Longrightarrow> lexes s q) \<Longrightarrow> lexes s (if b then p else q)"
  by simp

lemma next_single_ascii: "peek s = Inr c \<Longrightarrow> c < 128 \<Longrightarrow> lexes s (next_single tid 1 s)"
  by (erule next_single_lexes) (simp add: append_rune_def)

lemma next_lexeme_lexes:
  assumes "peek s = Inr c" "\<not> isWhiteSpace c"
  shows "lexes s (next_lexeme s)"
proof -
  obtain n where p: "peekSize s = Inr (c, n)" "n = length (encode_rune c)"
    using assms(1) peek_peekSize by blast
  note single = next_single_ascii [OF assms(1)] next_single_lexes [OF assms(1) p(2)]
  show ?thesis
    unfolding next_lexeme_def p(1) sum.case prod.case if_not_P [OF assms(2)]
    by (intro if_lexes)
      (simp_all add: single next_return_lexes [OF p(1)] next_slash_lexes [of s] assms(1)
        next_default_lexes next_zero_lexes next_signed_lexes del: One_nat_def)
qed

lemma next_lexeme_white:
  assumes "peek s = Inr c" "isWhiteSpace c" and n: "next_lexeme s = (Inr (tid, data), s')"
  shows "shorter s' s \<and> adve s s' \<and> (wf s \<longrightarrow> adv s data s' \<or> (\<exists>e. peek s' = Inl e \<and> e \<noteq> io_EOF))"
proof -
  obtain n where "peekSize s = Inr (c, n)"
    using assms(1) by (auto simp: peek_def split: sum.splits)
  with n assms(2) have "readWhitespace s = (data, s')"
    by (auto simp: next_lexeme_def split: prod.splits)
  with readWhitespace_spec [OF assms(1,2)] show ?thesis by blast
qed

theorem next_lexeme_spec:
  assumes "next_lexeme s = (r, s')"
  shows "adve s s' \<and> (\<forall>tid data. r = Inr (tid, data) \<longrightarrow> shorter s' s
    \<and> (wf s \<longrightarrow> adv s data s' \<or> (\<exists>e. peek s' = Inl e \<and> e \<noteq> io_EOF)))"
proof (cases "peek s")
  case (Inl e)
  then show ?thesis
    using assms by (auto simp: next_lexeme_def peek_def split: sum.splits)
next
  case (Inr c)
  show ?thesis
  proof (cases "isWhiteSpace c")
    case False
    from next_lexeme_lexes [OF Inr False] assms show ?thesis
      by (auto simp: lexes_def reads_def eats_def)
  next
    case True
    from Inr have "\<exists>n. peekSize s = Inr (c, n)" by (auto simp: peek_def split: sum.splits)
    with True assms obtain tid data where "r = Inr (tid, data)"
      by (auto simp: next_lexeme_def split: prod.splits)
    with next_lexeme_white [OF Inr True] assms show ?thesis by auto
  qed
qed

end
