(* ===== verification/Scan.thy ===== *)
theory Scan
  imports Lexing
begin

text \<open>
  The scan loops (\<open>internal/tokenizer/scanner.go\<close>, lines 398 to 414 and 966 to 1042), and what
  a complete scan keeps of its input.
\<close>

section \<open>Scan and ScanAll\<close>

text \<open>Version detection looks ahead and changes only the version fields.\<close>

definition retags :: "scanner \<Rightarrow> scanner \<Rightarrow> bool" where
  "retags s s' \<longleftrightarrow> s_input s' = s_input s \<and> s_raw s' = s_raw s \<and> s_marks s' = s_marks s
     \<and> s_relaxed s' = s_relaxed s \<and> s_line s' = s_line s \<and> s_column s' = s_column s"

lemma retags_rules:
  "retags s s"
  "retags s (s\<lparr>s_versionMarkerDetected := b\<rparr>)"
  "retags s (s\<lparr>s_version := v, s_versionMarkerDetected := b\<rparr>)"
  "(t \<Longrightarrow> retags s p) \<Longrightarrow> (\<not> t \<Longrightarrow> retags s q) \<Longrightarrow> retags s (if t then p else q)"
  "(\<And>e. retags s (f e)) \<Longrightarrow> (\<And>y. retags s (g y)) \<Longrightarrow>
     retags s (case x of Inl e \<Rightarrow> f e | Inr y \<Rightarrow> g y)"
  "retags s p \<Longrightarrow> (\<And>y. retags s (h y)) \<Longrightarrow> retags s (case z of None \<Rightarrow> p | Some y \<Rightarrow> h y)"
  by (auto simp: retags_def split: sum.split option.split)

lemma detectVersion_retags: "retags s (detectVersion s)"
  unfolding detectVersion_def detect_number_def Let_def by (intro retags_rules)

lemmas peekAt_detect = detectVersion_retags [unfolded retags_def]

lemma wf_detectVersion [simp]: "wf (detectVersion s) = wf s"
  by (simp add: wf_def peekAt_detect)

lemma readNext_spec:
  assumes "readNext s = (r, s')"
  obtains d where "s_input s = d @ s_input s'" "s_raw s' = s_raw s" "s_marks s' = s_marks s"
    "s_relaxed s' = s_relaxed s" "wf s \<Longrightarrow> wf s'"
    "\<And>t. r = Inr t \<Longrightarrow> shorter s' s
       \<and> (wf s \<longrightarrow> t_Data t = d \<or> (\<exists>e. peek s' = Inl e \<and> e \<noteq> io_EOF))"
proof -
  define s0 where "s0 = (if s_version s = VersionAuto \<and> \<not> s_versionMarkerDetected s
               then detectVersion s else s)"
  have s0: "s_input s0 = s_input s" "s_raw s0 = s_raw s" "s_marks s0 = s_marks s"
    "s_relaxed s0 = s_relaxed s" "wf s0 = wf s"
    by (simp_all add: s0_def peekAt_detect)
  obtain q where q: "next_lexeme s0 = (q, s')"
    using assms by (auto simp: readNext_def s0_def Let_def split: prod.splits sum.splits if_splits)
  from next_lexeme_spec [OF q] obtain d where d: "adv s0 d s'" by (auto simp: adve_def)
  have "shorter s' s0 \<and> (wf s0 \<longrightarrow> t_Data t = d \<or> (\<exists>e. peek s' = Inl e \<and> e \<noteq> io_EOF))"
    if "r = Inr t" for t
  proof -
    from that assms q obtain tid where "q = Inr (tid, t_Data t)"
      by (auto simp: readNext_def s0_def [symmetric] Let_def split: sum.splits)
    with next_lexeme_spec [OF q] d show ?thesis by (auto dest: adv_unique)
  qed
  with that [of d] d s0 adv_wf [OF d] show ?thesis by (simp add: adv_def)
qed

lemma readNext_shorter: "readNext s = (Inr t, s') \<Longrightarrow> shorter s' s"
  by (elim readNext_spec) simp

lemma readNext_shorter_sym: "(Inr t, s') = readNext s \<Longrightarrow> shorter s' s"
  using readNext_shorter [OF sym] .

text \<open>The loop of \<open>ScanAll\<close>.  It ends because every token takes at least one byte.\<close>

function ScanAll_loop :: "token list \<Rightarrow> scanner \<Rightarrow> (scan_error + token list) \<times> scanner" where
  "ScanAll_loop tokens s =
     (case readNext s of
        (Inr token, s') \<Rightarrow> ScanAll_loop (tokens @ [token]) s'
      | (Inl err, s') \<Rightarrow>
          if err = io_EOF then (Inr tokens, s') else (Inl (annotatedError err s'), s'))"
  by pat_completeness auto
termination
  by (relation "measure (\<lambda>(_, s). length (s_input s))") (auto intro: readNext_shorter_sym)

declare ScanAll_loop.simps [simp del]

definition ScanAll :: "scan_state \<Rightarrow> (scan_error + token list) \<times> scan_state" where
  "ScanAll s =
     (case s_err s of
        Some e \<Rightarrow> (Inl e, s)
      | None \<Rightarrow> (case ScanAll_loop [] (sc s) of (r, s') \<Rightarrow> (r, s\<lparr>sc := s'\<rparr>)))"

text \<open>
  \<open>eofToken\<close> with the position \<open>Scan\<close> gives it.  When \<open>Scan\<close> fails, \<open>s.token\<close> keeps what
  \<open>readNext\<close> had filled in so far; no caller reads it, and the model leaves no token there.
\<close>

definition eof_token :: "scanner \<Rightarrow> token" where
  "eof_token s = \<lparr>t_ID = EOF, t_Data = [], t_Line = s_line s, t_Column = s_column s,
     t_Version = s_version s\<rparr>"

definition Scan :: "scan_state \<Rightarrow> bool \<times> scan_state" where
  "Scan s =
     (case s_err s of
        Some e \<Rightarrow> (False, if e = io_EOF then s\<lparr>s_err := None\<rparr> else s)
      | None \<Rightarrow>
          (case readNext (sc s) of
             (Inr token, s') \<Rightarrow> (True, s\<lparr>sc := s', s_token := token, s_err := None\<rparr>)
           | (Inl err, s') \<Rightarrow>
               if err = io_EOF then (True, s\<lparr>sc := s', s_token := eof_token s', s_err := Some io_EOF\<rparr>)
               else (False, s\<lparr>sc := s', s_token := no_token, s_err := Some (annotatedError err s')\<rparr>)))"

definition Close :: "scan_state \<Rightarrow> scan_state" where
  "Close s = s\<lparr>sc := (sc s)\<lparr>s_input := [], s_raw := [], s_marks := []\<rparr>, s_err := Some ErrClosed\<rparr>"

text \<open>\<open>ScanOne\<close>: one token from the shared static scanner, which is only partly reset.\<close>

definition ScanOne :: "bytes \<Rightarrow> scanner \<Rightarrow> (scan_error + token) \<times> scanner" where
  "ScanOne b static = readNext (static\<lparr>s_raw := b, s_input := b, s_marks := []\<rparr>)"

section \<open>Which ends of input are taken for a clean end\<close>

definition no_eof :: "(scan_error + 'a) \<times> scanner \<Rightarrow> bool" where
  "no_eof p \<longleftrightarrow> fst p \<noteq> Inl io_EOF"

lemma no_eof_err [simp]: "no_eof (Inl e, s) \<longleftrightarrow> e \<noteq> io_EOF"
  by (simp add: no_eof_def)

lemma no_eof_ok [simp]: "no_eof (Inr x, s)"
  by (simp add: no_eof_def)

lemma no_eof_with_mark [simp]: "no_eof (with_mark f s) \<longleftrightarrow> no_eof (f (pushMark s))"
  by (auto simp: no_eof_def with_mark_def split: prod.splits)

lemma no_eof_as_token [simp]: "no_eof (as_token tid p) \<longleftrightarrow> no_eof p"
  by (auto simp: as_token_def no_eof_def split: prod.splits sum.splits)

lemma no_eof_bind:
  assumes "no_eof r" "\<And>x s1. r = (Inr x, s1) \<Longrightarrow> no_eof (K x s1)"
  shows "no_eof (case r of (Inl e, s1) \<Rightarrow> (Inl e, s1) | (Inr x, s1) \<Rightarrow> K x s1)"
  using assms by (auto simp: no_eof_def split: prod.splits sum.splits)

lemma no_eof_get:
  assumes "\<And>x s1. get s = (Inr x, s1) \<Longrightarrow> no_eof (K x s1)"
  shows "no_eof (case get s of (Inl e, s1) \<Rightarrow> (Inl (eof_unexpected e), s1) | (Inr x, s1) \<Rightarrow> K x s1)"
  using assms by (auto split: prod.splits sum.splits)

lemma readWhile_loop_no_eof: "fst (fst (readWhile_loop p m v st s)) \<noteq> Inl io_EOF"
proof (induction p m v st s rule: readWhile_loop.induct)
  case (1 p m v st s)
  then show ?case
    unfolding readWhile_loop.simps [of p m v st s]
    by (auto simp: readWhile_stop_def Let_def split: sum.split prod.split)
qed

lemma readWhileC_no_eof: "fst (fst (readWhileC p st m s)) \<noteq> Inl io_EOF"
  using readWhile_loop_no_eof [of p m False st "pushMark s"]
  by (auto simp: readWhileC_def with_mark_def split: prod.split)

lemma readWhile_no_eof [simp]: "no_eof (readWhile p m s)"
proof -
  obtain r st s' where "readWhileC (\<lambda>_ c _. (p c, ())) () m s = ((r, st), s')"
    by (metis prod.exhaust)
  with readWhileC_no_eof [of "\<lambda>_ c _. (p c, ())" "()" m s] show ?thesis
    by (simp add: readWhile_def no_eof_def)
qed

lemma multiLineComment_no_eof [simp]: "no_eof (multiLineComment_loop d s)"
proof (induction d s rule: multiLineComment_loop.induct)
  case (1 d s)
  show ?case
    unfolding multiLineComment_loop.simps [of d s]
    by (rule no_eof_get) (use "1" in \<open>auto simp: Let_def split: sum.split\<close>)
qed

lemma readRawStringContent_no_eof [simp]: "no_eof (readRawStringContent d s)"
proof (induction d s rule: readRawStringContent.induct)
  case (1 d s)
  show ?case
    unfolding readRawStringContent.simps [of d s]
    by (rule no_eof_get) (use "1" in \<open>auto split: prod.split\<close>)
qed

lemma rawString_hashLoop_no_eof [simp]: "no_eof (rawString_hashLoop d s)"
proof (induction d s rule: rawString_hashLoop.induct)
  case (1 d s)
  show ?case
    unfolding rawString_hashLoop.simps [of d s]
    by (rule no_eof_get) (use "1" in auto)
qed

lemma rawString_body_no_eof [simp]: "no_eof (rawString_body s)"
  unfolding rawString_body_def by (rule no_eof_get) (auto intro!: no_eof_bind)

lemma quoted_no_eof [simp]: "no_eof (readQuotedStringQ q s)"
proof -
  obtain r st s' where "readWhileC (quoted_rune q) quote_start 2 s = ((r, st), s')"
    by (metis prod.exhaust)
  with readWhileC_no_eof [of "quoted_rune q" quote_start 2 s] show ?thesis
    by (auto simp: readQuotedStringQ_def no_eof_def split: sum.split)
qed

lemma bare_read_no_eof [simp]: "no_eof (bare_read s)"
  unfolding bare_read_def by (rule no_eof_bind) auto

lemma readBareIdentifier_no_eof [simp]: "no_eof (readBareIdentifier s)"
  unfolding readBareIdentifier_def
  by (auto intro!: no_eof_bind readWhile_no_eof [unfolded One_nat_def] split: sum.split)

lemma get3_no_eof [simp]: "no_eof (get3 n s)"
  by (induction n s rule: get3.induct) (auto split: prod.split sum.split)

lemma opening_line_no_eof [simp]: "e \<noteq> io_EOF \<Longrightarrow> no_eof (opening_line e s)"
proof (induction e s rule: opening_line.induct)
  case (1 e s)
  then show ?case unfolding opening_line.simps [of e s] by (auto split: sum.split)
qed

lemma multiLineExpression_loop_no_eof [simp]: "no_eof (multiLineExpression_loop s)"
proof (induction s rule: multiLineExpression_loop.induct)
  case (1 s)
  show ?case
    unfolding multiLineExpression_loop.simps [of s]
    by (rule no_eof_get) (use "1" in \<open>auto simp: Let_def split: sum.split prod.split\<close>)
qed

lemma multiLineString_loop_no_eof [simp]: "no_eof (multiLineString_loop h s)"
proof (induction h s rule: multiLineString_loop.induct)
  case (1 h s)
  show ?case
    unfolding multiLineString_loop.simps [of h s]
    by (rule no_eof_get) (use "1" in \<open>auto simp: Let_def split: sum.split prod.split\<close>)
qed

lemma multiLineExpression_body_no_eof [simp]: "no_eof (multiLineExpression_body s)"
  unfolding multiLineExpression_body_def by (auto intro!: no_eof_bind)

lemma multiLineString_body_no_eof [simp]: "no_eof (readMultiLineStringRawNoMark h s)"
  unfolding readMultiLineStringRawNoMark_def by (auto intro!: no_eof_bind)

lemma readIdentifier_no_eof: "peek s = Inr c \<Longrightarrow> no_eof (readIdentifier s)"
  unfolding readIdentifier_def identifier_rest_def readRawString_def readQuotedString_def
    readExpressionString_def readSingleQuotedString_def readMultiLineString_def
    readMultiLineStringRaw_def readMultiLineExpressionString_def
  by (auto split: sum.split)

lemma readInteger_no_eof [simp]: "no_eof (readInteger s)"
proof -
  obtain r st s' where "readWhileC (integer_rune (s_relaxed s)) integer_start 1 s = ((r, st), s')"
    by (metis prod.exhaust)
  with readWhileC_no_eof [of "integer_rune (s_relaxed s)" integer_start 1 s] show ?thesis
    by (auto simp: readInteger_def no_eof_def split: sum.split)
qed

lemma numericBase_no_eof [simp]:
  "no_eof (readHexadecimal s)" "no_eof (readOctal s)" "no_eof (readBinary s)"
proof -
  have "no_eof (readNumericBase digit s)" for digit
  proof -
    obtain r st s' where "readWhileC (base_rune digit) 0 3 s = ((r, st), s')"
      by (metis prod.exhaust)
    with readWhileC_no_eof [of "base_rune digit" 0 3 s] show ?thesis
      by (auto simp: readNumericBase_def no_eof_def split: sum.split)
  qed
  then show "no_eof (readHexadecimal s)" "no_eof (readOctal s)" "no_eof (readBinary s)"
    by (simp_all add: readHexadecimal_def readOctal_def readBinary_def)
qed

lemma readSignedInteger_eof:
  assumes "fst (readSignedInteger s) = Inl io_EOF"
  shows "s_input s = []"
proof (rule ccontr)
  assume "s_input s \<noteq> []"
  then have "peek (pushMark s) \<noteq> Inl io_EOF" by (simp add: peek_EOF_iff)
  then have "no_eof (signedInteger_body (pushMark s))"
    unfolding signedInteger_body_def by (auto intro!: no_eof_bind split: sum.split)
  with assms show False by (simp add: readSignedInteger_def no_eof_def with_mark_def split: prod.splits)
qed

lemma char_lits [simp]:
  "char_of (35::nat) = CHR ''#''"
  "char_of (43::nat) = CHR ''+''"
  "char_of (45::nat) = CHR ''-''"
  "char_of (47::nat) = CHR ''/''"
  "char_of (48::nat) = CHR ''0''"
  "char_of (49::nat) = CHR ''1''"
  "char_of (50::nat) = CHR ''2''"
  "char_of (51::nat) = CHR ''3''"
  "char_of (52::nat) = CHR ''4''"
  "char_of (53::nat) = CHR ''5''"
  "char_of (54::nat) = CHR ''6''"
  "char_of (55::nat) = CHR ''7''"
  "char_of (56::nat) = CHR ''8''"
  "char_of (57::nat) = CHR ''9''"
  "char_of (63::nat) = CHR ''?''"
  "char_of (101::nat) = CHR ''e''"
  "char_of (69::nat) = CHR ''E''"
  using char_of_rune [of "CHR ''#''"]
    char_of_rune [of "CHR ''+''"]
    char_of_rune [of "CHR ''-''"]
    char_of_rune [of "CHR ''/''"]
    char_of_rune [of "CHR ''0''"]
    char_of_rune [of "CHR ''1''"]
    char_of_rune [of "CHR ''2''"]
    char_of_rune [of "CHR ''3''"]
    char_of_rune [of "CHR ''4''"]
    char_of_rune [of "CHR ''5''"]
    char_of_rune [of "CHR ''6''"]
    char_of_rune [of "CHR ''7''"]
    char_of_rune [of "CHR ''8''"]
    char_of_rune [of "CHR ''9''"]
    char_of_rune [of "CHR ''?''"]
    char_of_rune [of "CHR ''e''"]
    char_of_rune [of "CHR ''E''"]
  by simp_all

lemma decimal_exponent_eof:
  assumes "fst (decimal_exponent s) = Inl io_EOF"
  shows "s_input s = ''e'' \<or> s_input s = ''E''"
proof -
  from assms obtain c where c: "peek s = Inr c" "c = rune CHR ''e'' \<or> c = rune CHR ''E''"
    "fst (readSignedInteger (skip s)) = Inl io_EOF"
    by (auto simp: decimal_exponent_def split: prod.splits sum.splits if_splits)
  from skip_adv [OF c(1)] readSignedInteger_eof [OF c(3)] have "s_input s = encode_rune c"
    by (simp add: adv_def)
  with c(2) show ?thesis
    by (auto simp: append_rune_def)
qed

lemma decimal_fraction_no_eof [simp]: "no_eof (decimal_fraction t s)"
proof -
  obtain r s1 where r: "readInteger (skip s) = (r, s1)" by fastforce
  with readInteger_no_eof [of "skip s"] show ?thesis
    by (auto simp: decimal_fraction_def no_eof_def split: sum.split)
qed

lemma decimal_end_no_eof [simp]: "no_eof (decimal_end t s)"
  unfolding decimal_end_def by (auto intro!: no_eof_bind split: sum.split)

lemma decimal_eof:
  assumes "fst (readDecimal s) = Inl io_EOF" "s_input s \<noteq> []"
  shows "last (s_input s) \<in> {CHR ''e'', CHR ''E''}"
proof -
  let ?s = "pushMark s"
  obtain r1 s1 where r1: "readSignedInteger ?s = (r1, s1)" by fastforce
  from assms(2) readSignedInteger_eof [of ?s] r1 have n1: "r1 \<noteq> Inl io_EOF" by auto
  have f: "fst (decimal_body ?s) = Inl io_EOF"
    using assms(1) by (simp add: readDecimal_def with_mark_def split: prod.splits)
  from f r1 n1 obtain t1 d1 where t1: "r1 = Inr (t1, d1)"
    by (auto simp: decimal_body_def split: sum.splits)
  obtain r2 s2 where r2: "decimal_fraction t1 s1 = (r2, s2)" by fastforce
  with decimal_fraction_no_eof [of t1 s1] have "r2 \<noteq> Inl io_EOF" by (simp add: no_eof_def)
  with f r1 t1 r2 obtain t2 where t2: "r2 = Inr t2"
    by (auto simp: decimal_body_def split: sum.splits)
  obtain r3 s3 where r3: "decimal_exponent s2 = (r3, s3)" by fastforce
  have e: "r3 = Inl io_EOF"
    using f r1 t1 r2 t2 r3 decimal_end_no_eof [of t2 s3]
    by (cases r3) (auto simp: decimal_body_def no_eof_def)
  with decimal_exponent_eof [of s2] r3 have "s_input s2 = ''e'' \<or> s_input s2 = ''E''" by simp
  moreover have "adve ?s s2"
    using readSignedInteger_adve [of ?s] decimal_fraction_adve [of s1 t1] r1 r2
    by (auto intro: adve_trans)
  ultimately show ?thesis by (auto simp: adve_def adv_def)
qed

text \<open>
  The bytes a scan can end on without an error although they are not a token: \<open>readNext\<close>
  hands on the \<open>io.EOF\<close> it met inside them.
\<close>

definition cut_off :: "bytes \<Rightarrow> bool" where
  "cut_off rest \<longleftrightarrow> rest = ''/'' \<or> rest = ''?'' \<or> rest = ''0'' \<or> hd rest = CHR ''#''
     \<or> (hd rest \<in> set ''+-0123456789'' \<and> last rest \<in> {CHR ''e'', CHR ''E''})"

lemma peekTwo_eof:
  assumes "peekTwo s = Inl io_EOF" "peek s = Inr c"
  shows "s_input s = encode_rune c"
proof -
  obtain n where n: "decode1 (s_input s) = Inr (c, n)"
    using assms(2) by (auto simp: peek_def peekSize_def split: sum.splits)
  with assms(1) have "drop n (s_input s) = []"
    by (auto simp: peekTwo_def peekTwoSize_def decode1_EOF_iff split: sum.splits)
  with decode1_Inr [OF n] show ?thesis by auto
qed

lemma peek_hd: "peek s = Inr c \<Longrightarrow> c < 128 \<Longrightarrow> s_input s \<noteq> [] \<and> hd (s_input s) = char_of c"
  using skip_adv [of s c] by (auto simp: adv_def append_rune_def)

lemma single_line_no_eof: "no_eof (readSingleLineComment s)"
proof -
  have "snd (fst (readUntil_loop p inc s)) \<noteq> Some io_EOF" for p inc s
  proof (induction p inc s rule: readUntil_loop.induct)
    case (1 p inc s)
    then show ?case
      unfolding readUntil_loop.simps [of p inc s] by (auto simp: Let_def split: sum.split)
  qed
  from this [of isNewline False "pushMark s"] show ?thesis
    by (auto simp: readSingleLineComment_def readUntil_def with_mark_def no_eof_def
        split: prod.split option.split)
qed

lemma next_lexeme_eof:
  assumes "next_lexeme s = (Inl io_EOF, s')" "s_input s \<noteq> []"
  shows "cut_off (s_input s)"
proof -
  from assms(2) peek_EOF_iff [of s] assms(1) obtain c where c: "peek s = Inr c"
    by (cases "peek s") (auto simp: next_lexeme_def peek_def split: sum.splits)
  then obtain n where n: "peekSize s = Inr (c, n)" using peek_peekSize by blast
  have two: "s_input s = [char_of c]" if "peekTwo s = Inl io_EOF" "c < 128"
    using peekTwo_eof [OF that(1) c] that(2) by (simp add: append_rune_def)
  have hash: "cut_off (s_input s)" if "c = rune CHR ''#''"
    using peek_hd [OF c] that by (simp add: cut_off_def)
  have num: "cut_off (s_input s)" if "fst (readDecimal s) = Inl io_EOF"
    "c < 128" "char_of c \<in> set ''+-0123456789''"
    using decimal_eof [OF that(1) assms(2)] peek_hd [OF c that(2)] that(3) by (simp add: cut_off_def)
  have digit: "c < 128 \<and> char_of c \<in> set ''+-0123456789''" if "isDigit c"
  proof -
    have "c \<in> {48, 49, 50, 51, 52, 53, 54, 55, 56, 57}" using that by (simp add: isDigit_def) presburger
    then show ?thesis by auto
  qed
  have id: "fst (readIdentifier s) \<noteq> Inl io_EOF"
    using readIdentifier_no_eof [OF c] by (simp add: no_eof_def)
  have slash: "cut_off (s_input s)" if "c = rune CHR ''/''" "fst (next_slash s) = Inl io_EOF"
  proof (cases "peekTwo s")
    case (Inl e)
    with that two show ?thesis by (auto simp: next_slash_def cut_off_def)
  next
    case (Inr p)
    moreover have "no_eof (as_token MultiLineComment (readMultiLineComment s))"
      "no_eof (as_token SingleLineComment (readSingleLineComment s))"
      by (auto simp: readMultiLineComment_def single_line_no_eof)
    ultimately show ?thesis
      using that(2) id by (auto simp: next_slash_def no_eof_def split: prod.splits if_splits)
  qed
  have signed: "cut_off (s_input s)"
    if "fst (next_signed c s) = Inl io_EOF"
      "c = rune CHR ''?'' \<or> c = rune CHR ''+'' \<or> c = rune CHR ''-''"
    using that two num id
    by (auto simp: next_signed_def cut_off_def split: sum.splits if_splits prod.splits)
  have zero: "cut_off (s_input s)" if "fst (next_zero s) = Inl io_EOF" "c = rune CHR ''0''"
  proof (cases "peekTwo s")
    case (Inl e)
    with that two show ?thesis by (auto simp: next_zero_def cut_off_def)
  next
    case (Inr p)
    moreover have "no_eof (as_token t (readHexadecimal s))" "no_eof (as_token t (readOctal s))"
      "no_eof (as_token t (readBinary s))" for t by simp_all
    ultimately show ?thesis
      using that num by (auto simp: next_zero_def no_eof_def split: prod.splits if_splits)
  qed
  have def: "cut_off (s_input s)" if "fst (next_default c s) = Inl io_EOF"
    using that hash id by (auto simp: next_default_def next_single_def split: if_splits)
  have "fst (next_return n s) \<noteq> Inl io_EOF"
    by (auto simp: next_return_def split: sum.split)
  with assms(1) n slash signed zero def num digit id show ?thesis
    by (auto simp: next_lexeme_def next_single_def split: if_splits prod.splits)
qed

section \<open>A scan keeps its input\<close>

lemma readNext_eof:
  assumes "readNext s = (Inl io_EOF, s')" "s_input s \<noteq> []"
  shows "cut_off (s_input s)"
proof -
  define s0 where "s0 = (if s_version s = VersionAuto \<and> \<not> s_versionMarkerDetected s
               then detectVersion s else s)"
  have "next_lexeme s0 = (Inl io_EOF, s')"
    using assms by (auto simp: readNext_def s0_def Let_def split: prod.splits sum.splits if_splits)
  moreover have "s_input s0 = s_input s" by (simp add: s0_def peekAt_detect)
  ultimately show ?thesis using next_lexeme_eof assms(2) by metis
qed

lemma readNext_broken:
  assumes "peek s = Inl e" "e \<noteq> io_EOF"
  shows "fst (readNext s) = Inl e"
proof -
  define s0 where "s0 = (if s_version s = VersionAuto \<and> \<not> s_versionMarkerDetected s
               then detectVersion s else s)"
  have "s_input s0 = s_input s" by (simp add: s0_def peekAt_detect)
  with assms have "peekSize s0 = Inl e"
    by (auto simp: peek_def peekSize_def split: sum.splits)
  then show ?thesis by (simp add: readNext_def s0_def [symmetric] next_lexeme_def Let_def)
qed

lemma ScanAll_loop_broken:
  "peek s = Inl e \<Longrightarrow> e \<noteq> io_EOF \<Longrightarrow> ScanAll_loop acc s \<noteq> (Inr ts, s')"
  using readNext_broken [of s e] by (auto simp: ScanAll_loop.simps [of acc s] split: prod.splits)

lemma ScanAll_loop_keeps:
  assumes "ScanAll_loop acc s = (Inr ts, s')" "wf s"
  shows "\<exists>new rest. ts = acc @ new \<and> s_input s = concat (map t_Data new) @ rest
           \<and> (rest = [] \<or> cut_off rest)"
  using assms
proof (induction acc s rule: ScanAll_loop.induct)
  case (1 acc s)
  obtain r s1 where n: "readNext s = (r, s1)" by fastforce
  from readNext_spec [OF n] obtain d where d: "s_input s = d @ s_input s1" "wf s \<Longrightarrow> wf s1"
    "\<And>t. r = Inr t \<Longrightarrow> wf s \<longrightarrow> t_Data t = d \<or> (\<exists>e. peek s1 = Inl e \<and> e \<noteq> io_EOF)"
    by metis
  show ?case
  proof (cases r)
    case (Inr t)
    with n "1.prems" have run: "ScanAll_loop (acc @ [t]) s1 = (Inr ts, s')"
      by (simp add: ScanAll_loop.simps [of acc s])
    with ScanAll_loop_broken d(3) Inr "1.prems"(2) have data: "t_Data t = d" by metis
    have "wf s1" by (rule d(2)) (rule "1.prems")
    from "1.IH" [OF n [symmetric] Inr run this] obtain new rest where
      "ts = (acc @ [t]) @ new" "s_input s1 = concat (map t_Data new) @ rest" "rest = [] \<or> cut_off rest"
      by blast
    with d(1) data show ?thesis by (intro exI [of _ "t # new"] exI [of _ rest]) simp
  next
    case (Inl e)
    with n "1.prems" have "e = io_EOF" "ts = acc"
      by (auto simp: ScanAll_loop.simps [of acc s] split: if_splits)
    with readNext_eof n Inl show ?thesis by (intro exI [of _ "[]"] exI [of _ "s_input s"]) auto
  qed
qed

text \<open>C6: the lexer loses nothing silently except at the very end.  If \<open>ScanAll\<close> returns
  without an error, the token data put end to end is the input, up to a remainder that is
  empty or one of a few cut-off tokens: a lone \<open>/\<close>, \<open>?\<close> or \<open>0\<close>, something starting
  with \<open>#\<close>, or a number that stops after its exponent letter.  Those are dropped without an
  error, because their reader met the end of input and \<open>readNext\<close> hands \<open>io.EOF\<close> on.\<close>

theorem ScanAll_lossless:
  assumes "ScanAll (NewSlice input) = (Inr tokens, s')"
  shows "\<exists>rest. input = concat (map t_Data tokens) @ rest \<and> (rest = [] \<or> cut_off rest)"
proof -
  have "ScanAll_loop [] (sliceScanner input) = (Inr tokens, sc s')"
    using assms by (auto simp: ScanAll_def NewSlice_def split: prod.splits)
  from ScanAll_loop_keeps [OF this wf_sliceScanner] show ?thesis by (auto simp: sliceScanner_def)
qed

lemma ScanAll_lossless_witness:
  "\<exists>tokens rest. fst (ScanAll (NewSlice ''node 10 a=true; b 0'')) = Inr tokens
     \<and> ''node 10 a=true; b 0'' = concat (map t_Data tokens) @ rest \<and> (rest = [] \<or> cut_off rest)"
proof -
  have ok: "\<not> isl (fst (ScanAll (NewSlice ''node 10 a=true; b 0'')))"
    by code_simp
  obtain r s' where r: "ScanAll (NewSlice ''node 10 a=true; b 0'') = (r, s')" by fastforce
  with ok obtain tokens where t: "r = Inr tokens" by (cases r) auto
  from ScanAll_lossless [OF r [unfolded t]] show ?thesis by (auto simp: r t)
qed

section \<open>Scanning comes to an end\<close>

text \<open>The scanner after \<open>k\<close> calls of \<open>Scan\<close>.\<close>

definition after_scans :: "nat \<Rightarrow> scan_state \<Rightarrow> scan_state" where
  "after_scans k s = ((snd \<circ> Scan) ^^ k) s"

lemma scans_end:
  "s_err s = None \<Longrightarrow> \<exists>k \<le> length (s_input (sc s)) + 1. \<not> fst (Scan (after_scans k s))"
proof (induction "length (s_input (sc s))" arbitrary: s rule: less_induct)
  case less
  obtain r s1 where n: "readNext (sc s) = (r, s1)" by fastforce
  show ?case
  proof (cases r)
    case (Inr t)
    let ?s = "s\<lparr>sc := s1, s_token := t, s_err := None\<rparr>"
    have sh: "length (s_input s1) < length (s_input (sc s))"
      using readNext_shorter n Inr by simp
    with less.hyps [of ?s] obtain k where "k \<le> length (s_input s1) + 1" "\<not> fst (Scan (after_scans k ?s))" by auto
    moreover have "after_scans (Suc k) s = after_scans k ?s"
      using less.prems n Inr by (simp add: after_scans_def funpow_Suc_right Scan_def del: funpow.simps)
    ultimately show ?thesis using sh by (intro exI [of _ "Suc k"]) simp
  next
    case (Inl e)
    show ?thesis
    proof (cases "e = io_EOF")
      case True
      with less.prems n Inl have "\<not> fst (Scan (after_scans 1 s))"
        by (simp add: after_scans_def Scan_def)
      then show ?thesis by (intro exI [of _ 1]) simp
    next
      case False
      with less.prems n Inl have "\<not> fst (Scan (after_scans 0 s))"
        by (simp add: after_scans_def Scan_def)
      then show ?thesis by (intro exI [of _ 0]) simp
    qed
  qed
qed

text \<open>C15: scanning comes to an end.  On every input, valid or not, a loop that calls \<open>Scan\<close> until it
  returns false ends: it has been given at most one token for each byte of the input, and the
  token for the end.\<close>

theorem scan_loop_ends:
  "\<exists>k \<le> length input + 1. \<not> fst (Scan (after_scans k (NewSlice input)))"
  using scans_end [of "NewSlice input"] by (simp add: NewSlice_def sliceScanner_def)

end
