(* ===== verification/Parser.thy ===== *)
theory Parser
  imports Transitions Scan
begin

text \<open>
  The parser's entry points (\<open>internal/parser/parser.go\<close>) and the public ones that drive it
  (\<open>kdl.go\<close>, lines 14 to 142).
\<close>

section \<open>Adjacent tokens\<close>

definition tokensAdjacent :: "token \<Rightarrow> token \<Rightarrow> bool" where
  "tokensAdjacent prev cur \<longleftrightarrow>
     t_Line prev = t_Line cur \<and> t_Column cur = t_Column prev + length (t_Data prev)"

definition scalar_tokens :: "token_id list" where
  "scalar_tokens =
     [BareIdentifier, RawString, QuotedString, Decimal, Hexadecimal, Octal, Binary,
      SuffixedDecimal, Boolean, Null, Keyword]"

definition isValueLikeToken :: "token_id \<Rightarrow> bool" where
  "isValueLikeToken tid \<longleftrightarrow> tid \<in> set scalar_tokens \<or> tid = BraceClose"

definition requiresV2Separation :: "token \<Rightarrow> token \<Rightarrow> bool" where
  "requiresV2Separation prev cur \<longleftrightarrow> tokensAdjacent prev cur
     \<and> ((isValueLikeToken (t_ID prev) \<and> t_ID cur \<in> set scalar_tokens)
        \<or> (t_ID prev = ParensClose \<and> t_ID cur = TokenComment))"

definition isTriviaToken :: "token_id \<Rightarrow> bool" where
  "isTriviaToken tid \<longleftrightarrow> tid \<in> {Whitespace, Newline, SingleLineComment, MultiLineComment}"

section \<open>One token\<close>

text \<open>The first handler: for the token's own id, or else for its first class that has one.\<close>

fun class_handler :: "parser_state \<Rightarrow> token_id list \<Rightarrow> (token \<Rightarrow> step) option" where
  "class_handler st [] = None"
| "class_handler st (tc # tcs) =
     (case stateTransitions st tc of Some h \<Rightarrow> Some h | None \<Rightarrow> class_handler st tcs)"

definition find_handler :: "parser_state \<Rightarrow> token_id \<Rightarrow> (token \<Rightarrow> step) option" where
  "find_handler st tid =
     (case stateTransitions st tid of Some h \<Rightarrow> Some h | None \<Rightarrow> class_handler st (Classes tid))"

text \<open>Lines 133 to 141.\<close>

definition separation_error :: "ctx \<Rightarrow> token \<Rightarrow> bool" where
  "separation_error c t \<longleftrightarrow> v2 c
     \<and> (let recent = recent_Get (c_recent c)
        in length recent \<ge> 2 \<and> requiresV2Separation (recent ! (length recent - 2)) t)"

text \<open>Lines 142 to 152: what may follow an ignored child block.\<close>

definition check_ignored_block :: "token \<Rightarrow> step" where
  "check_ignored_block t c =
     (if c_afterIgnoredChildBlock c then
        (if t_ID t \<in> {Whitespace, SingleLineComment, MultiLineComment} then ok c
         else if t_ID t \<in> {Newline, EOF, Continuation} then ok (c\<lparr>c_afterIgnoredChildBlock := False\<rparr>)
         else (Some (unexpectedAfterIgnoredChildBlock t), c))
      else ok c)"

text \<open>Lines 154 to 171: line continuations.\<close>

definition track_continuation :: "token \<Rightarrow> ctx \<Rightarrow> ctx" where
  "track_continuation t c =
     (if c_continuation c then
        (if t_ID t = Newline then
           (if c_continuationNewlineSeen c then stopContinuation c
            else c\<lparr>c_continuationNewlineSeen := True\<rparr>)
         else if t_ID t \<in> {Whitespace, SingleLineComment, MultiLineComment} then c
         else (stopContinuation c)\<lparr>c_justContinuedLine := True\<rparr>)
      else if \<not> isTriviaToken (t_ID t) then c\<lparr>c_justContinuedLine := False\<rparr>
      else c)"

definition dispatch :: "token \<Rightarrow> step" where
  "dispatch t c =
     (case find_handler (c_state c) (t_ID t) of
        None \<Rightarrow> reject t c
      | Some h \<Rightarrow> h t c)"

definition parse :: "token \<Rightarrow> step" where
  "parse t c =
     (if separation_error c t then (Some (missingSeparatorError t), c)
      else andThen (check_ignored_block t) (\<lambda>c. dispatch t (track_continuation t c)) c)"

definition Parse :: "token \<Rightarrow> step" where
  "Parse t c = parse t (c\<lparr>c_recent := recent_Add t (c_recent c)\<rparr>)"

end
