(* ===== verification/Stacks.thy ===== *)
theory Stacks
  imports Parser "HOL-Library.Multiset"
begin

text \<open>
  The invariant of the parser's two stacks and of its node store, and that every handler keeps
  it.  It rules out the internal errors: an empty stack, and a method call on a nil node.
\<close>

section \<open>The invariant\<close>

definition node_level :: "parser_state \<Rightarrow> bool" where
  "node_level st \<longleftrightarrow> st \<in> {stateNode, stateNodeParams, stateNodeEnd, stateArgProp, stateProperty, statePropertyValue}"

definition annot_level :: "parser_state \<Rightarrow> bool" where
  "annot_level st \<longleftrightarrow> st \<in> {stateTypeAnnot, stateTypeDone}"

text \<open>
  Which stacks of states occur, top first, with the number of nodes that are open: a document,
  in it a node, in that a child block, and so on, and on top perhaps a type annotation.
\<close>

inductive stack_ok :: "parser_state list \<Rightarrow> nat \<Rightarrow> bool" where
  document: "stack_ok [stateDocument] 0"
| node: "stack_ok (b # s) n \<Longrightarrow> b \<in> {stateDocument, stateChildren} \<Longrightarrow> node_level st \<Longrightarrow>
    stack_ok (st # b # s) (Suc n)"
| children: "stack_ok (b # s) n \<Longrightarrow> b \<in> {stateNode, stateNodeParams, stateArgProp} \<Longrightarrow>
    stack_ok (stateChildren # b # s) n"
| annot: "stack_ok (b # s) n \<Longrightarrow>
    b \<in> {stateDocument, stateChildren, stateNodeParams, statePropertyValue} \<Longrightarrow> annot_level st \<Longrightarrow>
    stack_ok (st # b # s) n"

inductive_cases stack_nodeE: "stack_ok (st # s) n"
inductive_simps stack_single [simp]: "stack_ok [st] n"
inductive_simps stack_empty [simp]: "stack_ok [] n"

definition stack :: "ctx \<Rightarrow> parser_state list" where
  "stack c = c_state c # rev (c_states c)"

text \<open>
  Every pointer is in the store, a node's children come after it, and no node is entered twice,
  be it in the document or in a list of children: the nodes form a forest.
\<close>

definition children_after :: "node list \<Rightarrow> bool" where
  "children_after store \<longleftrightarrow>
     (\<forall>i < length store. \<forall>k \<in> set (n_Children (store ! i)). i < k \<and> k < length store)"

definition entries :: "ref list \<Rightarrow> node list \<Rightarrow> ref list" where
  "entries doc store = doc @ concat (map n_Children store)"

definition refs_ok :: "ctx \<Rightarrow> bool" where
  "refs_ok c \<longleftrightarrow> set (c_node c) \<union> set (c_doc c) \<subseteq> {..< length (c_store c)}
     \<and> children_after (c_store c) \<and> distinct (entries (c_doc c) (c_store c))
     \<and> (\<forall>r. c_lastAddedNode c = Some r \<longrightarrow> r < length (c_store c))
     \<and> (c_node c \<noteq> [] \<longrightarrow> c_lastAddedNode c \<noteq> None)"

definition inv :: "ctx \<Rightarrow> bool" where
  "inv c \<longleftrightarrow> stack_ok (stack c) (length (c_node c)) \<and> refs_ok c"

lemma inv_start: "inv (NewContextOptions opts)"
  by (simp add: inv_def stack_def refs_ok_def children_after_def entries_def NewContextOptions_def stack_ok.document)

section \<open>Fields the invariant does not see\<close>

lemma refs_fields [simp]:
  "refs_ok (c\<lparr>c_state := st\<rparr>) = refs_ok c"
  "refs_ok (c\<lparr>c_states := sts\<rparr>) = refs_ok c"
  by (simp_all add: refs_ok_def)

lemma refs_pop: "refs_ok c \<Longrightarrow> refs_ok (c\<lparr>c_node := butlast (c_node c)\<rparr>)"
  by (auto simp: refs_ok_def dest: in_set_butlastD)

lemma inv_fields [simp]:
  "inv (c\<lparr>c_ident := a\<rparr>) = inv c"
  "inv (c\<lparr>c_typeAnnot := a\<rparr>) = inv c"
  "inv (c\<lparr>c_continuation := b\<rparr>) = inv c"
  "inv (c\<lparr>c_continuationNewlineSeen := b\<rparr>) = inv c"
  "inv (c\<lparr>c_justContinuedLine := b\<rparr>) = inv c"
  "inv (c\<lparr>c_ignoreNextNode := b\<rparr>) = inv c"
  "inv (c\<lparr>c_ignoreNextArgProp := b\<rparr>) = inv c"
  "inv (c\<lparr>c_ignoreChildren := k\<rparr>) = inv c"
  "inv (c\<lparr>c_afterIgnoredChildBlock := b\<rparr>) = inv c"
  "inv (c\<lparr>c_ignoreChildBlockFromContinuation := b\<rparr>) = inv c"
  "inv (c\<lparr>c_ignoreFromContinuation := b\<rparr>) = inv c"
  "inv (c\<lparr>c_comment := x\<rparr>) = inv c"
  "inv (c\<lparr>c_recent := r\<rparr>) = inv c"
  by (simp_all add: inv_def stack_def refs_ok_def)

lemma inv_ops [simp]:
  "inv (startContinuation c) = inv c"
  "inv (stopContinuation c) = inv c"
  "inv (markIgnoreFromContinuation c) = inv c"
  "inv (clear_typeAnnot c) = inv c"
  "inv (clear_ident c) = inv c"
  "inv (write_comment b c) = inv c"
  "inv (ignore_block c) = inv c"
  by (simp_all add: startContinuation_def stopContinuation_def markIgnoreFromContinuation_def
      clear_typeAnnot_def clear_ident_def write_comment_def ignore_block_def)

lemma inv_leave_ignored [simp]: "inv (leave_ignored c) = inv c"
  by (simp add: leave_ignored_def Let_def)

text \<open>And the stack fields those operations do not touch.\<close>

lemma state_ops [simp]:
  "c_state (startContinuation c) = c_state c"
  "c_state (stopContinuation c) = c_state c"
  "c_state (markIgnoreFromContinuation c) = c_state c"
  "c_state (clear_typeAnnot c) = c_state c"
  "c_state (clear_ident c) = c_state c"
  "c_state (write_comment b c) = c_state c"
  "c_state (ignore_block c) = c_state c"
  "c_state (leave_ignored c) = c_state c"
  "c_state (update_node r f c) = c_state c"
  by (simp_all add: startContinuation_def stopContinuation_def markIgnoreFromContinuation_def
      clear_typeAnnot_def clear_ident_def write_comment_def ignore_block_def leave_ignored_def
      update_node_def Let_def)

lemma states_ops [simp]:
  "c_states (startContinuation c) = c_states c"
  "c_states (stopContinuation c) = c_states c"
  "c_states (markIgnoreFromContinuation c) = c_states c"
  "c_states (clear_typeAnnot c) = c_states c"
  "c_states (clear_ident c) = c_states c"
  "c_states (write_comment b c) = c_states c"
  "c_states (ignore_block c) = c_states c"
  "c_states (leave_ignored c) = c_states c"
  "c_states (update_node r f c) = c_states c"
  by (simp_all add: startContinuation_def stopContinuation_def markIgnoreFromContinuation_def
      clear_typeAnnot_def clear_ident_def write_comment_def ignore_block_def leave_ignored_def
      update_node_def Let_def)

section \<open>Fields it does see\<close>

lemma refs_update_node:
  assumes "refs_ok c" "\<And>m. n_Children (f m) = n_Children m"
  shows "refs_ok (update_node r f c)"
proof -
  have "map n_Children ((c_store c)[r := f (c_store c ! r)]) = map n_Children (c_store c)"
    using assms(2) list_update_id [of "map n_Children (c_store c)" r]
    by (cases "r < length (c_store c)") (simp_all add: map_update list_update_beyond)
  moreover from this have "n_Children ((c_store c)[r := f (c_store c ! r)] ! i) = n_Children (c_store c ! i)"
    if "i < length (c_store c)" for i
    using that assms(2) by (cases "i = r") simp_all
  then have "children_after (c_store c) \<Longrightarrow> children_after ((c_store c)[r := f (c_store c ! r)])"
    unfolding children_after_def length_list_update by metis
  ultimately show ?thesis using assms(1) by (simp add: refs_ok_def update_node_def entries_def)
qed

lemma inv_update_node:
  assumes "inv c" "\<And>m. n_Children (f m) = n_Children m"
  shows "inv (update_node r f c)"
  using assms(1) refs_update_node [OF _ assms(2), of c r]
  by (simp add: inv_def stack_def update_node_def)

lemma level_facts [simp]:
  "\<not> node_level stateDocument" "\<not> node_level stateChildren" "\<not> annot_level stateChildren"
  "\<not> annot_level stateDocument" "annot_level stateTypeAnnot" "annot_level stateTypeDone"
  "node_level stateNode" "node_level stateNodeParams" "node_level stateNodeEnd"
  "node_level stateArgProp" "node_level stateProperty" "node_level statePropertyValue"
  by (simp_all add: node_level_def annot_level_def)

lemma level_excl: "node_level st \<Longrightarrow> annot_level st \<Longrightarrow> False"
  by (auto simp: node_level_def annot_level_def)

lemma stack_node_level:
  assumes "stack_ok (st # s) n" "node_level st"
  shows "\<exists>b t m. s = b # t \<and> n = Suc m \<and> stack_ok (b # t) m \<and> (b = stateDocument \<or> b = stateChildren)"
  using assms(1)
  by (rule stack_nodeE) (use assms(2) level_excl level_facts in blast)+

lemma stack_other_level:
  assumes "stack_ok (st # s) n" "st = stateChildren \<or> annot_level st"
  shows "\<exists>b t. s = b # t \<and> stack_ok (b # t) n \<and> (annot_level st \<longrightarrow>
    b = stateDocument \<or> b = stateChildren \<or> b = stateNodeParams \<or> b = statePropertyValue)"
  using assms(1)
  by (rule stack_nodeE) (use assms(2) level_excl level_facts in blast)+

lemma inv_node_state:
  assumes "inv c" "node_level (c_state c)" "node_level st"
  shows "inv (c\<lparr>c_state := st\<rparr>)"
proof -
  have "stack_ok (st # rev (c_states c)) (length (c_node c))"
    if "stack_ok (c_state c # rev (c_states c)) (length (c_node c))"
    using stack_node_level [OF that assms(2)] assms(3) by (auto intro: stack_ok.node)
  with assms(1) show ?thesis by (simp add: inv_def stack_def)
qed

lemma inv_annot_done:
  assumes "inv c" "c_state c = stateTypeAnnot"
  shows "inv (c\<lparr>c_state := stateTypeDone\<rparr>)"
proof -
  have "stack_ok (stateTypeDone # rev (c_states c)) (length (c_node c))"
    if "stack_ok (stateTypeAnnot # rev (c_states c)) (length (c_node c))"
    using stack_other_level [OF that] by (auto simp: stack_ok.annot)
  with assms show ?thesis by (simp add: inv_def stack_def)
qed

lemma inv_push_children:
  assumes "inv c" "c_state c \<in> {stateNode, stateNodeParams, stateArgProp}"
  shows "inv (pushState stateChildren c)"
  using assms stack_ok.children [of "c_state c" "rev (c_states c)" "length (c_node c)"]
  by (simp add: inv_def stack_def pushState_def)

lemma inv_push_annot:
  assumes "inv c" "c_state c \<in> {stateDocument, stateChildren, stateNodeParams, statePropertyValue}"
  shows "inv (pushState stateTypeAnnot c)"
  using assms stack_ok.annot [of "c_state c" "rev (c_states c)" "length (c_node c)" stateTypeAnnot]
  by (simp add: inv_def stack_def pushState_def annot_level_def)

lemma open_nodes:
  assumes "stack_ok s n" "node_level (hd s) \<or> hd s = stateChildren"
  shows "0 < n"
  using assms
proof (induction rule: stack_ok.induct)
  case (children b s n)
  then show ?case by (auto simp: node_level_def)
qed (auto simp: node_level_def annot_level_def)

lemma inv_current_node:
  assumes "inv c" "node_level (c_state c) \<or> c_state c = stateChildren"
  shows "c_node c \<noteq> []"
  using assms open_nodes [of "stack c" "length (c_node c)"] by (auto simp: inv_def stack_def)

lemma rev_last: "rev xs = b # t \<Longrightarrow> xs \<noteq> [] \<and> last xs = b \<and> rev (butlast xs) = t"
  by (cases xs rule: rev_cases) auto

lemma popState_inv:
  assumes "inv c" "c_state c = stateChildren \<or> annot_level (c_state c)"
  shows "\<exists>c'. popState c = (None, c') \<and> inv c' \<and> length (c_states c') < length (c_states c)"
proof -
  have "stack_ok (c_state c # rev (c_states c)) (length (c_node c))"
    using assms(1) by (simp add: inv_def stack_def)
  from stack_other_level [OF this assms(2)] obtain b t
    where "rev (c_states c) = b # t" "stack_ok (b # t) (length (c_node c))" by blast
  with rev_last [of "c_states c"] assms(1) show ?thesis
    by (auto simp: popState_def inv_def stack_def)
qed

lemma popNodeAndState_inv:
  assumes "inv c" "node_level (c_state c)"
  shows "\<exists>c'. popNodeAndState c = (None, c') \<and> inv c' \<and> length (c_states c') < length (c_states c)"
proof -
  have "stack_ok (c_state c # rev (c_states c)) (length (c_node c))"
    using assms(1) by (simp add: inv_def stack_def)
  from stack_node_level [OF this assms(2)] obtain b t m
    where s: "rev (c_states c) = b # t" "length (c_node c) = Suc m" "stack_ok (b # t) m" by blast
  have "refs_ok (c\<lparr>c_node := butlast (c_node c)\<rparr>)"
    using assms(1) by (simp add: inv_def refs_pop)
  then have "refs_ok (c\<lparr>c_state := b, c_states := butlast (c_states c), c_node := butlast (c_node c)\<rparr>)"
    by (simp add: refs_ok_def)
  with s rev_last [OF s(1)] show ?thesis
    by (auto simp: popNodeAndState_def andThen_def popState_def popNode_def inv_def stack_def)
qed

section \<open>Steps inside a node\<close>

definition internal :: "parse_error option \<Rightarrow> bool" where
  "internal e \<longleftrightarrow> e \<in> {Some errNodeStackEmpty, Some errStateStackEmpty, Some NilNode}"

lemma internal_simps [simp]:
  "\<not> internal None" "\<not> internal (Some (Message m))" "\<not> internal (Some (BadValue v))"
  "\<not> internal (Some ErrReenterState)" "internal (Some NilNode)"
  by (simp_all add: internal_def)

text \<open>A step that leaves the stacks alone and cannot fail internally while a node is open.\<close>

definition within_node :: "step \<Rightarrow> bool" where
  "within_node f \<longleftrightarrow> (\<forall>c. inv c \<and> c_node c \<noteq> [] \<longrightarrow>
     (case f c of (e, c') \<Rightarrow> inv c' \<and> c_state c' = c_state c \<and> c_states c' = c_states c
        \<and> c_node c' = c_node c \<and> \<not> internal e \<and> e \<noteq> Some ErrReenterState))"

lemma within_nodeD:
  assumes "within_node f" "inv c" "c_node c \<noteq> []" "f c = (e, c')"
  shows "inv c'" "c_state c' = c_state c" "c_states c' = c_states c" "c_node c' = c_node c"
    "\<not> internal e" "e \<noteq> Some ErrReenterState"
  using assms by (auto simp: within_node_def)

lemma within_andThen [intro]:
  assumes "within_node f" "within_node g"
  shows "within_node (andThen f g)"
  unfolding within_node_def
proof (intro allI impI)
  fix c assume c: "inv c \<and> c_node c \<noteq> []"
  obtain e c' where f: "f c = (e, c')" by fastforce
  obtain e' c'' where g: "g c' = (e', c'')" by fastforce
  note F = within_nodeD [OF assms(1) conjunct1 [OF c] conjunct2 [OF c] f]
  have "c_node c' \<noteq> []" using F(4) c by simp
  note G = within_nodeD [OF assms(2) F(1) this g]
  show "case andThen f g c of (e, c') \<Rightarrow> inv c' \<and> c_state c' = c_state c \<and> c_states c' = c_states c
      \<and> c_node c' = c_node c \<and> \<not> internal e \<and> e \<noteq> Some ErrReenterState"
    using F G by (cases e) (simp_all add: andThen_def f g)
qed

lemma node_update_node [simp]: "c_node (update_node r f c) = c_node c"
  by (simp add: update_node_def)

lemma node_clear [simp]: "c_node (clear_typeAnnot c) = c_node c" "c_node (clear_ident c) = c_node c"
  by (simp_all add: clear_typeAnnot_def clear_ident_def)

lemma within_clear [intro, simp]: "within_node clear_both"
  by (simp add: within_node_def clear_both_def ok_def)

lemma children_ops [simp]:
  "n_Children (AddArgumentValue v m) = n_Children m"
  "n_Children (AddPropertyValue k v a m) = n_Children m"
  "n_Children (SetNameValue v m) = n_Children m"
  "n_Children (append_after b m) = n_Children m"
  by (simp_all add: AddArgumentValue_def AddPropertyValue_def SetNameValue_def append_after_def Let_def)

lemma within_argument: "within_node (\<lambda>c. addArgumentToken (currentNode c) (f c) (g c) c)"
  by (auto simp: within_node_def addArgumentToken_def currentNode_def intro: inv_update_node
      split: sum.split)

lemma within_property: "within_node (\<lambda>c. addPropertyToken (currentNode c) (f c) t (g c) c)"
  by (auto simp: within_node_def addPropertyToken_def currentNode_def intro: inv_update_node
      split: sum.split)

lemma within_if [intro]:
  "within_node f \<Longrightarrow> within_node g \<Longrightarrow> within_node (\<lambda>c. if b c then f c else g c)"
  by (simp add: within_node_def)

lemma within_ok [intro, simp]: "within_node ok"
  by (simp add: within_node_def ok_def)

lemma within_ignored [intro, simp]: "within_node (\<lambda>c. ok (c\<lparr>c_ignoreNextArgProp := False\<rparr>))"
  by (simp add: within_node_def ok_def)

lemma within_queue [intro, simp]: "within_node queue_argument"
  unfolding queue_argument_def by (intro within_if within_ignored within_argument)

lemma within_flush [intro, simp]: "within_node flush_ident"
  unfolding flush_ident_def
  by (intro within_if within_andThen within_queue within_clear within_ok)

section \<open>Every handler keeps the invariant\<close>

text \<open>
  Only a step that succeeds or asks for the token again has to keep the invariant: after any other
  error the context is dropped (a node whose name is rejected has been pushed already, its state
  has not).
\<close>

definition safe :: "ctx \<Rightarrow> parse_error option \<times> ctx \<Rightarrow> bool" where
  "safe c p \<longleftrightarrow> (case p of (e, c') \<Rightarrow> \<not> internal e \<and> (e = None \<or> e = Some ErrReenterState \<longrightarrow> inv c')
     \<and> (e = Some ErrReenterState \<longrightarrow> length (c_states c') < length (c_states c)))"

lemma safe_ok [simp]: "safe c (ok c') = inv c'"
  by (simp add: safe_def ok_def)

lemma safe_error [simp]:
  "safe c (Some (Message m), c')" "safe c (Some (BadValue v), c')"
  by (simp_all add: safe_def)

lemma safe_reject [simp]: "safe c (reject t c')"
  by (simp add: reject_def unexpectedToken_def)

lemma safe_expected [simp]: "safe c (Some (expectedValueAfterType x t), c')"
  by (simp add: expectedValueAfterType_def)

lemma safe_popState:
  "inv c \<Longrightarrow> c_state c = stateChildren \<or> annot_level (c_state c) \<Longrightarrow> safe c (popState c)"
  using popState_inv [of c] by (auto simp: safe_def)

lemma safe_popNode: "inv c \<Longrightarrow> node_level (c_state c) \<Longrightarrow> safe c (popNodeAndState c)"
  using popNodeAndState_inv [of c] by (auto simp: safe_def)

lemma safe_close: "inv c \<Longrightarrow> node_level (c_state c) \<Longrightarrow> safe c (close_node c)"
  using popNodeAndState_inv [of c] by (auto simp: safe_def close_node_def andThen_def fail_def)

text \<open>First a step within the node, then one that may move the stacks.\<close>

lemma safe_andThen:
  assumes "within_node f" "inv c" "node_level (c_state c)"
    and "\<And>c'. inv c' \<Longrightarrow> c_state c' = c_state c \<Longrightarrow> c_states c' = c_states c \<Longrightarrow> safe c' (g c')"
  shows "safe c (andThen f g c)"
proof -
  obtain e c' where f: "f c = (e, c')" by fastforce
  have "c_node c \<noteq> []" using inv_current_node assms(2,3) by blast
  with assms(1,2) f have w: "inv c'" "c_state c' = c_state c" "c_states c' = c_states c"
    "\<not> internal e" "e \<noteq> Some ErrReenterState"
    by (auto simp: within_node_def)
  show ?thesis
  proof (cases e)
    case None
    with assms(4) [OF w(1,2,3)] f w(3) show ?thesis by (simp add: andThen_def safe_def)
  next
    case (Some x)
    with f w show ?thesis by (simp add: andThen_def safe_def)
  qed
qed

section \<open>Making a node\<close>

lemma children_afterI:
  "(\<And>i k. i < length s \<Longrightarrow> k \<in> set (n_Children (s ! i)) \<Longrightarrow> i < k \<and> k < length s) \<Longrightarrow> children_after s"
  unfolding children_after_def by blast

lemma children_afterD:
  "children_after s \<Longrightarrow> i < length s \<Longrightarrow> k \<in> set (n_Children (s ! i)) \<Longrightarrow> i < k \<and> k < length s"
  unfolding children_after_def by blast

lemma children_after_append:
  assumes "children_after s" shows "children_after (s @ [new_node])"
proof (rule children_afterI)
  fix i k assume "i < length (s @ [new_node])" "k \<in> set (n_Children ((s @ [new_node]) ! i))"
  then have "i < length s" "k \<in> set (n_Children (s ! i))"
    by (auto simp: nth_append new_node_def split: if_splits)
  from children_afterD [OF assms this] show "i < k \<and> k < length (s @ [new_node])" by simp
qed

lemma children_after_add:
  assumes "children_after s" "r < n" "n < length s"
  shows "children_after (s[r := AddNode n (s ! r)])"
proof (rule children_afterI)
  fix i k assume i: "i < length (s[r := AddNode n (s ! r)])"
    and k: "k \<in> set (n_Children (s[r := AddNode n (s ! r)] ! i))"
  have "k \<in> set (n_Children (s ! i)) \<or> (i = r \<and> k = n)"
    using i k by (cases "i = r") (auto simp: AddNode_def)
  moreover have "i < length s" using i by simp
  ultimately show "i < k \<and> k < length (s[r := AddNode n (s ! r)])"
    using children_afterD [OF assms(1), of i k] assms(2,3) by auto
qed

lemma concat_add:
  "r < length s \<Longrightarrow> mset (concat (map n_Children (s[r := AddNode n (s ! r)])))
     = add_mset n (mset (concat (map n_Children s)))"
  by (induction s arbitrary: r) (auto simp: AddNode_def nth_Cons split: nat.splits)

lemma entries_append [simp]: "entries doc (s @ [new_node]) = entries doc s"
  by (simp add: entries_def new_node_def)

lemma entries_add:
  assumes "distinct (entries doc s)" "n \<notin> set (entries doc s)" "r < length s"
  shows "distinct (entries doc (s[r := AddNode n (s ! r)]))"
proof -
  have "mset (entries doc (s[r := AddNode n (s ! r)])) = mset (n # entries doc s)"
    using concat_add [OF assms(3)] by (simp add: entries_def)
  then show ?thesis using assms(1,2) mset_eq_imp_distinct_iff by (metis distinct.simps(2))
qed

lemma entries_doc:
  "distinct (entries doc s) \<Longrightarrow> n \<notin> set (entries doc s) \<Longrightarrow> distinct (entries (doc @ [n]) s)"
  by (auto simp: entries_def)

lemma entries_bound:
  assumes "refs_ok c" shows "length (c_store c) \<notin> set (entries (c_doc c) (c_store c))"
proof
  assume "length (c_store c) \<in> set (entries (c_doc c) (c_store c))"
  moreover have "length (c_store c) \<notin> set (c_doc c)" using assms by (auto simp: refs_ok_def)
  ultimately obtain i where "i < length (c_store c)" "length (c_store c) \<in> set (n_Children (c_store c ! i))"
    by (auto simp: entries_def) (metis in_set_conv_nth)
  then show False using assms children_afterD [of "c_store c" i "length (c_store c)"]
    by (simp add: refs_ok_def)
qed

definition made :: "ctx \<Rightarrow> ref \<times> ctx \<Rightarrow> bool" where
  "made c p \<longleftrightarrow> (case p of (n, c') \<Rightarrow> refs_ok c' \<and> n < length (c_store c') \<and> c_node c' = c_node c @ [n]
     \<and> c_state c' = c_state c \<and> c_states c' = c_states c)"

lemma made_createNode: "inv c \<Longrightarrow> made c (createNode c)"
  by (auto simp: made_def createNode_def newNode_def inv_def refs_ok_def children_after_append)

lemma made_addNode:
  assumes "inv c" shows "made c (addNode c)"
proof (cases "c_node c = []")
  case True
  then show ?thesis
    using assms entries_bound [of c] entries_doc [of "c_doc c" "c_store c" "length (c_store c)"]
    by (auto simp: made_def addNode_def newNode_def inv_def refs_ok_def children_after_append)
next
  case False
  have r: "refs_ok c" using assms by (simp add: inv_def)
  let ?s = "c_store c @ [new_node]" and ?n = "length (c_store c)" and ?r = "last (c_node c)"
  have "?r \<in> set (c_node c)" using False by simp
  then have b: "?r < ?n" using r by (auto simp: refs_ok_def)
  then have "children_after (?s[?r := AddNode ?n (?s ! ?r)])"
    using r by (intro children_after_add children_after_append) (auto simp: refs_ok_def)
  moreover have "distinct (entries (c_doc c) (?s[?r := AddNode ?n (?s ! ?r)]))"
    using b r entries_bound [OF r] by (intro entries_add) (auto simp: refs_ok_def)
  ultimately show ?thesis using False r
    by (auto simp: made_def addNode_def newNode_def refs_ok_def update_node_def Let_def)
qed

text \<open>The comment and the type of a node change its record only.\<close>

lemma refs_data [simp]:
  "refs_ok (c\<lparr>c_comment := x\<rparr>) = refs_ok c" "refs_ok (clear_typeAnnot c) = refs_ok c"
  by (simp_all add: refs_ok_def clear_typeAnnot_def)

lemma node_parts:
  assumes "refs_ok c"
  shows "refs_ok (node_comment n c)" "c_node (node_comment n c) = c_node c"
    "c_state (node_comment n c) = c_state c" "c_states (node_comment n c) = c_states c"
  using assms
  by (auto simp: node_comment_def write_comment_def Let_def intro: refs_update_node)

lemma type_parts:
  assumes "refs_ok c"
  shows "refs_ok (node_type n c)" "c_node (node_type n c) = c_node c"
    "c_state (node_type n c) = c_state c" "c_states (node_type n c) = c_states c"
  using assms by (auto simp: node_type_def intro: refs_update_node)

lemma inv_enter_node:
  assumes "inv c" "c_state c \<in> {stateDocument, stateChildren}"
    and "refs_ok d" "c_node d = c_node c @ [n]" "c_state d = c_state c" "c_states d = c_states c"
  shows "inv (pushState stateNode d)"
proof -
  have "stack_ok (stateNode # c_state c # rev (c_states c)) (Suc (length (c_node c)))"
    using assms(1,2) by (intro stack_ok.node) (auto simp: inv_def stack_def)
  with assms(3-) show ?thesis
    by (auto simp: inv_def stack_def pushState_def)
qed

lemma safe_named:
  assumes "inv c" "c_state c \<in> {stateDocument, stateChildren}"
    and "refs_ok d" "c_node d = c_node c @ [n]" "c_state d = c_state c" "c_states d = c_states c"
  shows "safe c (case setNodeNameToken n t d of (Some e, d) \<Rightarrow> (Some e, d)
     | (None, d) \<Rightarrow> (None, pushState stateNode (node_type n (node_comment n d))))"
proof (cases "ValueFromTokenInto t")
  case (Inl e)
  then show ?thesis by (simp add: setNodeNameToken_def)
next
  case (Inr v)
  let ?d = "update_node n (SetNameValue v) d"
  have r: "refs_ok ?d" by (rule refs_update_node [OF assms(3)]) simp
  have "inv (pushState stateNode (node_type n (node_comment n ?d)))"
    by (rule inv_enter_node [OF assms(1,2), of _ n])
      (simp_all add: r node_parts type_parts assms(4-))
  with Inr show ?thesis by (simp add: setNodeNameToken_def safe_def)
qed

lemma safe_start_node:
  assumes "inv c" "c_state c \<in> {stateDocument, stateChildren}"
  shows "safe c (start_node b t c)"
proof -
  obtain n d where a: "addNode c = (n, d)" by fastforce
  obtain m e where b: "createNode c = (m, e)" by fastforce
  have A: "refs_ok d" "c_node d = c_node c @ [n]" "c_state d = c_state c" "c_states d = c_states c"
    using made_addNode [OF assms(1)] a by (simp_all add: made_def)
  have "refs_ok e" "c_node e = c_node c @ [m]" "c_state e = c_state c" "c_states e = c_states c"
    using made_createNode [OF assms(1)] b by (simp_all add: made_def)
  then have B: "refs_ok (e\<lparr>c_ignoreNextNode := False\<rparr>)"
    "c_node (e\<lparr>c_ignoreNextNode := False\<rparr>) = c_node c @ [m]"
    "c_state (e\<lparr>c_ignoreNextNode := False\<rparr>) = c_state c"
    "c_states (e\<lparr>c_ignoreNextNode := False\<rparr>) = c_states c"
    by (simp_all add: refs_ok_def)
  show ?thesis
    unfolding start_node_def a b
    using safe_named [OF assms A] safe_named [OF assms B] by simp
qed

section \<open>The handlers\<close>

lemma inv_block_comment:
  assumes "inv c" "c_node c \<noteq> []"
  shows "\<exists>c'. block_comment c = (None, c') \<and> inv c' \<and> c_state c' = c_state c \<and> c_states c' = c_states c"
proof -
  from assms obtain r where "c_lastAddedNode c = Some r" by (auto simp: inv_def refs_ok_def)
  then show ?thesis
    using assms
    by (auto simp: block_comment_def write_comment_def ok_def Let_def intro: inv_update_node)
qed

lemma safe_children_BraceClose:
  assumes "inv c" "c_state c = stateChildren"
  shows "safe c (children_BraceClose t c)"
proof -
  have "inv (leave_ignored c)" using assms(1) by simp
  moreover have "c_node (leave_ignored c) \<noteq> []"
    using inv_current_node [OF calculation] assms(2) by simp
  ultimately obtain d where d: "block_comment (leave_ignored c) = (None, d)" "inv d"
    "c_state d = stateChildren" "c_states d = c_states c"
    using inv_block_comment [of "leave_ignored c"] assms(2) by auto
  from safe_popState [OF d(2)] d(3,4) have "safe c (popState d)" by (simp add: safe_def)
  with d(1) show ?thesis by (simp add: children_BraceClose_def andThen_def)
qed

text \<open>A change of the fields around the state.\<close>

lemma inv_ident_state:
  assumes "inv c" "node_level (c_state c)" "node_level st"
  shows "inv (c\<lparr>c_ident := t, c_state := st\<rparr>)"
  using inv_node_state [of "c\<lparr>c_ident := t\<rparr>" st] assms by simp

lemma inv_stop_state:
  assumes "inv c" "node_level (c_state c)" "node_level st"
  shows "inv ((stopContinuation c)\<lparr>c_state := st\<rparr>)"
  using inv_node_state [of "stopContinuation c" st] assms by simp

lemma safe_document_handlers:
  assumes "inv c"
  shows "safe c (not_after_type_v1 t c)" "safe c (only_v2 t c)" "safe c (doc_Terminator t c)"
    "safe c (doc_Comment t c)" "safe c (doc_TokenComment t c)" "safe c (start_continuation t c)"
    "safe c (children_Newline t c)" "safe c (annot_Continuation t c)" "safe c (node_Comment t c)"
    "safe c (nop t c)" "safe c (params_Equals t c)" "safe c (params_TokenComment t c)"
    "safe c (doc_Whitespace t c)"
  using assms
  by (simp_all add: not_after_type_v1_def only_v2_def doc_Terminator_def doc_Comment_def
      doc_TokenComment_def start_continuation_def children_Newline_def annot_Continuation_def
      node_Comment_def nop_def params_Equals_def params_TokenComment_def doc_Whitespace_def)

lemma safe_document:
  assumes "inv c" "c_state c = stateDocument" "stateTransitions stateDocument tid = Some h"
  shows "safe c (h t c)"
  using assms inv_push_annot [OF assms(1)]
  by (auto simp: safe_document_handlers doc_Identifier_def safe_start_node open_annotation_def
      split: token_id.splits)

lemma safe_children:
  assumes "inv c" "c_state c = stateChildren" "stateTransitions stateChildren tid = Some h"
  shows "safe c (h t c)"
  using assms inv_push_annot [OF assms(1)]
  by (auto simp: safe_document_handlers children_Identifier_def safe_start_node open_annotation_def
      safe_children_BraceClose split: token_id.splits)

lemma safe_annotation:
  assumes "inv c" "annot_level (c_state c)" "stateTransitions (c_state c) tid = Some h"
  shows "safe c (h t c)"
proof -
  have "inv (c\<lparr>c_typeAnnot := t, c_state := stateTypeDone\<rparr>)" if "c_state c = stateTypeAnnot"
    using inv_annot_done [of "c\<lparr>c_typeAnnot := t\<rparr>"] assms(1) that by simp
  then show ?thesis
    using assms
    by (auto simp: annot_level_def safe_document_handlers annot_Name_def annot_ParensClose_def
        safe_popState split: token_id.splits)
qed

lemma safe_goto:
  "inv c \<Longrightarrow> node_level (c_state c) \<Longrightarrow> node_level st \<Longrightarrow> safe c (goto_state st t c)"
  by (simp add: goto_state_def inv_node_state)

lemma safe_node:
  assumes "inv c" "c_state c = stateNode" "stateTransitions stateNode tid = Some h"
  shows "safe c (h t c)"
proof -
  have "inv (pushState stateChildren ((ignore_block c)\<lparr>c_ignoreNextNode := False\<rparr>))"
    using assms(1,2) by (intro inv_push_children) simp_all
  then show ?thesis
    using assms inv_push_children [OF assms(1)]
    by (auto simp: safe_document_handlers safe_goto node_Terminator_def safe_popNode node_Equals_def
        inv_node_state node_BraceOpen_def Let_def close_brace_def safe_close split: token_id.splits)
qed

text \<open>An argument is added in place, then the state goes back to the parameters.\<close>

lemma safe_params_SuffixedDecimal:
  assumes "inv c" "c_state c = stateNodeParams"
  shows "safe c (params_SuffixedDecimal t c)"
proof -
  let ?c = "clear_ident (clear_typeAnnot c)"
  let ?f = "\<lambda>c. if c_ignoreNextArgProp c then ok (c\<lparr>c_ignoreNextArgProp := False\<rparr>)
    else addArgumentToken (currentNode c) t (c_typeAnnot c) c"
  have "within_node ?f" by (intro within_if within_ignored within_argument)
  then have "safe ?c (andThen ?f (\<lambda>c. ok (c\<lparr>c_state := stateNodeParams\<rparr>)) ?c)"
    by (rule safe_andThen) (use assms in \<open>simp_all add: inv_node_state\<close>)
  then show ?thesis by (simp add: params_SuffixedDecimal_def safe_def)
qed

lemma safe_params_Terminator:
  assumes "inv c" "c_state c = stateNodeParams"
  shows "safe c (params_Terminator t c)"
  using assms by (simp add: params_Terminator_def safe_popNode)

lemma safe_params:
  assumes "inv c" "c_state c = stateNodeParams" "stateTransitions stateNodeParams tid = Some h"
  shows "safe c (h t c)"
proof -
  have "inv (pushState stateChildren ((ignore_block c)\<lparr>c_ignoreNextArgProp := False\<rparr>))"
    using assms(1,2) by (intro inv_push_children) simp_all
  then show ?thesis
    using assms inv_push_children [OF assms(1)] inv_push_annot [OF assms(1)]
    by (auto simp: safe_document_handlers safe_goto params_SingleLineComment_def
        open_annotation_def params_BareIdentifier_def inv_ident_state close_brace_def safe_close
        safe_params_SuffixedDecimal params_Value_def params_BraceOpen_def Let_def
        safe_params_Terminator inv_node_state split: token_id.splits)
qed

lemma safe_end:
  assumes "inv c" "c_state c = stateNodeEnd" "stateTransitions stateNodeEnd tid = Some h"
  shows "safe c (h t c)"
  using assms
  by (auto simp: safe_document_handlers end_EndOfLine_def inv_stop_state safe_popNode
      split: token_id.splits)

lemma safe_property:
  assumes "inv c" "c_state c = stateProperty" "stateTransitions stateProperty tid = Some h"
  shows "safe c (h t c)"
  using assms
  by (auto simp: property_Equals_def inv_node_state close_brace_def safe_close split: token_id.splits)

lemma safe_argprop_TokenComment:
  assumes "inv c" "c_state c = stateArgProp"
  shows "safe c (argprop_TokenComment t c)"
  unfolding argprop_TokenComment_def
proof (rule safe_andThen [OF _ assms(1)])
  show "within_node (\<lambda>c. if c_ignoreNextArgProp c then ok (c\<lparr>c_ignoreNextArgProp := False\<rparr>)
      else if Valid (c_ident c) then addArgumentToken (currentNode c) (c_ident c) (c_typeAnnot c) c
      else ok c)"
    by (intro within_if within_ignored within_argument within_ok)
next
  fix d assume "inv d" "c_state d = c_state c"
  with assms show "safe d (if Valid (c_ident d) then
      ok ((markIgnoreFromContinuation ((clear_ident (clear_typeAnnot d))\<lparr>c_ignoreNextArgProp := True\<rparr>))
        \<lparr>c_state := stateNodeParams\<rparr>)
    else if Valid (c_typeAnnot d) then (Some (expectedValueAfterType d t), d)
    else ok ((markIgnoreFromContinuation (d\<lparr>c_ignoreNextArgProp := True\<rparr>))\<lparr>c_state := stateNodeParams\<rparr>))"
    by (simp add: inv_node_state)
qed (use assms in simp)

lemma safe_flush:
  assumes "inv c" "node_level (c_state c)"
    and "\<And>c'. inv c' \<Longrightarrow> c_state c' = c_state c \<Longrightarrow> safe c' (g c')"
  shows "safe c (andThen flush_ident g c)"
  by (rule safe_andThen) (use assms in auto)

lemma safe_queue:
  assumes "inv c" "node_level (c_state c)"
    and "\<And>c'. inv c' \<Longrightarrow> c_state c' = c_state c \<Longrightarrow> safe c' (g c')"
  shows "safe c (andThen (andThen queue_argument clear_both) g c)"
  by (rule safe_andThen) (use assms in auto)

lemma safe_argprop_BraceOpen:
  assumes "inv c" "c_state c = stateArgProp"
  shows "safe c (argprop_BraceOpen t c)"
  unfolding argprop_BraceOpen_def
proof (rule safe_flush [OF assms(1)])
  fix d assume "inv d" "c_state d = c_state c"
  with assms(2) show "safe d (let c = (if c_ignoreNextArgProp d \<or> c_ignoreChildren d > 0
      then d\<lparr>c_ignoreNextArgProp := False, c_ignoreChildren := c_ignoreChildren d + 1\<rparr> else d)
    in ok (pushState stateChildren c))"
    by (auto simp: Let_def intro!: inv_push_children)
qed (use assms in simp)

lemma safe_argprop:
  assumes "inv c" "c_state c = stateArgProp" "stateTransitions stateArgProp tid = Some h"
  shows "safe c (h t c)"
proof -
  have "safe c (argprop_Whitespace t c)" "safe c (argprop_Value t c)"
    "safe c (argprop_Terminator t c)" "safe c (argprop_BraceClose t c)" "safe c (argprop_Equals t c)"
    using assms(1,2)
    by (auto simp: argprop_Whitespace_def argprop_Value_def argprop_Terminator_def
        argprop_BraceClose_def argprop_Equals_def inv_node_state
        intro!: safe_queue safe_flush safe_popNode safe_close)
  then show ?thesis
    using assms safe_argprop_TokenComment [OF assms(1,2)] safe_argprop_BraceOpen [OF assms(1,2)]
    by (auto simp: safe_document_handlers split: token_id.splits)
qed

lemma safe_propvalue_Value:
  assumes "inv c" "c_state c = statePropertyValue"
  shows "safe c (propvalue_Value t c)"
  unfolding propvalue_Value_def
proof (rule safe_andThen [OF _ assms(1)])
  show "within_node (\<lambda>c. if c_ignoreNextArgProp c then ok (c\<lparr>c_ignoreNextArgProp := False\<rparr>)
      else addPropertyToken (currentNode c) (c_ident c) t (c_typeAnnot c) c)"
    by (intro within_if within_ignored within_property)
next
  fix d assume "inv d" "c_state d = c_state c"
  with assms show "safe d (andThen clear_both (\<lambda>c. ok (c\<lparr>c_state := stateNode\<rparr>)) d)"
    by (simp add: andThen_def clear_both_def ok_def safe_def inv_node_state)
qed (use assms in simp)

lemma safe_propvalue:
  assumes "inv c" "c_state c = statePropertyValue" "stateTransitions statePropertyValue tid = Some h"
  shows "safe c (h t c)"
  using assms inv_push_annot [OF assms(1)]
  by (auto simp: safe_document_handlers open_annotation_def safe_propvalue_Value close_brace_def
      safe_close split: token_id.splits)

section \<open>A whole step\<close>

lemma safe_handler:
  assumes "inv c" "stateTransitions (c_state c) tid = Some h"
  shows "safe c (h t c)"
proof (cases "c_state c")
  case stateTypeAnnot
  with assms show ?thesis by (intro safe_annotation) (simp_all)
next
  case stateTypeDone
  with assms show ?thesis by (intro safe_annotation) (simp_all)
qed (use assms in \<open>auto intro: safe_document safe_children safe_node safe_params safe_end
    safe_property safe_argprop safe_propvalue simp del: stateTransitions.simps\<close>)

lemma class_handlerE:
  assumes "class_handler st tcs = Some h"
  obtains tid where "stateTransitions st tid = Some h"
  using assms by (induction tcs) (auto split: option.splits)

lemma find_handlerE:
  assumes "find_handler st tid = Some h"
  obtains tid' where "stateTransitions st tid' = Some h"
  using assms by (auto simp: find_handler_def split: option.splits elim: class_handlerE)

lemma safe_dispatch: "inv c \<Longrightarrow> safe c (dispatch t c)"
  by (auto simp: dispatch_def split: option.split elim!: find_handlerE intro: safe_handler)

lemma inv_track [simp]: "inv (track_continuation t c) = inv c"
  by (simp add: track_continuation_def)

lemma states_track [simp]: "c_states (track_continuation t c) = c_states c"
  by (simp add: track_continuation_def)

lemma safe_parse: "inv c \<Longrightarrow> safe c (parse t c)"
  using safe_dispatch [of "track_continuation t c" t]
    safe_dispatch [of "track_continuation t (c\<lparr>c_afterIgnoredChildBlock := False\<rparr>)" t]
  by (auto simp: parse_def missingSeparatorError_def andThen_def check_ignored_block_def ok_def
      unexpectedAfterIgnoredChildBlock_def safe_def)

lemma safe_Parse: "inv c \<Longrightarrow> safe c (Parse t c)"
  using safe_parse [of "c\<lparr>c_recent := recent_Add t (c_recent c)\<rparr>" t] by (simp add: Parse_def safe_def)

end
