(* ===== verification/Kept.thy ===== *)
theory Kept
  imports Stacks
begin

text \<open>
  Properties of the node store and the options that no step of the parser breaks.  The handlers
  change the store in two ways only: they append a node and name it in the same step, and they
  change a node without taking its name away.
\<close>

section \<open>The interface\<close>

definition keeps_name :: "(node \<Rightarrow> node) \<Rightarrow> bool" where
  "keeps_name f \<longleftrightarrow> (\<forall>n. n_Name n \<noteq> None \<longrightarrow> n_Name (f n) \<noteq> None)"

lemma keeps_name_ops [simp]:
  "keeps_name (AddNode k)" "keeps_name (SetNameValue v)" "keeps_name (AddArgumentValue v)"
  "keeps_name (AddPropertyValue key v ty)" "keeps_name (append_after b)"
  "keeps_name (\<lambda>m. m\<lparr>n_Comment := cm\<rparr>)" "keeps_name (\<lambda>m. m\<lparr>n_Type := ty\<rparr>)"
  by (simp_all add: keeps_name_def AddNode_def SetNameValue_def AddArgumentValue_def
      AddPropertyValue_def append_after_def Let_def)

locale store_property =
  fixes J :: "node list \<Rightarrow> parse_options \<Rightarrow> bool"
  assumes change: "J s opts \<Longrightarrow> keeps_name f \<Longrightarrow> J (s[r := f (s ! r)]) opts"
    and enter: "J s opts \<Longrightarrow> n_Name n \<noteq> None \<Longrightarrow> J (s @ [n]) opts"
begin

definition holds :: "ctx \<Rightarrow> bool" where
  "holds c \<longleftrightarrow> J (c_store c) (c_opts c)"

definition kept :: "step \<Rightarrow> bool" where
  "kept f \<longleftrightarrow> (\<forall>c e d. f c = (e, d) \<longrightarrow> e \<in> {None, Some ErrReenterState} \<longrightarrow> holds c \<longrightarrow> holds d)"

lemma keptD: "kept f \<Longrightarrow> f c = (e, d) \<Longrightarrow> e \<in> {None, Some ErrReenterState} \<Longrightarrow> holds c \<Longrightarrow> holds d"
  unfolding kept_def by blast

lemma kept_andThen [intro]: "kept f \<Longrightarrow> kept g \<Longrightarrow> kept (andThen f g)"
  unfolding kept_def andThen_def by (fastforce split: prod.splits option.splits)

lemma kept_if [intro]: "kept f \<Longrightarrow> kept g \<Longrightarrow> kept (\<lambda>c. if q c then f c else g c)"
  by (auto simp: kept_def)

text \<open>Changes beside the store.\<close>

lemma holds_ops [simp]:
  "holds (clear_ident c) = holds c" "holds (clear_typeAnnot c) = holds c"
  "holds (startContinuation c) = holds c" "holds (stopContinuation c) = holds c"
  "holds (markIgnoreFromContinuation c) = holds c" "holds (write_comment b c) = holds c"
  "holds (ignore_block c) = holds c" "holds (leave_ignored c) = holds c"
  "holds (pushState st c) = holds c" "holds (track_continuation t c) = holds c"
  by (simp_all add: holds_def clear_ident_def clear_typeAnnot_def startContinuation_def
      stopContinuation_def markIgnoreFromContinuation_def write_comment_def ignore_block_def
      leave_ignored_def pushState_def track_continuation_def Let_def)

lemma holds_fields [simp]:
  "holds (c\<lparr>c_state := st\<rparr>) = holds c" "holds (c\<lparr>c_states := sts\<rparr>) = holds c"
  "holds (c\<lparr>c_node := ns\<rparr>) = holds c" "holds (c\<lparr>c_ident := t\<rparr>) = holds c"
  "holds (c\<lparr>c_typeAnnot := t\<rparr>) = holds c" "holds (c\<lparr>c_comment := b\<rparr>) = holds c"
  "holds (c\<lparr>c_ignoreNextNode := q\<rparr>) = holds c" "holds (c\<lparr>c_ignoreNextArgProp := q\<rparr>) = holds c"
  "holds (c\<lparr>c_ignoreChildren := i\<rparr>) = holds c" "holds (c\<lparr>c_afterIgnoredChildBlock := q\<rparr>) = holds c"
  "holds (c\<lparr>c_recent := r\<rparr>) = holds c"
  by (simp_all add: holds_def)

lemma holds_update: "keeps_name f \<Longrightarrow> holds c \<Longrightarrow> holds (update_node r f c)"
  using change by (simp add: holds_def update_node_def)

text \<open>Steps that leave the store alone.\<close>

lemma kept_simple:
  "kept ok" "kept popState" "kept popNode" "kept clear_both" "kept (fail e)" "kept (reject t)"
  "kept (not_after_type_v1 t)" "kept (only_v2 t)" "kept (doc_Terminator t)"
  "kept (doc_Comment t)" "kept (doc_TokenComment t)" "kept (start_continuation t)"
  "kept (children_Newline t)" "kept (annot_Continuation t)" "kept (node_Comment t)"
  "kept (nop t)" "kept (params_Equals t)" "kept (params_TokenComment t)"
  "kept (doc_Whitespace t)" "kept (open_annotation t)" "kept (annot_Name t)"
  "kept (goto_state st t)" "kept (node_Equals t)" "kept (node_BraceOpen t)"
  "kept (params_SingleLineComment t)" "kept (params_BareIdentifier t)" "kept (params_Value t)"
  "kept (params_BraceOpen t)" "kept (property_Equals t)" "kept (argprop_Equals t)"
  "kept (annot_ParensClose t)" "kept (check_ignored_block t)"
  by (auto simp: kept_def not_after_type_v1_def only_v2_def ok_def reject_def popState_def
      popNode_def clear_both_def fail_def
      doc_Terminator_def doc_Comment_def doc_TokenComment_def start_continuation_def
      children_Newline_def annot_Continuation_def node_Comment_def nop_def params_Equals_def
      params_TokenComment_def doc_Whitespace_def open_annotation_def annot_Name_def goto_state_def
      node_Equals_def node_BraceOpen_def params_SingleLineComment_def params_BareIdentifier_def
      params_Value_def params_BraceOpen_def property_Equals_def argprop_Equals_def
      annot_ParensClose_def check_ignored_block_def Let_def split: if_splits)

lemma kept_pop: "kept popNodeAndState" "kept close_node"
  unfolding popNodeAndState_def close_node_def by (intro kept_andThen kept_simple)+

text \<open>Steps that change the node at hand.\<close>

lemma kept_add:
  "kept (\<lambda>c. addArgumentToken (n c) (a c) (y c) c)"
  "kept (\<lambda>c. addPropertyToken (n c) (k c) (a c) (y c) c)"
  by (auto simp: kept_def addArgumentToken_def addPropertyToken_def intro: holds_update
      split: sum.splits option.splits)

lemma kept_block_comment: "kept block_comment"
  by (auto simp: kept_def block_comment_def ok_def Let_def intro: holds_update
      split: option.splits if_splits)

lemma kept_queue: "kept queue_argument"
  unfolding queue_argument_def by (intro kept_if kept_add) (simp add: kept_def ok_def)

lemma kept_flush: "kept flush_ident"
  unfolding flush_ident_def by (intro kept_if kept_andThen kept_queue kept_simple)

text \<open>A new node is appended without a name and gets it at once.\<close>

lemma holds_start:
  assumes "holds c" "n = length (c_store c)"
    "c_store d = c_store c @ [new_node] \<or> (\<exists>p. c_store d = (c_store c @ [new_node])[p := AddNode n ((c_store c @ [new_node]) ! p)])"
    "c_opts d = c_opts c"
  shows "holds (update_node n (SetNameValue v) d)"
proof -
  have new: "J (s @ [SetNameValue v m]) (c_opts c)" if "J s (c_opts c)" for s m
    using that by (rule enter) (simp add: SetNameValue_def)
  have "\<exists>s m. c_store d = s @ [m] \<and> length s = n \<and> J s (c_opts c)"
  proof (cases "c_store d = c_store c @ [new_node]")
    case True
    with assms(1,2) show ?thesis by (auto simp: holds_def)
  next
    case False
    with assms(3) obtain p where p: "c_store d = (c_store c @ [new_node])[p := AddNode n ((c_store c @ [new_node]) ! p)]"
      by blast
    show ?thesis
    proof (cases "p < length (c_store c)")
      case True
      with p assms(1,2) change [of "c_store c" "c_opts c" "AddNode n" p] show ?thesis
        by (simp add: list_update_append nth_append holds_def)
    next
      case False
      with p assms(1,2) show ?thesis
        by (cases "p - length (c_store c)") (auto simp: list_update_append holds_def)
    qed
  qed
  then obtain s m where s: "c_store d = s @ [m]" "length s = n" "J s (c_opts c)" by blast
  then have "(c_store d)[n := SetNameValue v (c_store d ! n)] = s @ [SetNameValue v m]"
    by (auto simp: list_update_append nth_append)
  with new [OF s(3), of m] assms(4) show ?thesis by (simp add: holds_def update_node_def)
qed

lemma holds_node_parts:
  "holds c \<Longrightarrow> holds (node_comment n c)" "holds c \<Longrightarrow> holds (node_type n c)"
  by (auto simp: node_type_def node_comment_def Let_def intro!: holds_update)

lemma kept_start: "kept (start_node b t)"
proof -
  have after: "holds (pushState stateNode (node_type n (node_comment n d)))" if "holds d" for n d
    using that by (simp add: holds_node_parts)
  have "holds d'" if *: "start_node b t c = (e, d')" "e \<in> {None, Some ErrReenterState}" "holds c" for c e d'
  proof -
    define p where "p = (if b then (case createNode c of (n, c) \<Rightarrow> (n, c\<lparr>c_ignoreNextNode := False\<rparr>)) else addNode c)"
    obtain n d where nd: "p = (n, d)" by fastforce
    have n: "n = length (c_store c)" "c_opts d = c_opts c"
      "c_store d = c_store c @ [new_node] \<or> (\<exists>p. c_store d = (c_store c @ [new_node])[p := AddNode n ((c_store c @ [new_node]) ! p)])"
      using nd by (auto simp: p_def createNode_def addNode_def newNode_def update_node_def Let_def
          split: if_splits)
    from * nd show ?thesis
      by (auto simp: start_node_def p_def [symmetric] setNodeNameToken_def split: sum.splits
          intro!: after holds_start [OF *(3) n(1) n(3) n(2)])
  qed
  then show ?thesis unfolding kept_def by blast
qed

section \<open>Every handler\<close>

lemma kept_closing:
  "kept (node_Terminator t)" "kept (params_Terminator t)"
  "kept (end_EndOfLine t)" "kept (doc_Identifier t)" "kept (children_Identifier t)"
  "kept (close_brace t)"
  using kept_pop kept_start
  by (auto simp: kept_def node_Terminator_def params_Terminator_def ok_def
      end_EndOfLine_def doc_Identifier_def children_Identifier_def close_brace_def reject_def
      split: if_splits)

lemma kept_state: "kept (\<lambda>c. ok (c\<lparr>c_state := st\<rparr>))" "kept (\<lambda>c. ok (c\<lparr>c_ident := t\<rparr>))"
  "kept (\<lambda>c. ok (c\<lparr>c_ignoreNextArgProp := q\<rparr>))"
  by (simp_all add: kept_def ok_def)

lemma kept_flushed:
  "kept (argprop_BraceClose t)" "kept (argprop_Value t)" "kept (argprop_Terminator t)"
  "kept (argprop_Whitespace t)" "kept (argprop_BraceOpen t)"
proof -
  show "kept (argprop_BraceClose t)"
    unfolding argprop_BraceClose_def by (intro kept_andThen kept_flush kept_pop)
  show "kept (argprop_Value t)"
    unfolding argprop_Value_def by (intro kept_andThen kept_queue kept_simple kept_state)
  have "kept (andThen flush_ident popNodeAndState)" by (intro kept_andThen kept_flush kept_pop)
  then show "kept (argprop_Terminator t)"
    by (simp add: kept_def argprop_Terminator_def ok_def)
  have "kept (andThen (andThen queue_argument clear_both) (\<lambda>c. ok (c\<lparr>c_state := stateNodeParams\<rparr>)))"
    by (intro kept_andThen kept_queue kept_simple kept_state)
  then show "kept (argprop_Whitespace t)"
    by (simp add: kept_def argprop_Whitespace_def ok_def)
  show "kept (argprop_BraceOpen t)"
    unfolding argprop_BraceOpen_def
    by (intro kept_andThen kept_flush) (simp add: kept_def ok_def Let_def)
qed

lemma kept_composed:
  "kept (children_BraceClose t)" "kept (params_SuffixedDecimal t)" "kept (argprop_TokenComment t)"
  "kept (propvalue_Value t)"
proof -
  have "kept (andThen block_comment popState)" by (intro kept_andThen kept_block_comment kept_simple)
  then show "kept (children_BraceClose t)"
    by (auto simp: kept_def children_BraceClose_def reject_def split: if_splits)
  have "kept (andThen (\<lambda>c. if c_ignoreNextArgProp c then ok (c\<lparr>c_ignoreNextArgProp := False\<rparr>)
      else addArgumentToken (currentNode c) t (c_typeAnnot c) c) (\<lambda>c. ok (c\<lparr>c_state := stateNodeParams\<rparr>)))"
    by (intro kept_andThen kept_if kept_add kept_state)
  then show "kept (params_SuffixedDecimal t)"
    by (auto simp: kept_def params_SuffixedDecimal_def Let_def)
  show "kept (argprop_TokenComment t)"
    unfolding argprop_TokenComment_def
    by (intro kept_andThen kept_if kept_add kept_state kept_simple) (simp_all add: kept_def ok_def)
  show "kept (propvalue_Value t)"
    unfolding propvalue_Value_def
    by (intro kept_andThen kept_if kept_add kept_state kept_simple)
qed

lemma kept_handler: "stateTransitions st tid = Some h \<Longrightarrow> kept (h t)"
  by (cases st) (auto simp: kept_simple kept_closing kept_flushed kept_composed split: token_id.splits)

lemma kept_Parse: "kept (Parse t)"
proof -
  have d: "kept (\<lambda>c. dispatch t (track_continuation t c))"
    unfolding kept_def
  proof (intro allI impI)
    fix c e d
    assume *: "dispatch t (track_continuation t c) = (e, d)" "e \<in> {None, Some ErrReenterState}" "holds c"
    show "holds d"
    proof (cases "find_handler (c_state (track_continuation t c)) (t_ID t)")
      case (Some h)
      then obtain tid where "stateTransitions (c_state (track_continuation t c)) tid = Some h"
        by (rule find_handlerE)
      from keptD [OF kept_handler [OF this, of t], of "track_continuation t c"] * Some
      show ?thesis by (simp add: dispatch_def)
    qed (use * in \<open>auto simp: dispatch_def reject_def\<close>)
  qed
  from kept_andThen [OF kept_simple(32) d]
  have "kept (parse t)"
    unfolding kept_def parse_def by (auto simp: missingSeparatorError_def split: if_splits)
  then show ?thesis unfolding kept_def Parse_def by (metis holds_fields(11))
qed

end

end
