(* ===== verification/Reading.thy ===== *)
theory Reading
  imports Kept Excerpt
begin

text \<open>
  Driving the parser: \<open>ParseAll\<close> over a list of tokens (\<open>internal/parser/parser.go\<close>, lines 82 to
  126 and 201 to 238) and \<open>Parse\<close> over a scanner, with the choice of the version
  (\<open>kdl.go\<close>, lines 28 to 142).
\<close>

section \<open>Sending a token again\<close>

text \<open>
  A handler that asks for the token again has popped a state: the drivers' inner loop ends.
\<close>

definition quiet :: "step \<Rightarrow> bool" where
  "quiet f \<longleftrightarrow> (\<forall>c. fst (f c) \<noteq> Some ErrReenterState \<and> c_states (snd (f c)) = c_states c)"

definition shrinks :: "step \<Rightarrow> bool" where
  "shrinks f \<longleftrightarrow> (\<forall>c c'. f c = (Some ErrReenterState, c') \<longrightarrow> length (c_states c') < length (c_states c))"

lemma shrinksI: "(\<And>c. fst (f c) \<noteq> Some ErrReenterState) \<Longrightarrow> shrinks f"
  unfolding shrinks_def by (metis fst_conv)

lemma quiet_andThen [intro]:
  assumes "quiet f" "quiet g" shows "quiet (andThen f g)"
  unfolding quiet_def
proof
  fix c obtain e c' where f: "f c = (e, c')" by fastforce
  then show "fst (andThen f g c) \<noteq> Some ErrReenterState \<and> c_states (snd (andThen f g c)) = c_states c"
    using assms by (cases e) (auto simp: quiet_def andThen_def dest: spec [of _ c] spec [of _ c'])
qed

lemma shrinks_andThen [intro]:
  assumes "quiet f" "shrinks g" shows "shrinks (andThen f g)"
  unfolding shrinks_def
proof (intro allI impI)
  fix c c'' assume *: "andThen f g c = (Some ErrReenterState, c'')"
  obtain e c' where f: "f c = (e, c')" by fastforce
  with assms(1) have "e \<noteq> Some ErrReenterState" "c_states c' = c_states c"
    by (auto simp: quiet_def dest: spec [of _ c])
  with * f assms(2) show "length (c_states c'') < length (c_states c)"
    by (cases e) (simp_all add: andThen_def shrinks_def, metis)
qed

lemma shrinks_close [intro, simp]: "shrinks close_node"
  by (auto simp: shrinks_def close_node_def andThen_def popNodeAndState_def popState_def popNode_def
      fail_def split: if_splits)

lemma quiet_rules [intro]:
  "quiet ok" "quiet clear_both" "quiet (\<lambda>c. ok (c\<lparr>c_ignoreNextArgProp := b\<rparr>))"
  "quiet (\<lambda>c. addArgumentToken (n c) (a c) (y c) c)"
  "quiet f \<Longrightarrow> quiet g \<Longrightarrow> quiet (\<lambda>c. if q c then f c else g c)"
  by (auto simp: quiet_def ok_def clear_both_def addArgumentToken_def update_node_def
      split: sum.split option.split)

lemma quiet_queue [intro, simp]: "quiet queue_argument"
  unfolding queue_argument_def by (intro quiet_rules)

lemma quiet_flush [intro, simp]: "quiet flush_ident"
  unfolding flush_ident_def by (intro quiet_rules quiet_andThen quiet_queue)

lemma never_again:
  "fst (ok c) \<noteq> Some ErrReenterState" "fst (reject t c) \<noteq> Some ErrReenterState"
  "fst (Some (expectedValueAfterType x t), c) \<noteq> Some ErrReenterState"
  "fst (popState c) \<noteq> Some ErrReenterState" "fst (popNodeAndState c) \<noteq> Some ErrReenterState"
  "fst (block_comment c) \<noteq> Some ErrReenterState" "fst (start_node b t c) \<noteq> Some ErrReenterState"
  by (auto simp: ok_def reject_def unexpectedToken_def expectedValueAfterType_def popState_def
      popNodeAndState_def popNode_def andThen_def block_comment_def start_node_def
      setNodeNameToken_def Let_def split: prod.splits sum.splits option.splits if_splits)

lemma popState_again [simp]: "popState c \<noteq> (Some ErrReenterState, c')"
  using never_again(4) [of c] by (metis fst_conv)

lemma popNode_again [simp]: "popNodeAndState c \<noteq> (Some ErrReenterState, c')"
  using never_again(5) [of c] by (metis fst_conv)

lemma fst_again [simp]: "fst (popState c) \<noteq> Some ErrReenterState"
  "fst (popNodeAndState c) \<noteq> Some ErrReenterState"
  by (rule never_again)+

lemma shrinks_pop [intro, simp]: "shrinks popState" "shrinks popNodeAndState"
  by (simp_all add: shrinks_def)

lemma shrinks_if [intro]:
  "shrinks f \<Longrightarrow> shrinks g \<Longrightarrow> shrinks (\<lambda>c. if q c then f c else g c)"
  by (simp add: shrinks_def)

lemma shrinks_ok [intro]: "shrinks (\<lambda>c. ok (f c))"
  by (simp add: shrinks_def ok_def)

lemma shrinks_simple:
  "shrinks (not_after_type_v1 t)" "shrinks (only_v2 t)" "shrinks (doc_Terminator t)"
  "shrinks (doc_Comment t)" "shrinks (doc_TokenComment t)" "shrinks (start_continuation t)"
  "shrinks (children_Newline t)" "shrinks (annot_Continuation t)" "shrinks (node_Comment t)"
  "shrinks (nop t)" "shrinks (params_Equals t)" "shrinks (params_TokenComment t)"
  "shrinks (doc_Whitespace t)" "shrinks (doc_Identifier t)" "shrinks (children_Identifier t)"
  "shrinks (open_annotation t)" "shrinks (annot_Name t)" "shrinks (annot_ParensClose t)"
  "shrinks (goto_state st t)" "shrinks (node_Terminator t)" "shrinks (node_Equals t)"
  "shrinks (node_BraceOpen t)" "shrinks (params_SingleLineComment t)"
  "shrinks (params_BareIdentifier t)" "shrinks (params_Value t)" "shrinks (params_BraceOpen t)"
  "shrinks (params_Terminator t)" "shrinks (end_EndOfLine t)" "shrinks (property_Equals t)"
  "shrinks (argprop_Equals t)"
  by (rule shrinksI; auto simp: never_again [simplified] not_after_type_v1_def only_v2_def
      doc_Terminator_def doc_Comment_def doc_TokenComment_def start_continuation_def
      children_Newline_def annot_Continuation_def node_Comment_def nop_def params_Equals_def
      params_TokenComment_def doc_Whitespace_def doc_Identifier_def children_Identifier_def
      open_annotation_def annot_Name_def annot_ParensClose_def goto_state_def node_Terminator_def
      node_Equals_def node_BraceOpen_def params_SingleLineComment_def params_BareIdentifier_def
      params_Value_def params_BraceOpen_def params_Terminator_def end_EndOfLine_def
      property_Equals_def argprop_Equals_def Let_def expectedValueAfterType_def)+

lemma shrinks_composed:
  "shrinks (close_brace t)" "shrinks (argprop_BraceClose t)" "shrinks (argprop_Terminator t)"
  "shrinks (argprop_Whitespace t)" "shrinks (argprop_Value t)" "shrinks (argprop_BraceOpen t)"
  unfolding close_brace_def argprop_BraceClose_def argprop_Terminator_def argprop_Whitespace_def
    argprop_Value_def argprop_BraceOpen_def Let_def
  by (auto intro!: shrinks_andThen shrinks_if shrinks_ok quiet_andThen quiet_rules(2)) 

lemma shrinks_others:
  "shrinks (children_BraceClose t)" "shrinks (params_SuffixedDecimal t)"
  "shrinks (argprop_TokenComment t)" "shrinks (propvalue_Value t)"
  by (rule shrinksI; auto simp: children_BraceClose_def params_SuffixedDecimal_def
      argprop_TokenComment_def propvalue_Value_def andThen_def addArgumentToken_def
      addPropertyToken_def reject_def unexpectedToken_def ok_def block_comment_def
      clear_both_def expectedValueAfterType_def Let_def
      split: prod.splits sum.splits option.splits if_splits)+

lemma shrinks_handler: "stateTransitions st tid = Some h \<Longrightarrow> shrinks (h t)"
  by (cases st) (auto simp: shrinks_simple shrinks_composed shrinks_others split: token_id.splits)

lemma shrinks_check: "quiet (check_ignored_block t)"
  by (simp add: quiet_def check_ignored_block_def ok_def unexpectedAfterIgnoredChildBlock_def)

lemma track_states [simp]: "c_states (track_continuation t c) = c_states c"
  by (simp add: track_continuation_def)

lemma shrinks_dispatch: "shrinks (\<lambda>c. dispatch t (track_continuation t c))"
  unfolding shrinks_def
proof (intro allI impI)
  fix c c' assume *: "dispatch t (track_continuation t c) = (Some ErrReenterState, c')"
  show "length (c_states c') < length (c_states c)"
  proof (cases "find_handler (c_state (track_continuation t c)) (t_ID t)")
    case None
    with * show ?thesis by (simp add: dispatch_def reject_def unexpectedToken_def split: if_splits)
  next
    case (Some h)
    then obtain tid where "stateTransitions (c_state (track_continuation t c)) tid = Some h"
      by (rule find_handlerE)
    moreover have "h t (track_continuation t c) = (Some ErrReenterState, c')"
      using * Some by (simp add: dispatch_def)
    ultimately have "length (c_states c') < length (c_states (track_continuation t c))"
      using shrinks_handler unfolding shrinks_def by blast
    then show ?thesis by simp
  qed
qed

lemma Parse_again:
  assumes "Parse t c = (Some ErrReenterState, c')"
  shows "length (c_states c') < length (c_states c)"
proof -
  let ?c = "c\<lparr>c_recent := recent_Add t (c_recent c)\<rparr>"
  have "andThen (check_ignored_block t) (\<lambda>c. dispatch t (track_continuation t c)) ?c
      = (Some ErrReenterState, c')"
    using assms by (simp add: Parse_def parse_def missingSeparatorError_def split: if_splits)
  with shrinks_andThen [OF shrinks_check shrinks_dispatch] show ?thesis
    by (fastforce simp: shrinks_def)
qed

text \<open>The inner loop of both drivers: the token is sent until the parser takes it or fails.\<close>

function feed :: "token \<Rightarrow> step" where
  "feed t c =
     (case Parse t c of
        (None, c') \<Rightarrow> (None, c')
      | (Some e, c') \<Rightarrow> if e = ErrReenterState then feed t c' else (Some e, c'))"
  by pat_completeness auto
termination
  by (relation "measure (\<lambda>(_, c). length (c_states c))") (auto dest: Parse_again [OF sym])

declare feed.simps [simp del]

section \<open>Parsing a list of tokens\<close>

record document =
  d_store :: "node list"
  d_Nodes :: "ref list"
  d_Version :: version

definition Document :: "version \<Rightarrow> ctx \<Rightarrow> document" where
  "Document v c = \<lparr>d_store = c_store c, d_Nodes = c_doc c, d_Version = v\<rparr>"

text \<open>
  A failed read: an error of the scanner, or the wrapped error of the parser with the position
  and the excerpt of its message.
\<close>

datatype read_error =
    ScanError scan_error
  | ParseFailed parse_error nat nat bytes

definition blank_out :: "bytes \<Rightarrow> bytes" where
  "blank_out b = map (\<lambda>c. if c \<in> {CHR 0x09, CHR 0x0D, CHR 0x0A} then CHR 0x20 else c) b"

text \<open>\<open>idx\<close> is -1 when an empty list fails.\<close>

definition tokenContext :: "token list \<Rightarrow> int \<Rightarrow> bytes" where
  "tokenContext context idx =
     (if length context = 0 then []
      else
        let start = (if idx - 5 < 0 then 0 else nat (idx - 5));
            end' = (if start + 10 > length context then length context else start + 10);
            shown = map t_Data (take (end' - start) (drop start context));
            left = map t_Data (take (nat (min idx (int end')) - start) (drop start context));
            caretOffset = 3 + sum_list (map length left)
        in ''...'' @ concat (map blank_out shown) @ ''...'' @ [CHR 0x0A]
             @ replicate caretOffset (CHR 0x20) @ ''^'')"

definition parser_annotatedError :: "parse_error \<Rightarrow> token \<Rightarrow> token list \<Rightarrow> int \<Rightarrow> read_error" where
  "parser_annotatedError e t context idx =
     ParseFailed e (t_Line t + 1) (t_Column t + 1) (tokenContext context idx)"

text \<open>The loop of \<open>ParseAllContext\<close> from position \<open>i\<close>.\<close>

function parse_tokens :: "token list \<Rightarrow> nat \<Rightarrow> ctx \<Rightarrow> read_error + ctx" where
  "parse_tokens tokens i c =
     (if i < length tokens then
        (case feed (tokens ! i) c of
           (None, c') \<Rightarrow> parse_tokens tokens (Suc i) c'
         | (Some e, _) \<Rightarrow> Inl (parser_annotatedError e (tokens ! i) tokens (int i)))
      else Inr c)"
  by pat_completeness auto
termination
  by (relation "measure (\<lambda>(tokens, i, _). length tokens - i)") auto

declare parse_tokens.simps [simp del]

definition parser_eof :: "token list \<Rightarrow> token" where
  "parser_eof tokens =
     (let eof = no_token\<lparr>t_ID := EOF\<rparr>
      in if length tokens > 0 then
           eof\<lparr>t_Line := t_Line (last tokens),
               t_Column := t_Column (last tokens) + length (t_Data (last tokens))\<rparr>
         else eof)"

definition ParseAllContext :: "ctx \<Rightarrow> token list \<Rightarrow> read_error + document" where
  "ParseAllContext c tokens =
     (case parse_tokens tokens 0 c of
        Inl e \<Rightarrow> Inl e
      | Inr c \<Rightarrow>
          (case Parse (parser_eof tokens) c of
             (Some e, _) \<Rightarrow> Inl (parser_annotatedError e (parser_eof tokens) tokens (int (length tokens) - 1))
           | (None, c) \<Rightarrow> Inr (Document (o_Version (c_opts c)) c)))"

section \<open>Parsing while scanning\<close>

lemma Scan_measure:
  assumes "Scan s = (True, s')"
  shows "(s', s) \<in> measure (\<lambda>s. 2 * length (s_input (sc s)) + (if s_err s = None then 1 else 0))"
proof -
  obtain r s1 where n: "readNext (sc s) = (r, s1)" by fastforce
  from readNext_spec [OF n] obtain d where "s_input (sc s) = d @ s_input s1" by metis
  moreover have "length (s_input s1) < length (s_input (sc s))" if "r = Inr t" for t
    using readNext_shorter n that by blast
  ultimately show ?thesis
    using assms n by (auto simp: Scan_def split: option.splits sum.splits if_splits)
qed

text \<open>The loop of \<open>parseOne\<close>, and its result after the deferred \<open>Close\<close>.\<close>

function parse_scan :: "scan_state \<Rightarrow> ctx \<Rightarrow> (read_error + document) \<times> scan_state" where
  "parse_scan s c =
     (case Scan s of
        (True, s') \<Rightarrow>
          (case feed (s_token s') c of
             (None, c') \<Rightarrow> parse_scan s' c'
           | (Some e, _) \<Rightarrow>
               (Inl (ParseFailed e (t_Line (s_token s') + 1) (t_Column (s_token s') + 1)
                 (case ExtractLineAtPosition (s_raw (sc s')) (int (t_Line (s_token s')) + 1)
                         (int (t_Column (s_token s')) + 1) of
                    Some excerpt \<Rightarrow> excerpt | None \<Rightarrow> [])), s'))
      | (False, s') \<Rightarrow>
          (case s_err s' of
             Some e \<Rightarrow> (Inl (ScanError e), s')
           | None \<Rightarrow> (Inr (Document (s_version (sc s')) c), s')))"
  by pat_completeness auto
termination
  by (relation "inv_image (measure (\<lambda>s. 2 * length (s_input (sc s)) + (if s_err s = None then 1 else 0))) fst")
    (auto dest: Scan_measure [OF sym])

declare parse_scan.simps [simp del]

definition context_options :: "scan_state \<Rightarrow> parse_options" where
  "context_options s = \<lparr>o_RelaxedNonCompliant = s_relaxed (sc s),
     o_Flags = (if s_ParseComments s then ParseComments else 0), o_Version = s_version (sc s)\<rparr>"

definition parseOne :: "scan_state \<Rightarrow> (read_error + document) \<times> scan_state" where
  "parseOne s =
     (case parse_scan s (NewContextOptions (context_options s)) of (r, s') \<Rightarrow> (r, Close s'))"

section \<open>Choosing the version\<close>

record read_options =
  p_RelaxedNonCompliant :: flags
  p_ParseComments :: bool
  p_Version :: version

definition configure :: "flags \<Rightarrow> bool \<Rightarrow> version \<Rightarrow> scan_state \<Rightarrow> scan_state" where
  "configure rf comments v s =
     s\<lparr>sc := (sc s)\<lparr>s_relaxed := rf, s_version := v\<rparr>, s_ParseComments := comments\<rparr>"

text \<open>\<open>parse\<close>: \<open>io.ReadAll(s)\<close> returns what the scanner has not consumed.\<close>

definition kdl_parse :: "scan_state \<Rightarrow> read_error + document" where
  "kdl_parse s =
     (if s_version (sc s) \<noteq> VersionAuto then fst (parseOne s)
      else
        let data = s_input (sc s);
            retry = (\<lambda>v. configure (s_relaxed (sc s)) (s_ParseComments s) v (NewSlice data))
        in case parseOne (retry VersionV2) of
             (Inr doc, _) \<Rightarrow> Inr doc
           | (Inl err, s2) \<Rightarrow>
               if s_version (sc s2) = VersionV2 \<and> Offset (sc s2) > 0 then Inl err
               else fst (parseOne (retry VersionV1)))"

definition ParseWithOptions :: "bytes \<Rightarrow> read_options \<Rightarrow> read_error + document" where
  "ParseWithOptions r opts =
     kdl_parse (configure (p_RelaxedNonCompliant opts) (p_ParseComments opts) (p_Version opts) (New r))"

definition DefaultParseOptions :: read_options where
  "DefaultParseOptions = \<lparr>p_RelaxedNonCompliant = 0, p_ParseComments = False, p_Version = VersionAuto\<rparr>"

definition kdl_Parse :: "bytes \<Rightarrow> read_error + document" where
  "kdl_Parse r = ParseWithOptions r DefaultParseOptions"

section \<open>What a read returns\<close>

lemma feed_safe: "inv c \<Longrightarrow> case feed t c of (e, c') \<Rightarrow>
    \<not> internal e \<and> e \<noteq> Some ErrReenterState \<and> (e = None \<longrightarrow> inv c')"
proof (induction t c rule: feed.induct)
  case (1 t c)
  obtain e c' where p: "Parse t c = (e, c')" by fastforce
  with safe_Parse [OF "1.prems", of t] have s: "\<not> internal e" "e = None \<or> e = Some ErrReenterState \<Longrightarrow> inv c'"
    by (auto simp: safe_def)
  show ?case
  proof (cases "e = Some ErrReenterState")
    case True
    with p s(2) "1.IH" [OF p [symmetric] True refl] show ?thesis by (simp add: feed.simps [of t c])
  next
    case False
    with p s show ?thesis by (cases e) (simp_all add: feed.simps [of t c])
  qed
qed

text \<open>
  A document whose nodes form a forest: its references are in the store, a child comes after
  its parent, and nothing is referred to twice.
\<close>

definition forest :: "document \<Rightarrow> bool" where
  "forest d \<longleftrightarrow> set (d_Nodes d) \<subseteq> {..< length (d_store d)} \<and> children_after (d_store d)
     \<and> distinct (entries (d_Nodes d) (d_store d))"

lemma inv_forest: "inv c \<Longrightarrow> forest (Document v c)"
  by (auto simp: forest_def Document_def inv_def refs_ok_def)

definition sound :: "read_error + document \<Rightarrow> bool" where
  "sound r \<longleftrightarrow>
     (case r of
        Inr d \<Rightarrow> forest d
      | Inl (ScanError _) \<Rightarrow> True
      | Inl (ParseFailed e _ _ _) \<Rightarrow> e \<notin> {errNodeStackEmpty, errStateStackEmpty, NilNode, ErrReenterState})"

lemma parse_scan_sound: "inv c \<Longrightarrow> sound (fst (parse_scan s c))"
proof (induction s c rule: parse_scan.induct)
  case (1 s c)
  obtain b s' where s: "Scan s = (b, s')" by fastforce
  obtain e c' where f: "feed (s_token s') c = (e, c')" by fastforce
  have F: "\<not> internal e" "e \<noteq> Some ErrReenterState" "e = None \<Longrightarrow> inv c'"
    using feed_safe [OF "1.prems", of "s_token s'"] f by auto
  show ?case
  proof (cases "b \<and> e = None")
    case True
    then have b: "b = True" and e: "e = None" by simp_all
    with s f F "1.IH" [OF s [symmetric] b f [symmetric] e] show ?thesis by (simp add: parse_scan.simps [of s c])
  next
    case False
    then consider "\<not> b" | x where "b" "e = Some x" by fastforce
    then show ?thesis
    proof cases
      case 1
      with s inv_forest [OF "1.prems"] show ?thesis
        by (simp add: parse_scan.simps [of s c] sound_def split: option.split)
    next
      case (2 x)
      with s f F show ?thesis
        by (simp add: parse_scan.simps [of s c] sound_def internal_def)
    qed
  qed
qed

lemma parseOne_sound: "sound (fst (parseOne s))"
  using parse_scan_sound [OF inv_start] by (simp add: parseOne_def split: prod.split) (metis fst_conv)

lemma read_sound: "sound (ParseWithOptions input opts)"
  using parseOne_sound unfolding ParseWithOptions_def kdl_parse_def Let_def
  by (auto split: prod.split sum.split) (metis fst_conv)+

text \<open>C1: reading is safe.  Whatever the bytes and the options, a read that fails does so with
  an error of the scanner, of a value, or with a message about an unexpected token: never with
  one of the parser's internal errors (an empty stack of nodes or of states, or a request to
  send a token again that got away), and never by calling a method on a nil node.  A read that
  succeeds returns a forest of nodes.\<close>

theorem ParseWithOptions_sound: "sound (ParseWithOptions input opts)"
  by (rule read_sound)

text \<open>\<open>Close\<close> has emptied the buffers before the position is looked at.\<close>

lemma Offset_after_parseOne: "Offset (sc (snd (parseOne s))) = 0"
  by (simp add: parseOne_def Offset_def Close_def Let_def split: prod.split)

lemma separation_eof [simp]: "t_ID t = EOF \<Longrightarrow> \<not> separation_error c t"
  by (simp add: separation_error_def requiresV2Separation_def scalar_tokens_def Let_def)

lemma feed_eof_start:
  assumes "t_ID t = EOF"
  shows "\<exists>r. feed t (NewContextOptions opts) = (None, (NewContextOptions opts)\<lparr>c_recent := r\<rparr>)"
proof -
  have "find_handler stateDocument EOF = Some doc_Terminator"
    by (simp add: find_handler_def)
  then show ?thesis
    using assms
    by (simp add: feed.simps [of t] Parse_def parse_def andThen_def check_ignored_block_def
        track_continuation_def dispatch_def doc_Terminator_def NewContextOptions_def ok_def
        isTriviaToken_def)
qed

lemma parse_empty:
  assumes "v \<noteq> VersionAuto"
  shows "fst (parseOne (configure rf cm v (New []))) = fst (parseOne (configure rf cm v (NewSlice [])))"
proof -
  let ?s = "sliceScanner []\<lparr>s_relaxed := rf, s_version := v\<rparr>"
  let ?c = "NewContextOptions \<lparr>o_RelaxedNonCompliant = rf,
            o_Flags = (if cm then ParseComments else 0), o_Version = v\<rparr>"
  have r: "readNext ?s = (Inl io_EOF, ?s)"
    using assms by (simp add: readNext_def next_lexeme_def sliceScanner_def peekSize_def decode1_def)
  obtain r where f: "feed (eof_token ?s) ?c = (None, ?c\<lparr>c_recent := r\<rparr>)"
    using feed_eof_start [of "eof_token ?s"] by (auto simp: eof_token_def)
  have sel: "s_relaxed ?s = rf" "s_version ?s = v" by (simp_all add: sliceScanner_def)
  show ?thesis
    using r f sel
    by (simp add: parseOne_def context_options_def configure_def New_def NewSlice_def Let_def Scan_def Document_def
        parse_scan.simps [of "\<lparr>sc = ?s, s_ParseComments = cm, s_token = no_token, s_err = None\<rparr>"]
        parse_scan.simps [of "\<lparr>sc = ?s, s_ParseComments = cm, s_token = no_token, s_err = Some io_EOF\<rparr>"]
        parse_scan.simps [of "\<lparr>sc = ?s, s_ParseComments = cm, s_token = eof_token ?s, s_err = Some io_EOF\<rparr>"])
qed

lemma parse_New:
  assumes "v \<noteq> VersionAuto"
  shows "fst (parseOne (configure rf cm v (New r))) = fst (parseOne (configure rf cm v (NewSlice r)))"
  using parse_empty [OF assms] by (cases "r = []") (simp_all add: New_def NewSlice_def)

text \<open>C18: automatic parsing always falls back.  With \<open>ParseVersionAuto\<close> the result is that of
  reading as version 2, and where this fails that of reading as version 1, whatever the error
  was and even if the document starts with a version 2 marker: the test that is to keep a
  marked document from being read as version 1 looks at the position of a scanner that
  \<open>parseOne\<close> has closed, which is always 0.\<close>

theorem auto_version_falls_back:
  "ParseWithOptions input (opts\<lparr>p_Version := VersionAuto\<rparr>) =
     (case ParseWithOptions input (opts\<lparr>p_Version := VersionV2\<rparr>) of
        Inr doc \<Rightarrow> Inr doc
      | Inl _ \<Rightarrow> ParseWithOptions input (opts\<lparr>p_Version := VersionV1\<rparr>))"
proof -
  have data: "s_input (sc (configure rf cm v (New input))) = input" for rf cm v
    by (simp add: configure_def New_def NewSlice_def sliceScanner_def)
  have sel: "s_version (sc (configure rf cm v (New input))) = v"
    "s_relaxed (sc (configure rf cm v (New input))) = rf"
    "s_ParseComments (configure rf cm v (New input)) = cm" for rf cm v
    by (simp_all add: configure_def)
  let ?two = "configure (p_RelaxedNonCompliant opts) (p_ParseComments opts) VersionV2 (NewSlice input)"
  show ?thesis
    using Offset_after_parseOne [of ?two]
    by (auto simp: ParseWithOptions_def kdl_parse_def sel data parse_New Let_def
        split: prod.split sum.split)
qed

text \<open>For example this document, marked as version 2, whose bare \<open>true\<close> only version 1 has.\<close>

lemma marked_document_read_as_v1:
  "\<not> isl (kdl_Parse ''/- kdl-version 2;node true'')
     \<and> isl (ParseWithOptions ''/- kdl-version 2;node true''
              (DefaultParseOptions\<lparr>p_Version := VersionV2\<rparr>))"
  by code_simp

section \<open>Parsing while scanning is scanning, then parsing\<close>

text \<open>Feeding tokens one after the other, without the errors' positions.\<close>

fun feeds :: "token list \<Rightarrow> step" where
  "feeds [] = ok"
| "feeds (t # ts) = andThen (feed t) (feeds ts)"

lemma parse_tokens_feeds:
  "i \<le> length tokens \<Longrightarrow> (parse_tokens tokens i c = Inr c') = (feeds (drop i tokens) c = (None, c'))"
proof (induction tokens i c rule: parse_tokens.induct)
  case (1 tokens i c)
  show ?case
  proof (cases "i < length tokens")
    case True
    obtain e d where f: "feed (tokens ! i) c = (e, d)" by fastforce
    have "drop i tokens = tokens ! i # drop (Suc i) tokens" using True by (simp add: Cons_nth_drop_Suc)
    with True f "1.IH" [OF True f [symmetric]] show ?thesis
      by (cases e) (simp_all add: parse_tokens.simps [of tokens i c] andThen_def)
  next
    case False
    with "1.prems" show ?thesis
      by (auto simp: parse_tokens.simps [of tokens "length tokens" c] ok_def)
  qed
qed

text \<open>The last token: where it stands, and what came before it, does not matter.\<close>

definition recents :: "recent_tokens \<Rightarrow> ctx \<Rightarrow> ctx" where
  "recents r c = c\<lparr>c_recent := r\<rparr>"

lemma recents_sel [simp]:
  "c_store (recents r c) = c_store c" "c_doc (recents r c) = c_doc c"
  "c_states (recents r c) = c_states c" "c_state (recents r c) = c_state c"
  "c_node (recents r c) = c_node c" "c_ident (recents r c) = c_ident c"
  "c_typeAnnot (recents r c) = c_typeAnnot c" "c_continuation (recents r c) = c_continuation c"
  "c_ignoreNextArgProp (recents r c) = c_ignoreNextArgProp c" "c_opts (recents r c) = c_opts c"
  "c_afterIgnoredChildBlock (recents r c) = c_afterIgnoredChildBlock c"
  by (simp_all add: recents_def)

lemma eof_handlers:
  "find_handler st EOF =
     (case st of
        stateDocument \<Rightarrow> Some doc_Terminator
      | stateNode \<Rightarrow> Some node_Terminator
      | stateNodeParams \<Rightarrow> Some params_Terminator
      | stateNodeEnd \<Rightarrow> Some end_EndOfLine
      | stateArgProp \<Rightarrow> Some argprop_Terminator
      | _ \<Rightarrow> None)"
  by (cases st) (simp_all add: find_handler_def)

definition over_recent :: "step \<Rightarrow> bool" where
  "over_recent f \<longleftrightarrow> (\<forall>r c. f (recents r c) = apsnd (recents r) (f c))"

lemma over_andThen [intro]:
  assumes "over_recent f" "over_recent g" shows "over_recent (andThen f g)"
  unfolding over_recent_def
proof (intro allI)
  fix r c obtain e d where "f c = (e, d)" by fastforce
  moreover from this have "f (recents r c) = (e, recents r d)" using assms(1) by (simp add: over_recent_def)
  ultimately show "andThen f g (recents r c) = apsnd (recents r) (andThen f g c)"
    using assms(2) by (cases e) (simp_all add: andThen_def over_recent_def)
qed

lemma over_parts:
  "over_recent popState" "over_recent popNode" "over_recent clear_both" "over_recent queue_argument"
  by (simp_all add: over_recent_def popState_def popNode_def clear_both_def queue_argument_def
      addArgumentToken_def currentNode_def ok_def update_node_def clear_ident_def clear_typeAnnot_def
      split: sum.split) (simp_all add: recents_def)

lemma over_if [intro]:
  "over_recent f \<Longrightarrow> over_recent g \<Longrightarrow> (\<And>r c. q (recents r c) = q c) \<Longrightarrow>
     over_recent (\<lambda>c. if q c then f c else g c)"
  by (simp add: over_recent_def)

lemma over_simple [intro]:
  "over_recent ok" "over_recent (Pair e)" "over_recent (\<lambda>c. (Some (expectedValueAfterType c t), c))" "over_recent (reject t)"
  "over_recent (\<lambda>c. ok ((stopContinuation c)\<lparr>c_state := st\<rparr>))"
  "over_recent (\<lambda>c. ok (c\<lparr>c_afterIgnoredChildBlock := b\<rparr>))"
  "over_recent (\<lambda>c. ok (track_continuation t c))"
  by (simp_all add: over_recent_def ok_def recents_def expectedValueAfterType_def reject_def
      unexpectedToken_def expectedInState_def stopContinuation_def track_continuation_def
      split: parser_state.split)

lemma over_flush: "over_recent flush_ident"
  unfolding flush_ident_def by (intro over_if over_andThen over_parts over_simple) simp

lemma over_pop: "over_recent popNodeAndState"
  unfolding popNodeAndState_def by (intro over_andThen over_parts)

lemma over_handlers:
  assumes "t_ID t = EOF"
  shows "over_recent (doc_Terminator t)" "over_recent (node_Terminator t)"
    "over_recent (params_Terminator t)" "over_recent (end_EndOfLine t)"
    "over_recent (argprop_Terminator t)"
proof -
  have "(\<lambda>c. if t_ID t = Newline then ok c else reject t c) = reject t" using assms by auto
  then have p: "over_recent (\<lambda>c. if t_ID t = Newline then ok c else reject t c)" by (simp add: over_simple)
  show "over_recent (doc_Terminator t)" "over_recent (node_Terminator t)"
    "over_recent (params_Terminator t)" "over_recent (end_EndOfLine t)"
    "over_recent (argprop_Terminator t)"
    unfolding doc_Terminator_def [abs_def] node_Terminator_def [abs_def]
      params_Terminator_def [abs_def] end_EndOfLine_def [abs_def] argprop_Terminator_def [abs_def]
    by (intro over_if over_simple over_andThen over_flush over_pop p; simp)+
qed

lemma over_parse_eof:
  assumes "t_ID t = EOF"
  shows "parse t (recents r c) = apsnd (recents r) (parse t c)"
proof -
  have d: "over_recent (dispatch t)"
    using over_handlers [OF assms] over_simple(4) [of t] assms
    by (auto simp: over_recent_def dispatch_def eof_handlers split: parser_state.split)
  have k: "over_recent (check_ignored_block t)"
    using assms unfolding check_ignored_block_def [abs_def]
    by (intro over_if over_simple; simp add: over_simple)
  have "over_recent (\<lambda>c. dispatch t (track_continuation t c))"
    using d over_simple(7) [of t] by (simp add: over_recent_def ok_def)
  with k have "over_recent (andThen (check_ignored_block t) (\<lambda>c. dispatch t (track_continuation t c)))"
    by (rule over_andThen)
  moreover have "parse t = andThen (check_ignored_block t) (\<lambda>c. dispatch t (track_continuation t c))"
    using assms by (simp add: fun_eq_iff parse_def)
  ultimately have "over_recent (parse t)" by simp
  then show ?thesis by (simp add: over_recent_def)
qed

lemma eof_same:
  assumes "t_ID t = EOF" "t_ID t' = EOF"
  shows "dispatch t = dispatch t'" "track_continuation t = track_continuation t'"
    "check_ignored_block t = check_ignored_block t'"
  using assms
  by (auto simp: fun_eq_iff check_ignored_block_def track_continuation_def dispatch_def
      eof_handlers doc_Terminator_def node_Terminator_def params_Terminator_def end_EndOfLine_def
      argprop_Terminator_def expectedValueAfterType_def reject_def unexpectedToken_def
      unexpectedAfterIgnoredChildBlock_def split: parser_state.split)

lemma parse_eof_same:
  assumes "t_ID t = EOF" "t_ID t' = EOF" shows "parse t = parse t'"
  by (intro ext) (simp add: parse_def assms eof_same [OF assms])

lemma never_andThen:
  "(\<And>c. fst (f c) \<noteq> Some ErrReenterState) \<Longrightarrow> (\<And>c. fst (g c) \<noteq> Some ErrReenterState) \<Longrightarrow>
     fst (andThen f g c) \<noteq> Some ErrReenterState"
  by (auto simp: andThen_def split: prod.splits option.splits) (metis fst_conv)

lemma quiet_never: "quiet f \<Longrightarrow> fst (f c) \<noteq> Some ErrReenterState"
  by (simp add: quiet_def)

lemma parse_eof_once:
  assumes "t_ID t = EOF" shows "fst (parse t c) \<noteq> Some ErrReenterState"
proof -
  have "fst (dispatch t d) \<noteq> Some ErrReenterState" for d
  proof (cases "c_state d")
    case stateArgProp
    have "fst (andThen flush_ident popNodeAndState d) \<noteq> Some ErrReenterState"
      by (intro never_andThen quiet_never quiet_flush never_again)
    with stateArgProp show ?thesis
      using assms never_again(1) by (simp add: dispatch_def eof_handlers argprop_Terminator_def)
  qed (use assms never_again in \<open>simp_all add: dispatch_def eof_handlers doc_Terminator_def
      node_Terminator_def params_Terminator_def end_EndOfLine_def\<close>)
  then have "fst (andThen (check_ignored_block t) (\<lambda>c. dispatch t (track_continuation t c)) c)
      \<noteq> Some ErrReenterState"
    by (intro never_andThen [OF quiet_never [OF shrinks_check]])
  then show ?thesis using assms by (simp add: parse_def)
qed

lemma feed_eof:
  assumes "t_ID t = EOF"
  shows "feed t c = apsnd (recents (recent_Add t (c_recent c))) (parse t c)"
proof -
  have p: "Parse t c = apsnd (recents (recent_Add t (c_recent c))) (parse t c)"
    using over_parse_eof [OF assms] by (simp add: Parse_def recents_def)
  have "fst (Parse t c) \<noteq> Some ErrReenterState"
    using p parse_eof_once [OF assms, of c] by simp
  then show ?thesis
    unfolding feed.simps [of t c] p by (cases "parse t c"; cases "fst (parse t c)") auto
qed

lemma Parse_eof: "t_ID t = EOF \<Longrightarrow> Parse t c = apsnd (recents (recent_Add t (c_recent c))) (parse t c)"
  using over_parse_eof [of t] by (simp add: Parse_def recents_def)

section \<open>What no step breaks\<close>

context store_property
begin

lemma holds_feed: "feed t c = (e, d) \<Longrightarrow> e \<in> {None, Some ErrReenterState} \<Longrightarrow> holds c \<Longrightarrow> holds d"
proof (induction t c rule: feed.induct)
  case (1 t c)
  obtain x c' where p: "Parse t c = (x, c')" by fastforce
  with keptD [OF kept_Parse p] 1 show ?case
    by (auto simp: feed.simps [of t c] split: option.splits if_splits)
qed

lemma kept_feed: "kept (feed t)"
  using holds_feed by (auto simp: kept_def)

lemma kept_feeds: "kept (feeds ts)"
  by (induction ts) (auto simp: kept_simple kept_feed)

text \<open>It holds of the store of a document that is read, when it holds of the empty store.\<close>

lemma parse_scan_property: "holds c \<Longrightarrow> fst (parse_scan s c) = Inr d \<Longrightarrow> \<exists>opts. J (d_store d) opts"
proof (induction s c rule: parse_scan.induct)
  case (1 s c)
  obtain b s' where s: "Scan s = (b, s')" by fastforce
  obtain e c' where f: "feed (s_token s') c = (e, c')" by fastforce
  show ?case
  proof (cases "b \<and> e = None")
    case True
    then have b: "b = True" and e: "e = None" by simp_all
    from f e have "holds c'" using holds_feed [OF f] "1.prems"(1) by simp
    with "1.IH" [OF s [symmetric] b f [symmetric] e] "1.prems"(2) s f b e show ?thesis
      by (simp add: parse_scan.simps [of s c])
  next
    case False
    with s f "1.prems" show ?thesis
      by (cases b; cases e)
        (auto simp: parse_scan.simps [of s c] Document_def holds_def split: option.splits)
  qed
qed

lemma ParseWithOptions_property:
  assumes "\<And>opts. J [] opts" "ParseWithOptions r opts = Inr d"
  shows "\<exists>opts. J (d_store d) opts"
proof -
  have start: "holds (NewContextOptions opts)" for opts
    using assms(1) by (simp add: holds_def NewContextOptions_def)
  have one: "fst (parseOne s) = Inr d \<Longrightarrow> \<exists>opts. J (d_store d) opts" for s
    using parse_scan_property [OF start, of s "context_options s" d]
    by (simp add: parseOne_def split: prod.splits)
  then have "parseOne s = (Inr d, s') \<Longrightarrow> \<exists>opts. J (d_store d) opts" for s s' by (metis fst_conv)
  with one assms(2) show ?thesis
    by (auto simp: ParseWithOptions_def kdl_parse_def Let_def split: if_splits prod.splits sum.splits)
qed

end

interpretation options: store_property "\<lambda>s opts. opts = opts0" for opts0
  by unfold_locales

lemma Parse_opts: "Parse t c = (None, c') \<Longrightarrow> c_opts c' = c_opts c"
  using options.keptD [OF options.kept_Parse, of t c None c' "c_opts c"] by (simp add: options.holds_def)

lemma feeds_opts: "feeds ts c = (None, c') \<Longrightarrow> c_opts c' = c_opts c"
  using options.keptD [OF options.kept_feeds, of ts c None c' "c_opts c"] by (simp add: options.holds_def)

text \<open>The end of a document, whatever the last token's position.\<close>

definition ends :: "version \<Rightarrow> ctx \<Rightarrow> document \<Rightarrow> bool" where
  "ends v c d \<longleftrightarrow> (\<exists>c'. parse (no_token\<lparr>t_ID := EOF\<rparr>) c = (None, c') \<and> d = Document v c')"

lemma ends_iff:
  assumes "t_ID t = EOF"
  shows "(\<exists>c'. feed t c = (None, c') \<and> d = Document v c') \<longleftrightarrow> ends v c d"
    and "(\<exists>c'. Parse t c = (None, c') \<and> d = Document v c') \<longleftrightarrow> ends v c d"
proof -
  have "parse t = parse (no_token\<lparr>t_ID := EOF\<rparr>)" using assms by (intro parse_eof_same) simp_all
  then show "(\<exists>c'. feed t c = (None, c') \<and> d = Document v c') \<longleftrightarrow> ends v c d"
    and "(\<exists>c'. Parse t c = (None, c') \<and> d = Document v c') \<longleftrightarrow> ends v c d"
    unfolding feed_eof [OF assms] Parse_eof [OF assms] ends_def
    by (cases "parse t c"; auto simp: Document_def)+
qed

lemma ParseAllContext_iff:
  "ParseAllContext c ts = Inr d \<longleftrightarrow>
     (\<exists>c'. feeds ts c = (None, c') \<and> ends (o_Version (c_opts c)) c' d)"
proof -
  let ?t = "parser_eof ts"
  have t: "t_ID ?t = EOF" by (simp add: parser_eof_def Let_def)
  have run: "parse_tokens ts 0 c = Inr c' \<longleftrightarrow> feeds ts c = (None, c')" for c'
    using parse_tokens_feeds [of 0 ts c c'] by simp
  have "ParseAllContext c ts = Inr d \<longleftrightarrow>
    (\<exists>c'. feeds ts c = (None, c') \<and> (\<exists>c''. Parse ?t c' = (None, c'') \<and> d = Document (o_Version (c_opts c'')) c''))"
  proof (cases "parse_tokens ts 0 c")
    case (Inl e)
    then have "feeds ts c \<noteq> (None, c')" for c' using run [of c'] by simp
    with Inl show ?thesis by (simp add: ParseAllContext_def)
  next
    case (Inr c1)
    with run [of c1] show ?thesis
      by (auto simp: ParseAllContext_def split: option.splits prod.splits)
  qed
  moreover have "(\<exists>c''. Parse ?t c' = (None, c'') \<and> d = Document (o_Version (c_opts c'')) c'')
      \<longleftrightarrow> ends (o_Version (c_opts c)) c' d" if "feeds ts c = (None, c')" for c'
  proof -
    have "c_opts c'' = c_opts c" if "Parse ?t c' = (None, c'')" for c''
      using Parse_opts [OF that] feeds_opts [OF \<open>feeds ts c = (None, c')\<close>] by simp
    with ends_iff(2) [OF t, of c' d "o_Version (c_opts c)"] show ?thesis by auto
  qed
  ultimately show ?thesis by blast
qed

lemma readNext_version:
  assumes "readNext s = (r, s')" "s_version s \<noteq> VersionAuto"
  shows "s_version s' = s_version s"
proof -
  obtain q where q: "next_lexeme s = (q, s')"
    using assms by (auto simp: readNext_def Let_def split: prod.splits sum.splits if_splits)
  from next_lexeme_spec [OF q] show ?thesis by (auto simp: adve_def adv_def)
qed

lemma ScanAll_extends: "ScanAll_loop acc s = (Inr all, s') \<Longrightarrow> \<exists>ts. all = acc @ ts"
proof (induction acc s rule: ScanAll_loop.induct)
  case (1 acc s)
  obtain r s1 where n: "readNext s = (r, s1)" by fastforce
  show ?case
  proof (cases r)
    case (Inr t)
    with n "1.prems" have "ScanAll_loop (acc @ [t]) s1 = (Inr all, s')"
      by (simp add: ScanAll_loop.simps [of acc s])
    from "1.IH" [OF n [symmetric] Inr this] show ?thesis by auto
  next
    case (Inl e)
    with n "1.prems" show ?thesis by (auto simp: ScanAll_loop.simps [of acc s] split: if_splits)
  qed
qed

lemma parse_scan_step:
  assumes "readNext (sc s) = (Inr t, s1)" "s_err s = None" "feed t c = (None, c1)"
  shows "parse_scan s c = parse_scan (s\<lparr>sc := s1, s_token := t, s_err := None\<rparr>) c1"
  using assms by (simp add: parse_scan.simps [of s c] Scan_def)

lemma parse_scan_fails:
  assumes "readNext (sc s) = (Inr t, s1)" "s_err s = None" "feed t c = (Some e, c1)"
  shows "\<exists>x. fst (parse_scan s c) = Inl x"
  using assms by (simp add: parse_scan.simps [of s c] Scan_def)

lemma parse_scan_error:
  assumes "readNext (sc s) = (Inl e, s1)" "s_err s = None" "e \<noteq> io_EOF"
  shows "\<exists>x. fst (parse_scan s c) = Inl x"
  using assms by (simp add: parse_scan.simps [of s c] Scan_def)

lemma parse_scan_eof:
  assumes "readNext (sc s) = (Inl io_EOF, s1)" "s_err s = None"
  shows "fst (parse_scan s c) = Inr d \<longleftrightarrow> ends (s_version s1) c d"
proof -
  let ?t = "eof_token s1" and ?s = "s\<lparr>sc := s1, s_token := eof_token s1, s_err := Some io_EOF\<rparr>"
  obtain e c1 where f: "feed ?t c = (e, c1)" by fastforce
  have "parse_scan ?s c1 = (Inr (Document (s_version s1) c1), ?s\<lparr>s_err := None\<rparr>)"
    by (simp add: parse_scan.simps [of ?s c1] Scan_def)
  with assms f have "fst (parse_scan s c) = Inr d \<longleftrightarrow> e = None \<and> d = Document (s_version s1) c1"
    by (cases e) (auto simp: parse_scan.simps [of s c] Scan_def)
  with ends_iff(1) [of ?t c d "s_version s1"] f show ?thesis by (auto simp: eof_token_def)
qed

lemma parse_scan_tokens:
  assumes "s_version (sc s) \<noteq> VersionAuto" "s_err s = None"
  shows "fst (parse_scan s c) = Inr d \<longleftrightarrow>
    (\<exists>ts s' c'. ScanAll_loop acc (sc s) = (Inr (acc @ ts), s') \<and> feeds ts c = (None, c')
       \<and> ends (s_version (sc s)) c' d)"
  using assms
proof (induction acc "sc s" arbitrary: s c rule: ScanAll_loop.induct)
  case (1 acc)
  obtain r s1 where n: "readNext (sc s) = (r, s1)" by fastforce
  have v: "s_version s1 = s_version (sc s)" using readNext_version [OF n "1.prems"(1)] .
  show ?case
  proof (cases r)
    case (Inr t)
    let ?s = "s\<lparr>sc := s1, s_token := t, s_err := None\<rparr>"
    have L: "ScanAll_loop acc (sc s) = ScanAll_loop (acc @ [t]) s1"
      using n Inr by (simp add: ScanAll_loop.simps [of acc])
    obtain e c1 where f: "feed t c = (e, c1)" by fastforce
    have N: "(r, sc ?s) = readNext (sc s)" using n by simp
    have grows: "\<exists>ts. all = (acc @ [t]) @ ts" if "ScanAll_loop (acc @ [t]) s1 = (Inr all, s')" for all s'
      using ScanAll_extends [OF that] .
    show ?thesis
    proof (cases e)
      case None
      have "fst (parse_scan s c) = fst (parse_scan ?s c1)"
        using parse_scan_step [OF n [unfolded Inr] "1.prems"(2) f [unfolded None]] by simp
      also have "\<dots> = Inr d \<longleftrightarrow> (\<exists>ts s' c'. ScanAll_loop (acc @ [t]) s1 = (Inr ((acc @ [t]) @ ts), s')
          \<and> feeds ts c1 = (None, c') \<and> ends (s_version s1) c' d)"
        using "1.hyps" [OF N Inr, of c1] "1.prems"(1) v by simp
      also have "\<dots> \<longleftrightarrow> (\<exists>ts s' c'. ScanAll_loop acc (sc s) = (Inr (acc @ t # ts), s')
          \<and> feeds (t # ts) c = (None, c') \<and> ends (s_version (sc s)) c' d)"
        using L f None v by (simp add: andThen_def)
      also have "\<dots> \<longleftrightarrow> (\<exists>ts s' c'. ScanAll_loop acc (sc s) = (Inr (acc @ ts), s')
          \<and> feeds ts c = (None, c') \<and> ends (s_version (sc s)) c' d)"
        using grows L by (metis append.assoc append_Cons append_Nil same_append_eq)
      finally show ?thesis .
    next
      case (Some x)
      have "feeds (t # ts) c \<noteq> (None, c')" for ts c' using f Some by (simp add: andThen_def)
      with grows L have "\<not> (\<exists>ts s' c'. ScanAll_loop acc (sc s) = (Inr (acc @ ts), s')
          \<and> feeds ts c = (None, c') \<and> ends (s_version (sc s)) c' d)"
        by (metis append.assoc append_Cons append_Nil same_append_eq)
      with parse_scan_fails [OF n [unfolded Inr] "1.prems"(2) f [unfolded Some]] show ?thesis by auto
    qed
  next
    case (Inl e)
    show ?thesis
    proof (cases "e = io_EOF")
      case True
      have "ScanAll_loop acc (sc s) = (Inr acc, s1)"
        using n Inl True by (simp add: ScanAll_loop.simps [of acc])
      with parse_scan_eof [OF n [unfolded Inl True] "1.prems"(2), of c d] v show ?thesis
        by (auto simp: ok_def)
    next
      case False
      have "ScanAll_loop acc (sc s) = (Inl (annotatedError e s1), s1)"
        using n Inl False by (simp add: ScanAll_loop.simps [of acc])
      with parse_scan_error [OF n [unfolded Inl] "1.prems"(2) False, of c] show ?thesis by auto
    qed
  qed
qed

lemma parseOne_tokens:
  assumes "s_version (sc s) \<noteq> VersionAuto" "s_err s = None"
  shows "fst (parseOne s) = Inr d \<longleftrightarrow>
    (\<exists>tokens. fst (ScanAll s) = Inr tokens
       \<and> ParseAllContext (NewContextOptions (context_options s)) tokens = Inr d)"
proof -
  let ?c = "NewContextOptions (context_options s)"
  have v: "o_Version (c_opts ?c) = s_version (sc s)"
    by (simp add: NewContextOptions_def context_options_def)
  have "fst (parseOne s) = fst (parse_scan s ?c)" by (simp add: parseOne_def split: prod.split)
  with parse_scan_tokens [OF assms, of ?c d "[]"] show ?thesis
    using assms(2) by (auto simp: ScanAll_def ParseAllContext_iff v split: prod.splits)
qed

text \<open>C7: parsing while scanning is scanning, then parsing.  For a scanner of a fixed version
  the loop of \<open>kdl.Parse\<close>, which sends each token to the parser as it is read, returns a document
  exactly when \<open>ScanAll\<close> succeeds and \<open>ParseAllContext\<close> accepts its tokens, and it is the same
  document, although the two send a different end-of-file token.\<close>

theorem parseOne_scan_then_parse:
  assumes "s_version (sc s) \<noteq> VersionAuto" "s_err s = None"
  shows "fst (parseOne s) = Inr d \<longleftrightarrow>
    (\<exists>tokens. fst (ScanAll s) = Inr tokens
       \<and> ParseAllContext (NewContextOptions (context_options s)) tokens = Inr d)"
  by (rule parseOne_tokens [OF assms])

lemma parseOne_scan_then_parse_witness:
  "\<exists>d tokens. fst (parseOne (configure 0 False VersionV1 (NewSlice ''a 1''))) = Inr d
     \<and> fst (ScanAll (configure 0 False VersionV1 (NewSlice ''a 1''))) = Inr tokens
     \<and> ParseAllContext (NewContextOptions
          (context_options (configure 0 False VersionV1 (NewSlice ''a 1'')))) tokens = Inr d"
proof -
  let ?s = "configure 0 False VersionV1 (NewSlice ''a 1'')"
  have "\<not> isl (fst (parseOne ?s))" by code_simp
  then obtain d where "fst (parseOne ?s) = Inr d" by (auto simp: isl_def) (meson sum.exhaust)
  moreover have "s_version (sc ?s) \<noteq> VersionAuto" "s_err ?s = None"
    by (simp_all add: configure_def NewSlice_def)
  ultimately show ?thesis using parseOne_scan_then_parse [of ?s d] by blast
qed

end
