(* ===== verification/Recent.thy ===== *)
theory Recent
  imports Context
begin

text \<open>
  The ring of recent tokens (\<open>internal/parser/recent.go\<close>) against what it is for: a window on
  the last five tokens.  The window is an interface, so that the parser's lemmas do not see
  the array and the head.
\<close>

section \<open>A window on a sequence\<close>

locale window =
  fixes add :: "'a \<Rightarrow> 's \<Rightarrow> 's" and view :: "'s \<Rightarrow> 'a list" and ok :: "'s \<Rightarrow> bool" and width :: nat
  assumes ok_add: "ok s \<Longrightarrow> ok (add x s)"
    and view_add: "ok s \<Longrightarrow> view (add x s) = tl (view s) @ [x]"
    and length_view: "ok s \<Longrightarrow> length (view s) = width"
    and width_pos: "0 < width"
begin

lemma ok_fold: "ok s \<Longrightarrow> ok (fold add xs s)"
  by (induction xs arbitrary: s) (simp_all add: ok_add)

lemma view_fold: "ok s \<Longrightarrow> view (fold add xs s) = drop (length xs) (view s @ xs)"
proof (induction xs rule: rev_induct)
  case (snoc x xs)
  have n: "length xs < length (view s @ xs)" using length_view [OF snoc.prems] width_pos by simp
  have "view (fold add (xs @ [x]) s) = tl (drop (length xs) (view s @ xs)) @ [x]"
    using view_add [OF ok_fold [OF snoc.prems]] snoc by simp
  also have "\<dots> = drop (Suc (length xs)) (view s @ xs) @ [x]"
    by (simp only: drop_Suc tl_drop)
  also have "\<dots> = drop (Suc (length xs)) ((view s @ xs) @ [x])"
    using drop_append [of "Suc (length xs)" "view s @ xs" "[x]"] Suc_leI [OF n] by simp
  finally show ?case by simp
qed simp

lemma newest: "ok s \<Longrightarrow> last (view (add x s)) = x"
  by (simp add: view_add)

lemma before_newest:
  assumes "ok s" "1 < width"
  shows "view (add x s) ! (width - 2) = last (view s)"
proof -
  have "length (view s) = width" using assms length_view by simp
  then show ?thesis using assms
    by (cases "view s" rule: rev_cases) (auto simp: view_add nth_append nth_tl)
qed

end

section \<open>The ring\<close>

definition ring_ok :: "recent_tokens \<Rightarrow> bool" where
  "ring_ok r \<longleftrightarrow> length (r_tokens r) = recentTokensCount \<and> r_head r < recentTokensCount"

definition ring :: "recent_tokens \<Rightarrow> token list" where
  "ring r = map (\<lambda>i. r_tokens r ! ((r_head r + Suc i) mod recentTokensCount)) [0 ..< recentTokensCount]"

lemma ring_ok_no_recent [simp]: "ring_ok no_recent"
  by (simp add: ring_ok_def no_recent_def recentTokensCount_def)

lemma upt_five: "[0..<5] = [0, 1, 2, 3, 4 :: nat]"
  by (simp add: upt_rec)

lemma ring_add:
  assumes "ring_ok r" shows "ring (recent_Add t r) = tl (ring r) @ [t]"
proof -
  from assms have l: "length (r_tokens r) = 5" "r_head r < 5"
    by (simp_all add: ring_ok_def recentTokensCount_def)
  then have "r_head r \<in> {0, 1, 2, 3, 4}" by auto
  with l show ?thesis
    by (auto simp: ring_def recent_Add_def recentTokensCount_def Let_def upt_five numeral_2_eq_2)
qed

interpretation recents: window recent_Add ring ring_ok recentTokensCount
  by unfold_locales
    (auto simp: ring_add, auto simp: ring_ok_def recent_Add_def ring_def Let_def recentTokensCount_def)

lemma recent_loop_eq:
  "recent_loop ts k n = filter Valid (map (\<lambda>i. ts ! ((n + Suc i) mod recentTokensCount)) [0 ..< k])"
proof (induction k arbitrary: n)
  case (Suc k)
  have wrap: "((n + 1) mod recentTokensCount + Suc i) mod recentTokensCount = (n + Suc (Suc i)) mod recentTokensCount" for i
    using mod_add_left_eq [of "n + 1" recentTokensCount "Suc i"]
    by (simp only: add_Suc_right add.right_neutral One_nat_def add_Suc)
  have "map (\<lambda>i. ts ! ((n + Suc i) mod recentTokensCount)) [0 ..< Suc k] =
    ts ! ((n + 1) mod recentTokensCount)
      # map (\<lambda>i. ts ! ((n + Suc (Suc i)) mod recentTokensCount)) [0 ..< k]"
    unfolding upt_conv_Cons [OF zero_less_Suc] map_Suc_upt [symmetric] by simp
  also have "\<dots> = ts ! ((n + 1) mod recentTokensCount)
      # map (\<lambda>i. ts ! (((n + 1) mod recentTokensCount + Suc i) mod recentTokensCount)) [0 ..< k]"
    unfolding wrap by (rule refl)
  finally show ?case by (simp only: recent_loop.simps Let_def Suc.IH filter.simps Valid_def)
qed simp

lemma recent_Get_ring: "ring_ok r \<Longrightarrow> recent_Get r = filter Valid (ring r)"
  by (simp add: recent_Get_def recent_loop_eq ring_def ring_ok_def)

lemma ring_no_recent: "ring no_recent = replicate 5 no_token"
  by code_simp

lemma filter_no_token [simp]: "filter Valid (replicate n no_token) = []"
  by (induction n) simp_all

text \<open>C27: the ring of recent tokens is a window on the last five.  After any sequence of \<open>Add\<close>
  on a fresh ring, \<open>Get\<close> returns the valid ones among the last five tokens added, oldest
  first, however often the head has wrapped around.\<close>

theorem recent_tokens_window:
  "recent_Get (fold recent_Add tokens no_recent) = filter Valid (drop (length tokens - 5) tokens)"
  using recents.view_fold [OF ring_ok_no_recent, of tokens]
    recents.ok_fold [OF ring_ok_no_recent, of tokens]
  by (simp add: recent_Get_ring ring_no_recent)

end
