(* ===== verification/Trees.thy ===== *)
theory Trees
  imports Reading Recent
begin

text \<open>
  What the parser builds.  A tree of nodes and the token lists that spell it, as a grammar; and
  the proof that the parser, on any such list, leaves exactly that tree in its store.
\<close>

section \<open>Contexts without anything pending\<close>

definition prev :: "ctx \<Rightarrow> token" where
  "prev c = last (ring (c_recent c))"

definition calm :: "ctx \<Rightarrow> bool" where
  "calm c \<longleftrightarrow> \<not> c_continuation c \<and> \<not> c_ignoreNextNode c \<and> \<not> c_ignoreNextArgProp c
     \<and> c_ignoreChildren c = 0 \<and> \<not> c_afterIgnoredChildBlock c \<and> \<not> comments_on c
     \<and> \<not> relaxed NGINXSyntax c \<and> ring_ok (c_recent c) \<and> (Valid (prev c) \<or> filter Valid (ring (c_recent c)) = [])"

text \<open>The context a handler sees: the token is in the ring and the continuation is accounted for.\<close>

definition seen :: "token \<Rightarrow> ctx \<Rightarrow> ctx" where
  "seen t c = track_continuation t (c\<lparr>c_recent := recent_Add t (c_recent c)\<rparr>)"

lemma seen_calm:
  "calm c \<Longrightarrow> seen t c = c\<lparr>c_recent := recent_Add t (c_recent c),
     c_justContinuedLine := (if isTriviaToken (t_ID t) then c_justContinuedLine c else False)\<rparr>"
  by (simp add: seen_def track_continuation_def calm_def)

lemma seen_fields [simp]:
  assumes "calm c"
  shows "c_store (seen t c) = c_store c" "c_doc (seen t c) = c_doc c"
    "c_states (seen t c) = c_states c" "c_state (seen t c) = c_state c"
    "c_node (seen t c) = c_node c" "c_ident (seen t c) = c_ident c"
    "c_typeAnnot (seen t c) = c_typeAnnot c" "c_continuation (seen t c) = False"
    "c_ignoreNextNode (seen t c) = False" "c_ignoreNextArgProp (seen t c) = False"
    "c_ignoreChildren (seen t c) = 0" "c_afterIgnoredChildBlock (seen t c) = False"
    "c_opts (seen t c) = c_opts c"
  using assms by (simp_all add: seen_calm) (simp_all add: calm_def)

lemma seen_recent: "calm c \<Longrightarrow> c_recent (seen t c) = recent_Add t (c_recent c)"
  by (simp add: seen_calm)

lemma calm_congI:
  assumes "calm c" "c_opts d = c_opts c" "c_continuation d = c_continuation c"
    "c_ignoreNextNode d = c_ignoreNextNode c" "c_ignoreNextArgProp d = c_ignoreNextArgProp c"
    "c_ignoreChildren d = c_ignoreChildren c" "c_recent d = c_recent c"
    "c_afterIgnoredChildBlock d = c_afterIgnoredChildBlock c"
  shows "calm d \<and> prev d = prev c"
  using assms by (simp add: calm_def prev_def comments_on_def relaxed_def)

lemma calm_seen: "calm c \<Longrightarrow> Valid t \<Longrightarrow> calm (seen t c) \<and> prev (seen t c) = t"
  using recents.newest [of "c_recent c" t] recents.ok_add [of "c_recent c" t]
  by (simp add: calm_def prev_def comments_on_def relaxed_def seen_calm)

text \<open>A token is taken as separated when what it could stick to is not a value.\<close>

definition apart :: "token \<Rightarrow> ctx \<Rightarrow> bool" where
  "apart t c \<longleftrightarrow> t_ID t \<noteq> TokenComment \<and> (t_ID t \<in> set scalar_tokens \<longrightarrow> \<not> isValueLikeToken (t_ID (prev c)))"

lemma apart_separated:
  assumes "calm c" "apart t c" "Valid t"
  shows "\<not> separation_error (c\<lparr>c_recent := recent_Add t (c_recent c)\<rparr>) t"
proof -
  let ?r = "c_recent c"
  have r: "ring_ok ?r" using assms(1) by (simp add: calm_def)
  have G: "recent_Get (recent_Add t ?r) = filter Valid (tl (ring ?r)) @ [t]"
    using recent_Get_ring [OF recents.ok_add [OF r]] ring_add [OF r] assms(3) by simp
  have l: "length (ring ?r) = 5" using recents.length_view [OF r] by (simp add: recentTokensCount_def)
  have "requiresV2Separation (recent_Get (recent_Add t ?r) ! (length (recent_Get (recent_Add t ?r)) - 2)) t
      \<Longrightarrow> length (recent_Get (recent_Add t ?r)) \<ge> 2 \<Longrightarrow> False"
  proof -
    assume req: "requiresV2Separation (recent_Get (recent_Add t ?r) ! (length (recent_Get (recent_Add t ?r)) - 2)) t"
      and len: "length (recent_Get (recent_Add t ?r)) \<ge> 2"
    have "filter Valid (ring ?r) \<noteq> []"
      using len G by (cases "ring ?r") (auto split: if_splits)
    then have v: "Valid (prev c)" using assms(1) by (simp add: calm_def)
    have "tl (ring ?r) = butlast (tl (ring ?r)) @ [prev c]"
      using l by (cases "ring ?r") (auto simp: prev_def)
    then have "filter Valid (tl (ring ?r)) = filter Valid (butlast (tl (ring ?r))) @ [prev c]"
      using v by (metis filter.simps filter_append)
    then have "recent_Get (recent_Add t ?r) ! (length (recent_Get (recent_Add t ?r)) - 2) = prev c"
      unfolding G by (simp add: nth_append)
    with req assms(2) show False by (auto simp: requiresV2Separation_def apart_def)
  qed
  then show ?thesis by (auto simp: separation_error_def Let_def)
qed

lemma feed_calm:
  assumes "calm c" "apart t c" "Valid t" "find_handler (c_state c) (t_ID t) = Some h"
    and "h t (seen t c) = (None, c')"
  shows "feed t c = (None, c')"
proof -
  let ?c = "c\<lparr>c_recent := recent_Add t (c_recent c)\<rparr>"
  have "check_ignored_block t ?c = (None, ?c)"
    using assms(1) by (simp add: check_ignored_block_def calm_def ok_def)
  moreover have "c_state (track_continuation t ?c) = c_state c"
    using seen_fields(4) [OF assms(1), of t] by (simp add: seen_def)
  ultimately have "Parse t c = (None, c')"
    using assms(4,5) apart_separated [OF assms(1-3)]
    by (simp add: Parse_def parse_def andThen_def dispatch_def seen_def)
  then show ?thesis by (simp add: feed.simps [of t c])
qed

section \<open>Runs\<close>

text \<open>
  What the lemmas below follow of a context: the store, the document, the stack of states, the
  stack of nodes, the queued identifier and the type annotation.
\<close>

datatype conf = Conf "node list" "ref list" "parser_state list" "ref list" token token

fun at :: "bool \<Rightarrow> ctx \<Rightarrow> conf \<Rightarrow> bool" where
  "at v c (Conf s d st ns i a) \<longleftrightarrow> calm c \<and> v2 c = v \<and> c_store c = s \<and> c_doc c = d
     \<and> stack c = st \<and> c_node c = ns \<and> c_ident c = i \<and> c_typeAnnot c = a"

text \<open>
  The tokens \<open>ts\<close> take the parser from \<open>k\<close> to \<open>k'\<close>.  The flags say whether the token before
  them, and the last of them, may be a value.
\<close>

definition runs :: "bool \<Rightarrow> bool \<Rightarrow> token list \<Rightarrow> conf \<Rightarrow> bool \<Rightarrow> conf \<Rightarrow> bool" where
  "runs v p ts k p' k' \<longleftrightarrow> (\<forall>c. at v c k \<and> (isValueLikeToken (t_ID (prev c)) \<longrightarrow> p) \<longrightarrow>
     (\<exists>c'. feeds ts c = (None, c') \<and> at v c' k' \<and> (isValueLikeToken (t_ID (prev c')) \<longrightarrow> p')))"

lemma runs_Nil [intro, simp]: "runs v p [] k p k"
  by (auto simp: runs_def ok_def)

lemma feeds_append: "feeds (xs @ ys) = andThen (feeds xs) (feeds ys)"
proof (induction xs)
  case Nil
  show ?case by (simp add: fun_eq_iff andThen_def ok_def)
next
  case (Cons x xs)
  then show ?case
    by (auto simp: fun_eq_iff andThen_def split: prod.splits option.splits)
qed

lemma runs_append:
  assumes "runs v p xs k q k'" "runs v q ys k' r k''"
  shows "runs v p (xs @ ys) k r k''"
  unfolding runs_def
proof (intro allI impI)
  fix c assume "at v c k \<and> (isValueLikeToken (t_ID (prev c)) \<longrightarrow> p)"
  with assms(1) obtain c' where c': "feeds xs c = (None, c')" "at v c' k'" "isValueLikeToken (t_ID (prev c')) \<longrightarrow> q"
    unfolding runs_def by blast
  with assms(2) obtain c'' where "feeds ys c' = (None, c'')" "at v c'' k''" "isValueLikeToken (t_ID (prev c'')) \<longrightarrow> r"
    unfolding runs_def by blast
  with c' show "\<exists>c''. feeds (xs @ ys) c = (None, c'') \<and> at v c'' k'' \<and> (isValueLikeToken (t_ID (prev c'')) \<longrightarrow> r)"
    by (simp add: feeds_append andThen_def)
qed

lemma runs_Cons: "runs v p [x] k q k' \<Longrightarrow> runs v q ys k' r k'' \<Longrightarrow> runs v p (x # ys) k r k''"
  using runs_append [of v p "[x]"] by simp

lemma runs_weaken: "runs v p ts k q k' \<Longrightarrow> (p0 \<longrightarrow> p) \<Longrightarrow> (q \<longrightarrow> q') \<Longrightarrow> runs v p0 ts k q' k'"
  unfolding runs_def by blast

lemma stack_seen [simp]: "calm c \<Longrightarrow> stack (seen t c) = stack c"
  by (simp add: stack_def)

lemma at_seen: "at v c k \<Longrightarrow> Valid t \<Longrightarrow> at v (seen t c) k \<and> prev (seen t c) = t"
  by (cases k) (auto simp: calm_seen v2_def)

text \<open>One token: its handler turns contexts at \<open>k\<close> into contexts at \<open>k'\<close>.\<close>

lemma runs_token:
  assumes "k = Conf s d (q # st) ns i a" "Valid t" "t_ID t \<noteq> TokenComment"
    and "t_ID t \<in> set scalar_tokens \<longrightarrow> \<not> p" "isValueLikeToken (t_ID t) \<longrightarrow> p'"
    and "find_handler q (t_ID t) = Some h"
    and "\<And>c. at v c k \<Longrightarrow> \<exists>c'. h t c = (None, c') \<and> at v c' k' \<and> prev c' = prev c"
  shows "runs v p [t] k p' k'"
  unfolding runs_def
proof (intro allI impI)
  fix c assume c: "at v c k \<and> (isValueLikeToken (t_ID (prev c)) \<longrightarrow> p)"
  then have "calm c" "c_state c = q" using assms(1) by (auto simp: stack_def)
  moreover have "apart t c" using c assms(3,4) by (auto simp: apart_def)
  moreover from at_seen [of v c k t] c assms(2) have s: "at v (seen t c) k" "prev (seen t c) = t" by auto
  moreover from assms(7) [OF s(1)] obtain c' where
    h: "h t (seen t c) = (None, c')" "at v c' k'" "prev c' = t" using s(2) by auto
  ultimately have "feed t c = (None, c')" using feed_calm assms(2,6) by blast
  with h assms(5) show "\<exists>c'. feeds [t] c = (None, c') \<and> at v c' k' \<and> (isValueLikeToken (t_ID (prev c')) \<longrightarrow> p')"
    by (auto simp: andThen_def ok_def)
qed

lemma calm_updates [simp]:
  "calm (c\<lparr>c_state := x1\<rparr>) = calm c" "calm (c\<lparr>c_states := x2\<rparr>) = calm c"
  "calm (c\<lparr>c_node := x3\<rparr>) = calm c" "calm (c\<lparr>c_store := x4\<rparr>) = calm c"
  "calm (c\<lparr>c_doc := x5\<rparr>) = calm c" "calm (c\<lparr>c_ident := x6\<rparr>) = calm c"
  "calm (c\<lparr>c_typeAnnot := x7\<rparr>) = calm c" "calm (c\<lparr>c_lastAddedNode := x8\<rparr>) = calm c"
  "prev (c\<lparr>c_state := x1\<rparr>) = prev c" "prev (c\<lparr>c_states := x2\<rparr>) = prev c"
  "prev (c\<lparr>c_node := x3\<rparr>) = prev c" "prev (c\<lparr>c_store := x4\<rparr>) = prev c"
  "prev (c\<lparr>c_doc := x5\<rparr>) = prev c" "prev (c\<lparr>c_ident := x6\<rparr>) = prev c"
  "prev (c\<lparr>c_typeAnnot := x7\<rparr>) = prev c" "prev (c\<lparr>c_lastAddedNode := x8\<rparr>) = prev c"
  by (simp_all add: calm_def prev_def comments_on_def relaxed_def)

lemma stack_updates [simp]:
  "stack (c\<lparr>c_node := x3\<rparr>) = stack c" "stack (c\<lparr>c_store := x4\<rparr>) = stack c"
  "stack (c\<lparr>c_doc := x5\<rparr>) = stack c" "stack (c\<lparr>c_ident := x6\<rparr>) = stack c"
  "stack (c\<lparr>c_typeAnnot := x7\<rparr>) = stack c" "stack (c\<lparr>c_lastAddedNode := x8\<rparr>) = stack c"
  "stack (c\<lparr>c_state := x1\<rparr>) = x1 # tl (stack c)"
  by (simp_all add: stack_def)

lemma v2_updates [simp]:
  "v2 (c\<lparr>c_state := x1\<rparr>) = v2 c" "v2 (c\<lparr>c_states := x2\<rparr>) = v2 c"
  "v2 (c\<lparr>c_node := x3\<rparr>) = v2 c" "v2 (c\<lparr>c_store := x4\<rparr>) = v2 c"
  "v2 (c\<lparr>c_doc := x5\<rparr>) = v2 c" "v2 (c\<lparr>c_ident := x6\<rparr>) = v2 c"
  "v2 (c\<lparr>c_typeAnnot := x7\<rparr>) = v2 c" "v2 (c\<lparr>c_lastAddedNode := x8\<rparr>) = v2 c"
  by (simp_all add: v2_def)

lemma calm_fields:
  assumes "calm c"
  shows "\<not> c_continuation c" "\<not> c_ignoreNextNode c" "\<not> c_ignoreNextArgProp c"
    "c_ignoreChildren c = 0" "\<not> comments_on c" "\<not> relaxed NGINXSyntax c"
  using assms by (simp_all add: calm_def)

text \<open>Pushing and popping, seen on the stack.\<close>

lemma pushed:
  "stack (pushState st c) = st # stack c" "calm (pushState st c) = calm c"
  "prev (pushState st c) = prev c" "v2 (pushState st c) = v2 c"
  "c_store (pushState st c) = c_store c" "c_doc (pushState st c) = c_doc c"
  "c_node (pushState st c) = c_node c" "c_ident (pushState st c) = c_ident c"
  "c_typeAnnot (pushState st c) = c_typeAnnot c"
  by (simp_all add: pushState_def) (simp add: stack_def)

lemma popped:
  assumes "stack c = q # b # st"
  shows "popState c = (None, c\<lparr>c_state := b, c_states := rev st\<rparr>)"
    "stack (c\<lparr>c_state := b, c_states := rev st\<rparr>) = b # st"
proof -
  have "rev (c_states c) = b # st" using assms by (simp add: stack_def)
  from rev_last [OF this] have "c_states c \<noteq> []" "last (c_states c) = b" "butlast (c_states c) = rev st"
    by (simp_all) (metis rev_swap)
  then show "popState c = (None, c\<lparr>c_state := b, c_states := rev st\<rparr>)" by (simp add: popState_def)
  show "stack (c\<lparr>c_state := b, c_states := rev st\<rparr>) = b # st" by (simp add: stack_def)
qed

lemma popped_node:
  assumes "stack c = q # b # st" "c_node c = ns @ [r]"
  shows "popNodeAndState c = (None, c\<lparr>c_state := b, c_states := rev st, c_node := ns\<rparr>)"
  using popped [OF assms(1)] assms(2)
  by (simp add: popNodeAndState_def andThen_def popNode_def)

section \<open>Trees and their spelling\<close>

text \<open>
  An entry of a node: an argument or a property, with its type annotation; a node: its type
  annotation, its name, its entries, its children.
\<close>

datatype entry = Arg "token option" token | Prop token "token option" token

datatype tree = Tree "token option" token "entry list" "tree list"

definition blank :: "token \<Rightarrow> bool" where
  "blank t \<longleftrightarrow> t_ID t \<in> {Whitespace, Newline, SingleLineComment, MultiLineComment}"

definition is_good :: "token \<Rightarrow> bool" where
  "is_good t \<longleftrightarrow> \<not> isl (ValueFromTokenInto t)"

definition name_token :: "token \<Rightarrow> bool" where
  "name_token t \<longleftrightarrow> t_ID t \<in> {BareIdentifier, QuotedString, RawString} \<and> is_good t"

definition type_token :: "token \<Rightarrow> bool" where
  "type_token t \<longleftrightarrow> t_ID t \<in> {BareIdentifier, QuotedString, RawString, ExpressionString}"

text \<open>A bare word is an argument in version 2 only.\<close>

definition arg_token :: "bool \<Rightarrow> token \<Rightarrow> bool" where
  "arg_token v t \<longleftrightarrow> is_good t \<and> (v \<and> t_ID t = BareIdentifier
     \<or> t_ID t \<in> {QuotedString, RawString, ExpressionString, Decimal, Hexadecimal, Octal, Binary,
                  Boolean, Null, Keyword})"

definition value_token :: "token \<Rightarrow> bool" where
  "value_token t \<longleftrightarrow> is_good t \<and> t_ID t \<in> {BareIdentifier, QuotedString, RawString, ExpressionString,
     Decimal, Hexadecimal, Octal, Binary, SuffixedDecimal, Boolean, Null, Keyword}"

inductive spells_annot :: "token list \<Rightarrow> token option \<Rightarrow> bool" where
  none: "spells_annot [] None"
| some: "t_ID p = ParensOpen \<Longrightarrow> type_token t \<Longrightarrow> t_ID q = ParensClose \<Longrightarrow> spells_annot [p, t, q] (Some t)"

text \<open>
  The flag says whether an argument comes right before: in version 2 an annotated argument may
  not follow an argument, because the parser is still waiting for the equals sign of a property.
\<close>

inductive spells_entries :: "bool \<Rightarrow> bool \<Rightarrow> token list \<Rightarrow> entry list \<Rightarrow> bool" for v where
  stop: "spells_entries v p [] []"
| argument: "t_ID w = Whitespace \<Longrightarrow> spells_annot a ty \<Longrightarrow> arg_token v x \<Longrightarrow> \<not> (v \<and> p \<and> ty \<noteq> None) \<Longrightarrow>
    spells_entries v True ts es \<Longrightarrow> spells_entries v p (w # a @ x # ts) (Arg ty x # es)"
| property: "t_ID w = Whitespace \<Longrightarrow> name_token k \<Longrightarrow> t_ID e = Equals \<Longrightarrow> spells_annot a ty \<Longrightarrow> value_token x \<Longrightarrow>
    spells_entries v False ts es \<Longrightarrow> spells_entries v p (w # k # e # a @ x # ts) (Prop k ty x # es)"

inductive spells :: "bool \<Rightarrow> token list \<Rightarrow> tree \<Rightarrow> bool"
  and spells_all :: "bool \<Rightarrow> token list \<Rightarrow> tree list \<Rightarrow> bool" for v where
  leaf: "\<forall>t \<in> set b. blank t \<Longrightarrow> spells_annot a ty \<Longrightarrow> name_token n \<Longrightarrow> spells_entries v False e es \<Longrightarrow>
    t_ID z \<in> {Newline, Semicolon} \<Longrightarrow> spells v (b @ a @ n # e @ [z]) (Tree ty n es [])"
| block: "\<forall>t \<in> set b. blank t \<Longrightarrow> spells_annot a ty \<Longrightarrow> name_token n \<Longrightarrow> spells_entries v False e es \<Longrightarrow>
    w = [] \<or> w = [w'] \<and> t_ID w' = Whitespace \<Longrightarrow> t_ID l = BraceOpen \<Longrightarrow> spells_all v k cs \<Longrightarrow>
    \<forall>t \<in> set b'. blank t \<Longrightarrow> t_ID r = BraceClose \<Longrightarrow> t_ID z \<in> {Newline, Semicolon} \<Longrightarrow>
    spells v (b @ a @ n # e @ w @ l # k @ b' @ [r, z]) (Tree ty n es cs)"
| none: "spells_all v [] []"
| more: "spells v x t \<Longrightarrow> spells_all v y ts \<Longrightarrow> spells_all v (x @ y) (t # ts)"

text \<open>What the tree means: the node it is to become, and its place in a store.\<close>

definition token_value :: "token \<Rightarrow> kdl_value" where
  "token_value t = (case ValueFromTokenInto t of Inr v \<Rightarrow> v | Inl _ \<Rightarrow> no_value)"

definition annot :: "token option \<Rightarrow> token" where
  "annot ty = (case ty of None \<Rightarrow> no_token | Some t \<Rightarrow> t)"

fun add_entry :: "entry \<Rightarrow> node \<Rightarrow> node" where
  "add_entry (Arg ty x) n = AddArgumentValue (typed (annot ty) (token_value x)) n"
| "add_entry (Prop k ty x) n =
     AddPropertyValue (ValueString (token_value k)) (typed (annot ty) (token_value x)) [] n"

definition header :: "token option \<Rightarrow> token \<Rightarrow> node" where
  "header ty n = new_node\<lparr>n_Name := Some (token_value n),
     n_Type := (case ty of None \<Rightarrow> [] | Some t \<Rightarrow> t_Data t)\<rparr>"

fun denotes :: "node list \<Rightarrow> ref \<Rightarrow> tree \<Rightarrow> bool"
  and denotes_all :: "node list \<Rightarrow> ref list \<Rightarrow> tree list \<Rightarrow> bool" where
  "denotes s r (Tree ty n es cs) \<longleftrightarrow> r < length s
     \<and> s ! r = (fold add_entry es (header ty n))\<lparr>n_Children := n_Children (s ! r)\<rparr>
     \<and> (\<forall>k \<in> set (n_Children (s ! r)). r < k) \<and> denotes_all s (n_Children (s ! r)) cs"
| "denotes_all s [] [] \<longleftrightarrow> True"
| "denotes_all s (r # rs) (t # ts) \<longleftrightarrow> denotes s r t \<and> denotes_all s rs ts"
| "denotes_all s _ _ \<longleftrightarrow> False"

section \<open>Single steps\<close>

lemma typed_valid: "spells_annot a ty \<Longrightarrow> ty = Some t \<Longrightarrow> Valid t"
  by (auto simp: type_token_def Valid_def elim: spells_annot.cases)

lemma id_valid: "t_ID t \<noteq> Unknown \<Longrightarrow> Valid t" by (simp add: Valid_def)

text \<open>Blanks between nodes.\<close>

lemma runs_blank:
  assumes "blank t" "q = stateDocument \<or> q = stateChildren" "\<not> Valid a"
  shows "runs v p [t] (Conf s d (q # st) ns i a) False (Conf s d (q # st) ns i a)"
proof (rule runs_token [OF refl])
  show "Valid t" "t_ID t \<noteq> TokenComment" "t_ID t \<in> set scalar_tokens \<longrightarrow> \<not> p"
    "isValueLikeToken (t_ID t) \<longrightarrow> False"
    using assms(1) by (auto simp: blank_def Valid_def scalar_tokens_def isValueLikeToken_def)
  show "find_handler q (t_ID t) = Some
    (if t_ID t = Whitespace then not_after_type_v1
     else if t_ID t = Newline then (if q = stateDocument then doc_Terminator else children_Newline)
     else doc_Comment)"
    using assms(1,2) by (auto simp: blank_def find_handler_def doc_Whitespace_def)
next
  fix c assume "at v c (Conf s d (q # st) ns i a)"
  then show "\<exists>c'. (if t_ID t = Whitespace then not_after_type_v1
     else if t_ID t = Newline then (if q = stateDocument then doc_Terminator else children_Newline)
     else doc_Comment) t c = (None, c') \<and> at v c' (Conf s d (q # st) ns i a) \<and> prev c' = prev c"
    using assms(3) calm_fields
    by (auto simp: not_after_type_v1_def doc_Terminator_def children_Newline_def doc_Comment_def ok_def)
qed

lemma runs_blanks:
  assumes "\<forall>t \<in> set b. blank t" "q = stateDocument \<or> q = stateChildren" "\<not> Valid a"
  shows "runs v False b (Conf s d (q # st) ns i a) False (Conf s d (q # st) ns i a)"
  using assms(1)
  by (induction b) (auto intro: runs_Cons [OF runs_blank [OF _ assms(2,3)]])

lemma runs_paren:
  assumes "t_ID t = ParensOpen" "q \<in> {stateDocument, stateChildren, stateNodeParams, statePropertyValue}"
  shows "runs v p [t] (Conf s d (q # st) ns i a) False (Conf s d (stateTypeAnnot # q # st) ns i a)"
proof (rule runs_token [OF refl])
  show "find_handler q (t_ID t) = Some open_annotation"
    using assms by (auto simp: find_handler_def)
  show "\<exists>c'. open_annotation t c = (None, c') \<and> at v c' (Conf s d (stateTypeAnnot # q # st) ns i a) \<and> prev c' = prev c"
    if "at v c (Conf s d (q # st) ns i a)" for c
    using that by (simp add: open_annotation_def ok_def pushed)
qed (use assms(1) in \<open>simp_all add: Valid_def scalar_tokens_def isValueLikeToken_def\<close>)

lemma runs_type:
  assumes "type_token t"
  shows "runs v False [t] (Conf s d (stateTypeAnnot # st) ns i a) True (Conf s d (stateTypeDone # st) ns i t)"
proof (rule runs_token [OF refl])
  show "find_handler stateTypeAnnot (t_ID t) = Some annot_Name"
    using assms by (auto simp: find_handler_def type_token_def)
  show "\<exists>c'. annot_Name t c = (None, c') \<and> at v c' (Conf s d (stateTypeDone # st) ns i t) \<and> prev c' = prev c"
    if "at v c (Conf s d (stateTypeAnnot # st) ns i a)" for c
    using that by (simp add: annot_Name_def ok_def)
qed (use assms in \<open>auto simp: type_token_def Valid_def\<close>)

lemma runs_paren_close:
  assumes "t_ID t = ParensClose"
  shows "runs v p [t] (Conf s d (stateTypeDone # q # st) ns i a) False (Conf s d (q # st) ns i a)"
proof (rule runs_token [OF refl])
  show "find_handler stateTypeDone (t_ID t) = Some annot_ParensClose"
    using assms by (simp add: find_handler_def)
  show "\<exists>c'. annot_ParensClose t c = (None, c') \<and> at v c' (Conf s d (q # st) ns i a) \<and> prev c' = prev c"
    if "at v c (Conf s d (stateTypeDone # q # st) ns i a)" for c
    using that popped [of c stateTypeDone q st] by (simp add: annot_ParensClose_def)
qed (use assms in \<open>simp_all add: Valid_def scalar_tokens_def isValueLikeToken_def\<close>)

lemma runs_annot:
  assumes "spells_annot ts ty" "q \<in> {stateDocument, stateChildren, stateNodeParams, statePropertyValue}"
  shows "runs v p ts (Conf s d (q # st) ns i no_token) (p \<and> ty = None) (Conf s d (q # st) ns i (annot ty))"
  using assms(1)
proof cases
  case none
  then show ?thesis by (simp add: annot_def)
next
  case (some x t y)
  have "runs v p [x, t, y] (Conf s d (q # st) ns i no_token) False (Conf s d (q # st) ns i t)"
    by (rule runs_Cons [OF runs_paren [OF some(3) assms(2)]
        runs_Cons [OF runs_type [OF some(4)] runs_paren_close [OF some(5)]]])
  with some show ?thesis by (simp add: annot_def)
qed

lemma annot_valid:
  assumes "spells_annot ts ty" shows "Valid (annot ty) \<longleftrightarrow> ty \<noteq> None"
  using assms by cases (auto simp: annot_def type_token_def Valid_def)

text \<open>A node's name: the node is appended to the store and entered in its parent.\<close>

definition attach :: "ref list \<Rightarrow> node list \<Rightarrow> node list" where
  "attach ns s = (if ns = [] then s else s[last ns := AddNode (length s) (s ! last ns)])"

lemma length_attach [simp]: "length (attach ns s) = length s"
  by (simp add: attach_def)

lemma good_value: "is_good t \<Longrightarrow> ValueFromTokenInto t = Inr (token_value t)"
  by (auto simp: is_good_def token_value_def split: sum.splits)

lemma addNode_store:
  assumes "ns \<noteq> [] \<longrightarrow> last ns < length (c_store c)" "c_node c = ns"
  shows "addNode c = (length (c_store c), c\<lparr>c_store := attach ns (c_store c) @ [new_node],
     c_doc := (if ns = [] then c_doc c @ [length (c_store c)] else c_doc c),
     c_node := ns @ [length (c_store c)], c_lastAddedNode := Some (length (c_store c))\<rparr>)"
  using assms
  by (auto simp: addNode_def newNode_def attach_def update_node_def list_update_append nth_append)

lemma update_last: "length A = r \<Longrightarrow> (A @ [m])[r := x] = A @ [x]"
  by (simp add: list_update_append)

lemma runs_name:
  assumes "name_token n" "q = stateDocument \<or> q = stateChildren" "spells_annot ts ty"
    and "ns \<noteq> [] \<longrightarrow> last ns < length s"
  shows "runs v False [n] (Conf s d (q # st) ns i (annot ty)) True
    (Conf (attach ns s @ [header ty n]) (if ns = [] then d @ [length s] else d)
      (stateNode # q # st) (ns @ [length s]) i no_token)"
proof (rule runs_token [OF refl])
  show "find_handler q (t_ID n) = Some (if q = stateDocument then doc_Identifier else children_Identifier)"
    using assms(1,2) by (auto simp: find_handler_def name_token_def)
next
  fix c assume c: "at v c (Conf s d (q # st) ns i (annot ty))"
  note f = calm_fields
  have a: "addNode c = (length s, c\<lparr>c_store := attach ns s @ [new_node],
     c_doc := (if ns = [] then d @ [length s] else d), c_node := ns @ [length s],
     c_lastAddedNode := Some (length s)\<rparr>)"
    using addNode_store [of ns c] assms(4) c by simp
  have good: "ValueFromTokenInto n = Inr (token_value n)"
    using assms(1) good_value by (simp add: name_token_def)
  have h: "(if q = stateDocument then doc_Identifier else children_Identifier) n c = start_node False n c"
    using c f by (auto simp: doc_Identifier_def children_Identifier_def)
  show "\<exists>c'. (if q = stateDocument then doc_Identifier else children_Identifier) n c = (None, c') \<and>
      at v c' (Conf (attach ns s @ [header ty n]) (if ns = [] then d @ [length s] else d)
        (stateNode # q # st) (ns @ [length s]) i no_token) \<and> prev c' = prev c"
    unfolding h using c f annot_valid [OF assms(3)]
    by (cases ty)
      (simp_all add: start_node_def a setNodeNameToken_def good node_comment_def node_type_def pushed
        update_node_def comments_on_def SetNameValue_def header_def nth_append list_update_append
        clear_typeAnnot_def annot_def new_node_def del: not_None_eq)
qed (use assms(1) in \<open>auto simp: name_token_def Valid_def\<close>)

section \<open>Entries\<close>

text \<open>
  Between two entries: the node under construction is the last of the store; an argument may
  still be queued, because an equals sign could make it a property.
\<close>

definition settle :: "(token option \<times> token) option \<Rightarrow> node \<Rightarrow> node" where
  "settle p m = (case p of None \<Rightarrow> m | Some (ty, x) \<Rightarrow> add_entry (Arg ty x) m)"

definition boundary where
  "boundary A d st ns m p =
     (case p of
        None \<Rightarrow> Conf (A @ [m]) d (stateNode # st) (ns @ [length A]) no_token no_token
      | Some (ty, x) \<Rightarrow> Conf (A @ [m]) d (stateArgProp # st) (ns @ [length A]) x (annot ty))"

text \<open>After a blank: version 1 adds the queued argument, version 2 still waits.\<close>

definition spaced where
  "spaced v A d st ns m p =
     (if v \<and> p \<noteq> None then boundary A d st ns m p
      else Conf (A @ [settle p m]) d (stateNodeParams # st) (ns @ [length A]) no_token no_token)"

definition queued_ok :: "(token option \<times> token) option \<Rightarrow> bool" where
  "queued_ok p = (case p of None \<Rightarrow> True | Some (ty, x) \<Rightarrow> is_good x \<and> Valid x)"

lemma queue_at:
  assumes "at v c (Conf (A @ [m]) d (q # st) (ns @ [length A]) x (annot ty))" "is_good x"
  shows "\<exists>c'. queue_argument c = (None, c') \<and> prev c' = prev c
    \<and> at v c' (Conf (A @ [add_entry (Arg ty x) m]) d (q # st) (ns @ [length A]) x (annot ty))"
  using assms calm_fields [of c]
  by (simp add: queue_argument_def addArgumentToken_def currentNode_def good_value update_node_def
      update_last nth_append)

lemma queue_clear_at:
  assumes "at v c (Conf (A @ [m]) d (q # st) (ns @ [length A]) x (annot ty))" "is_good x"
  shows "\<exists>c'. andThen queue_argument clear_both c = (None, c') \<and> prev c' = prev c
    \<and> at v c' (Conf (A @ [add_entry (Arg ty x) m]) d (q # st) (ns @ [length A]) no_token no_token)"
  using queue_at [OF assms]
  by (auto simp: andThen_def clear_both_def ok_def clear_ident_def clear_typeAnnot_def)

lemma runs_space:
  assumes "t_ID w = Whitespace" "queued_ok p"
  shows "runs v b [w] (boundary A d st ns m p) False (spaced v A d st ns m p)"
proof (cases p)
  case None
  have "runs v b [w] (Conf (A @ [m]) d (stateNode # st) (ns @ [length A]) no_token no_token) False
      (Conf (A @ [m]) d (stateNodeParams # st) (ns @ [length A]) no_token no_token)"
    by (rule runs_token [OF refl, where h = "goto_state stateNodeParams"])
      (use assms in \<open>simp_all add: Valid_def scalar_tokens_def isValueLikeToken_def find_handler_def
        goto_state_def ok_def\<close>)
  then show ?thesis by (simp add: boundary_def spaced_def settle_def None)
next
  case (Some y)
  then obtain ty x where p: "p = Some (ty, x)" by (cases y) simp
  have h: "find_handler stateArgProp (t_ID w) = Some argprop_Whitespace"
    using assms by (simp add: find_handler_def)
  let ?k = "Conf (A @ [m]) d (stateArgProp # st) (ns @ [length A]) x (annot ty)"
  have "\<exists>c'. argprop_Whitespace w c = (None, c') \<and> prev c' = prev c \<and>
      at v c' (spaced v A d st ns m p)" if "at v c ?k" for c
  proof (cases v)
    case True
    with that show ?thesis by (simp add: argprop_Whitespace_def ok_def spaced_def p boundary_def)
  next
    case False
    from queue_clear_at [OF that] assms(2) p obtain c' where
      "andThen queue_argument clear_both c = (None, c')" "prev c' = prev c"
      "at v c' (Conf (A @ [add_entry (Arg ty x) m]) d (stateArgProp # st) (ns @ [length A]) no_token no_token)"
      by (auto simp: queued_ok_def)
    with False that show ?thesis
      by (simp add: argprop_Whitespace_def andThen_def [of "andThen _ _"] ok_def spaced_def p settle_def)
  qed
  then show ?thesis
    unfolding boundary_def p option.case prod.case
    using assms(1) h by (intro runs_token [OF refl])
      (auto simp: Valid_def scalar_tokens_def isValueLikeToken_def p)
qed

lemma arg_valid: "arg_token v x \<Longrightarrow> Valid x \<and> is_good x"
  by (auto simp: arg_token_def Valid_def)

text \<open>A value where parameters are expected is queued.\<close>

lemma runs_first_arg:
  assumes "arg_token v x"
  shows "runs v False [x] (Conf (A @ [m]) d (stateNodeParams # st) (ns @ [length A]) no_token (annot ty))
    True (boundary A d st ns m (Some (ty, x)))"
proof (rule runs_token [OF refl])
  show "find_handler stateNodeParams (t_ID x) =
      Some (if t_ID x = BareIdentifier then params_BareIdentifier else params_Value)"
    using assms by (auto simp: arg_token_def find_handler_def)
  show "\<exists>c'. (if t_ID x = BareIdentifier then params_BareIdentifier else params_Value) x c = (None, c')
      \<and> at v c' (boundary A d st ns m (Some (ty, x))) \<and> prev c' = prev c"
    if "at v c (Conf (A @ [m]) d (stateNodeParams # st) (ns @ [length A]) no_token (annot ty))" for c
    using that assms
    by (auto simp: params_BareIdentifier_def params_Value_def ok_def boundary_def arg_token_def)
qed (use assms in \<open>auto simp: arg_token_def Valid_def\<close>)

text \<open>In version 2 a value where an argument is queued settles it and is queued itself.\<close>

lemma runs_next_value:
  assumes "t_ID x \<in> set scalar_tokens \<or> t_ID x = ExpressionString" "is_good y"
  shows "runs v False [x] (boundary A d st ns m (Some (ty, y))) True
    (boundary A d st ns (settle (Some (ty, y)) m) (Some (None, x)))"
proof -
  let ?k = "Conf (A @ [m]) d (stateArgProp # st) (ns @ [length A]) y (annot ty)"
  have "runs v False [x] ?k True
    (Conf (A @ [add_entry (Arg ty y) m]) d (stateArgProp # st) (ns @ [length A]) x (annot None))"
  proof (rule runs_token [OF refl])
    show "find_handler stateArgProp (t_ID x) = Some argprop_Value"
      using assms(1) by (auto simp: scalar_tokens_def find_handler_def)
    show "\<exists>c'. argprop_Value x c = (None, c')
        \<and> at v c' (Conf (A @ [add_entry (Arg ty y) m]) d (stateArgProp # st) (ns @ [length A]) x (annot None))
        \<and> prev c' = prev c"
      if "at v c ?k" for c
      using queue_clear_at [OF that assms(2)]
      by (auto simp: argprop_Value_def andThen_def [of "andThen _ _"] ok_def annot_def)
  qed (use assms(1) in \<open>auto simp: scalar_tokens_def Valid_def\<close>)
  then show ?thesis by (simp add: boundary_def settle_def)
qed

lemma runs_arg:
  assumes "t_ID w = Whitespace" "spells_annot a ty" "arg_token v x" "\<not> (v \<and> p \<noteq> None \<and> ty \<noteq> None)"
    and "queued_ok p"
  shows "runs v b (w # a @ [x]) (boundary A d st ns m p) True
    (boundary A d st ns (settle p m) (Some (ty, x)))"
proof -
  have "runs v False (a @ [x]) (spaced v A d st ns m p) True (boundary A d st ns (settle p m) (Some (ty, x)))"
  proof (cases "v \<and> p \<noteq> None")
    case True
    then obtain ty' y where p: "p = Some (ty', y)" by (cases p) auto
    from True assms(4) have "ty = None" by auto
    with assms(2) have "a = []" by (auto elim: spells_annot.cases)
    moreover have "t_ID x \<in> set scalar_tokens \<or> t_ID x = ExpressionString"
      using assms(3) by (auto simp: arg_token_def scalar_tokens_def)
    ultimately show ?thesis
      using True p runs_next_value [of x y v A d st ns m ty'] assms(5) \<open>ty = None\<close>
      by (auto simp: spaced_def queued_ok_def)
  next
    case False
    have "runs v False (a @ [x]) (Conf (A @ [settle p m]) d (stateNodeParams # st) (ns @ [length A]) no_token no_token)
       True (boundary A d st ns (settle p m) (Some (ty, x)))"
      by (rule runs_append [OF runs_weaken [OF runs_annot [OF assms(2)], of _ _ False]
            runs_first_arg [OF assms(3)]]) simp_all
    then show ?thesis unfolding spaced_def if_not_P [OF False] .
  qed
  from runs_Cons [OF runs_space [OF assms(1,5)] this] show ?thesis .
qed

text \<open>A property: its key is queued like an argument, or alone in version 1.\<close>

definition keyed :: "bool \<Rightarrow> token \<Rightarrow> parser_state" where
  "keyed v k = (if t_ID k = BareIdentifier \<and> \<not> v then stateProperty else stateArgProp)"

lemma runs_key:
  assumes "name_token k" "queued_ok p"
  shows "runs v False [k] (spaced v A d st ns m p) True
    (Conf (A @ [settle p m]) d (keyed v k # st) (ns @ [length A]) k no_token)"
proof (cases "v \<and> p \<noteq> None")
  case True
  then obtain ty y where p: "p = Some (ty, y)" by (cases p) auto
  have "t_ID k \<in> set scalar_tokens" using assms(1) by (auto simp: name_token_def scalar_tokens_def)
  then show ?thesis
    using runs_next_value [of k y v A d st ns m ty] True assms p
    by (simp add: spaced_def queued_ok_def boundary_def keyed_def annot_def)
next
  case False
  have "runs v False [k] (Conf (A @ [settle p m]) d (stateNodeParams # st) (ns @ [length A]) no_token no_token)
      True (Conf (A @ [settle p m]) d (keyed v k # st) (ns @ [length A]) k no_token)"
  proof (rule runs_token [OF refl])
    show "find_handler stateNodeParams (t_ID k) =
        Some (if t_ID k = BareIdentifier then params_BareIdentifier else params_Value)"
      using assms(1) by (auto simp: name_token_def find_handler_def)
    show "\<exists>c'. (if t_ID k = BareIdentifier then params_BareIdentifier else params_Value) k c = (None, c')
        \<and> at v c' (Conf (A @ [settle p m]) d (keyed v k # st) (ns @ [length A]) k no_token) \<and> prev c' = prev c"
      if "at v c (Conf (A @ [settle p m]) d (stateNodeParams # st) (ns @ [length A]) no_token no_token)" for c
      using that assms calm_fields(6) [of c]
      by (auto simp: params_BareIdentifier_def params_Value_def ok_def name_token_def keyed_def)
  qed (use assms(1) in \<open>auto simp: name_token_def Valid_def\<close>)
  then show ?thesis unfolding spaced_def if_not_P [OF False] .
qed

lemma runs_equals:
  assumes "t_ID e = Equals" "name_token k"
  shows "runs v b [e] (Conf s d (keyed v k # st) ns k no_token) False
    (Conf s d (statePropertyValue # st) ns k no_token)"
proof (rule runs_token [OF refl])
  show "find_handler (keyed v k) (t_ID e) = Some (if keyed v k = stateProperty then property_Equals else argprop_Equals)"
    using assms(1) by (simp add: keyed_def find_handler_def)
  show "\<exists>c'. (if keyed v k = stateProperty then property_Equals else argprop_Equals) e c = (None, c')
      \<and> at v c' (Conf s d (statePropertyValue # st) ns k no_token) \<and> prev c' = prev c"
    if "at v c (Conf s d (keyed v k # st) ns k no_token)" for c
    using that assms(2) by (auto simp: property_Equals_def argprop_Equals_def ok_def name_token_def)
qed (use assms(1) in \<open>simp_all add: Valid_def scalar_tokens_def isValueLikeToken_def\<close>)

lemma runs_property_value:
  assumes "value_token x" "name_token k"
  shows "runs v False [x] (Conf (A @ [m]) d (statePropertyValue # st) (ns @ [length A]) k (annot ty)) True
    (boundary A d st ns (add_entry (Prop k ty x) m) None)"
proof (rule runs_token [OF refl])
  show "find_handler statePropertyValue (t_ID x) = Some propvalue_Value"
    using assms(1) by (auto simp: value_token_def find_handler_def)
  have good: "is_good x" "is_good k" using assms by (auto simp: value_token_def name_token_def)
  show "\<exists>c'. propvalue_Value x c = (None, c') \<and> at v c' (boundary A d st ns (add_entry (Prop k ty x) m) None)
      \<and> prev c' = prev c"
    if "at v c (Conf (A @ [m]) d (statePropertyValue # st) (ns @ [length A]) k (annot ty))" for c
    using that good calm_fields(3) [of c]
    by (simp add: propvalue_Value_def addPropertyToken_def currentNode_def good_value update_node_def
        andThen_def clear_both_def ok_def clear_ident_def clear_typeAnnot_def boundary_def update_last
        nth_append)
qed (use assms(1) in \<open>auto simp: value_token_def Valid_def\<close>)

lemma runs_prop:
  assumes "t_ID w = Whitespace" "name_token k" "t_ID e = Equals" "spells_annot a ty" "value_token x"
    and "queued_ok p"
  shows "runs v b (w # k # e # a @ [x]) (boundary A d st ns m p) True
    (boundary A d st ns (add_entry (Prop k ty x) (settle p m)) None)"
proof -
  have "runs v False (a @ [x])
      (Conf (A @ [settle p m]) d (statePropertyValue # st) (ns @ [length A]) k no_token) True
      (boundary A d st ns (add_entry (Prop k ty x) (settle p m)) None)"
    by (rule runs_append [OF runs_weaken [OF runs_annot [OF assms(4)], of _ _ False]
          runs_property_value [OF assms(5,2)]]) simp_all
  from runs_Cons [OF runs_space [OF assms(1,6)]
    runs_Cons [OF runs_key [OF assms(2,6)] runs_Cons [OF runs_equals [OF assms(3,2)] this]]]
  show ?thesis .
qed

text \<open>All the entries; what is queued at the end is the last argument.\<close>

lemma runs_entries:
  assumes "spells_entries v f ts es" "queued_ok p" "p \<noteq> None \<longrightarrow> f"
  shows "\<exists>m' p'. runs v True ts (boundary A d st ns m p) True (boundary A d st ns m' p') \<and> queued_ok p'
    \<and> settle p' m' = fold add_entry es (settle p m) \<and> n_Children m' = n_Children m"
  using assms
proof (induction arbitrary: m p rule: spells_entries.induct)
  case (stop f)
  then show ?case by (intro exI [of _ m] exI [of _ p]) simp
next
  case (argument w a ty x f ts es)
  have n: "\<not> (v \<and> p \<noteq> None \<and> ty \<noteq> None)" using argument by auto
  have "queued_ok (Some (ty, x))" using arg_valid [OF argument(3)] by (simp add: queued_ok_def)
  from argument.IH [OF this, of "settle p m"] obtain m' p' where
    "runs v True ts (boundary A d st ns (settle p m) (Some (ty, x))) True (boundary A d st ns m' p')"
    "queued_ok p'" "settle p' m' = fold add_entry es (settle (Some (ty, x)) (settle p m))"
    "n_Children m' = n_Children (settle p m)" by auto
  moreover have "n_Children (settle p m) = n_Children m"
    by (cases p) (auto simp: settle_def)
  moreover have "runs v True ((w # a @ [x]) @ ts) (boundary A d st ns m p) True (boundary A d st ns m' p')"
    using runs_append [OF runs_arg [OF argument(1,2,3) n argument.prems(1)] calculation(1)] .
  ultimately show ?case by (intro exI [of _ m'] exI [of _ p']) (simp add: settle_def)
next
  case (property w k e a ty x ts es f)
  have "queued_ok None" by (simp add: queued_ok_def)
  from property.IH [OF this, of "add_entry (Prop k ty x) (settle p m)"] obtain m' p' where
    "runs v True ts (boundary A d st ns (add_entry (Prop k ty x) (settle p m)) None) True (boundary A d st ns m' p')"
    "queued_ok p'" "settle p' m' = fold add_entry es (settle None (add_entry (Prop k ty x) (settle p m)))"
    "n_Children m' = n_Children (add_entry (Prop k ty x) (settle p m))" by auto
  moreover have "n_Children (settle p m) = n_Children m"
    by (cases p) (auto simp: settle_def)
  moreover have "runs v True ((w # k # e # a @ [x]) @ ts) (boundary A d st ns m p) True (boundary A d st ns m' p')"
    using runs_append [OF runs_prop [OF property(1-5) property.prems(1)] calculation(1)] .
  ultimately show ?case by (intro exI [of _ m'] exI [of _ p']) (simp add: settle_def)
qed

section \<open>The end of a node and its block\<close>

lemma flush_at:
  assumes "at v c (Conf (A @ [m]) d (stateArgProp # st) (ns @ [length A]) x (annot ty))" "is_good x" "Valid x"
  shows "\<exists>c'. flush_ident c = (None, c') \<and> prev c' = prev c
    \<and> at v c' (Conf (A @ [add_entry (Arg ty x) m]) d (stateArgProp # st) (ns @ [length A]) no_token no_token)"
  using queue_clear_at [OF assms(1,2)] assms(1,3) by (auto simp: flush_ident_def)

lemma flush_none:
  "at v c (Conf s d st ns no_token a) \<Longrightarrow> flush_ident c = (None, c)"
  by (auto simp: flush_ident_def ok_def)

lemma popped_at:
  assumes "at v c (Conf s d (q # b # st) (ns @ [r]) i a)"
  shows "\<exists>c'. popNodeAndState c = (None, c') \<and> at v c' (Conf s d (b # st) ns i a) \<and> prev c' = prev c"
  using assms popped_node [of c q b st ns r] popped(2) [of c q b st] by auto

lemma terminator_simps:
  assumes "t_ID z \<in> {Newline, Semicolon}"
  shows "Valid z" "t_ID z \<noteq> TokenComment" "t_ID z \<notin> set scalar_tokens" "\<not> isValueLikeToken (t_ID z)"
    "find_handler stateNode (t_ID z) = Some node_Terminator"
    "find_handler stateNodeParams (t_ID z) = Some params_Terminator"
    "find_handler stateArgProp (t_ID z) = Some argprop_Terminator"
  using assms by (auto simp: Valid_def scalar_tokens_def isValueLikeToken_def find_handler_def)

text \<open>A terminator where nothing is queued, and where an argument is.\<close>

lemma runs_end:
  assumes "t_ID z \<in> {Newline, Semicolon}" "q' \<in> {stateNode, stateNodeParams, stateArgProp}"
  shows "runs v b [z] (Conf s d (q' # q # st) (ns @ [r]) no_token no_token) False (Conf s d (q # st) ns no_token no_token)"
proof (rule runs_token [OF refl])
  show "find_handler q' (t_ID z) = Some (if q' = stateNode then node_Terminator
      else if q' = stateNodeParams then params_Terminator else argprop_Terminator)"
    using assms(2) terminator_simps [OF assms(1)] by auto
  show "\<exists>c'. (if q' = stateNode then node_Terminator
      else if q' = stateNodeParams then params_Terminator else argprop_Terminator) z c = (None, c')
      \<and> at v c' (Conf s d (q # st) ns no_token no_token) \<and> prev c' = prev c"
    if c: "at v c (Conf s d (q' # q # st) (ns @ [r]) no_token no_token)" for c
    using popped_at [OF c] calm_fields [of c] flush_none [OF c] c
    by (auto simp: node_Terminator_def params_Terminator_def argprop_Terminator_def andThen_def)
qed (use terminator_simps [OF assms(1)] in auto)

lemma runs_terminator:
  assumes "t_ID z \<in> {Newline, Semicolon}" "queued_ok p"
  shows "runs v b [z] (boundary A d (q # st) ns m p) False
    (Conf (A @ [settle p m]) d (q # st) ns no_token no_token)"
proof (cases p)
  case None
  with runs_end [OF assms(1), of stateNode] show ?thesis by (simp add: boundary_def settle_def)
next
  case (Some y)
  then obtain ty x where p: "p = Some (ty, x)" by (cases y) simp
  let ?k = "Conf (A @ [m]) d (stateArgProp # q # st) (ns @ [length A]) x (annot ty)"
  have "\<exists>c'. argprop_Terminator z c = (None, c')
      \<and> at v c' (Conf (A @ [settle p m]) d (q # st) ns no_token no_token) \<and> prev c' = prev c"
    if c: "at v c ?k" for c
  proof -
    from flush_at [OF c] assms(2) p obtain c1 where c1: "flush_ident c = (None, c1)" "prev c1 = prev c"
      "at v c1 (Conf (A @ [add_entry (Arg ty x) m]) d (stateArgProp # q # st) (ns @ [length A]) no_token no_token)"
      by (auto simp: queued_ok_def)
    from popped_at [OF c1(3)] c1 c calm_fields [of c] show ?thesis
      by (auto simp: argprop_Terminator_def andThen_def settle_def p)
  qed
  then show ?thesis
    unfolding boundary_def p option.case prod.case
    using terminator_simps [OF assms(1)] by (intro runs_token [OF refl]) (auto simp: p)
qed

text \<open>Braces.\<close>

lemma brace_simps:
  assumes "t_ID l = BraceOpen"
  shows "Valid l" "t_ID l \<noteq> TokenComment" "t_ID l \<notin> set scalar_tokens" "\<not> isValueLikeToken (t_ID l)"
    "find_handler stateNode (t_ID l) = Some node_BraceOpen"
    "find_handler stateNodeParams (t_ID l) = Some params_BraceOpen"
    "find_handler stateArgProp (t_ID l) = Some argprop_BraceOpen"
  using assms by (auto simp: Valid_def scalar_tokens_def isValueLikeToken_def find_handler_def)

lemma runs_brace_simple:
  assumes "t_ID l = BraceOpen" "q' = stateNode \<or> q' = stateNodeParams"
  shows "runs v b [l] (Conf s d (q' # st) ns i a) False (Conf s d (stateChildren # q' # st) ns i a)"
proof (rule runs_token [OF refl])
  show "find_handler q' (t_ID l) = Some (if q' = stateNode then node_BraceOpen else params_BraceOpen)"
    using assms(2) brace_simps [OF assms(1)] by auto
  show "\<exists>c'. (if q' = stateNode then node_BraceOpen else params_BraceOpen) l c = (None, c')
      \<and> at v c' (Conf s d (stateChildren # q' # st) ns i a) \<and> prev c' = prev c"
    if "at v c (Conf s d (q' # st) ns i a)" for c
    using that calm_fields [of c] by (auto simp: node_BraceOpen_def params_BraceOpen_def ok_def pushed)
qed (use brace_simps [OF assms(1)] in auto)

lemma runs_brace_queued:
  assumes "t_ID l = BraceOpen" "is_good x" "Valid x"
  shows "runs v b [l] (Conf (A @ [m]) d (stateArgProp # st) (ns @ [length A]) x (annot ty)) False
    (Conf (A @ [add_entry (Arg ty x) m]) d (stateChildren # stateArgProp # st) (ns @ [length A]) no_token no_token)"
proof (rule runs_token [OF refl])
  show "\<exists>c'. argprop_BraceOpen l c = (None, c') \<and> at v c' (Conf (A @ [add_entry (Arg ty x) m]) d
      (stateChildren # stateArgProp # st) (ns @ [length A]) no_token no_token) \<and> prev c' = prev c"
    if c: "at v c (Conf (A @ [m]) d (stateArgProp # st) (ns @ [length A]) x (annot ty))" for c
  proof -
    from flush_at [OF c assms(2,3)] obtain c1 where "flush_ident c = (None, c1)" "prev c1 = prev c"
      "at v c1 (Conf (A @ [add_entry (Arg ty x) m]) d (stateArgProp # st) (ns @ [length A]) no_token no_token)"
      by blast
    then show ?thesis using calm_fields [of c1]
      by (simp add: argprop_BraceOpen_def andThen_def ok_def pushed)
  qed
qed (use brace_simps [OF assms(1)] in auto)

lemma runs_open:
  assumes "w = [] \<or> w = [w'] \<and> t_ID w' = Whitespace" "t_ID l = BraceOpen" "queued_ok p"
  shows "\<exists>q' \<in> {stateNode, stateNodeParams, stateArgProp}. runs v b (w @ [l]) (boundary A d st ns m p) False
    (Conf (A @ [settle p m]) d (stateChildren # q' # st) (ns @ [length A]) no_token no_token)"
proof -
  have direct: "\<exists>q' \<in> {stateNode, stateNodeParams, stateArgProp}. runs v b' [l] (boundary A d st ns m p) False
      (Conf (A @ [settle p m]) d (stateChildren # q' # st) (ns @ [length A]) no_token no_token)" for b'
  proof (cases p)
    case None
    with runs_brace_simple [OF assms(2), of stateNode] show ?thesis
      by (auto simp: boundary_def settle_def)
  next
    case (Some y)
    then obtain ty x where p: "p = Some (ty, x)" by (cases y) simp
    with runs_brace_queued [OF assms(2), of x] assms(3) show ?thesis
      by (auto simp: boundary_def settle_def queued_ok_def)
  qed
  from assms(1) consider "w = []" | "w = [w']" "t_ID w' = Whitespace" by blast
  then show ?thesis
  proof cases
    case 1
    with direct [of b] show ?thesis by simp
  next
    case 2
    note sp = runs_space [OF 2(2) assms(3)]
    have "\<exists>q' \<in> {stateNode, stateNodeParams, stateArgProp}. runs v False [l] (spaced v A d st ns m p) False
        (Conf (A @ [settle p m]) d (stateChildren # q' # st) (ns @ [length A]) no_token no_token)"
      using direct [of False] runs_brace_simple [OF assms(2), of stateNodeParams]
      by (auto simp: spaced_def)
    then obtain q' where q': "q' \<in> {stateNode, stateNodeParams, stateArgProp}"
      "runs v False [l] (spaced v A d st ns m p) False
        (Conf (A @ [settle p m]) d (stateChildren # q' # st) (ns @ [length A]) no_token no_token)"
      by blast
    from runs_Cons [OF sp q'(2)] have "runs v b (w @ [l]) (boundary A d st ns m p) False
        (Conf (A @ [settle p m]) d (stateChildren # q' # st) (ns @ [length A]) no_token no_token)"
      by (simp add: 2)
    with q'(1) show ?thesis by blast
  qed
qed

lemma runs_close:
  assumes "t_ID r = BraceClose"
  shows "runs v b [r] (Conf s d (stateChildren # q # st) ns i a) True (Conf s d (q # st) ns i a)"
proof (rule runs_token [OF refl])
  show "find_handler stateChildren (t_ID r) = Some children_BraceClose"
    using assms by (simp add: find_handler_def)
  show "\<exists>c'. children_BraceClose r c = (None, c') \<and> at v c' (Conf s d (q # st) ns i a) \<and> prev c' = prev c"
    if "at v c (Conf s d (stateChildren # q # st) ns i a)" for c
    using that popped [of c stateChildren q st] calm_fields [of c]
    by (simp add: children_BraceClose_def leave_ignored_def block_comment_def andThen_def ok_def)
qed (use assms in \<open>simp_all add: Valid_def scalar_tokens_def\<close>)

section \<open>Whole trees\<close>

text \<open>
  What a run adds to the store: new nodes at the end, and the references \<open>rs\<close> among the children
  of the innermost open node.
\<close>

definition grown :: "ref list \<Rightarrow> ref list \<Rightarrow> node list \<Rightarrow> node list \<Rightarrow> bool" where
  "grown ns rs s s' \<longleftrightarrow> length s \<le> length s'
     \<and> (\<forall>i < length s. s' ! i = (if ns \<noteq> [] \<and> i = last ns
          then (s ! i)\<lparr>n_Children := n_Children (s ! i) @ rs\<rparr> else s ! i))
     \<and> (\<forall>r \<in> set rs. length s \<le> r \<and> r < length s')"

lemma grown_refl: "grown ns [] s s"
  by (simp add: grown_def)

lemma grown_trans:
  assumes "grown ns xs s s'" "grown ns ys s' s''" shows "grown ns (xs @ ys) s s''"
  using assms by (auto simp: grown_def dest: order_trans)

lemma denotes_later:
  "denotes s r t \<Longrightarrow> (\<And>i. r \<le> i \<Longrightarrow> i < length s \<Longrightarrow> s' ! i = s ! i) \<Longrightarrow> length s \<le> length s' \<Longrightarrow> denotes s' r t"
  "denotes_all s rs ts \<Longrightarrow> (\<And>r i. r \<in> set rs \<Longrightarrow> r \<le> i \<Longrightarrow> i < length s \<Longrightarrow> s' ! i = s ! i) \<Longrightarrow>
     length s \<le> length s' \<Longrightarrow> denotes_all s' rs ts"
proof (induction s r t and s rs ts rule: denotes_denotes_all.induct)
  case (1 s r ty n es cs)
  have r: "r < length s" "s' ! r = s ! r" using 1 by auto
  have later: "r < k" if "k \<in> set (n_Children (s ! r))" for k using "1.prems"(1) that by simp
  have "denotes_all s' (n_Children (s ! r)) cs"
  proof (rule "1.IH")
    show "denotes_all s (n_Children (s ! r)) cs" using "1.prems"(1) by simp
    show "s' ! i = s ! i" if "k \<in> set (n_Children (s ! r))" "k \<le> i" "i < length s" for k i
      using later [OF that(1)] that(2,3) by (intro "1.prems"(2)) simp_all
  qed (rule "1.prems"(3))
  moreover have "r < length s'" using r(1) "1.prems"(3) by simp
  ultimately show ?case using r "1.prems"(1) by simp
next
  case (3 s r rs t ts)
  have "denotes s' r t"
  proof (rule "3.IH"(1))
    show "s' ! i = s ! i" if "r \<le> i" "i < length s" for i
      using "3.prems"(2) [of r i] that by simp
  qed (use "3.prems" in simp_all)
  moreover have "denotes_all s' rs ts"
  proof (rule "3.IH"(2))
    show "s' ! i = s ! i" if "k \<in> set rs" "k \<le> i" "i < length s" for k i
      using "3.prems"(2) [of k i] that by simp
  qed (use "3.prems" in simp_all)
  ultimately show ?case by simp
qed simp_all

lemma fold_entries_children: "n_Children (fold add_entry es m) = n_Children m"
proof (induction es arbitrary: m)
  case (Cons e es)
  then show ?case by (cases e) simp_all
qed simp

lemma header_children [simp]: "n_Children (header ty n) = []"
  by (simp add: header_def new_node_def)

definition home :: "parser_state \<Rightarrow> ref list \<Rightarrow> node list \<Rightarrow> bool" where
  "home q ns s \<longleftrightarrow> (q = stateDocument \<or> q = stateChildren) \<and> (ns \<noteq> [] \<longrightarrow> last ns < length s)"

definition doc_after :: "ref list \<Rightarrow> ref list \<Rightarrow> ref list \<Rightarrow> ref list" where
  "doc_after ns d rs = (if ns = [] then d @ rs else d)"

text \<open>Up to the last entry.\<close>

lemma runs_head:
  assumes "\<forall>t \<in> set b. blank t" "spells_annot a ty" "name_token n" "spells_entries v False e es" "home q ns s"
  shows "\<exists>m p. runs v False (b @ a @ n # e) (Conf s d (q # st) ns no_token no_token) True
      (boundary (attach ns s) (doc_after ns d [length s]) (q # st) ns m p)
    \<and> queued_ok p \<and> settle p m = fold add_entry es (header ty n)"
proof -
  have q: "q = stateDocument \<or> q = stateChildren" "ns \<noteq> [] \<longrightarrow> last ns < length s"
    using assms(5) by (auto simp: home_def)
  have "runs v False [n] (Conf s d (q # st) ns no_token (annot ty)) True
      (boundary (attach ns s) (doc_after ns d [length s]) (q # st) ns (header ty n) None)"
    using runs_name [OF assms(3) q(1) assms(2) q(2), of v d st no_token]
    by (simp add: boundary_def doc_after_def)
  note name = this
  have "queued_ok None" by (simp add: queued_ok_def)
  from runs_entries [OF assms(4) this, of "attach ns s" "doc_after ns d [length s]" "q # st" ns "header ty n"]
  obtain m p where
    m: "runs v True e (boundary (attach ns s) (doc_after ns d [length s]) (q # st) ns (header ty n) None) True
        (boundary (attach ns s) (doc_after ns d [length s]) (q # st) ns m p)"
      "queued_ok p" "settle p m = fold add_entry es (header ty n)"
    by (auto simp: settle_def)
  have "runs v False (a @ n # e) (Conf s d (q # st) ns no_token no_token) True
      (boundary (attach ns s) (doc_after ns d [length s]) (q # st) ns m p)"
    by (rule runs_append [OF runs_weaken [OF runs_annot [OF assms(2)], of _ _ False]
          runs_Cons [OF name m(1)]]) (use q in auto)
  from runs_append [OF runs_blanks [OF assms(1) q(1)] this] m show ?thesis by auto
qed

lemma grown_node: "grown ns [length s] s (attach ns s @ [m])"
  by (auto simp: grown_def attach_def nth_append AddNode_def nth_list_update)

lemma grown_block:
  assumes "grown (ns @ [length s]) rs (attach ns s @ [m]) s'"
  shows "grown ns [length s] s s' \<and> s' ! length s = m\<lparr>n_Children := n_Children m @ rs\<rparr>
    \<and> length s < length s' \<and> (\<forall>k \<in> set rs. length s < k)"
proof -
  have "s' ! i = (attach ns s @ [m]) ! i" if "i < length s" for i
    using assms that by (auto simp: grown_def)
  moreover have "length s < length s'" using assms by (auto simp: grown_def)
  ultimately show ?thesis
    using assms grown_node [of ns s m] by (auto simp: grown_def nth_append)
qed

lemma runs_tree:
  "spells v x t \<Longrightarrow> home q ns s \<Longrightarrow>
     \<exists>s'. runs v False x (Conf s d (q # st) ns no_token no_token) False
            (Conf s' (doc_after ns d [length s]) (q # st) ns no_token no_token)
        \<and> grown ns [length s] s s' \<and> denotes s' (length s) t"
  "spells_all v x ts \<Longrightarrow> home q ns s \<Longrightarrow>
     \<exists>s' rs. runs v False x (Conf s d (q # st) ns no_token no_token) False
               (Conf s' (doc_after ns d rs) (q # st) ns no_token no_token)
           \<and> grown ns rs s s' \<and> denotes_all s' rs ts"
proof (induction x t and x ts arbitrary: q ns s d st and q ns s d st rule: spells_spells_all.inducts)
  case (leaf b a ty n e es z)
  have l: "\<forall>t \<in> set b. blank t" "spells_annot a ty" "name_token n" "spells_entries v False e es"
    "t_ID z \<in> {Newline, Semicolon}" "home q ns s"
    using leaf by blast+
  from runs_head [OF l(1-4,6)] obtain m p where
    m: "runs v False (b @ a @ n # e) (Conf s d (q # st) ns no_token no_token) True
      (boundary (attach ns s) (doc_after ns d [length s]) (q # st) ns m p)"
      "queued_ok p" "settle p m = fold add_entry es (header ty n)" by blast
  let ?s = "attach ns s @ [settle p m]"
  from runs_append [OF m(1) runs_terminator [OF l(5) m(2)]]
  have "runs v False (b @ a @ n # e @ [z]) (Conf s d (q # st) ns no_token no_token) False
      (Conf ?s (doc_after ns d [length s]) (q # st) ns no_token no_token)" by simp
  moreover have "grown ns [length s] s ?s" by (rule grown_node)
  moreover have "denotes ?s (length s) (Tree ty n es [])"
    by (simp add: nth_append m(3) fold_entries_children)
  ultimately show ?case by blast
next
  case (block b a ty n e es w w' l k cs b' r z)
  have B: "\<forall>t \<in> set b. blank t" "spells_annot a ty" "name_token n" "spells_entries v False e es"
    "w = [] \<or> w = [w'] \<and> t_ID w' = Whitespace" "t_ID l = BraceOpen" "\<forall>t \<in> set b'. blank t"
    "t_ID r = BraceClose" "t_ID z \<in> {Newline, Semicolon}" "home q ns s"
    by (rule block)+
  from runs_head [OF B(1-4,10)] obtain m p where
    m: "runs v False (b @ a @ n # e) (Conf s d (q # st) ns no_token no_token) True
      (boundary (attach ns s) (doc_after ns d [length s]) (q # st) ns m p)"
      "queued_ok p" "settle p m = fold add_entry es (header ty n)" by blast
  let ?n = "length s" and ?s1 = "attach ns s @ [settle p m]"
  from runs_open [OF B(5,6) m(2), of v True "attach ns s" "doc_after ns d [?n]" "q # st" ns m]
  obtain q' where q': "q' \<in> {stateNode, stateNodeParams, stateArgProp}"
    "runs v True (w @ [l]) (boundary (attach ns s) (doc_after ns d [?n]) (q # st) ns m p) False
      (Conf ?s1 (doc_after ns d [?n]) (stateChildren # q' # q # st) (ns @ [?n]) no_token no_token)"
    unfolding length_attach by blast
  have "home stateChildren (ns @ [?n]) ?s1" by (simp add: home_def)
  from block.IH(3) [OF this, of "doc_after ns d [?n]" "q' # q # st"] obtain s2 rs where
    I: "runs v False k (Conf ?s1 (doc_after ns d [?n]) (stateChildren # q' # q # st) (ns @ [?n]) no_token no_token)
        False (Conf s2 (doc_after ns d [?n]) (stateChildren # q' # q # st) (ns @ [?n]) no_token no_token)"
      "grown (ns @ [?n]) rs ?s1 s2" "denotes_all s2 rs cs"
    by (auto simp: doc_after_def)
  have tail: "runs v False (b' @ [r, z])
      (Conf s2 (doc_after ns d [?n]) (stateChildren # q' # q # st) (ns @ [?n]) no_token no_token)
      False (Conf s2 (doc_after ns d [?n]) (q # st) ns no_token no_token)"
    by (rule runs_append [OF runs_blanks [OF B(7)] runs_Cons [OF runs_close [OF B(8)] runs_end [OF B(9) q'(1)]]])
      simp_all
  from runs_append [OF m(1) runs_append [OF q'(2) runs_append [OF I(1) tail]]]
  have "runs v False (b @ a @ n # e @ w @ l # k @ b' @ [r, z]) (Conf s d (q # st) ns no_token no_token) False
      (Conf s2 (doc_after ns d [?n]) (q # st) ns no_token no_token)" by simp
  moreover have "grown ns [?n] s s2 \<and> s2 ! ?n = (fold add_entry es (header ty n))\<lparr>n_Children := rs\<rparr>
      \<and> ?n < length s2 \<and> (\<forall>k \<in> set rs. ?n < k)"
    using grown_block [OF I(2)] by (simp add: m(3) fold_entries_children)
  ultimately show ?case using I(3) by (intro exI [of _ s2]) auto
next
  case none
  then show ?case by (intro exI [of _ s] exI [of _ "[]"]) (simp add: grown_refl doc_after_def)
next
  case (more x t y ts)
  from more.IH(2) [OF more.prems] obtain s1 where
    1: "runs v False x (Conf s d (q # st) ns no_token no_token) False
        (Conf s1 (doc_after ns d [length s]) (q # st) ns no_token no_token)"
      "grown ns [length s] s s1" "denotes s1 (length s) t" by blast
  have "home q ns s1" using more.prems 1(2) by (auto simp: home_def grown_def)
  from more.IH(4) [OF this, of "doc_after ns d [length s]" st] obtain s2 rs where
    2: "runs v False y (Conf s1 (doc_after ns d [length s]) (q # st) ns no_token no_token) False
        (Conf s2 (doc_after ns (doc_after ns d [length s]) rs) (q # st) ns no_token no_token)"
      "grown ns rs s1 s2" "denotes_all s2 rs ts" by blast
  have "denotes s2 (length s) t"
    using denotes_later(1) [OF 1(3), of s2] 2(2) more.prems by (auto simp: grown_def home_def)
  moreover have "doc_after ns (doc_after ns d [length s]) rs = doc_after ns d (length s # rs)"
    by (simp add: doc_after_def)
  moreover have "grown ns (length s # rs) s s2" using grown_trans [OF 1(2) 2(2)] by simp
  ultimately show ?case using runs_append [OF 1(1) 2(1)] 2(3)
    by (intro exI [of _ s2] exI [of _ "length s # rs"]) simp
qed

section \<open>Documents\<close>

definition compliant :: "parse_options \<Rightarrow> bool" where
  "compliant opts \<longleftrightarrow> o_RelaxedNonCompliant opts = 0 \<and> o_Flags opts = 0"

lemma start_sel:
  "c_opts (NewContextOptions opts) = opts" "c_recent (NewContextOptions opts) = no_recent"
  "stack (NewContextOptions opts) = [stateDocument]" "c_store (NewContextOptions opts) = []"
  "c_doc (NewContextOptions opts) = []" "c_node (NewContextOptions opts) = []"
  "c_ident (NewContextOptions opts) = no_token" "c_typeAnnot (NewContextOptions opts) = no_token"
  by (simp_all add: NewContextOptions_def stack_def)

lemma prev_start: "prev (NewContextOptions opts) = no_token"
  by (simp add: prev_def start_sel ring_no_recent)

lemma calm_start:
  assumes "compliant opts" shows "calm (NewContextOptions opts)"
proof -
  have "\<not> comments_on (NewContextOptions opts)" "\<not> relaxed NGINXSyntax (NewContextOptions opts)"
    using assms by (simp_all add: comments_on_def relaxed_def permit_def start_sel compliant_def NGINXSyntax_def)
  then show ?thesis
    by (simp add: calm_def start_sel ring_no_recent) (simp add: NewContextOptions_def)
qed

lemma at_start:
  assumes "compliant opts"
  shows "at (o_Version opts = VersionV2) (NewContextOptions opts)
      (Conf [] [] [stateDocument] [] no_token no_token)"
    and "\<not> isValueLikeToken (t_ID (prev (NewContextOptions opts)))"
proof -
  have "v2 (NewContextOptions opts) = (o_Version opts = VersionV2)" by (simp only: v2_def start_sel)
  with calm_start [OF assms] show "at (o_Version opts = VersionV2) (NewContextOptions opts)
      (Conf [] [] [stateDocument] [] no_token no_token)"
    unfolding at.simps start_sel by (intro conjI refl)
  show "\<not> isValueLikeToken (t_ID (prev (NewContextOptions opts)))"
    by (simp add: prev_start isValueLikeToken_def scalar_tokens_def)
qed

lemma ends_document:
  assumes "at v c (Conf s d [stateDocument] [] no_token no_token)"
  shows "ends w c \<lparr>d_store = s, d_Nodes = d, d_Version = w\<rparr>"
proof -
  let ?t = "no_token\<lparr>t_ID := EOF\<rparr>"
  have c: "c_state c = stateDocument" "c_typeAnnot c = no_token" "c_store c = s" "c_doc c = d"
    "\<not> c_afterIgnoredChildBlock c"
    using assms by (auto simp: stack_def calm_def)
  have "check_ignored_block ?t c = (None, c)" using c(5) by (simp add: check_ignored_block_def ok_def)
  moreover have t: "c_state (track_continuation ?t c) = c_state c" "c_typeAnnot (track_continuation ?t c) = c_typeAnnot c"
    "c_store (track_continuation ?t c) = c_store c" "c_doc (track_continuation ?t c) = c_doc c"
    by (simp_all add: track_continuation_def stopContinuation_def)
  then have "dispatch ?t (track_continuation ?t c) = (None, track_continuation ?t c)"
    by (simp add: dispatch_def c eof_handlers doc_Terminator_def ok_def)
  ultimately have "parse ?t c = (None, track_continuation ?t c)"
    by (simp add: parse_def andThen_def)
  with t c show ?thesis by (simp add: ends_def Document_def)
qed

lemma spelled_trees_parsed:
  assumes "spells_all (o_Version opts = VersionV2) tokens trees" "\<forall>t \<in> set rest. blank t" "compliant opts"
  shows "\<exists>doc. ParseAllContext (NewContextOptions opts) (tokens @ rest) = Inr doc
    \<and> d_Version doc = o_Version opts \<and> denotes_all (d_store doc) (d_Nodes doc) trees"
proof -
  let ?v = "o_Version opts = VersionV2"
  have "home stateDocument [] []" by (simp add: home_def)
  from runs_tree(2) [OF assms(1) this, of "[]" "[]"] obtain s rs where
    s: "runs ?v False tokens (Conf [] [] [stateDocument] [] no_token no_token) False
      (Conf s rs [stateDocument] [] no_token no_token)" "denotes_all s rs trees"
    by (auto simp: doc_after_def)
  have "runs ?v False rest (Conf s rs [stateDocument] [] no_token no_token) False
      (Conf s rs [stateDocument] [] no_token no_token)"
    by (rule runs_blanks [OF assms(2)]) simp_all
  from runs_append [OF s(1) this] at_start [OF assms(3)] obtain c where
    c: "feeds (tokens @ rest) (NewContextOptions opts) = (None, c)"
      "at ?v c (Conf s rs [stateDocument] [] no_token no_token)"
    unfolding runs_def by blast
  from c ends_document [OF c(2)] s(2) show ?thesis
    by (intro exI [of _ "\<lparr>d_store = s, d_Nodes = rs, d_Version = o_Version opts\<rparr>"])
      (auto simp: ParseAllContext_iff start_sel)
qed

text \<open>C2: the parser builds what the tokens spell.  For every list of tokens that spells a list of
  trees, with nodes and children to any depth and number, type annotations, arguments and
  properties in any order, blanks and comments between the nodes, and in the version the
  grammar is for, \<open>ParseAllContext\<close> succeeds, and its document denotes these trees: each
  node has its name, type, arguments and properties, and its children, in the order of the
  text, and nothing else.\<close>

theorem parser_builds_trees:
  assumes "spells_all (o_Version opts = VersionV2) tokens trees" "\<forall>t \<in> set rest. blank t" "compliant opts"
  shows "\<exists>doc. ParseAllContext (NewContextOptions opts) (tokens @ rest) = Inr doc
    \<and> d_Version doc = o_Version opts \<and> denotes_all (d_store doc) (d_Nodes doc) trees"
  by (rule spelled_trees_parsed [OF assms])

definition sample :: "token_id \<Rightarrow> bytes \<Rightarrow> token" where
  "sample tid d = \<lparr>t_ID = tid, t_Data = d, t_Line = 0, t_Column = 0, t_Version = VersionV2\<rparr>"

text \<open>The tokens of \<open>n 1 a=x{\<close>, a newline, \<open>(t)b;}\<close> and a newline.\<close>

lemma parser_builds_trees_witness:
  "let S = sample; sp = S Whitespace '' ''; nl = S Newline [CHR 0x0A];
       opts = \<lparr>o_RelaxedNonCompliant = 0, o_Flags = 0, o_Version = VersionV2\<rparr>;
       n = S BareIdentifier ''n''; one = S Decimal ''1''; a = S BareIdentifier ''a'';
       x = S BareIdentifier ''x''; t = S BareIdentifier ''t''; b = S BareIdentifier ''b'';
       tokens = [n, sp, one, sp, a, S Equals ''='', x, S BraceOpen ''{'', nl, S ParensOpen ''('', t,
         S ParensClose '')'', b, S Semicolon '';'', S BraceClose ''}'', nl]
   in \<exists>doc. ParseAllContext (NewContextOptions opts) (tokens @ [nl]) = Inr doc
        \<and> d_Version doc = VersionV2
        \<and> denotes_all (d_store doc) (d_Nodes doc)
            [Tree None n [Arg None one, Prop a None x] [Tree (Some t) b [] []]]"
proof -
  let ?S = sample
  let ?sp = "?S Whitespace '' ''" and ?nl = "?S Newline [CHR 0x0A]"
  let ?opts = "\<lparr>o_RelaxedNonCompliant = 0, o_Flags = 0, o_Version = VersionV2\<rparr>"
  let ?n = "?S BareIdentifier ''n''" and ?one = "?S Decimal ''1''" and ?a = "?S BareIdentifier ''a''"
  let ?x = "?S BareIdentifier ''x''" and ?t = "?S BareIdentifier ''t''" and ?b = "?S BareIdentifier ''b''"
  have good: "name_token ?n" "name_token ?a" "name_token ?b" "arg_token True ?one" "value_token ?x" "type_token ?t"
    by code_simp+
  have none: "spells_annot [] None" by (rule spells_annot.none)
  have ty: "spells_annot [?S ParensOpen ''('', ?t, ?S ParensClose '')''] (Some ?t)"
    using good(6) by (intro spells_annot.some) (simp_all add: sample_def)
  have "spells_entries True True (?sp # ?a # ?S Equals ''='' # [] @ ?x # []) [Prop ?a None ?x]"
    by (intro spells_entries.property none good spells_entries.stop) (simp_all add: sample_def)
  then have e: "spells_entries True False (?sp # [] @ ?one # [?sp, ?a, ?S Equals ''='', ?x]) [Arg None ?one, Prop ?a None ?x]"
    by (intro spells_entries.argument none good) (simp_all add: sample_def)
  have "spells True ([?nl] @ [?S ParensOpen ''('', ?t, ?S ParensClose '')''] @ ?b # [] @ [?S Semicolon '';''])
      (Tree (Some ?t) ?b [] [])"
    by (intro spells_spells_all.leaf ty good spells_entries.stop) (simp_all add: sample_def blank_def)
  from spells_spells_all.more [OF this spells_spells_all.none]
  have k: "spells_all True [?nl, ?S ParensOpen ''('', ?t, ?S ParensClose '')'', ?b, ?S Semicolon '';''] [Tree (Some ?t) ?b [] []]"
    by simp
  have "spells True ([] @ [] @ ?n # [?sp, ?one, ?sp, ?a, ?S Equals ''='', ?x] @ [] @ ?S BraceOpen ''{'' #
      [?nl, ?S ParensOpen ''('', ?t, ?S ParensClose '')'', ?b, ?S Semicolon '';''] @ [] @ [?S BraceClose ''}'', ?nl])
      (Tree None ?n [Arg None ?one, Prop ?a None ?x] [Tree (Some ?t) ?b [] []])"
    using e k by (intro spells_spells_all.block none good) (simp_all add: sample_def)
  from spells_spells_all.more [OF this spells_spells_all.none]
  have "spells_all (o_Version ?opts = VersionV2) [?n, ?sp, ?one, ?sp, ?a, ?S Equals ''='', ?x, ?S BraceOpen ''{'', ?nl,
      ?S ParensOpen ''('', ?t, ?S ParensClose '')'', ?b, ?S Semicolon '';'', ?S BraceClose ''}'', ?nl]
      [Tree None ?n [Arg None ?one, Prop ?a None ?x] [Tree (Some ?t) ?b [] []]]"
    by simp
  from parser_builds_trees [OF this, of "[?nl]"] show ?thesis
    by (simp add: Let_def compliant_def blank_def sample_def)
qed

end
