(* ===== verification/Quirks.thy ===== *)
theory Quirks
  imports Trees
begin

text \<open>
  Behaviour of the whole reader that the language does not lead one to expect: on concrete
  documents and, where there is one, the general law behind it.
\<close>

definition v1_options :: read_options where
  "v1_options = DefaultParseOptions\<lparr>p_Version := VersionV1\<rparr>"

definition v2_options :: read_options where
  "v2_options = DefaultParseOptions\<lparr>p_Version := VersionV2\<rparr>"

text \<open>What a document shows of its nodes: name, arguments, property keys and children.\<close>

definition outline :: "document \<Rightarrow> ref list \<times> (go_value option \<times> go_value list \<times> bytes list \<times> ref list) list" where
  "outline d = (d_Nodes d,
     map (\<lambda>n. (map_option v_Value (n_Name n), map v_Value (n_Arguments n), order (n_Properties n), n_Children n))
       (d_store d))"

section \<open>The end of the input inside a block\<close>

text \<open>A child block need not be closed.  The end of the input is checked against the state
  alone, not against the stack: inside a block, however deep, it ends the node that is open and
  is accepted, and a truncated document is read like the complete one.\<close>

theorem unclosed_block_accepted:
  "map_sum id outline (ParseWithOptions ''n{m{b'' v2_options) = map_sum id outline (ParseWithOptions ''n{m{b}}'' v2_options)
     \<and> map_sum id outline (ParseWithOptions ''n{m{b'' v2_options) =
         Inr ([0], [(Some (VString ''n''), [], [], [1]), (Some (VString ''m''), [], [], [2]),
                    (Some (VString ''b''), [], [], [])])"
  by code_simp

section \<open>Arguments after a block\<close>

text \<open>A value after a child block brings a null argument with it.  The state under the block is
  still the one that waits for an equals sign, its queued identifier is cleared, and the next
  value queues the cleared one as an argument first.\<close>

theorem phantom_argument:
  "map_sum id outline (ParseWithOptions ''n 1 {} b'' v2_options) =
     Inr ([0], [(Some (VString ''n''), [VInt 1, VNil, VString ''b''], [], [])])"
  by code_simp

section \<open>Annotated arguments\<close>

text \<open>Where the parser waits for an equals sign behind a value, it has no use for a parenthesis.\<close>

lemma parenthesis_rejected:
  assumes "c_state c = stateArgProp" "t_ID t = ParensOpen"
  shows "\<exists>m c'. feed t c = (Some (Message m), c')"
proof -
  have "find_handler stateArgProp ParensOpen = None" by (simp add: find_handler_def)
  moreover have "c_state (track_continuation t (c\<lparr>c_recent := r\<rparr>)) = c_state c" for r
    by (simp add: track_continuation_def stopContinuation_def)
  ultimately show ?thesis
    using assms
    by (auto simp: feed.simps [of t c] Parse_def parse_def andThen_def check_ignored_block_def
        missingSeparatorError_def unexpectedAfterIgnoredChildBlock_def dispatch_def reject_def
        unexpectedToken_def ok_def)
qed

text \<open>After a document in version 2, a node with any entries, an argument and a blank, it waits so.\<close>

lemma waits_after_argument:
  assumes "spells_all True before ts" "\<forall>t \<in> set b. blank t" "spells_annot a ty" "name_token n"
    and "spells_entries True False e es" "t_ID w = Whitespace" "arg_token True x" "t_ID w' = Whitespace"
    and "compliant opts" "o_Version opts = VersionV2"
  shows "\<exists>c. feeds (before @ b @ a @ n # e @ [w, x, w']) (NewContextOptions opts) = (None, c)
    \<and> c_state c = stateArgProp"
proof -
  have "home stateDocument [] []" by (simp add: home_def)
  from runs_tree(2) [OF assms(1) this, of "[]" "[]"] obtain s rs where
    s: "runs True False before (Conf [] [] [stateDocument] [] no_token no_token) False
      (Conf s rs [stateDocument] [] no_token no_token)"
    by (auto simp: doc_after_def)
  have "home stateDocument [] s" by (simp add: home_def)
  from runs_head [OF assms(2-5) this, of rs "[]"] obtain m p where
    m: "runs True False (b @ a @ n # e) (Conf s rs [stateDocument] [] no_token no_token) True
      (boundary (attach [] s) (doc_after [] rs [length s]) [stateDocument] [] m p)" "queued_ok p" by blast
  have q: "queued_ok (Some (None, x))" using arg_valid [OF assms(7)] by (simp add: queued_ok_def)
  from runs_append [OF s runs_append [OF m(1) runs_append
      [OF runs_arg [OF assms(6) spells_annot.none assms(7) _ m(2)] runs_space [OF assms(8) q]]]]
  have "runs True False (before @ (b @ a @ n # e) @ (w # [] @ [x]) @ [w'])
      (Conf [] [] [stateDocument] [] no_token no_token) False
      (spaced True (attach [] s) (doc_after [] rs [length s]) [stateDocument] [] (settle p m) (Some (None, x)))"
    by simp
  with at_start [OF assms(9)] assms(10) obtain c where
    "feeds (before @ b @ a @ n # e @ [w, x, w']) (NewContextOptions opts) = (None, c)"
    "at True c (spaced True (attach [] s) (doc_after [] rs [length s]) [stateDocument] [] (settle p m) (Some (None, x)))"
    unfolding runs_def by auto
  then show ?thesis by (intro exI [of _ c]) (auto simp: spaced_def boundary_def stack_def)
qed

text \<open>C39: in version 2 an annotated argument may not follow an argument.  After any document and in
  a node with any entries, the opening parenthesis of an annotation that comes after an argument
  and a blank makes \<open>ParseAllContext\<close> fail, whatever follows; the language allows it, and
  version 1 reads it, because there the blank ends the wait for an equals sign.\<close>

theorem annotated_argument_rejected:
  assumes "spells_all True before ts" "\<forall>t \<in> set b. blank t" "spells_annot a ty" "name_token n"
    and "spells_entries True False e es" "t_ID w = Whitespace" "arg_token True x" "t_ID w' = Whitespace"
    and "compliant opts" "o_Version opts = VersionV2" "t_ID p = ParensOpen"
  shows "isl (ParseAllContext (NewContextOptions opts) (before @ b @ a @ n # e @ [w, x, w', p] @ rest))"
proof -
  let ?front = "before @ b @ a @ n # e @ [w, x, w']"
  from waits_after_argument [OF assms(1-10)] obtain c where
    c: "feeds ?front (NewContextOptions opts) = (None, c)" "c_state c = stateArgProp" by blast
  from parenthesis_rejected [OF c(2) assms(11)] obtain m c' where "feed p c = (Some (Message m), c')" by blast
  then have "fst (feeds (?front @ p # rest) (NewContextOptions opts)) \<noteq> None"
    using c(1) unfolding feeds_append by (simp add: andThen_def)
  moreover have "before @ b @ a @ n # e @ [w, x, w', p] @ rest = ?front @ p # rest" by simp
  ultimately show ?thesis
    using ParseAllContext_iff [of "NewContextOptions opts" "?front @ p # rest"]
    by (cases "ParseAllContext (NewContextOptions opts) (?front @ p # rest)") auto
qed

text \<open>The tokens of \<open>m\<close>, a newline, \<open>n a=1 1 (t)2\<close>.\<close>

lemma annotated_argument_rejected_witness:
  "let S = sample; sp = S Whitespace '' ''
   in isl (ParseAllContext (NewContextOptions \<lparr>o_RelaxedNonCompliant = 0, o_Flags = 0, o_Version = VersionV2\<rparr>)
        ([S BareIdentifier ''m'', S Newline [CHR 0x0A]] @ [] @ [] @ S BareIdentifier ''n'' #
         [sp, S BareIdentifier ''a'', S Equals ''='', S Decimal ''1''] @
         [sp, S Decimal ''1'', sp, S ParensOpen ''(''] @
         [S BareIdentifier ''t'', S ParensClose '')'', S Decimal ''2'', S Newline [CHR 0x0A]]))"
proof -
  let ?S = sample
  let ?sp = "?S Whitespace '' ''" and ?nl = "?S Newline [CHR 0x0A]" and ?one = "?S Decimal ''1''"
  have good: "name_token (?S BareIdentifier ''m'')" "name_token (?S BareIdentifier ''n'')"
    "name_token (?S BareIdentifier ''a'')" "arg_token True ?one" "value_token ?one"
    by code_simp+
  have "spells True ([] @ [] @ ?S BareIdentifier ''m'' # [] @ [?nl]) (Tree None (?S BareIdentifier ''m'') [] [])"
    by (intro spells_spells_all.leaf spells_annot.none good spells_entries.stop) (simp_all add: sample_def)
  from spells_spells_all.more [OF this spells_spells_all.none]
  have m: "spells_all True [?S BareIdentifier ''m'', ?nl] [Tree None (?S BareIdentifier ''m'') [] []]" by simp
  have "spells_entries True False (?sp # ?S BareIdentifier ''a'' # ?S Equals ''='' # [] @ ?one # [])
      [Prop (?S BareIdentifier ''a'') None ?one]"
    by (intro spells_entries.property spells_annot.none good spells_entries.stop) (simp_all add: sample_def)
  then have e: "spells_entries True False [?sp, ?S BareIdentifier ''a'', ?S Equals ''='', ?one]
      [Prop (?S BareIdentifier ''a'') None ?one]" by simp
  show ?thesis unfolding Let_def
    by (rule annotated_argument_rejected [OF m _ spells_annot.none good(2) e _ good(4)])
      (simp_all add: sample_def compliant_def)
qed

lemma annotated_arguments:
  "isl (ParseWithOptions ''n 1 (t)2'' v2_options)
     \<and> \<not> isl (ParseWithOptions ''n 1 (t)2'' v1_options) \<and> \<not> isl (ParseWithOptions ''n (t)2'' v2_options)"
  by code_simp

section \<open>What is written and not read\<close>

text \<open>A string with a backslash before a slash is written with two backslashes, and in version 2 the
  reader stops at the second one.\<close>

lemma escaped_backslash_before_slash_rejected:
  "let x = [CHR 0x5C, CHR ''/''] in
     UnquoteString (QuoteString x) = Inr x
     \<and> isl (ParseWithOptions (''a '' @ QuoteString x) v2_options)
     \<and> \<not> isl (ParseWithOptions (''a '' @ QuoteString x) v1_options)
     \<and> \<not> isl (ParseWithOptions (''a '' @ QuoteString [CHR 0x5C, CHR ''.'']) v2_options)"
  by code_simp

text \<open>A reserved word passes for a bare identifier and is written without quotes as the name of a node.\<close>

lemma reserved_word_written_bare:
  "let name = no_value\<lparr>v_Value := VString ''true''\<rparr> in
     NodeNameStringV2 name = ''true'' \<and> isl (ParseWithOptions (NodeNameStringV2 name) v2_options)"
  by code_simp

end
