(* ===== verification/Nodes.thy ===== *)
theory Nodes
  imports Reading
begin

text \<open>
  Documents as trees.  The parser needs a store, because it changes nodes through pointers while
  they are open; what follows it (\<open>document/node.go\<close> from line 170 on, the generator and the
  marshaler) walks from a node to its children.  Here a document is unfolded into trees, which
  loses nothing when its nodes form a forest.
\<close>

datatype dnode = DNode
  (dn_Name: "kdl_value option")
  (dn_Type: bytes)
  (dn_Arguments: "kdl_value list")
  (dn_Properties: properties)
  (dn_Children: "dnode list")
  (dn_Comment: "comment option")

section \<open>Unfolding\<close>

text \<open>References that do not lead on are left out; in a forest there are none.\<close>

function resolve :: "node list \<Rightarrow> ref \<Rightarrow> dnode" where
  "resolve store r =
     (let n = store ! r
      in DNode (n_Name n) (n_Type n) (n_Arguments n) (n_Properties n)
           (map (resolve store) (filter (\<lambda>k. r < k \<and> k < length store) (n_Children n))) (n_Comment n))"
  by pat_completeness auto
termination
  by (relation "measure (\<lambda>(store, r). length store - r)") auto

declare resolve.simps [simp del]

definition trees :: "document \<Rightarrow> dnode list" where
  "trees d = map (resolve (d_store d)) (d_Nodes d)"

lemma resolve_forest:
  assumes "children_after store" "r < length store"
  shows "resolve store r =
    DNode (n_Name (store ! r)) (n_Type (store ! r)) (n_Arguments (store ! r)) (n_Properties (store ! r))
      (map (resolve store) (n_Children (store ! r))) (n_Comment (store ! r))"
proof -
  have "r < k \<and> k < length store" if "k \<in> set (n_Children (store ! r))" for k
    using assms that unfolding children_after_def by blast
  then have "filter (\<lambda>k. r < k \<and> k < length store) (n_Children (store ! r)) = n_Children (store ! r)"
    by (intro filter_True) blast
  then show ?thesis by (simp add: resolve.simps [of store r] Let_def)
qed

section \<open>Every node that is read has a name\<close>

fun named :: "dnode \<Rightarrow> bool" where
  "named (DNode nm ty args props cs cm) \<longleftrightarrow> nm \<noteq> None \<and> (\<forall>c \<in> set cs. named c)"

interpretation names: store_property "\<lambda>s opts. \<forall>n \<in> set s. n_Name n \<noteq> None"
proof
  fix s :: "node list" and f r
  assume "\<forall>n \<in> set s. n_Name n \<noteq> None" "keeps_name f"
  then show "\<forall>n \<in> set (s[r := f (s ! r)]). n_Name n \<noteq> None"
    by (cases "r < length s")
      (auto simp: keeps_name_def list_update_beyond dest!: set_update_subset_insert [THEN subsetD])
qed auto

lemma named_resolve:
  assumes "children_after store" "\<forall>n \<in> set store. n_Name n \<noteq> None" "r < length store"
  shows "named (resolve store r)"
  using assms
proof (induction store r rule: resolve.induct)
  case (1 store r)
  have "r < k \<and> k < length store" if "k \<in> set (n_Children (store ! r))" for k
    using "1.prems"(1,3) that unfolding children_after_def by blast
  then have "named (resolve store k)" if "k \<in> set (n_Children (store ! r))" for k
    using "1.IH" [OF refl, of k] "1.prems" that by simp
  moreover have "n_Name (store ! r) \<noteq> None" using "1.prems" by simp
  ultimately show ?case
    unfolding resolve_forest [OF "1.prems"(1,3)] by simp
qed

lemma read_named:
  assumes "ParseWithOptions r opts = Inr d"
  shows "\<forall>n \<in> set (trees d). named n"
proof -
  have "sound (ParseWithOptions r opts)" by (rule read_sound)
  with assms have "forest d" by (simp add: sound_def)
  moreover have "\<forall>n \<in> set (d_store d). n_Name n \<noteq> None"
    using names.ParseWithOptions_property [OF _ assms] by simp
  ultimately show ?thesis
    by (auto simp: trees_def forest_def intro!: named_resolve)
qed

end
