(* ===== verification/Writing.thy ===== *)
theory Writing
  imports Nodes
begin

text \<open>
  Writing nodes (\<open>document/node.go\<close>, lines 170 to 406), the generator
  (\<open>internal/generator/generator.go\<close>) and \<open>Generate\<close> (\<open>kdl.go\<close>, lines 144 to 157).
\<close>

section \<open>The writer\<close>

text \<open>
  An \<open>io.Writer\<close> is any state with a \<open>Write\<close>: the bytes taken, an error or not, the new state.
  \<open>put\<close> is the closure \<open>write\<close> of \<open>WriteToOptions\<close>: it counts, and it overwrites the last error.
\<close>

type_synonym 'w io_write = "bytes \<Rightarrow> 'w \<Rightarrow> nat \<times> string option \<times> 'w"

record 'w sink =
  k_w :: 'w
  k_n :: nat
  k_err :: "string option"

definition put :: "'w io_write \<Rightarrow> bytes \<Rightarrow> 'w sink \<Rightarrow> 'w sink" where
  "put write b k =
     (case write b (k_w k) of (n, e, w) \<Rightarrow> \<lparr>k_w = w, k_n = k_n k + n, k_err = e\<rparr>)"

definition put_if_ok :: "'w io_write \<Rightarrow> bytes \<Rightarrow> 'w sink \<Rightarrow> 'w sink" where
  "put_if_ok write b k = (if k_err k = None then put write b k else k)"

section \<open>Standard library\<close>

text \<open>\<open>bytes.Trim(b, " \t")\<close>, \<open>bytes.TrimSpace\<close> and \<open>bytes.Repeat\<close>.\<close>

definition trim_blanks :: "bytes \<Rightarrow> bytes" where
  "trim_blanks b =
     (let blank = (\<lambda>c. c \<in> {CHR '' '', CHR 0x09})
      in rev (dropWhile blank (rev (dropWhile blank b))))"

function trim_right_space :: "bytes \<Rightarrow> bytes" where
  "trim_right_space s =
     (if s = [] then []
      else (case decode_last_rune s of (r, sz) \<Rightarrow>
              if is_space r then trim_right_space (take (length s - sz) s) else s))"
  by pat_completeness auto
termination
proof (relation "measure length")
  fix s :: bytes and r sz
  assume "s \<noteq> []" "(r, sz) = decode_last_rune s"
  with decode_last_size [of s] have "0 < sz" by (metis snd_conv)
  then show "(take (length s - sz) s, s) \<in> measure length" using \<open>s \<noteq> []\<close> by simp
qed simp

declare trim_right_space.simps [simp del]

definition TrimSpace :: "bytes \<Rightarrow> bytes" where
  "TrimSpace s = trim_right_space (skip_spaces s)"

definition Repeat :: "bytes \<Rightarrow> int \<Rightarrow> bytes" where
  "Repeat b n = concat (replicate (nat n) b)"

section \<open>Options\<close>

record node_write_options =
  w_LeadingTrailingSpace :: bool
  w_NameAndType :: bool
  w_Depth :: int
  w_Indent :: bytes
  w_IgnoreFlags :: bool
  w_AddSemicolons :: bool
  w_AddEquals :: bool
  w_AddColons :: bool
  w_Version :: version

definition defaultNodeWriteOptions :: node_write_options where
  "defaultNodeWriteOptions =
     \<lparr>w_LeadingTrailingSpace = False, w_NameAndType = True, w_Depth = 0, w_Indent = [CHR 0x09],
      w_IgnoreFlags = False, w_AddSemicolons = False, w_AddEquals = False, w_AddColons = False,
      w_Version = VersionV1\<rparr>"

section \<open>The parts of a node\<close>

definition indent_bytes :: "node_write_options \<Rightarrow> bytes" where
  "indent_bytes opts =
     (if w_Depth opts > 0 \<and> w_LeadingTrailingSpace opts then Repeat (w_Indent opts) (w_Depth opts) else [])"

text \<open>The comment before a node: at most one empty line in a row.\<close>

fun before_loop :: "'w io_write \<Rightarrow> bytes \<Rightarrow> nat \<Rightarrow> bytes list \<Rightarrow> 'w sink \<Rightarrow> 'w sink" where
  "before_loop write indent newlineCount [] k = k"
| "before_loop write indent newlineCount (l # ls) k =
     (let line = TrimSpace l;
          (newlineCount, k) =
            (if length line > 0 then (0, put write line (put write indent k)) else (newlineCount + 1, k))
      in before_loop write indent newlineCount ls
           (if newlineCount < 2 then put write [CHR 0x0A] k else k))"

definition write_before :: "'w io_write \<Rightarrow> bytes \<Rightarrow> comment option \<Rightarrow> 'w sink \<Rightarrow> 'w sink" where
  "write_before write indent cm k =
     (case Option.bind cm cm_Before of
        Some b \<Rightarrow> before_loop write indent 0 (split_lines (trim_blanks b)) k
      | None \<Rightarrow> k)"

text \<open>The name and the type; a node without a name is a nil pointer and panics.\<close>

definition write_name :: "'w io_write \<Rightarrow> node_write_options \<Rightarrow> bytes \<Rightarrow> kdl_value option \<Rightarrow> 'w sink \<Rightarrow> 'w sink option" where
  "write_name write opts ty name k =
     (if \<not> w_NameAndType opts then Some k
      else
        let k = (if length ty > 0
                 then put_if_ok write '')'' (put_if_ok write ty (put_if_ok write ''('' k)) else k)
        in if k_err k \<noteq> None then Some k
           else (case name of
                   None \<Rightarrow> None
                 | Some v \<Rightarrow>
                     Some (put write (if w_Version opts = VersionV2 then NodeNameStringV2 v
                                      else NodeNameString v) k)))"

definition write_separator :: "'w io_write \<Rightarrow> node_write_options \<Rightarrow> kdl_value list \<Rightarrow> properties \<Rightarrow> bool \<Rightarrow> 'w sink \<Rightarrow> 'w sink" where
  "write_separator write opts args props children k =
     (if w_AddEquals opts \<and> length args > 0 \<and> \<not> Exist props \<and> \<not> children then put write '' ='' k
      else if w_AddColons opts \<and> length args > 0 \<and> \<not> Exist props \<and> \<not> children then put write '':'' k
      else k)"

definition argument_text :: "node_write_options \<Rightarrow> kdl_value \<Rightarrow> bytes" where
  "argument_text opts arg =
     (if w_Version opts = VersionV2 then
        (if w_IgnoreFlags opts then UnformattedStringV2 arg else FormattedStringV2 arg)
      else (if w_IgnoreFlags opts then UnformattedString arg else FormattedString arg))"

fun arguments_loop :: "'w io_write \<Rightarrow> node_write_options \<Rightarrow> nat \<Rightarrow> kdl_value list \<Rightarrow> 'w sink \<Rightarrow> 'w sink" where
  "arguments_loop write opts i [] k = k"
| "arguments_loop write opts i (arg # args) k =
     (let k = (if k_err k = None \<and> (w_NameAndType opts \<or> i > 0) then put write '' '' k else k)
      in arguments_loop write opts (i + 1) args (put_if_ok write (argument_text opts arg) k))"

definition write_properties :: "'w io_write \<Rightarrow> node_write_options \<Rightarrow> properties \<Rightarrow> 'w sink \<Rightarrow> 'w sink" where
  "write_properties write opts props k =
     (if Exist props \<and> k_err k = None
      then put write (properties_string (w_IgnoreFlags opts) (w_Version opts) props) k else k)"

fun after_loop :: "'w io_write \<Rightarrow> bytes \<Rightarrow> bytes list \<Rightarrow> 'w sink \<Rightarrow> 'w sink" where
  "after_loop write indent [] k = k"
| "after_loop write indent (l # ls) k =
     after_loop write indent ls (put write [CHR 0x0A] (put write (TrimSpace l) (put write indent k)))"

definition write_after :: "'w io_write \<Rightarrow> node_write_options \<Rightarrow> comment option \<Rightarrow> 'w sink \<Rightarrow> 'w sink" where
  "write_after write opts cm k =
     (if k_err k \<noteq> None then k
      else (case Option.bind cm cm_After of
              Some a \<Rightarrow> after_loop write (indent_bytes opts) (split_lines (trim_blanks a)) k
            | None \<Rightarrow> if w_LeadingTrailingSpace opts then put write [CHR 0x0A] k else k))"

section \<open>Nodes\<close>

text \<open>
  \<open>WriteToOptions\<close> and the loop over its children: the number of bytes, the error and the
  writer's new state, or \<open>None\<close> for a panic.  The loop stops at the first child that fails;
  its error goes to a variable of its own, so the node carries on with the error it had.
\<close>

fun WriteToOptions :: "'w io_write \<Rightarrow> node_write_options \<Rightarrow> dnode \<Rightarrow> 'w \<Rightarrow> (nat \<times> string option \<times> 'w) option"
  and children_loop :: "'w io_write \<Rightarrow> node_write_options \<Rightarrow> dnode list \<Rightarrow> nat \<Rightarrow> 'w \<Rightarrow> (nat \<times> string option \<times> 'w) option"
where
  "WriteToOptions write opts (DNode name ty args props children cm) w =
     (let k = write_before write (indent_bytes opts) cm \<lparr>k_w = w, k_n = 0, k_err = None\<rparr>;
          k = (if w_Depth opts > 0 \<and> w_LeadingTrailingSpace opts then put write (indent_bytes opts) k else k)
      in (case write_name write opts ty name k of
            None \<Rightarrow> None
          | Some k \<Rightarrow>
              let k = write_separator write opts args props (children \<noteq> []) k;
                  k = arguments_loop write opts 0 args k;
                  k = write_properties write opts props k
              in (case
                    (if k_err k \<noteq> None then Some k
                     else if children \<noteq> [] then
                       let k = put write ('' {'' @ [CHR 0x0A]) k
                       in map_option
                            (\<lambda>k. put_if_ok write ''}''
                               (if w_Depth opts > 0 then put_if_ok write (Repeat (w_Indent opts) (w_Depth opts)) k else k))
                            (if k_err k \<noteq> None then Some k
                             else map_option (\<lambda>(n, _, w). k\<lparr>k_w := w, k_n := k_n k + n\<rparr>)
                                    (children_loop write (opts\<lparr>w_Depth := w_Depth opts + 1\<rparr>) children 0 (k_w k)))
                     else if w_AddSemicolons opts then Some (put write '';'' k)
                     else Some k)
                  of
                    None \<Rightarrow> None
                  | Some k \<Rightarrow>
                      let k = write_after write opts cm k
                      in Some (k_n k, k_err k, k_w k))))"
| "children_loop write opts [] n w = Some (n, None, w)"
| "children_loop write opts (c # cs) n w =
     (case WriteToOptions write opts c w of
        None \<Rightarrow> None
      | Some (nn, Some e, w) \<Rightarrow> Some (n, Some e, w)
      | Some (nn, None, w) \<Rightarrow> children_loop write opts cs (n + nn) w)"

section \<open>Strings of nodes\<close>

text \<open>\<open>strings.Builder\<close> and \<open>bytes.Buffer\<close>: \<open>Write\<close> appends and never fails.\<close>

definition buffer_write :: "bytes io_write" where
  "buffer_write b w = (length b, None, w @ b)"

definition buffer_text :: "(nat \<times> string option \<times> bytes) option \<Rightarrow> bytes option" where
  "buffer_text r = map_option (\<lambda>(_, _, w). w) r"

definition WriteTo :: "'w io_write \<Rightarrow> dnode \<Rightarrow> 'w \<Rightarrow> (nat \<times> string option \<times> 'w) option" where
  "WriteTo write = WriteToOptions write defaultNodeWriteOptions"

definition WriteValueTo :: "'w io_write \<Rightarrow> dnode \<Rightarrow> 'w \<Rightarrow> (nat \<times> string option \<times> 'w) option" where
  "WriteValueTo write = WriteToOptions write (defaultNodeWriteOptions\<lparr>w_NameAndType := False\<rparr>)"

definition WriteTextValueTo :: "'w io_write \<Rightarrow> dnode \<Rightarrow> 'w \<Rightarrow> (nat \<times> string option \<times> 'w) option" where
  "WriteTextValueTo write n w =
     (if length (dn_Arguments n) = 1 \<and> Len (dn_Properties n) = 0 \<and> length (dn_Children n) = 0
      then Some (write (ValueString (hd (dn_Arguments n))) w)
      else WriteToOptions write
        \<lparr>w_LeadingTrailingSpace = False, w_NameAndType = False, w_Depth = 0, w_Indent = [],
         w_IgnoreFlags = False, w_AddSemicolons = False, w_AddEquals = False, w_AddColons = False,
         w_Version = VersionAuto\<rparr> n w)"

definition node_String :: "dnode \<Rightarrow> bytes option" where
  "node_String n = buffer_text (WriteTo buffer_write n [])"

definition node_ValueString :: "dnode \<Rightarrow> bytes option" where
  "node_ValueString n = buffer_text (WriteValueTo buffer_write n [])"

definition node_TextString :: "dnode \<Rightarrow> bytes option" where
  "node_TextString n = buffer_text (WriteTextValueTo buffer_write n [])"

section \<open>The generator\<close>

record generator_options =
  g_Indent :: bytes
  g_IgnoreFlags :: bool
  g_AddSemicolons :: bool
  g_AddEquals :: bool
  g_AddColons :: bool
  g_Version :: version
  g_EmitVersionMarker :: bool

record generator =
  g_depth :: int
  g_options :: generator_options

definition DefaultOptions :: generator_options where
  "DefaultOptions =
     \<lparr>g_Indent = [CHR 0x09], g_IgnoreFlags = False, g_AddSemicolons = False, g_AddEquals = False,
      g_AddColons = False, g_Version = VersionAuto, g_EmitVersionMarker = False\<rparr>"

definition generator_NewOptions :: "generator_options \<Rightarrow> generator" where
  "generator_NewOptions opts =
     \<lparr>g_depth = 0, g_options = (if g_Version opts = VersionAuto then opts\<lparr>g_Version := VersionV1\<rparr> else opts)\<rparr>"

definition node_options :: "generator \<Rightarrow> bool \<Rightarrow> bool \<Rightarrow> node_write_options" where
  "node_options g leadingTrailingSpace nameAndType =
     (let opts = g_options g in
      \<lparr>w_LeadingTrailingSpace = leadingTrailingSpace, w_NameAndType = nameAndType,
       w_Depth = g_depth g, w_Indent = g_Indent opts, w_IgnoreFlags = g_IgnoreFlags opts,
       w_AddSemicolons = g_AddSemicolons opts, w_AddEquals = g_AddEquals opts,
       w_AddColons = g_AddColons opts, w_Version = g_Version opts\<rparr>)"

definition generateNode :: "'w io_write \<Rightarrow> generator \<Rightarrow> dnode \<Rightarrow> bool \<Rightarrow> bool \<Rightarrow> 'w \<Rightarrow> (string option \<times> 'w) option" where
  "generateNode write g n leadingTrailingSpace nameAndType w =
     map_option (\<lambda>(_, e, w). (e, w)) (WriteToOptions write (node_options g leadingTrailingSpace nameAndType) n w)"

definition generateNodes :: "'w io_write \<Rightarrow> generator \<Rightarrow> dnode list \<Rightarrow> 'w \<Rightarrow> (string option \<times> 'w) option" where
  "generateNodes write g nodes w =
     map_option (\<lambda>(_, e, w). (e, w)) (children_loop write (node_options g True True) nodes 0 w)"

fun version_number :: "version \<Rightarrow> bytes" where
  "version_number VersionAuto = ''0''"
| "version_number VersionV1 = ''1''"
| "version_number VersionV2 = ''2''"

definition version_marker :: "version \<Rightarrow> bytes" where
  "version_marker v = ''/- kdl-version '' @ version_number (if v = VersionAuto then VersionV1 else v) @ [CHR 0x0A]"

definition Generate :: "'w io_write \<Rightarrow> generator \<Rightarrow> dnode list \<Rightarrow> 'w \<Rightarrow> (string option \<times> 'w) option" where
  "Generate write g nodes w =
     (if g_EmitVersionMarker (g_options g) then
        (case write (version_marker (g_Version (g_options g))) w of
           (_, Some e, w) \<Rightarrow> Some (Some e, w)
         | (_, None, w) \<Rightarrow> generateNodes write g nodes w)
      else generateNodes write g nodes w)"

definition GenerateWithOptions :: "dnode list \<Rightarrow> 'w io_write \<Rightarrow> generator_options \<Rightarrow> 'w \<Rightarrow> (string option \<times> 'w) option" where
  "GenerateWithOptions nodes write opts w = Generate write (generator_NewOptions opts) nodes w"

definition kdl_Generate :: "dnode list \<Rightarrow> 'w io_write \<Rightarrow> 'w \<Rightarrow> (string option \<times> 'w) option" where
  "kdl_Generate nodes write w = GenerateWithOptions nodes write DefaultOptions w"

section \<open>The text of a node\<close>

text \<open>The reference: what a node looks like, by concatenation.\<close>

fun before_text :: "bytes \<Rightarrow> nat \<Rightarrow> bytes list \<Rightarrow> bytes" where
  "before_text indent empties [] = []"
| "before_text indent empties (l # ls) =
     (let empties = (if TrimSpace l = [] then empties + 1 else 0)
      in (if TrimSpace l = [] then [] else indent @ TrimSpace l)
         @ (if empties < 2 then [CHR 0x0A] else []) @ before_text indent empties ls)"

definition after_text :: "bytes \<Rightarrow> bytes list \<Rightarrow> bytes" where
  "after_text indent ls = concat (map (\<lambda>l. indent @ TrimSpace l @ [CHR 0x0A]) ls)"

definition head_text :: "node_write_options \<Rightarrow> bytes \<Rightarrow> kdl_value option \<Rightarrow> bytes" where
  "head_text opts ty name =
     (if w_NameAndType opts then
        (if ty \<noteq> [] then ''('' @ ty @ '')'' else [])
        @ (case name of None \<Rightarrow> [] | Some v \<Rightarrow>
             if w_Version opts = VersionV2 then NodeNameStringV2 v else NodeNameString v)
      else [])"

definition separator_text :: "node_write_options \<Rightarrow> kdl_value list \<Rightarrow> properties \<Rightarrow> bool \<Rightarrow> bytes" where
  "separator_text opts args props children =
     (if args \<noteq> [] \<and> \<not> Exist props \<and> \<not> children
      then (if w_AddEquals opts then '' ='' else if w_AddColons opts then '':'' else []) else [])"

fun arguments_text :: "node_write_options \<Rightarrow> bool \<Rightarrow> kdl_value list \<Rightarrow> bytes" where
  "arguments_text opts sp [] = []"
| "arguments_text opts sp (arg # args) =
     (if sp then '' '' else []) @ argument_text opts arg @ arguments_text opts True args"

definition property_list_text :: "node_write_options \<Rightarrow> properties \<Rightarrow> bytes" where
  "property_list_text opts props =
     (if Exist props then properties_string (w_IgnoreFlags opts) (w_Version opts) props else [])"

fun node_text :: "node_write_options \<Rightarrow> dnode \<Rightarrow> bytes" where
  "node_text opts (DNode name ty args props children cm) =
     (case Option.bind cm cm_Before of
        Some b \<Rightarrow> before_text (indent_bytes opts) 0 (split_lines (trim_blanks b)) | None \<Rightarrow> [])
     @ indent_bytes opts @ head_text opts ty name @ separator_text opts args props (children \<noteq> [])
     @ arguments_text opts (w_NameAndType opts) args @ property_list_text opts props
     @ (if children \<noteq> [] then
          '' {'' @ [CHR 0x0A] @ concat (map (node_text (opts\<lparr>w_Depth := w_Depth opts + 1\<rparr>)) children)
          @ (if w_Depth opts > 0 then Repeat (w_Indent opts) (w_Depth opts) else []) @ ''}''
        else if w_AddSemicolons opts then '';'' else [])
     @ (case Option.bind cm cm_After of
          Some a \<Rightarrow> after_text (indent_bytes opts) (split_lines (trim_blanks a))
        | None \<Rightarrow> if w_LeadingTrailingSpace opts then [CHR 0x0A] else [])"

definition document_text :: "generator \<Rightarrow> dnode list \<Rightarrow> bytes" where
  "document_text g nodes =
     (if g_EmitVersionMarker (g_options g) then version_marker (g_Version (g_options g)) else [])
     @ concat (map (node_text (node_options g True True)) nodes)"

section \<open>The interface: a writer\<close>

text \<open>
  The contract of \<open>io.Writer\<close>: a prefix of the bytes is taken, and all of them when there is no
  error.  A writer that has failed once and keeps failing, like those of \<open>bufio\<close>, is sticky; one
  that never fails, like a buffer, is sticky too.
\<close>

locale io_writer =
  fixes out :: "'w io_write" and written :: "'w \<Rightarrow> bytes"
  assumes takes: "out b w = (n, e, w') \<Longrightarrow> n \<le> length b \<and> written w' = written w @ take n b"
    and takes_all: "out b w = (n, None, w') \<Longrightarrow> n = length b"

locale sticky_writer = io_writer out written
  for out :: "'w io_write" and written :: "'w \<Rightarrow> bytes" +
  fixes failed :: "'w \<Rightarrow> bool"
  assumes fails: "out b w = (n, e, w') \<Longrightarrow> failed w' \<longleftrightarrow> e \<noteq> None"
    and stays_failed: "failed w \<Longrightarrow> out b w = (n, e, w') \<Longrightarrow> n = 0 \<and> e \<noteq> None"
begin

text \<open>The sink is on the way of writing a text after \<open>c\<close>; it may have failed at a prefix of it.\<close>

definition on_way :: "bytes \<Rightarrow> bytes \<Rightarrow> 'w sink \<Rightarrow> bool" where
  "on_way c t k \<longleftrightarrow>
     (if failed (k_w k) then \<exists>p. prefix p t \<and> written (k_w k) = c @ p
      else k_err k = None \<and> written (k_w k) = c @ t \<and> k_n k = length t)"

definition told :: "'w sink \<Rightarrow> bool" where
  "told k \<longleftrightarrow> (failed (k_w k) \<longrightarrow> k_err k \<noteq> None)"

lemma on_way_put: "on_way c t k \<Longrightarrow> on_way c (t @ b) (put out b k)"
proof -
  assume a: "on_way c t k"
  obtain n e w where w: "out b (k_w k) = (n, e, w)" by (metis prod_cases3)
  note f = takes [OF w] fails [OF w] stays_failed [OF _ w]
  show ?thesis
  proof (cases "failed (k_w k)")
    case True
    with a f w show ?thesis by (auto simp: on_way_def put_def prefix_append)
  next
    case False
    have "n = length b" if "e = None" using takes_all w that by blast
    with False a f w show ?thesis
      by (cases e) (auto simp: on_way_def put_def take_is_prefix intro!: exI [of _ "t @ take n b"])
  qed
qed

lemma told_put: "told (put out b k)"
proof -
  obtain n e w where w: "out b (k_w k) = (n, e, w)" by (metis prod_cases3)
  with fails [OF w] show ?thesis by (simp add: told_def put_def)
qed

lemma on_way_skip: "on_way c t k \<Longrightarrow> k_err k \<noteq> None \<Longrightarrow> on_way c (t @ u) k"
  by (auto simp: on_way_def prefix_append split: if_splits)

lemma on_way_put_if_ok: "on_way c t k \<Longrightarrow> on_way c (t @ b) (put_if_ok out b k)"
  by (cases "k_err k") (simp_all add: put_if_ok_def on_way_put on_way_skip)

lemma told_put_if_ok: "told (put_if_ok out b k)"
  using told_put by (auto simp: put_if_ok_def) (simp add: told_def)

lemma before_loop:
  "on_way c t k \<and> told k \<Longrightarrow> on_way c (t @ before_text indent m ls) (before_loop out indent m ls k)
    \<and> told (before_loop out indent m ls k)"
proof (induction ls arbitrary: m k t)
  case (Cons l ls)
  show ?case
  proof (cases "TrimSpace l = []")
    case True
    have "on_way c (t @ (if m + 1 < 2 then [CHR 0x0A] else [])) (if m + 1 < 2 then put out [CHR 0x0A] k else k)
        \<and> told (if m + 1 < 2 then put out [CHR 0x0A] k else k)"
      using Cons.prems on_way_put told_put by simp
    from Cons.IH [OF this, of "m + 1"] True show ?thesis by simp
  next
    case False
    have "on_way c (t @ indent @ TrimSpace l @ [CHR 0x0A])
        (put out [CHR 0x0A] (put out (TrimSpace l) (put out indent k)))"
      using on_way_put [OF on_way_put [OF on_way_put], of c t k indent "TrimSpace l" "[CHR 0x0A]"] Cons.prems
      by simp
    with Cons.IH [of _ _ 0] told_put False show ?thesis by fastforce
  qed
qed simp

lemma after_loop:
  "on_way c t k \<and> told k \<Longrightarrow> on_way c (t @ after_text indent ls) (after_loop out indent ls k)
    \<and> told (after_loop out indent ls k)"
proof (induction ls arbitrary: k t)
  case (Cons l ls)
  have "on_way c (t @ indent @ TrimSpace l @ [CHR 0x0A]) (put out [CHR 0x0A] (put out (TrimSpace l) (put out indent k)))"
    using on_way_put [OF on_way_put [OF on_way_put], of c t k indent "TrimSpace l" "[CHR 0x0A]"] Cons.prems
    by simp
  with Cons.IH told_put show ?case by (fastforce simp: after_text_def)
qed (simp add: after_text_def)

lemma arguments_loop:
  "on_way c t k \<and> told k \<Longrightarrow> on_way c (t @ arguments_text opts (w_NameAndType opts \<or> i > 0) args) (arguments_loop out opts i args k)
    \<and> told (arguments_loop out opts i args k)"
proof (induction args arbitrary: i k t)
  case (Cons arg args)
  define sp where "sp = (w_NameAndType opts \<or> i > 0)"
  define k' where "k' = (if k_err k = None \<and> sp then put out '' '' k else k)"
  have "on_way c (t @ (if sp then '' '' else [])) k'"
    using Cons.prems on_way_put on_way_skip by (auto simp: k'_def)
  then have "on_way c (t @ (if sp then '' '' else []) @ argument_text opts arg) (put_if_ok out (argument_text opts arg) k')"
    using on_way_put_if_ok [of c "t @ (if sp then '' '' else [])"] by simp
  with Cons.IH [of _ _ "i + 1"] told_put_if_ok show ?case
    by (fastforce simp: sp_def [symmetric] k'_def Let_def)
qed simp

text \<open>What a complete run leaves: all of the text, or a failed writer, an error and a prefix.\<close>

definition outcome :: "bytes \<Rightarrow> 'w \<Rightarrow> nat \<times> string option \<times> 'w \<Rightarrow> bool" where
  "outcome t w r \<longleftrightarrow>
     (case r of (n, e, w') \<Rightarrow>
        if e = None then \<not> failed w' \<and> written w' = written w @ t \<and> n = length t
        else failed w' \<and> (\<exists>p. prefix p t \<and> written w' = written w @ p))"

lemma outcome_sink: "on_way (written w) t k \<Longrightarrow> told k \<Longrightarrow> outcome t w (k_n k, k_err k, k_w k)"
  by (auto simp: on_way_def told_def outcome_def split: if_splits)

lemma write_name_text:
  assumes "on_way c t k" "told k" "write_name out opts ty name k = Some k'"
  shows "on_way c (t @ head_text opts ty name) k' \<and> told k'"
proof -
  let ?k = "if length ty > 0 then put_if_ok out '')'' (put_if_ok out ty (put_if_ok out ''('' k)) else k"
  let ?t = "t @ (if ty \<noteq> [] then ''('' @ ty @ '')'' else [])"
  have k: "on_way c ?t ?k" "told ?k"
    using assms(1,2) on_way_put_if_ok [OF on_way_put_if_ok [OF on_way_put_if_ok], of c t k "''(''" ty "'')''"]
      told_put_if_ok by auto
  have n: "on_way c (?t @ b) (put out b ?k)" "told (put out b ?k)" for b
    using on_way_put [OF k(1)] told_put by blast+
  show ?thesis
    using assms k n on_way_skip [OF k(1)]
    by (auto simp: write_name_def head_text_def Let_def split: if_splits option.splits)
qed

lemma write_separator_text:
  "on_way c t k \<and> told k \<Longrightarrow> on_way c (t @ separator_text opts args props ch) (write_separator out opts args props ch k)
    \<and> told (write_separator out opts args props ch k)"
  using on_way_put told_put by (simp add: write_separator_def separator_text_def)

lemma write_properties_text:
  "on_way c t k \<and> told k \<Longrightarrow> on_way c (t @ property_list_text opts props) (write_properties out opts props k)
    \<and> told (write_properties out opts props k)"
  using on_way_put told_put on_way_skip by (auto simp: write_properties_def property_list_text_def)

lemma write_before_text:
  "on_way c t k \<and> told k \<Longrightarrow>
    on_way c (t @ (case Option.bind cm cm_Before of
        Some b \<Rightarrow> before_text indent 0 (split_lines (trim_blanks b)) | None \<Rightarrow> [])) (write_before out indent cm k)
    \<and> told (write_before out indent cm k)"
  using before_loop [of c t k] by (auto simp: write_before_def split: option.split)

lemma write_after_text:
  "on_way c t k \<and> told k \<Longrightarrow>
    on_way c (t @ (case Option.bind cm cm_After of
        Some a \<Rightarrow> after_text (indent_bytes opts) (split_lines (trim_blanks a))
      | None \<Rightarrow> if w_LeadingTrailingSpace opts then [CHR 0x0A] else [])) (write_after out opts cm k)
    \<and> told (write_after out opts cm k)"
  using after_loop [of c t k] on_way_put told_put on_way_skip
  by (cases "k_err k") (auto simp: write_after_def split: option.split)

lemma write_block_text:
  assumes "on_way c t k" "k_err k = None" "\<not> failed (k_w k)"
    and "outcome b (k_w k) (n, e, w)"
  shows "on_way c (t @ b) (k\<lparr>k_w := w, k_n := k_n k + n\<rparr>)"
  using assms by (auto simp: on_way_def outcome_def prefix_append split: if_splits)

lemma children_text:
  assumes "\<And>c w opts r. c \<in> set cs \<Longrightarrow> \<not> failed w \<Longrightarrow> WriteToOptions out opts c w = Some r \<Longrightarrow>
      outcome (node_text opts c) w r"
    and "\<not> failed w" "children_loop out opts cs n w = Some (m, e, w')"
  shows "outcome (concat (map (node_text opts) cs)) w (m - n, e, w') \<and> n \<le> m"
  using assms
proof (induction cs arbitrary: n w)
  case Nil
  then show ?case by (simp add: outcome_def)
next
  case (Cons c cs)
  then obtain a x v where w: "WriteToOptions out opts c w = Some (a, x, v)"
    by (auto split: option.splits)
  have c: "outcome (node_text opts c) w (a, x, v)" by (rule Cons.prems(1) [OF _ _ w]) (simp_all add: Cons.prems(2))
  show ?case
  proof (cases x)
    case (Some y)
    with c w Cons.prems(3) show ?thesis by (auto simp: outcome_def prefix_append)
  next
    case None
    with c have v: "\<not> failed v" "written v = written w @ node_text opts c" "a = length (node_text opts c)"
      by (simp_all add: outcome_def)
    have "children_loop out opts cs (n + a) v = Some (m, e, w')" using w None Cons.prems(3) by simp
    then have ih: "outcome (concat (map (node_text opts) cs)) v (m - (n + a), e, w') \<and> n + a \<le> m"
      by (rule Cons.IH [OF _ v(1), rotated]) (rule Cons.prems(1), simp_all)
    show ?thesis
    proof (cases "e = None")
      case True
      with ih v show ?thesis by (simp add: outcome_def) linarith
    next
      case False
      with ih obtain p where p: "prefix p (concat (map (node_text opts) cs))" "written w' = written v @ p" "failed w'"
        by (auto simp: outcome_def)
      then have "prefix (node_text opts c @ p) (concat (map (node_text opts) (c # cs)))" by simp
      with p False ih v show ?thesis unfolding outcome_def by (auto intro: exI [of _ "node_text opts c @ p"])
    qed
  qed
qed

lemma write_text: "\<not> failed w \<Longrightarrow> WriteToOptions out opts node w = Some r \<Longrightarrow> outcome (node_text opts node) w r"
proof (induction node arbitrary: w opts r)
  case (DNode name ty args props cs cm)
  let ?ind = "indent_bytes opts" and ?c = "written w"
  define k1 where "k1 = write_before out ?ind cm \<lparr>k_w = w, k_n = 0, k_err = None\<rparr>"
  define k2 where "k2 = (if w_Depth opts > 0 \<and> w_LeadingTrailingSpace opts then put out ?ind k1 else k1)"
  from DNode.prems(2) obtain k3 where n: "write_name out opts ty name k2 = Some k3"
    unfolding WriteToOptions.simps k1_def [symmetric] k2_def [symmetric] Let_def
    by (cases "write_name out opts ty name k2") auto
  define k6 where "k6 = write_properties out opts props (arguments_loop out opts 0 args
      (write_separator out opts args props (cs \<noteq> []) k3))"
  define k7 where "k7 = put out ('' {'' @ [CHR 0x0A]) k6"
  define block where "block =
    (if k_err k7 \<noteq> None then Some k7
     else map_option (\<lambda>(n, _, w). k7\<lparr>k_w := w, k_n := k_n k7 + n\<rparr>)
            (children_loop out (opts\<lparr>w_Depth := w_Depth opts + 1\<rparr>) cs 0 (k_w k7)))"
  define close where "close = (\<lambda>k. put_if_ok out ''}''
    (if w_Depth opts > 0 then put_if_ok out (Repeat (w_Indent opts) (w_Depth opts)) k else k))"
  define t2 where "t2 = (case Option.bind cm cm_Before of
      Some b \<Rightarrow> before_text ?ind 0 (split_lines (trim_blanks b)) | None \<Rightarrow> []) @ ?ind"
  define t6 where "t6 = t2 @ head_text opts ty name @ separator_text opts args props (cs \<noteq> [])
     @ arguments_text opts (w_NameAndType opts) args @ property_list_text opts props"
  let ?kids = "concat (map (node_text (opts\<lparr>w_Depth := w_Depth opts + 1\<rparr>)) cs)"
  define t8 where "t8 = (if cs \<noteq> [] then '' {'' @ [CHR 0x0A] @ ?kids
      @ (if w_Depth opts > 0 then Repeat (w_Indent opts) (w_Depth opts) else []) @ ''}''
    else if w_AddSemicolons opts then '';'' else [])"
  have w1: "on_way ?c [] \<lparr>k_w = w, k_n = 0, k_err = None\<rparr> \<and> told \<lparr>k_w = w, k_n = 0, k_err = None\<rparr>"
    using DNode.prems(1) by (simp add: on_way_def told_def)
  from write_before_text [OF this, where cm = cm and indent = ?ind] have w2: "on_way ?c t2 k2 \<and> told k2"
    using on_way_put told_put unfolding k1_def k2_def t2_def by (auto simp: indent_bytes_def)
  note w3 = write_name_text [OF conjunct1 [OF w2] conjunct2 [OF w2] n]
  note w4 = write_separator_text [OF w3, where opts = opts and args = args and props = props and ch = "cs \<noteq> []"]
  note w5 = arguments_loop [OF w4, where opts = opts and i = 0 and args = args]
  have w6: "on_way ?c t6 k6 \<and> told k6"
    using write_properties_text [OF w5, where opts = opts and props = props] by (simp add: k6_def t6_def)
  have "WriteToOptions out opts (DNode name ty args props cs cm) w =
      (case (if k_err k6 \<noteq> None then Some k6
        else if cs \<noteq> [] then map_option close block
        else if w_AddSemicolons opts then Some (put out '';'' k6) else Some k6) of
         None \<Rightarrow> None
       | Some k \<Rightarrow> let k = write_after out opts cm k in Some (k_n k, k_err k, k_w k))"
    by (simp only: WriteToOptions.simps Let_def k1_def [symmetric] k2_def [symmetric] n option.case
        k6_def [symmetric] k7_def [symmetric] block_def [symmetric] close_def [symmetric])
  with DNode.prems(2) obtain k8 where k8: "Some k8 =
      (if k_err k6 \<noteq> None then Some k6
       else if cs \<noteq> [] then map_option close block
       else if w_AddSemicolons opts then Some (put out '';'' k6) else Some k6)"
    and r: "r = (let k = write_after out opts cm k8 in (k_n k, k_err k, k_w k))"
    by (auto simp: Let_def split: option.splits)
  have closed: "on_way ?c (t @ (if w_Depth opts > 0 then Repeat (w_Indent opts) (w_Depth opts) else []) @ ''}'') (close k)
      \<and> told (close k)" if "on_way ?c t k" for t k
    using that on_way_put_if_ok told_put_if_ok
      on_way_put_if_ok [OF on_way_put_if_ok [OF that], of "Repeat (w_Indent opts) (w_Depth opts)" "''}''"]
    unfolding close_def by simp
  have w8: "on_way ?c (t6 @ t8) k8 \<and> told k8"
  proof (cases "k_err k6 = None \<and> cs \<noteq> []")
    case False
    with w6 k8 on_way_skip on_way_put told_put show ?thesis by (auto simp: t8_def split: if_splits)
  next
    case True
    have w7: "on_way ?c (t6 @ '' {'' @ [CHR 0x0A]) k7 \<and> told k7"
      using w6 on_way_put told_put unfolding k7_def by blast
    from True k8 obtain k where k: "block = Some k" "k8 = close k" by (cases block) auto
    have "on_way ?c ((t6 @ '' {'' @ [CHR 0x0A]) @ ?kids) k"
    proof (cases "k_err k7 = None")
      case False
      with on_way_skip [OF conjunct1 [OF w7] this, of ?kids] k(1) show ?thesis by (simp add: block_def)
    next
      case True
      with w7 have f: "\<not> failed (k_w k7)" by (simp add: told_def)
      from True k(1) obtain m e v where
        l: "children_loop out (opts\<lparr>w_Depth := w_Depth opts + 1\<rparr>) cs 0 (k_w k7) = Some (m, e, v)"
        and k': "k = k7\<lparr>k_w := v, k_n := k_n k7 + m\<rparr>"
        by (auto simp: block_def)
      have "outcome ?kids (k_w k7) (m - 0, e, v) \<and> 0 \<le> m"
        by (rule children_text [OF _ f l]) (rule DNode.IH)
      with write_block_text [OF conjunct1 [OF w7] True f, of ?kids m e v] k' show ?thesis by simp
    qed
    from closed [OF this] k True show ?thesis by (simp add: t8_def)
  qed
  note w9 = write_after_text [OF w8, where cm = cm and opts = opts]
  have "node_text opts (DNode name ty args props cs cm) = (t6 @ t8) @ (case Option.bind cm cm_After of
      Some a \<Rightarrow> after_text ?ind (split_lines (trim_blanks a))
    | None \<Rightarrow> if w_LeadingTrailingSpace opts then [CHR 0x0A] else [])"
    by (simp only: node_text.simps t8_def t6_def t2_def append.assoc)
  with outcome_sink [OF conjunct1 [OF w9] conjunct2 [OF w9]] r show ?case by (simp only: Let_def)
qed

end

section \<open>Writing never gets stuck on a named node\<close>

lemma write_children_total:
  assumes "\<And>c w opts. c \<in> set cs \<Longrightarrow> WriteToOptions write opts c w \<noteq> None"
  shows "children_loop write opts cs n w \<noteq> None"
  using assms
proof (induction cs arbitrary: n w)
  case (Cons c cs)
  obtain a e v where w: "WriteToOptions write opts c w = Some (a, e, v)"
    using Cons.prems [of c opts w] by auto
  have "children_loop write opts cs m u \<noteq> None" for m u
    by (rule Cons.IH) (rule Cons.prems, simp)
  with w show ?case by (cases e) auto
qed simp

lemma write_total: "named node \<Longrightarrow> WriteToOptions write opts node w \<noteq> None"
proof (induction node arbitrary: opts w)
  case (DNode name ty args props cs cm)
  have l: "children_loop write opts cs n w \<noteq> None" for opts n w
    by (rule write_children_total) (use DNode in auto)
  obtain v where "name = Some v" using DNode.prems by auto
  define f where "f k = the (write_name write opts ty name k)" for k
  have f: "write_name write opts ty name k = Some (f k)" for k
    using \<open>name = Some v\<close> by (simp add: f_def write_name_def Let_def)
  have b: "(if k_err k \<noteq> None then Some k
      else if cs \<noteq> [] then
        map_option
          (\<lambda>k. put_if_ok write ''}''
             (if w_Depth opts > 0 then put_if_ok write (Repeat (w_Indent opts) (w_Depth opts)) k else k))
          (if k_err (put write ('' {'' @ [CHR 0x0A]) k) \<noteq> None then Some (put write ('' {'' @ [CHR 0x0A]) k)
           else map_option (\<lambda>(n, _, w). (put write ('' {'' @ [CHR 0x0A]) k)\<lparr>k_w := w,
                    k_n := k_n (put write ('' {'' @ [CHR 0x0A]) k) + n\<rparr>)
                  (children_loop write (opts\<lparr>w_Depth := w_Depth opts + 1\<rparr>) cs 0 (k_w (put write ('' {'' @ [CHR 0x0A]) k))))
      else if w_AddSemicolons opts then Some (put write '';'' k) else Some k) \<noteq> None" (is "?block k \<noteq> None") for k
    using l by (simp split del: if_split) (simp split: if_split)
  define h where "h k = the (?block k)" for k
  have h: "?block k = Some (h k)" for k
    using b [of k] by (auto simp only: h_def option.collapse not_None_eq option.sel)
  show ?case by (simp only: WriteToOptions.simps Let_def f h option.case option.distinct not_False_eq_True)
qed

section \<open>Writers of the program\<close>

interpretation buffer: sticky_writer buffer_write "\<lambda>w. w" "\<lambda>_. False"
  by unfold_locales (auto simp: buffer_write_def)

text \<open>A writer that is full after a number of bytes: what is written, and the room that is left.\<close>

definition limited_write :: "(bytes \<times> nat \<times> bool) io_write" where
  "limited_write b w =
     (case w of (t, room, full) \<Rightarrow>
        if full then (0, Some ''full'', w)
        else if length b \<le> room then (length b, None, (t @ b, room - length b, False))
        else (room, Some ''full'', (t @ take room b, 0, True)))"

interpretation limited: sticky_writer limited_write fst "\<lambda>w. snd (snd w)"
  by unfold_locales (auto simp: limited_write_def split: if_splits)

section \<open>What the generator writes\<close>

context sticky_writer
begin

lemma Generate_text:
  assumes "\<not> failed w" "Generate out g nodes w = Some (e, w')"
  shows "if e = None then \<not> failed w' \<and> written w' = written w @ document_text g nodes
    else failed w' \<and> (\<exists>p. prefix p (document_text g nodes) \<and> written w' = written w @ p)"
proof -
  let ?opts = "node_options g True True"
  have nodes: "if e = None then \<not> failed w' \<and> written w' = written v @ concat (map (node_text ?opts) nodes)
      else failed w' \<and> (\<exists>p. prefix p (concat (map (node_text ?opts) nodes)) \<and> written w' = written v @ p)"
    if v: "\<not> failed v" "generateNodes out g nodes v = Some (e, w')" for v
  proof -
    from v(2) obtain m where "children_loop out ?opts nodes 0 v = Some (m, e, w')"
      by (auto simp: generateNodes_def)
    from children_text [OF write_text v(1) this] show ?thesis by (auto simp: outcome_def)
  qed
  show ?thesis
  proof (cases "g_EmitVersionMarker (g_options g)")
    case False
    with nodes [OF assms(1)] assms(2) show ?thesis by (simp add: Generate_def document_text_def)
  next
    case True
    let ?m = "version_marker (g_Version (g_options g))"
    obtain n x v where w: "out ?m w = (n, x, v)" by (metis prod_cases3)
    note f = takes [OF w] fails [OF w]
    show ?thesis
    proof (cases x)
      case None
      then have "n = length ?m" using takes_all w by simp
      with nodes [of v] assms(2) w f None True show ?thesis
        by (auto simp: Generate_def document_text_def prefix_append split: if_splits)
    next
      case (Some y)
      with assms(2) w f True show ?thesis
        by (auto simp: Generate_def document_text_def take_is_prefix prefix_append)
    qed
  qed
qed

end

lemma Generate_total:
  assumes "\<forall>n \<in> set nodes. named n"
  shows "Generate write g nodes w \<noteq> None"
proof -
  have "children_loop write opts nodes 0 v \<noteq> None" for opts v
    using assms by (intro write_children_total write_total) simp
  then show ?thesis
    by (simp add: Generate_def generateNodes_def split: prod.split option.split del: not_None_eq)
qed

lemma Generate_buffer:
  assumes "\<forall>n \<in> set nodes. named n"
  shows "Generate buffer_write g nodes [] = Some (None, document_text g nodes)"
proof -
  obtain e w where g: "Generate buffer_write g nodes [] = Some (e, w)" using Generate_total [OF assms] by fastforce
  from buffer.Generate_text [OF _ g] g show ?thesis by (auto split: if_splits)
qed

text \<open>C8: what was read can be written.  Whatever was read, with whatever options, generating it
  into a buffer, with whatever options, does not panic (every node has its name) and returns no
  error, and the buffer holds exactly the text of the document.\<close>

theorem read_document_is_written:
  "case ParseWithOptions input opts of
     Inl _ \<Rightarrow> True
   | Inr d \<Rightarrow> GenerateWithOptions (trees d) buffer_write gen [] =
       Some (None, document_text (generator_NewOptions gen) (trees d))"
proof (cases "ParseWithOptions input opts")
  case (Inr d)
  with Generate_buffer [OF read_named [OF Inr]] show ?thesis by (simp add: GenerateWithOptions_def)
qed simp

text \<open>C9: a write error is never lost on a writer that keeps failing.  On every such writer, a
  document of named nodes is written without a panic; if no write fails, all of its text is
  written and no error is returned; if one fails, an error is returned, and what was written is
  a prefix of the text.\<close>

theorem write_error_reported:
  assumes "sticky_writer out written failed" "\<not> failed w" "\<forall>n \<in> set nodes. named n"
  shows "\<exists>e w'. GenerateWithOptions nodes out gen w = Some (e, w') \<and>
    (let text = document_text (generator_NewOptions gen) nodes in
       if e = None then \<not> failed w' \<and> written w' = written w @ text
       else failed w' \<and> (\<exists>p. prefix p text \<and> written w' = written w @ p))"
proof -
  obtain e w' where g: "Generate out (generator_NewOptions gen) nodes w = Some (e, w')"
    using Generate_total [OF assms(3)] by (metis not_None_eq surj_pair)
  from sticky_writer.Generate_text [OF assms(1,2) g] g show ?thesis
    by (simp add: GenerateWithOptions_def Let_def)
qed

definition bare_node :: "bytes \<Rightarrow> dnode list \<Rightarrow> dnode" where
  "bare_node name children =
     DNode (Some (no_value\<lparr>v_Value := VString name, v_Flag := FlagBare\<rparr>)) [] [] no_properties children None"

lemma write_error_reported_witness:
  "\<exists>w'. GenerateWithOptions [bare_node ''n'' [bare_node ''b'' []]] limited_write DefaultOptions ([], 5, False)
       = Some (Some ''full'', w')
     \<and> prefix (fst w') (document_text (generator_NewOptions DefaultOptions) [bare_node ''n'' [bare_node ''b'' []]])"
proof -
  let ?nodes = "[bare_node ''n'' [bare_node ''b'' []]]"
  have "GenerateWithOptions ?nodes limited_write DefaultOptions ([], 5, False)
      = Some (Some ''full'', ''n {'' @ [CHR 0x0A, CHR 0x09], 0, True)"
    by code_simp
  moreover have "\<forall>n \<in> set ?nodes. named n" by (simp add: bare_node_def)
  ultimately show ?thesis
    using write_error_reported [OF limited.sticky_writer_axioms, of "([], 5, False)" ?nodes DefaultOptions]
    by (auto simp: Let_def)
qed

text \<open>A writer that fails once, at its third write, and then goes on.\<close>

definition flaky_write :: "(bytes \<times> nat) io_write" where
  "flaky_write b w =
     (case w of (t, k) \<Rightarrow> if k = 2 then (0, Some ''try again'', (t, k + 1)) else (length b, None, (t @ b, k + 1)))"

interpretation flaky: io_writer flaky_write fst
  by unfold_locales (auto simp: flaky_write_def split: if_splits)

text \<open>A write error can be lost on a writer that recovers.  The error of a child goes to a
  variable of the loop's own and is dropped; here the write of a child's indentation fails, the
  child is missing from the text, and no error is returned.\<close>

theorem child_error_lost:
  "io_writer flaky_write fst
     \<and> kdl_Generate [bare_node ''n'' [bare_node ''b'' []]] flaky_write ([], 0)
         = Some (None, ''n {'' @ [CHR 0x0A] @ ''}'' @ [CHR 0x0A], 5)
     \<and> document_text (generator_NewOptions DefaultOptions) [bare_node ''n'' [bare_node ''b'' []]]
         = ''n {'' @ [CHR 0x0A, CHR 0x09] @ ''b'' @ [CHR 0x0A] @ ''}'' @ [CHR 0x0A]"
  by (intro conjI flaky.io_writer_axioms; code_simp)

text \<open>\<open>String\<close> runs children together.  The options of \<open>String\<close> leave out the newline after
  a node, and nothing else separates children: a node with two children that are bare words is
  written like the node with one child of the joined name, and is read back as that.\<close>

theorem node_String_joins_children:
  "node_String (bare_node ''n'' [bare_node ''a'' [], bare_node ''b'' []])
     = node_String (bare_node ''n'' [bare_node ''ab'' []])
   \<and> node_String (bare_node ''n'' [bare_node ''ab'' []]) = Some (''n {'' @ [CHR 0x0A] @ ''ab}'')
   \<and> (case ParseWithOptions (''n {'' @ [CHR 0x0A] @ ''ab}'') DefaultParseOptions of
        Inl _ \<Rightarrow> False
      | Inr d \<Rightarrow> map (\<lambda>n. map (\<lambda>m. map_option v_Value (dn_Name m)) (dn_Children n)) (trees d)
          = [[Some (VString ''ab'')]])"
  by code_simp

end
