(* ===== verification/GoLib.thy ===== *)
theory GoLib
  imports Render
begin

text \<open>
  The parts of Go's standard library that the coercions and the marshaler call: case folding and
  trimming of \<open>strings\<close>, floats of \<open>strconv\<close>, and durations of \<open>time\<close>.
\<close>

section \<open>Integers and floats\<close>

text \<open>A conversion to a signed or unsigned type of \<open>w\<close> bits keeps the low bits.\<close>

definition wrap_int :: "nat \<Rightarrow> int \<Rightarrow> int" where
  "wrap_int w n = (n + 2 ^ (w - 1)) mod 2 ^ w - 2 ^ (w - 1)"

definition wrap_uint :: "nat \<Rightarrow> int \<Rightarrow> int" where
  "wrap_uint w n = n mod 2 ^ w"

lemma wrap_int_range: "0 < w \<Longrightarrow> - (2 ^ (w - 1)) \<le> wrap_int w n \<and> wrap_int w n < 2 ^ (w - 1)"
proof -
  assume "0 < w"
  then have "(2 :: int) ^ w = 2 * 2 ^ (w - 1)" by (cases w) simp_all
  moreover have "0 \<le> (n + 2 ^ (w - 1)) mod 2 ^ w" "(n + 2 ^ (w - 1)) mod 2 ^ w < 2 ^ w" by simp_all
  ultimately show ?thesis by (simp add: wrap_int_def)
qed

lemma wrap_int_id: "- (2 ^ (w - 1)) \<le> n \<Longrightarrow> n < 2 ^ (w - 1) \<Longrightarrow> 0 < w \<Longrightarrow> wrap_int w n = n"
proof -
  assume "- (2 ^ (w - 1)) \<le> n" "n < 2 ^ (w - 1)" "0 < w"
  moreover from this have "(2 :: int) ^ w = 2 * 2 ^ (w - 1)" by (cases w) simp_all
  ultimately show ?thesis by (simp add: wrap_int_def)
qed

lemma wrap_uint_range: "0 \<le> wrap_uint w n \<and> wrap_uint w n < 2 ^ w"
  by (simp add: wrap_uint_def)

lemma wrap_uint_id: "0 \<le> n \<Longrightarrow> n < 2 ^ w \<Longrightarrow> wrap_uint w n = n"
  by (simp add: wrap_uint_def)

text \<open>
  \<open>int64(f)\<close> cuts off the fraction.  Out of range the language leaves the result open; this is
  what amd64 gives.
\<close>

definition int_of_float :: "float64 \<Rightarrow> int" where
  "int_of_float f =
     (case f of
        Fin neg m e \<Rightarrow>
          (case ratio2 m e of (p, q) \<Rightarrow>
             let n = (if neg then - int (p div q) else int (p div q))
             in if - (2 ^ 63) \<le> n \<and> n < 2 ^ 63 then n else - (2 ^ 63))
      | _ \<Rightarrow> - (2 ^ 63))"

text \<open>The nearest float of a signed rational; too large ones become infinite.\<close>

definition nearest :: "bool \<Rightarrow> nat \<Rightarrow> nat \<Rightarrow> float64" where
  "nearest neg p q = (case round64 p q of None \<Rightarrow> Inf neg | Some (m, e) \<Rightarrow> Fin neg m e)"

definition float_of_int :: "int \<Rightarrow> float64" where
  "float_of_int n = nearest (n < 0) (nat \<bar>n\<bar>) 1"

definition float_of_big :: "bool \<times> nat \<times> int \<Rightarrow> float64" where
  "float_of_big x = (case x of (neg, m, e) \<Rightarrow> case_prod (nearest neg) (ratio2 m e))"

definition is_zero_float :: "float64 \<Rightarrow> bool" where
  "is_zero_float f = (case f of Fin _ m _ \<Rightarrow> m = 0 | _ \<Rightarrow> False)"

definition float_mul :: "float64 \<Rightarrow> float64 \<Rightarrow> float64" where
  "float_mul x y =
     (case (x, y) of
        (NaN, _) \<Rightarrow> NaN
      | (_, NaN) \<Rightarrow> NaN
      | (Inf a, Inf b) \<Rightarrow> Inf (a \<noteq> b)
      | (Inf a, Fin b m e) \<Rightarrow> if m = 0 then NaN else Inf (a \<noteq> b)
      | (Fin a m e, Inf b) \<Rightarrow> if m = 0 then NaN else Inf (a \<noteq> b)
      | (Fin a m e, Fin b n d) \<Rightarrow> case_prod (nearest (a \<noteq> b)) (ratio2 (m * n) (e + d)))"

section \<open>strings\<close>

text \<open>\<open>strings.ToLower\<close>; \<open>lower\<close> is \<open>unicode.ToLower\<close>, which maps the ASCII letters as one expects.\<close>

definition ascii_lower :: "nat \<Rightarrow> nat" where
  "ascii_lower r = (if rune CHR ''A'' \<le> r \<and> r \<le> rune CHR ''Z'' then r + 32 else r)"

definition ToLower :: "(nat \<Rightarrow> nat) \<Rightarrow> bytes \<Rightarrow> bytes" where
  "ToLower lower s =
     (if list_all (\<lambda>c. rune c < 0x80) s then map (\<lambda>c. char_of (ascii_lower (rune c))) s
      else concat (map (\<lambda>r. encode_rune (if r < 0x80 then ascii_lower r else lower r)) (rune_list s)))"

text \<open>\<open>strings.Cut(s, sep)\<close> for a separator of one byte: before, after, found.\<close>

definition Cut :: "bytes \<Rightarrow> char \<Rightarrow> bytes \<times> bytes \<times> bool" where
  "Cut s c =
     (if c \<in> set s then (takeWhile (\<lambda>x. x \<noteq> c) s, tl (dropWhile (\<lambda>x. x \<noteq> c) s), True) else (s, [], False))"

section \<open>strconv\<close>

text \<open>
  What \<open>ParseInt(s, 10, 64)\<close> returns beside its error: the nearest value when the number is out
  of range, 0 when it is none.  The callers drop the error.
\<close>

definition ParseInt_value :: "bytes \<Rightarrow> int" where
  "ParseInt_value s =
     (case ParseInt s 10 of
        Inr n \<Rightarrow> n
      | Inl e \<Rightarrow> if e = NumRange then (if fst (strip_sign s) then - (2 ^ 63) else 2 ^ 63 - 1) else 0)"

text \<open>\<open>underscoreOK\<close>: \<open>prev\<close> is the class of the byte before: a digit, an underscore, none, other.\<close>

datatype us_class = UsStart | UsDigit | UsScore | UsOther

fun underscore_loop :: "bool \<Rightarrow> us_class \<Rightarrow> bytes \<Rightarrow> bool" where
  "underscore_loop hex prev [] \<longleftrightarrow> prev \<noteq> UsScore"
| "underscore_loop hex prev (c # cs) \<longleftrightarrow>
     (if is_digit c \<or> (hex \<and> c \<in> set ''abcdefABCDEF'') then underscore_loop hex UsDigit cs
      else if c = CHR ''_'' then prev = UsDigit \<and> underscore_loop hex UsScore cs
      else prev \<noteq> UsScore \<and> underscore_loop hex UsOther cs)"

definition has_hex_prefix :: "bytes \<Rightarrow> bool" where
  "has_hex_prefix t \<longleftrightarrow> length t > 2 \<and> t ! 0 = CHR ''0'' \<and> t ! 1 \<in> set ''xX''"

definition underscoreOK :: "bytes \<Rightarrow> bool" where
  "underscoreOK s =
     (case strip_sign s of (_, t) \<Rightarrow>
        if length t \<ge> 2 \<and> t ! 0 = CHR ''0'' \<and> t ! 1 \<in> set ''bBoOxX''
        then underscore_loop (t ! 1 \<in> set ''xX'') UsDigit (drop 2 t)
        else underscore_loop False UsStart t)"

definition hex_value :: "char \<Rightarrow> nat" where
  "hex_value c = the (digit_value c)"

definition is_hex :: "char \<Rightarrow> bool" where
  "is_hex c \<longleftrightarrow> is_digit c \<or> c \<in> set ''abcdefABCDEF''"

text \<open>A hexadecimal float: mantissa as numerator and denominator; the exponent \<open>p\<close> is mandatory.\<close>

definition parse_hex_float :: "bytes \<Rightarrow> float64 option" where
  "parse_hex_float s =
     (case strip_sign s of (neg, t) \<Rightarrow>
        let u = drop 2 t;
            ip = takeWhile is_hex u;
            t1 = dropWhile is_hex u;
            (fp, t2) =
              (case t1 of
                 [] \<Rightarrow> ([], [])
               | c # v \<Rightarrow> if c = CHR ''.'' then (takeWhile is_hex v, dropWhile is_hex v) else ([], t1))
        in if ip @ fp = [] \<or> t2 = [] \<or> hd t2 \<notin> set ''pP'' then None
           else
             (case read_exponent (CHR ''e'' # tl t2) of
                None \<Rightarrow> None
              | Some e \<Rightarrow>
                  Some (case_prod (nearest neg)
                    (ratio2 (digits_value 16 (map hex_value (ip @ fp))) (e - 4 * int (length fp))))))"

definition special_float :: "bytes \<Rightarrow> float64 option" where
  "special_float s =
     (case strip_sign s of (neg, t) \<Rightarrow>
        let l = map (\<lambda>c. char_of (ascii_lower (rune c))) t
        in if l = ''inf'' \<or> l = ''infinity'' then Some (Inf neg)
           else if map (\<lambda>c. char_of (ascii_lower (rune c))) s = ''nan'' then Some NaN
           else None)"

text \<open>What \<open>ParseFloat(s, 64)\<close> returns beside its error; \<open>None\<close> is a syntax error, whose value is 0.\<close>

definition ParseFloat_result :: "bytes \<Rightarrow> float64 option" where
  "ParseFloat_result s =
     (case special_float s of
        Some f \<Rightarrow> Some f
      | None \<Rightarrow>
          if CHR ''_'' \<in> set s \<and> \<not> underscoreOK s then None
          else
            let b = filter (\<lambda>c. c \<noteq> CHR ''_'') s
            in if has_hex_prefix (snd (strip_sign b)) then parse_hex_float b
               else map_option (\<lambda>(neg, m, e). case_prod (nearest neg) (decimal_ratio m e)) (read_decimal b))"

definition float_zero :: float64 where
  "float_zero = Fin False 0 0"

definition ParseFloat_value :: "bytes \<Rightarrow> float64" where
  "ParseFloat_value s = (case ParseFloat_result s of None \<Rightarrow> float_zero | Some f \<Rightarrow> f)"

text \<open>The \<open>'G'\<close> format: \<open>eprec\<close> decides between the two others.\<close>

definition format_G :: "int \<Rightarrow> nat list \<times> int \<Rightarrow> bytes" where
  "format_G eprec x =
     (let ex = snd x - 1 in if fst x \<noteq> [] \<and> (ex < - 4 \<or> ex \<ge> eprec) then format_E x else format_f x)"

definition FormatFloat_G :: "float64 \<Rightarrow> bytes" where
  "FormatFloat_G f =
     (case f of
        NaN \<Rightarrow> ''NaN''
      | Inf neg \<Rightarrow> if neg then ''-Inf'' else ''+Inf''
      | Fin neg m e \<Rightarrow>
          sign_bytes neg @
          (if m = 0 then ''0''
           else format_G 6 (digits_point (shortest round64 (m, e) 16 1))))"

text \<open>\<open>(*big.Float).String\<close>: ten significant digits, in the \<open>'g'\<close> format with a small \<open>e\<close>.\<close>

definition big_float_string :: "bool \<times> nat \<times> int \<Rightarrow> bytes" where
  "big_float_string x =
     (case x of (neg, m, e) \<Rightarrow>
        sign_bytes neg @
        (if m = 0 then ''0''
         else
           let ds = digits_point (case_prod (significant 10) (ratio2 m e));
               nd = int (length (fst ds));
               eprec = (if 10 > nd \<and> nd \<ge> snd ds then nd else 10)
           in map (\<lambda>c. if c = CHR ''E'' then CHR ''e'' else c) (format_G eprec ds)))"

section \<open>time.Duration\<close>

text \<open>A duration is an \<open>int64\<close> of nanoseconds.\<close>

definition nano_Second :: int where "nano_Second = 10 ^ 9"

definition nano_Minute :: int where "nano_Minute = 60 * 10 ^ 9"

definition nano_Hour :: int where "nano_Hour = 3600 * 10 ^ 9"

definition unitMap :: "bytes \<Rightarrow> nat option" where
  "unitMap u =
     (if u = ''ns'' then Some 1
      else if u \<in> {''us'', [CHR 0xC2, CHR 0xB5, CHR ''s''], [CHR 0xCE, CHR 0xBC, CHR ''s'']} then Some (10 ^ 3)
      else if u = ''ms'' then Some (10 ^ 6)
      else if u = ''s'' then Some (10 ^ 9)
      else if u = ''m'' then Some (60 * 10 ^ 9)
      else if u = ''h'' then Some (3600 * 10 ^ 9)
      else None)"

text \<open>\<open>leadingInt\<close> and \<open>leadingFraction\<close>: the value (\<open>None\<close> on overflow), and for a fraction its scale.\<close>

fun leading_int :: "nat \<Rightarrow> bytes \<Rightarrow> nat option" where
  "leading_int x [] = Some x"
| "leading_int x (c # cs) =
     (if x > 2 ^ 63 div 10 \<or> x * 10 + dec_digit c > 2 ^ 63 then None else leading_int (x * 10 + dec_digit c) cs)"

fun leading_fraction :: "nat \<Rightarrow> nat \<Rightarrow> bytes \<Rightarrow> nat \<times> nat" where
  "leading_fraction x scale [] = (x, scale)"
| "leading_fraction x scale (c # cs) =
     (if x > (2 ^ 63 - 1) div 10 \<or> x * 10 + dec_digit c > 2 ^ 63 then (x, scale)
      else leading_fraction (x * 10 + dec_digit c) (scale * 10) cs)"

text \<open>One group of \<open>ParseDuration\<close>, digits and unit: its length in nanoseconds, and the rest.\<close>

definition duration_group :: "bytes \<Rightarrow> (nat \<times> bytes) option" where
  "duration_group s =
     (let ip = takeWhile is_digit s;
          s1 = dropWhile is_digit s;
          point = (s1 \<noteq> [] \<and> hd s1 = CHR ''.'');
          fp = (if point then takeWhile is_digit (tl s1) else []);
          s2 = (if point then dropWhile is_digit (tl s1) else s1);
          unit_char = (\<lambda>c. \<not> (c = CHR ''.'' \<or> is_digit c));
          u = takeWhile unit_char s2
      in if ip = [] \<and> fp = [] \<or> u = [] then None
         else
           (case (leading_int 0 ip, unitMap u) of
              (Some v, Some unit) \<Rightarrow>
                if v > 2 ^ 63 div unit then None
                else
                  let (f, scale) = leading_fraction 0 1 fp;
                      v' = v * unit +
                        (if f > 0 then nat (int_of_float (float_mul (float_of_int (int f)) (nearest False unit scale)))
                         else 0)
                  in if v' > 2 ^ 63 then None else Some (v', dropWhile unit_char s2)
            | _ \<Rightarrow> None))"

lemma duration_group_shorter: "duration_group s = Some (v, t) \<Longrightarrow> length t < length s"
proof -
  assume "duration_group s = Some (v, t)"
  then obtain s2 where t: "t = dropWhile (\<lambda>c. \<not> (c = CHR ''.'' \<or> is_digit c)) s2"
    "takeWhile (\<lambda>c. \<not> (c = CHR ''.'' \<or> is_digit c)) s2 \<noteq> []" "length s2 \<le> length s"
  proof (rule_tac that)
    let ?s1 = "dropWhile is_digit s"
    let ?s2 = "if ?s1 \<noteq> [] \<and> hd ?s1 = CHR ''.'' then dropWhile is_digit (tl ?s1) else ?s1"
    assume g: "duration_group s = Some (v, t)"
    show "t = dropWhile (\<lambda>c. \<not> (c = CHR ''.'' \<or> is_digit c)) ?s2"
      "takeWhile (\<lambda>c. \<not> (c = CHR ''.'' \<or> is_digit c)) ?s2 \<noteq> []"
      using g by (auto simp: duration_group_def Let_def split: if_splits option.splits prod.splits)
    have "length (dropWhile is_digit (tl ?s1)) \<le> length (tl ?s1)" "length ?s1 \<le> length s"
      by (rule length_dropWhile_le)+
    then show "length ?s2 \<le> length s" by simp linarith
  qed
  from t(2) have "length (dropWhile (\<lambda>c. \<not> (c = CHR ''.'' \<or> is_digit c)) s2) < length s2"
    by (cases s2) (auto intro: le_imp_less_Suc length_dropWhile_le split: if_splits)
  with t show ?thesis by simp
qed

function parse_groups :: "nat \<Rightarrow> bytes \<Rightarrow> nat option" where
  "parse_groups d s =
     (if s = [] then Some d
      else (case duration_group s of
              None \<Rightarrow> None
            | Some (v, t) \<Rightarrow> if d + v > 2 ^ 63 then None else parse_groups (d + v) t))"
  by pat_completeness auto
termination
  by (relation "measure (\<lambda>(_, s). length s)") (auto dest: duration_group_shorter)

declare parse_groups.simps [simp del]

definition ParseDuration :: "bytes \<Rightarrow> int option" where
  "ParseDuration s0 =
     (case strip_sign s0 of (neg, s) \<Rightarrow>
        if s = ''0'' then Some 0
        else if s = [] then None
        else
          (case parse_groups 0 s of
             None \<Rightarrow> None
           | Some d \<Rightarrow> if neg then Some (- int d) else if d > 2 ^ 63 - 1 then None else Some (int d)))"

text \<open>\<open>Duration.String\<close>: \<open>prec\<close> digits after the point, without trailing zeros.\<close>

definition fraction_text :: "nat \<Rightarrow> nat \<Rightarrow> bytes" where
  "fraction_text f prec =
     (let ds = nat_digits 10 f;
          padded = replicate (prec - length ds) 0 @ ds;
          t = rev (dropWhile (\<lambda>d. d = 0) (rev padded))
      in if prec = 0 \<or> t = [] then [] else CHR ''.'' # digit_chars t)"

definition decimal_text :: "nat \<Rightarrow> bytes" where
  "decimal_text n = digit_chars (nat_digits 10 n)"

definition Duration_String :: "int \<Rightarrow> bytes" where
  "Duration_String d =
     (let u = nat \<bar>d\<bar>;
          small = (\<lambda>prec unit. decimal_text (u div 10 ^ prec) @ fraction_text (u mod 10 ^ prec) prec @ unit)
      in (if d < 0 then ''-'' else []) @
         (if u = 0 then ''0s''
          else if u < 10 ^ 3 then small 0 ''ns''
          else if u < 10 ^ 6 then small 3 [CHR 0xC2, CHR 0xB5, CHR ''s'']
          else if u < 10 ^ 9 then small 6 ''ms''
          else
            let s = u div 10 ^ 9
            in (if s div 60 > 0 then
                  (if s div 3600 > 0 then decimal_text (s div 3600) @ ''h'' else [])
                  @ decimal_text (s div 60 mod 60) @ ''m''
                else [])
               @ decimal_text (s mod 60) @ fraction_text (u mod 10 ^ 9) 9 @ ''s''))"

end
