(* ===== verification/GoTypes.thy ===== *)
theory GoTypes
  imports GoLib Context
begin

text \<open>
  Go types and values as the marshaler sees them through \<open>reflect\<close>, and the contents of an
  \<open>interface{}\<close> as the coercions see them.

  A type is a tree: a struct carries its fields, a field the value of its \<open>kdl\<close> tag.  So a type
  that contains itself through a pointer is outside the model.  \<open>int\<close> and \<open>uint\<close> are the 64-bit
  types.  A value is a tree too: pointers in it are not shared.  Left out are \<open>float32\<close>, the
  complex types, channels, functions, and \<open>time.Time\<close>.
\<close>

section \<open>Types and values\<close>

datatype gtype =
    TBool
  | TInt nat
  | TUint nat
  | TFloat
  | TString
  | TBigInt
  | TBigFloat
  | TExpression
  | TSuffixed
  | TDuration
  | TInterface
  | TPtr gtype
  | TSlice gtype
  | TArray nat gtype
  | TMap gtype gtype
  | TStruct bytes "field list"
and field = Field
  (f_name: bytes)
  (f_type: gtype)
  (f_tag: bytes)
  (f_anonymous: bool)
  (f_exported: bool)

text \<open>
  \<open>None\<close> is nil.  An interface holds a type with its value; a map is the list of its entries.
\<close>

datatype gval =
    GBool bool
  | GInt int
  | GFloat float64
  | GString bytes
  | GBigInt int
  | GBigFloat "bool \<times> nat \<times> int"
  | GSuffixed bytes bytes
  | GIface "(gtype \<times> gval) option"
  | GPtr "gval option"
  | GSlice "gval list option"
  | GArray "gval list"
  | GMap "(gval \<times> gval) list option"
  | GStruct "gval list"

text \<open>What an \<open>interface{}\<close> holds: a dynamic type and its value, or nil.\<close>

type_synonym iface = "(gtype \<times> gval) option"

lemma size_field_type [termination_simp]:
  "f \<in> set fs \<Longrightarrow> size (f_type f) < Suc (size_list size fs)"
proof (induction fs)
  case (Cons g gs)
  have "size (f_type g) \<le> size g" by (cases g) simp
  with Cons show ?case by fastforce
qed simp

fun zero :: "gtype \<Rightarrow> gval" where
  "zero TBool = GBool False"
| "zero (TInt w) = GInt 0"
| "zero (TUint w) = GInt 0"
| "zero TFloat = GFloat float_zero"
| "zero TString = GString []"
| "zero TBigInt = GPtr None"
| "zero TBigFloat = GPtr None"
| "zero TExpression = GString []"
| "zero TSuffixed = GSuffixed [] []"
| "zero TDuration = GInt 0"
| "zero TInterface = GIface None"
| "zero (TPtr t) = GPtr None"
| "zero (TSlice t) = GSlice None"
| "zero (TArray n t) = GArray (replicate n (zero t))"
| "zero (TMap k v) = GMap None"
| "zero (TStruct n fs) = GStruct (map (\<lambda>f. zero (f_type f)) fs)"

section \<open>Typing\<close>

text \<open>\<open>*big.Int\<close> and \<open>*big.Float\<close> are pointers; a value of them that is not nil is the number itself.\<close>

lemma size_zip_left [termination_simp]:
  "(a, b) \<in> set (zip vs ys) \<Longrightarrow> size a < Suc (size_list size vs)"
  by (metis set_zip_leftD size_list_estimation' le_imp_less_Suc order_refl)

fun has_type :: "gval \<Rightarrow> gtype \<Rightarrow> bool" where
  "has_type (GBool b) t \<longleftrightarrow> t = TBool"
| "has_type (GInt n) t \<longleftrightarrow>
     (case t of
        TInt w \<Rightarrow> 0 < w \<and> - (2 ^ (w - 1)) \<le> n \<and> n < 2 ^ (w - 1)
      | TUint w \<Rightarrow> 0 \<le> n \<and> n < 2 ^ w
      | TDuration \<Rightarrow> - (2 ^ 63) \<le> n \<and> n < 2 ^ 63
      | _ \<Rightarrow> False)"
| "has_type (GFloat f) t \<longleftrightarrow> t = TFloat"
| "has_type (GString s) t \<longleftrightarrow> t = TString \<or> t = TExpression"
| "has_type (GBigInt n) t \<longleftrightarrow> t = TBigInt"
| "has_type (GBigFloat x) t \<longleftrightarrow> t = TBigFloat"
| "has_type (GSuffixed a b) t \<longleftrightarrow> t = TSuffixed"
| "has_type (GIface None) t \<longleftrightarrow> t = TInterface"
| "has_type (GIface (Some (u, v))) t \<longleftrightarrow> t = TInterface \<and> u \<noteq> TInterface \<and> has_type v u"
| "has_type (GPtr None) t \<longleftrightarrow> t = TBigInt \<or> t = TBigFloat \<or> (\<exists>u. t = TPtr u)"
| "has_type (GPtr (Some v)) t \<longleftrightarrow> (case t of TPtr u \<Rightarrow> has_type v u | _ \<Rightarrow> False)"
| "has_type (GSlice None) t \<longleftrightarrow> (case t of TSlice u \<Rightarrow> True | _ \<Rightarrow> False)"
| "has_type (GSlice (Some vs)) t \<longleftrightarrow> (case t of TSlice u \<Rightarrow> (\<forall>v \<in> set vs. has_type v u) | _ \<Rightarrow> False)"
| "has_type (GArray vs) t \<longleftrightarrow>
     (case t of TArray n u \<Rightarrow> length vs = n \<and> (\<forall>v \<in> set vs. has_type v u) | _ \<Rightarrow> False)"
| "has_type (GMap None) t \<longleftrightarrow> (case t of TMap a b \<Rightarrow> True | _ \<Rightarrow> False)"
| "has_type (GMap (Some kvs)) t \<longleftrightarrow>
     (case t of
        TMap a b \<Rightarrow> (\<forall>kv \<in> set kvs. has_type (fst kv) a \<and> has_type (snd kv) b) \<and> distinct (map fst kvs)
      | _ \<Rightarrow> False)"
| "has_type (GStruct vs) t \<longleftrightarrow>
     (case t of
        TStruct n fs \<Rightarrow> length vs = length fs \<and> (\<forall>p \<in> set (zip vs fs). has_type (fst p) (f_type (snd p)))
      | _ \<Rightarrow> False)"

text \<open>Integer types have a width; arrays and structs are built of such types.\<close>

fun wf_type :: "gtype \<Rightarrow> bool" where
  "wf_type (TInt w) \<longleftrightarrow> w \<in> {8, 16, 32, 64}"
| "wf_type (TUint w) \<longleftrightarrow> w \<in> {8, 16, 32, 64}"
| "wf_type (TPtr t) \<longleftrightarrow> wf_type t"
| "wf_type (TSlice t) \<longleftrightarrow> wf_type t"
| "wf_type (TArray n t) \<longleftrightarrow> wf_type t"
| "wf_type (TMap k v) \<longleftrightarrow> wf_type k \<and> wf_type v"
| "wf_type (TStruct n fs) \<longleftrightarrow> (\<forall>f \<in> set fs. wf_type (f_type f))"
| "wf_type t \<longleftrightarrow> True"

lemma zero_typed: "wf_type t \<Longrightarrow> has_type (zero t) t"
  by (induction t rule: zero.induct) (auto simp: set_zip)

section \<open>Values of a document\<close>

fun iface_of :: "go_value \<Rightarrow> iface" where
  "iface_of VNil = None"
| "iface_of (VInt n) = Some (TInt 64, GInt n)"
| "iface_of (VBigInt n) = Some (TBigInt, GBigInt n)"
| "iface_of (VFloat f) = Some (TFloat, GFloat f)"
| "iface_of (VBigFloat x) = Some (TBigFloat, GBigFloat x)"
| "iface_of (VBool b) = Some (TBool, GBool b)"
| "iface_of (VString s) = Some (TString, GString s)"
| "iface_of (VExpression s) = Some (TExpression, GString s)"
| "iface_of (VSuffixed num suf) = Some (TSuffixed, GSuffixed num suf)"

end
