(* ===== verification/Coerce.thy ===== *)
theory Coerce
  imports GoTypes
begin

text \<open>
  The coercions (\<open>internal/coerce\<close>): from whatever an \<open>interface{}\<close> holds to a bool, an integer, a
  float or a string.  A type switch goes by the dynamic type; a type that is none of the basic
  ones but has a \<open>String\<close> method is taken by the case \<open>fmt.Stringer\<close>, which stands before the
  cases for \<open>*big.Int\<close> and \<open>*big.Float\<close>.  Errors of \<open>strconv\<close> are dropped by the code, so its
  functions appear here with the value they return beside the error.
\<close>

section \<open>Dynamic types\<close>

definition is_int_type :: "gtype \<Rightarrow> bool" where
  "is_int_type t = (case t of TInt _ \<Rightarrow> True | TUint _ \<Rightarrow> True | _ \<Rightarrow> False)"

definition int_of :: "gval \<Rightarrow> int" where
  "int_of v = (case v of GInt n \<Rightarrow> n | _ \<Rightarrow> 0)"

definition float_of :: "gval \<Rightarrow> float64" where
  "float_of v = (case v of GFloat f \<Rightarrow> f | _ \<Rightarrow> float_zero)"

definition slice_ints :: "gval \<Rightarrow> int list" where
  "slice_ints v = (case v of GSlice (Some vs) \<Rightarrow> map int_of vs | _ \<Rightarrow> [])"

definition string_of_bytes :: "gval \<Rightarrow> bytes" where
  "string_of_bytes v = map (\<lambda>n. char_of (nat n)) (slice_ints v)"

text \<open>\<open>string(x)\<close> of a \<open>[]rune\<close>: runes that are none become U+FFFD.\<close>

definition string_of_runes :: "gval \<Rightarrow> bytes" where
  "string_of_runes v =
     concat (map (\<lambda>n. encode_rune
       (if 0 \<le> n \<and> n \<le> 0x10FFFF \<and> \<not> (0xD800 \<le> n \<and> n \<le> 0xDFFF) then nat n else RuneError)) (slice_ints v))"

text \<open>The cases \<open>[]byte\<close>, \<open>[]rune\<close> and \<open>string\<close>.\<close>

definition text_of :: "gtype \<Rightarrow> gval \<Rightarrow> bytes option" where
  "text_of t v =
     (if t = TSlice (TUint 8) then Some (string_of_bytes v)
      else if t = TSlice (TInt 32) then Some (string_of_runes v)
      else (case (t, v) of (TString, GString s) \<Rightarrow> Some s | _ \<Rightarrow> None))"

text \<open>The types with a \<open>String\<close> method.\<close>

definition stringer :: "gtype \<Rightarrow> gval \<Rightarrow> bytes option" where
  "stringer t v =
     (case v of
        GString s \<Rightarrow> if t = TExpression then Some s else None
      | GSuffixed num suf \<Rightarrow> if t = TSuffixed then Some (suffixed_string num suf) else None
      | GBigInt n \<Rightarrow> if t = TBigInt then Some (append_int [] n 10) else None
      | GBigFloat x \<Rightarrow> if t = TBigFloat then Some (big_float_string x) else None
      | GInt d \<Rightarrow> if t = TDuration then Some (Duration_String d) else None
      | _ \<Rightarrow> None)"

section \<open>bool\<close>

definition boolString :: "bytes \<Rightarrow> bool" where
  "boolString s =
     (if length s = 1 then
        (rune CHR ''0'' < rune (s ! 0) \<and> rune (s ! 0) \<le> rune CHR ''9'') \<or> s ! 0 \<in> set ''yYtT''
      else if length s = 3 then s ! 0 \<in> set ''yY''
      else if length s = 4 then s ! 0 \<in> set ''tT''
      else False)"

definition ToBool :: "iface \<Rightarrow> bool" where
  "ToBool x =
     (case x of
        None \<Rightarrow> False
      | Some (t, v) \<Rightarrow>
          if t = TBool then (case v of GBool b \<Rightarrow> b | _ \<Rightarrow> False)
          else if is_int_type t then int_of v \<noteq> 0
          else if t = TFloat then \<not> is_zero_float (float_of v)
          else (case text_of t v of
                  Some s \<Rightarrow> boolString s
                | None \<Rightarrow> (case stringer t v of Some s \<Rightarrow> boolString s | None \<Rightarrow> False)))"

section \<open>Integers\<close>

text \<open>\<open>Duration.Seconds\<close>.\<close>

definition float_add :: "float64 \<Rightarrow> float64 \<Rightarrow> float64" where
  "float_add x y =
     (case (x, y) of
        (Fin a m e, Fin b n d) \<Rightarrow>
          (let k = min e d;
               i = (if a then - 1 else 1) * int m * 2 ^ nat (e - k) + (if b then - 1 else 1) * int n * 2 ^ nat (d - k)
           in if i = 0 then Fin (a \<and> b) 0 0
              else case_prod (nearest (i < 0)) (ratio2 (nat \<bar>i\<bar>) k))
      | (Fin _ _ _, _) \<Rightarrow> y
      | (Inf a, Inf b) \<Rightarrow> if a = b then x else NaN
      | (Inf _, NaN) \<Rightarrow> NaN
      | _ \<Rightarrow> x)"

definition trunc_div :: "int \<Rightarrow> int \<Rightarrow> int" where
  "trunc_div a b = (if a < 0 then - ((- a) div b) else a div b)"

definition Seconds :: "int \<Rightarrow> float64" where
  "Seconds d =
     (let sec = trunc_div d nano_Second; nsec = d - sec * nano_Second
      in float_add (float_of_int sec) (nearest (nsec < 0) (nat \<bar>nsec\<bar>) (10 ^ 9)))"

definition ToInt64 :: "iface \<Rightarrow> int" where
  "ToInt64 x =
     (case x of
        None \<Rightarrow> 0
      | Some (t, v) \<Rightarrow>
          if is_int_type t then wrap_int 64 (int_of v)
          else if t = TFloat then int_of_float (float_of v)
          else if t = TDuration then int_of_float (Seconds (int_of v))
          else (case text_of t v of
                  Some s \<Rightarrow> ParseInt_value s
                | None \<Rightarrow>
                    (case stringer t v of
                       Some s \<Rightarrow> ParseInt_value s
                     | None \<Rightarrow> if ToBool x then 1 else 0)))"

definition ToByte :: "iface \<Rightarrow> int" where
  "ToByte x = wrap_uint 8 (ToInt64 x)"

definition ToUint64 :: "iface \<Rightarrow> int" where
  "ToUint64 x = wrap_uint 64 (ToInt64 x)"

text \<open>A unit that is not in the table has the multiplier 0, and no error.\<close>

definition numericUnits :: "bool \<Rightarrow> char \<Rightarrow> int" where
  "numericUnits si u =
     (let base = (if si then 1000 else 1024) in
      if u = CHR ''k'' then base
      else if u = CHR ''m'' then base ^ 2
      else if u = CHR ''g'' then base ^ 3
      else if u = CHR ''t'' then base ^ 4
      else if u = CHR ''p'' then base ^ 5
      else if u = CHR ''e'' then base ^ 6
      else 0)"

definition suffixToMultiplier :: "bytes \<Rightarrow> int option" where
  "suffixToMultiplier suf =
     (if length suf = 0 then Some 1
      else if length suf = 1 \<or> (length suf = 2 \<and> suf ! 1 \<in> set ''bB'') then
        Some (numericUnits (length suf = 1) (char_of (ascii_lower (rune (suf ! 0)))))
      else None)"

text \<open>The loop over the runes: where the suf starts, and whether a digit follows it.\<close>

function suffix_scan :: "nat \<Rightarrow> nat option \<Rightarrow> bytes \<Rightarrow> nat option \<times> bool" where
  "suffix_scan i start s =
     (if s = [] then (start, False)
      else (case decode_rune s of (r, sz) \<Rightarrow>
              if (rune CHR ''0'' \<le> r \<and> r \<le> rune CHR ''9'') \<or> r = rune CHR ''.'' then
                (if start \<noteq> None then (start, True) else suffix_scan (i + sz) start (drop sz s))
              else suffix_scan (i + sz) (if start = None then Some i else start) (drop sz s)))"
  by pat_completeness auto
termination
proof (relation "measure (\<lambda>(_, _, s). length s)", goal_cases)
  case (2 i start s r sz)
  then have "0 < sz" using decode_rune_size_pos [of s] by (metis snd_conv)
  with 2 show ?case by simp
next
  case (3 i start s r sz)
  then have "0 < sz" using decode_rune_size_pos [of s] by (metis snd_conv)
  with 3 show ?case by simp
qed simp

declare suffix_scan.simps [simp del]

text \<open>Where a number with a valid suffix is split.\<close>

definition suffix_split :: "bytes \<Rightarrow> (bytes \<times> bytes) option" where
  "suffix_split s =
     (case suffix_scan 0 None s of
        (Some i, False) \<Rightarrow> if i > 0 then Some (take i s, drop i s) else None
      | _ \<Rightarrow> None)"

definition suffixed_float :: "bytes \<Rightarrow> bytes \<Rightarrow> float64 option" where
  "suffixed_float num suf =
     (case (ParseFloat_result num, suffixToMultiplier suf) of
        (Some (Fin a m e), Some k) \<Rightarrow> Some (float_mul (Fin a m e) (float_of_int k))
      | _ \<Rightarrow> None)"

definition parseSuffixedInt :: "bytes \<Rightarrow> int" where
  "parseSuffixedInt s =
     (case suffix_split s of
        None \<Rightarrow> ParseInt_value s
      | Some (num, suf) \<Rightarrow> (case suffixed_float num suf of Some f \<Rightarrow> int_of_float f | None \<Rightarrow> 0))"

definition ToInt64Suffix :: "iface \<Rightarrow> int" where
  "ToInt64Suffix x =
     (case x of
        None \<Rightarrow> 0
      | Some (t, v) \<Rightarrow>
          (case text_of t v of
             Some s \<Rightarrow> parseSuffixedInt s
           | None \<Rightarrow>
               (case stringer t v of
                  Some s \<Rightarrow> if t = TDuration then ToInt64 x else parseSuffixedInt s
                | None \<Rightarrow> ToInt64 x)))"

section \<open>Floats\<close>

definition ToFloat64 :: "iface \<Rightarrow> float64" where
  "ToFloat64 x =
     (case x of
        None \<Rightarrow> float_zero
      | Some (t, v) \<Rightarrow>
          if t = TFloat then float_of v
          else if is_int_type t then float_of_int (int_of v)
          else if t = TDuration then Seconds (int_of v)
          else (case text_of t v of
                  Some s \<Rightarrow> ParseFloat_value s
                | None \<Rightarrow>
                    (case stringer t v of
                       Some s \<Rightarrow> ParseFloat_value s
                     | None \<Rightarrow> if ToBool x then float_of_int 1 else float_zero)))"

definition parseSuffixedFloat :: "bytes \<Rightarrow> float64" where
  "parseSuffixedFloat s =
     (case suffix_split s of
        None \<Rightarrow> ParseFloat_value s
      | Some (num, suf) \<Rightarrow> (case suffixed_float num suf of Some f \<Rightarrow> f | None \<Rightarrow> float_zero))"

definition ToFloat64Suffix :: "iface \<Rightarrow> float64" where
  "ToFloat64Suffix x =
     (case x of
        None \<Rightarrow> float_zero
      | Some (t, v) \<Rightarrow>
          (case text_of t v of
             Some s \<Rightarrow> parseSuffixedFloat s
           | None \<Rightarrow>
               (case stringer t v of
                  Some s \<Rightarrow> if t = TDuration then ToFloat64 x else parseSuffixedFloat s
                | None \<Rightarrow> ToFloat64 x)))"

section \<open>Strings\<close>

text \<open>\<open>sprint\<close> is \<open>fmt.Sprintf("%v", v)\<close>, for the types that reach it: structs, slices, maps, pointers.\<close>

definition ToString :: "(gtype \<Rightarrow> gval \<Rightarrow> bytes) \<Rightarrow> iface \<Rightarrow> bytes" where
  "ToString sprint x =
     (case x of
        None \<Rightarrow> ''<nil>''
      | Some (t, v) \<Rightarrow>
          if is_int_type t then append_int [] (int_of v) 10
          else if t = TFloat then FormatFloat_G (float_of v)
          else (case text_of t v of
                  Some s \<Rightarrow> s
                | None \<Rightarrow>
                    (case stringer t v of
                       Some s \<Rightarrow> s
                     | None \<Rightarrow>
                         if t = TBool then (if v = GBool True then ''true'' else ''false'')
                         else sprint t v)))"

section \<open>Numeric strings\<close>

definition stringToNumeric :: "bytes \<Rightarrow> int \<times> float64 \<times> bool" where
  "stringToNumeric s =
     (if CHR ''.'' \<in> set s then (0, ParseFloat_value s, False) else (ParseInt_value s, float_zero, True))"

definition ToNumeric :: "iface \<Rightarrow> int \<times> float64 \<times> bool" where
  "ToNumeric x =
     (case x of
        None \<Rightarrow> (0, float_zero, True)
      | Some (t, v) \<Rightarrow>
          if is_int_type t then (wrap_int 64 (int_of v), float_zero, True)
          else if t = TFloat then (0, float_of v, False)
          else (case text_of t v of
                  Some s \<Rightarrow> stringToNumeric s
                | None \<Rightarrow>
                    (case stringer t v of
                       Some s \<Rightarrow> stringToNumeric s
                     | None \<Rightarrow> (if ToBool x then 1 else 0, float_zero, True))))"

text \<open>The scalar types; a bool is none of them.\<close>

definition IsScalarStrict :: "iface \<Rightarrow> bool" where
  "IsScalarStrict x =
     (case x of
        None \<Rightarrow> False
      | Some (t, v) \<Rightarrow> is_int_type t \<or> t = TFloat \<or> text_of t v \<noteq> None)"

definition IsScalar :: "iface \<Rightarrow> bool" where
  "IsScalar x =
     (case x of
        None \<Rightarrow> False
      | Some (t, v) \<Rightarrow> IsScalarStrict x \<or> stringer t v \<noteq> None \<or> t \<in> {TBigInt, TBigFloat})"

text \<open>The expressions \<open>[0-9]+\<close>, \<open>[0-9]+(\.[0-9]+)?\<close> and \<open>reNumeric\<close>, matched against the whole string.\<close>

definition reInteger :: "bytes \<Rightarrow> bool" where
  "reInteger s \<longleftrightarrow> s \<noteq> [] \<and> list_all is_digit s"

definition re_fixed :: "bytes \<Rightarrow> bool" where
  "re_fixed s =
     (case Cut s (CHR ''.'') of (a, b, found) \<Rightarrow> reInteger a \<and> (\<not> found \<or> reInteger b))"

definition reNumeric :: "bytes \<Rightarrow> bool" where
  "reNumeric s =
     (let a = takeWhile (\<lambda>c. c \<notin> set ''eE'') s; b = dropWhile (\<lambda>c. c \<notin> set ''eE'') s
      in re_fixed a \<and> (b = [] \<or> re_fixed (tl b)))"

definition IsNumeric :: "(gtype \<Rightarrow> gval \<Rightarrow> bytes) \<Rightarrow> iface \<Rightarrow> bool" where
  "IsNumeric sprint x =
     (case x of
        None \<Rightarrow> False
      | Some (t, v) \<Rightarrow>
          is_int_type t \<or> t \<in> {TFloat, TBigInt, TBigFloat}
          \<or> ((text_of t v \<noteq> None \<or> stringer t v \<noteq> None) \<and> reNumeric (ToString sprint x)))"

definition IsInteger :: "(gtype \<Rightarrow> gval \<Rightarrow> bytes) \<Rightarrow> iface \<Rightarrow> bool" where
  "IsInteger sprint x =
     (case x of
        None \<Rightarrow> False
      | Some (t, v) \<Rightarrow>
          is_int_type t \<or> t = TBigInt
          \<or> ((text_of t v \<noteq> None \<or> stringer t v \<noteq> None) \<and> reInteger (ToString sprint x)))"

definition FromString :: "bytes \<Rightarrow> iface" where
  "FromString s =
     (if s = ''true'' \<or> s = ''false'' then Some (TBool, GBool (ToBool (Some (TString, GString s))))
      else if s = ''null'' then None
      else if reNumeric s then
        (case ToNumeric (Some (TString, GString s)) of
           (i, f, isInt) \<Rightarrow> if isInt then Some (TInt 64, GInt i) else Some (TFloat, GFloat f))
      else Some (TString, GString s))"

section \<open>Integers written and read\<close>

lemma ParseInt_written: "ParseInt (append_int [] n 10) 10 =
    (if n < - (2 ^ 63) \<or> n \<ge> 2 ^ 63 then Inl NumRange else Inr n)"
proof -
  let ?ds = "map hex_digit_char (nat_digits 10 (nat \<bar>n\<bar>))"
  note w = written_digits [of 10 "nat \<bar>n\<bar>"]
  have nu: "filter (\<lambda>c. c \<noteq> CHR ''_'') ?ds = ?ds"
    using hex_digit_char_not nat_digits_less [of 10 _ "nat \<bar>n\<bar>"] by (fastforce simp: filter_id_conv)
  then have v: "\<forall>c \<in> set ?ds. valid_digit 10 c" "?ds \<noteq> []"
    "digits_value 10 (map (\<lambda>c. the (digit_value c)) ?ds) = nat \<bar>n\<bar>"
    using w by (auto simp: literal_digits_def literal_value_def filter_id_conv)
  show ?thesis
  proof (cases "n < 0")
    case False
    then have "append_int [] n 10 = ?ds" by (simp add: append_int_def)
    with parse_digits [OF v(1,2)] v(3) False show ?thesis by auto
  next
    case True
    then have a: "append_int [] n 10 = CHR ''-'' # ?ds" by (simp add: append_int_def)
    have u: "ParseUint_loop 10 0 ?ds = (if nat \<bar>n\<bar> \<ge> 2 ^ 64 then Inl NumRange else Inr (nat \<bar>n\<bar>))"
      using ParseUint_loop_value [OF v(1), of 0] v(3) by (simp add: digits_value_def)
    have "ParseInt (CHR ''-'' # ?ds) 10 = (if nat \<bar>n\<bar> > 2 ^ 63 then Inl NumRange else Inr (- int (nat \<bar>n\<bar>)))"
      using v(2) u by (simp add: ParseInt_def strip_sign_def)
    moreover have "nat \<bar>n\<bar> > 2 ^ 63 \<longleftrightarrow> n < - (2 ^ 63)" using True by auto
    ultimately show ?thesis using a True by auto
  qed
qed

lemma strip_sign_written: "fst (strip_sign (append_int [] n 10)) = (n < 0)"
proof -
  obtain d ds where d: "nat_digits 10 (nat \<bar>n\<bar>) = d # ds" "d < 10"
    using nat_digits_less [of 10 _ "nat \<bar>n\<bar>"] by (cases "nat_digits 10 (nat \<bar>n\<bar>)") auto
  then have "hex_digit_char d \<noteq> CHR ''-''" "hex_digit_char d \<noteq> CHR ''+''"
    using hex_digit_char_value [of d] by (auto simp: digit_value_def)
  with d show ?thesis by (auto simp: append_int_def strip_sign_def)
qed

text \<open>An integer survives a string.  Every \<open>int64\<close>, made a string by \<open>ToString\<close>, is the
  same \<open>int64\<close> again after \<open>ToInt64\<close>; an integer beyond 64 bits, which the code also turns into a
  string first, comes out as the nearest \<open>int64\<close>.\<close>

theorem coerced_integer_round_trip:
  "ToInt64 (Some (TString, GString (ToString sprint (Some (TInt 64, GInt n))))) =
     max (- (2 ^ 63)) (min (2 ^ 63 - 1) n)
   \<and> ToInt64 (Some (TBigInt, GBigInt n)) = max (- (2 ^ 63)) (min (2 ^ 63 - 1) n)"
proof -
  have "ParseInt_value (append_int [] n 10) = max (- (2 ^ 63)) (min (2 ^ 63 - 1) n)"
    by (auto simp: ParseInt_value_def ParseInt_written strip_sign_written max_def min_def)
  then show ?thesis
    by (simp add: ToInt64_def ToString_def is_int_type_def text_of_def stringer_def int_of_def)
qed

section \<open>Where a coercion loses the value\<close>

lemma length_written: "10 ^ k \<le> n \<Longrightarrow> k < length (nat_digits 10 n)"
proof (induction k arbitrary: n)
  case (Suc k)
  then have "10 ^ k \<le> n div 10" "\<not> n < 10"
    by (auto simp: less_eq_div_iff_mult_less_eq mult.commute dest: order_trans [of "10 * 10 ^ k"])
       (metis One_nat_def le_trans one_le_numeral one_le_power power_Suc self_le_power zero_less_Suc not_le)
  with Suc.IH [of "n div 10"] show ?case by (simp add: nat_digits.simps [of 10 n])
qed simp

text \<open>A large integer is false.  \<open>*big.Int\<close> has a \<open>String\<close> method, so the case that would
  compare it with zero is never reached: its digits are looked at as a word, and an integer of
  five digits or more is false, though every \<open>int64\<close> but 0 is true.\<close>

theorem big_integer_is_false:
  assumes "10 ^ 5 \<le> \<bar>n\<bar>"
  shows "ToBool (Some (TBigInt, GBigInt n)) = False \<and> ToBool (Some (TInt 64, GInt n)) = True"
proof -
  have "5 < length (nat_digits 10 (nat \<bar>n\<bar>))"
    by (rule length_written) (use assms in \<open>simp add: le_nat_iff\<close>)
  then have "5 < length (append_int [] n 10)" by (simp add: append_int_def)
  then show ?thesis
    using assms by (auto simp: ToBool_def is_int_type_def text_of_def stringer_def boolString_def int_of_def)
qed

lemma big_integer_is_false_witness:
  "ToBool (Some (TBigInt, GBigInt (2 ^ 64))) = False \<and> ToBool (Some (TInt 64, GInt (2 ^ 64))) = True"
  by (rule big_integer_is_false) simp

lemma ParseUint_loop_stops:
  assumes "list_all is_digit a" "n * 10 ^ length a + 10 ^ length a \<le> 2 ^ 64"
  shows "ParseUint_loop 10 n (a @ CHR ''e'' # b) = Inl NumSyntax"
  using assms
proof (induction a arbitrary: n)
  case Nil
  then show ?case by (simp add: digit_value_def)
next
  case (Cons c a)
  then obtain d where d: "digit_value c = Some d" "d < 10"
    by (auto simp: is_digit_def digit_value_def)
  let ?p = "10 ^ length a :: nat"
  have "n * (10 * ?p) + 10 * ?p \<le> 2 ^ 64" using Cons.prems by simp
  moreover have "(n * 10 + d) * ?p + ?p \<le> n * (10 * ?p) + 10 * ?p"
  proof -
    have "(d + 1) * ?p \<le> 10 * ?p" using d(2) by (intro mult_right_mono) simp_all
    then show ?thesis by (simp add: algebra_simps)
  qed
  ultimately have m: "(n * 10 + d) * ?p + ?p \<le> 2 ^ 64" by linarith
  moreover have "n * 10 + d < 2 ^ 64"
  proof -
    have "(n * 10 + d) + 1 \<le> (n * 10 + d) * ?p + ?p" by (intro add_mono) simp_all
    with m show ?thesis by linarith
  qed
  ultimately show ?case using Cons.IH [of "n * 10 + d"] Cons.prems d by simp
qed

text \<open>A number with an exponent but no point becomes 0.  \<open>FromString\<close> takes it for a number
  by its regular expression, and then, for want of a point, for an integer, which it is not to
  \<open>ParseInt\<close>; the error is dropped.\<close>

theorem exponent_becomes_zero:
  assumes "reInteger a" "reInteger b" "length a \<le> 19"
  shows "FromString (a @ ''e'' @ b) = Some (TInt 64, GInt 0)"
proof -
  let ?s = "a @ CHR ''e'' # b"
  have d: "is_digit c \<Longrightarrow> c \<notin> set ''eE.truefalsn+-''" for c by (auto simp: is_digit_def)
  have a: "list_all is_digit a" "a \<noteq> []" and b: "list_all is_digit b" "b \<noteq> []"
    using assms by (simp_all add: reInteger_def)
  then obtain x xs where x: "a = x # xs" "is_digit x" by (cases a) auto
  have no_e: "\<forall>c \<in> set a. c \<notin> set ''eE''" "CHR ''.'' \<notin> set a" "CHR ''.'' \<notin> set b"
    using a b d by (fastforce simp: list_all_iff)+
  have "takeWhile (\<lambda>c. c \<notin> set ''eE'') ?s = a" "dropWhile (\<lambda>c. c \<notin> set ''eE'') ?s = CHR ''e'' # b"
    using no_e(1) by (simp_all add: takeWhile_append2 dropWhile_append2)
  then have "reNumeric ?s"
    using no_e assms(1,2) by (simp add: reNumeric_def re_fixed_def Cut_def)
  moreover have "?s \<noteq> ''true''" "?s \<noteq> ''false''" "?s \<noteq> ''null''"
    using x d [OF x(2)] by auto
  moreover have "ParseInt_value ?s = 0"
  proof -
    have "(10 :: nat) ^ length a \<le> 10 ^ 19" using assms(3) by (intro power_increasing) simp_all
    then have "ParseUint_loop 10 0 ?s = Inl NumSyntax"
      by (intro ParseUint_loop_stops [OF a(1)]) simp
    moreover have "strip_sign ?s = (False, ?s)" using x d [OF x(2)] by (auto simp: strip_sign_def)
    ultimately show ?thesis by (simp add: ParseInt_value_def ParseInt_def)
  qed
  ultimately show ?thesis
    using no_e(2,3)
    by (simp add: FromString_def ToNumeric_def is_int_type_def text_of_def stringToNumeric_def)
qed

lemma exponent_becomes_zero_witness: "FromString (''1'' @ ''e'' @ ''5'') = Some (TInt 64, GInt 0)"
  by (rule exponent_becomes_zero) (simp_all add: reInteger_def is_digit_def)

end
