(* ===== verification/Durations.thy ===== *)
theory Durations
  imports Coerce
begin

text \<open>
  Durations and suffixed decimals as values: \<open>formatDuration\<close>, \<open>marshalDurationValue\<close> and
  \<open>intOrFloat\<close> of \<open>internal/marshaler/marshal.go\<close>, \<open>parseHMSDuration\<close> and
  \<open>unmarshalValueDuration\<close> of \<open>unmarshal.go\<close>, \<open>AsDuration\<close> and \<open>AsNumber\<close> of
  \<open>document/suffixeddec.go\<close>.
\<close>

datatype convert_error =
    NotNumber num_error
  | NotHMS bytes
  | NotDuration
  | NumericBase60
  | InvalidSuffix bytes
  | InvalidFormat bytes

section \<open>Base 60\<close>

text \<open>\<open>%02d\<close>.\<close>

definition pad2 :: "int \<Rightarrow> bytes" where
  "pad2 n = (if 0 \<le> n \<and> n < 10 then CHR ''0'' # append_int [] n 10 else append_int [] n 10)"

definition formatDuration :: "int \<Rightarrow> bytes" where
  "formatDuration d =
     (let s = trunc_div d 1000000000;
          ms = d - s * 1000000000;
          m = trunc_div s 60;
          s' = s - m * 60;
          h = trunc_div m 60;
          m' = m - h * 60
      in pad2 h @ '':'' @ pad2 m' @ '':'' @ pad2 s' @ ''.'' @ append_int [] ms 10)"

text \<open>\<open>ParseInt(s, 10, 32)\<close>.\<close>

definition ParseInt32 :: "bytes \<Rightarrow> num_error + int" where
  "ParseInt32 s =
     (case ParseInt s 10 of
        Inl e \<Rightarrow> Inl e
      | Inr n \<Rightarrow> if - (2 ^ 31) \<le> n \<and> n < 2 ^ 31 then Inr n else Inl NumRange)"

definition read_int32 :: "bytes \<Rightarrow> convert_error + int" where
  "read_int32 s = (case ParseInt32 s of Inl e \<Rightarrow> Inl (NotNumber e) | Inr n \<Rightarrow> Inr n)"

text \<open>
  Sums and products of durations wrap at 64 bits.  The \<open>ok\<close> of the seconds is a variable of its
  own block: without a digit between the second colon and the point, the function leaves the rest
  unread and returns the hours and minutes, since the outer \<open>ok\<close> is still true.
\<close>

definition parseHMSDuration :: "bytes \<Rightarrow> convert_error + int" where
  "parseHMSDuration hms =
     (case Cut hms (CHR '':'') of (s, remain, found) \<Rightarrow>
        if \<not> found then Inl (NotHMS s)
        else bind_res (read_int32 s) (\<lambda>h.
          case Cut remain (CHR '':'') of (s, remain, found) \<Rightarrow>
            if \<not> found then Inl (NotHMS s)
            else bind_res (read_int32 s) (\<lambda>m.
              case Cut remain (CHR ''.'') of (s, remain, havens) \<Rightarrow>
                if length s = 0 then Inr (wrap_int 64 (h * nano_Hour + m * nano_Minute))
                else bind_res (read_int32 s) (\<lambda>sec.
                  bind_res (if havens then read_int32 remain else Inr 0) (\<lambda>n.
                    Inr (wrap_int 64 (h * nano_Hour + m * nano_Minute + sec * nano_Second + n)))))))"

section \<open>Suffixed decimals\<close>

definition duration_result :: "int option \<Rightarrow> convert_error + int" where
  "duration_result r = (case r of None \<Rightarrow> Inl NotDuration | Some d \<Rightarrow> Inr d)"

definition AsDuration :: "bytes \<Rightarrow> bytes \<Rightarrow> convert_error + int" where
  "AsDuration num suf =
     duration_result (ParseDuration (if length num > 0 then suffixed_string num suf else suf))"

text \<open>A product with a float of 53 bits; \<open>k\<close> is the multiplier, which is an integer.\<close>

definition big_mul :: "bool \<times> nat \<times> int \<Rightarrow> nat \<Rightarrow> bool \<times> nat \<times> int" where
  "big_mul x k = (case x of (neg, m, e) \<Rightarrow> (neg, case_prod round53 (ratio2 (m * k) e)))"

definition suffix_multiplier :: "bytes \<Rightarrow> convert_error + nat" where
  "suffix_multiplier suf =
     (if length suf = 1 \<or> (length suf = 2 \<and> suf ! 1 \<in> set ''bB'') then
        (let unit = (if length suf = 2 then 1024 else 1000);
             c = suf ! 0
         in if c \<in> set ''kK'' then Inr unit
            else if c \<in> set ''mM'' then Inr (unit ^ 2)
            else if c \<in> set ''gG'' then Inr (unit ^ 3)
            else if c \<in> set ''tT'' then Inr (unit ^ 4)
            else if c \<in> set ''pP'' then Inr (unit ^ 5)
            else Inl (InvalidSuffix suf))
      else Inl (InvalidSuffix suf))"

definition multiplied :: "number \<Rightarrow> nat \<Rightarrow> go_value" where
  "multiplied n k =
     (case n of
        NInt i \<Rightarrow> VFloat (float_mul (float_of_int i) (float_of_int (int k)))
      | NFloat f \<Rightarrow> VFloat (float_mul f (float_of_int (int k)))
      | NBigInt i \<Rightarrow> VBigFloat (big_mul (i < 0, round53 (nat \<bar>i\<bar>) 1) k)
      | NBigFloat x \<Rightarrow> VBigFloat (big_mul x k))"

fun plain_number :: "number \<Rightarrow> go_value" where
  "plain_number (NInt i) = VInt i"
| "plain_number (NBigInt i) = VBigInt i"
| "plain_number (NFloat f) = VFloat f"
| "plain_number (NBigFloat x) = VBigFloat x"

definition AsNumber :: "bytes \<Rightarrow> bytes \<Rightarrow> convert_error + go_value" where
  "AsNumber num suf =
     (case parseNumber num 10 of
        Inl e \<Rightarrow> Inl (NotNumber e)
      | Inr n \<Rightarrow>
          if length suf = 0 then Inr (plain_number n)
          else bind_res (suffix_multiplier suf) (\<lambda>k. Inr (multiplied n k)))"

section \<open>Formats of a duration\<close>

definition durationFormatFactor :: "bytes \<Rightarrow> int option" where
  "durationFormatFactor fmt =
     (if fmt = ''sec'' then Some (10 ^ 9)
      else if fmt = ''milli'' then Some (10 ^ 6)
      else if fmt = ''micro'' then Some (10 ^ 3)
      else if fmt = ''nano'' then Some 1
      else None)"

definition unmarshalValueDuration ::
  "(gtype \<Rightarrow> gval \<Rightarrow> bytes) \<Rightarrow> iface \<Rightarrow> bytes \<Rightarrow> convert_error + int" where
  "unmarshalValueDuration sprint iv fmt =
     (case durationFormatFactor fmt of
        Some factor \<Rightarrow>
          (case ToNumeric iv of (i, f, isInt) \<Rightarrow>
             Inr (if isInt then wrap_int 64 (i * factor)
                  else int_of_float (float_mul f (float_of_int factor))))
      | None \<Rightarrow>
          let kind = (case iv of None \<Rightarrow> TInterface | Some (t, _) \<Rightarrow> t) in
          if is_int_type kind then
            (if fmt = ''base60'' then Inl NumericBase60 else Inr (wrap_int 64 (ToInt64 iv * nano_Second)))
          else if kind = TFloat then
            (if fmt = ''base60'' then Inl NumericBase60
             else Inr (int_of_float (float_mul (ToFloat64 iv) (float_of_int nano_Second))))
          else
            (case iv of
               Some (TSuffixed, GSuffixed num suf) \<Rightarrow> AsDuration num suf
             | _ \<Rightarrow>
                 if fmt = ''base60'' then parseHMSDuration (ToString sprint iv)
                 else duration_result (ParseDuration (ToString sprint iv))))"

text \<open>\<open>f - math.Floor(f) == 0\<close>; for an infinity the difference is NaN.\<close>

definition is_integral :: "float64 \<Rightarrow> bool" where
  "is_integral f = (case f of Fin neg m e \<Rightarrow> (case ratio2 m e of (p, q) \<Rightarrow> p mod q = 0) | _ \<Rightarrow> False)"

definition intOrFloat :: "float64 \<Rightarrow> go_value" where
  "intOrFloat f = (if is_integral f then VInt (int_of_float f) else VFloat f)"

definition marshalDurationValue :: "int \<Rightarrow> bytes \<Rightarrow> convert_error + go_value" where
  "marshalDurationValue d fmt =
     (if fmt = [] then Inr (VString (Duration_String d))
      else if fmt = ''sec'' then Inr (intOrFloat (Seconds d))
      else if fmt = ''milli'' then Inr (VInt (trunc_div d (10 ^ 6)))
      else if fmt = ''micro'' then Inr (VInt (trunc_div d (10 ^ 3)))
      else if fmt = ''nano'' then Inr (VInt d)
      else if fmt = ''base60'' then Inr (VString (formatDuration d))
      else Inl (InvalidFormat fmt))"

section \<open>Base 60 round trip\<close>

lemma ParseInt32_written: "- (2 ^ 31) \<le> n \<Longrightarrow> n < 2 ^ 31 \<Longrightarrow> ParseInt32 (append_int [] n 10) = Inr n"
  by (simp add: ParseInt32_def ParseInt_written)

lemma read_pad2: "- (2 ^ 31) \<le> n \<Longrightarrow> n < 2 ^ 31 \<Longrightarrow> read_int32 (pad2 n) = Inr n"
proof (cases "0 \<le> n \<and> n < 10")
  case True
  have "list_all (\<lambda>n. read_int32 (pad2 n) = Inr n) [0, 1, 2, 3, 4, 5, 6, 7, 8, 9]" by code_simp
  moreover have "n \<in> set [0, 1, 2, 3, 4, 5, 6, 7, 8, 9]" using True by simp presburger
  ultimately show ?thesis unfolding list_all_iff by blast
next
  case False
  assume "- (2 ^ 31) \<le> n" "n < 2 ^ 31"
  with False show ?thesis by (auto simp: read_int32_def pad2_def ParseInt32_written)
qed

lemma written_no_colon: "c \<in> set (append_int [] n 10) \<Longrightarrow> c = CHR ''-'' \<or> is_digit c"
proof -
  have "is_digit (hex_digit_char d)" if "d < 10" for d
  proof -
    have "\<forall>d \<in> set [0..<10]. is_digit (hex_digit_char d)" by code_simp
    with that show ?thesis by simp
  qed
  moreover assume "c \<in> set (append_int [] n 10)"
  ultimately show ?thesis
    using nat_digits_less [of 10 _ "nat \<bar>n\<bar>"] by (auto simp: append_int_def split: if_splits)
qed

lemma pad2_plain: "c \<in> set (pad2 n) \<Longrightarrow> c = CHR ''-'' \<or> is_digit c"
  using written_no_colon [of c n] by (auto simp: pad2_def is_digit_def split: if_splits)

lemma Cut_plain: "c \<notin> set a \<Longrightarrow> Cut (a @ c # b) c = (a, b, True)"
proof -
  assume "c \<notin> set a"
  then have "takeWhile (\<lambda>x. x \<noteq> c) (a @ c # b) = a" "dropWhile (\<lambda>x. x \<noteq> c) (a @ c # b) = c # b"
    by (induction a) auto
  then show ?thesis by (simp add: Cut_def)
qed

lemma pad2_nonempty [simp]: "pad2 n \<noteq> []"
  by (simp add: pad2_def append_int_def)

text \<open>The parts of a duration: the truncated quotient is small and leaves a small rest.\<close>

lemma trunc_div_bounds:
  assumes "0 < b"
  shows "\<bar>a - trunc_div a b * b\<bar> < b" "- \<bar>a\<bar> \<le> trunc_div a b * b" "trunc_div a b * b \<le> \<bar>a\<bar>"
proof -
  have n: "0 \<le> n - n div b * b" "n - n div b * b < b" "0 \<le> n \<Longrightarrow> 0 \<le> n div b * b" for n
    using assms by (simp_all add: minus_div_mult_eq_mod pos_imp_zdiv_nonneg_iff)
  show "\<bar>a - trunc_div a b * b\<bar> < b" "- \<bar>a\<bar> \<le> trunc_div a b * b" "trunc_div a b * b \<le> \<bar>a\<bar>"
    using n [of a] n [of "- a"] by (auto simp: trunc_div_def)
qed

lemma trunc_div_cut:
  assumes "0 < b" shows "0 \<le> a \<Longrightarrow> 0 \<le> trunc_div a b * b \<and> trunc_div a b * b \<le> a"
    "a < 0 \<Longrightarrow> a \<le> trunc_div a b * b \<and> trunc_div a b * b \<le> 0"
  using trunc_div_bounds [OF assms, of a] assms
  by (auto simp: trunc_div_def pos_imp_zdiv_nonneg_iff)

lemma trunc_div_less:
  assumes "0 < b" shows "0 \<le> a \<Longrightarrow> 0 \<le> trunc_div a b \<and> trunc_div a b \<le> a"
    "a < 0 \<Longrightarrow> a \<le> trunc_div a b \<and> trunc_div a b \<le> 0"
proof -
  have n: "0 \<le> n div b \<and> n div b \<le> n" if "0 \<le> n" for n
    using that assms zdiv_mono2 [of n 1 b] by (simp add: pos_imp_zdiv_nonneg_iff)
  show "0 \<le> a \<Longrightarrow> 0 \<le> trunc_div a b \<and> trunc_div a b \<le> a"
    "a < 0 \<Longrightarrow> a \<le> trunc_div a b \<and> trunc_div a b \<le> 0"
    using n [of a] n [of "- a"] by (simp_all add: trunc_div_def)
qed

lemma parseHMS_text:
  assumes "\<bar>h\<bar> < 2 ^ 31" "\<bar>m\<bar> < 60" "\<bar>s\<bar> < 60" "\<bar>n\<bar> < 10 ^ 9"
  shows "parseHMSDuration (pad2 h @ '':'' @ pad2 m @ '':'' @ pad2 s @ ''.'' @ append_int [] n 10) =
    Inr (wrap_int 64 (h * nano_Hour + m * nano_Minute + s * nano_Second + n))"
proof -
  have c: "CHR '':'' \<notin> set (pad2 k)" "CHR ''.'' \<notin> set (pad2 k)" for k
    using pad2_plain [of _ k] by (auto simp: is_digit_def)
  have r: "read_int32 (pad2 h) = Inr h" "read_int32 (pad2 m) = Inr m" "read_int32 (pad2 s) = Inr s"
    using assms by (auto intro!: read_pad2)
  have rn: "read_int32 (append_int [] n 10) = Inr n"
    using assms(4) by (simp add: read_int32_def ParseInt32_written abs_less_iff)
  show ?thesis using c by (simp add: parseHMSDuration_def Cut_plain r rn)
qed

text \<open>C22: durations survive their formats.  A duration of any \<open>int64\<close> of nanoseconds, marshalled
  with the format \<open>base60\<close> or \<open>nano\<close>, is the same duration when unmarshalled with it, and with
  \<open>micro\<close> or \<open>milli\<close> it is the same down to a whole number of units, cut towards zero.  What
  \<open>base60\<close> puts behind the point is a count of nanoseconds without leading zeros, and is read as
  such; it is not the decimal fraction that the documented form \<open>H:MM:SS.SSSSSSSSS\<close> suggests.\<close>

theorem duration_formats_round_trip:
  assumes "- (2 ^ 63) \<le> d" "d < 2 ^ 63"
    and "(fmt, unit) \<in> {(''base60'', 1), (''nano'', 1), (''micro'', 10 ^ 3), (''milli'', 10 ^ 6)}"
  shows "\<exists>v. marshalDurationValue d fmt = Inr v
    \<and> unmarshalValueDuration sprint (iface_of v) fmt = Inr (trunc_div d unit * unit)"
proof -
  let ?s = "trunc_div d 1000000000"
  let ?m = "trunc_div ?s 60"
  let ?h = "trunc_div ?m 60"
  note b = trunc_div_bounds [of 1000000000 d, OF zero_less_numeral]
    trunc_div_bounds [of 60 ?s, OF zero_less_numeral] trunc_div_bounds [of 60 ?m, OF zero_less_numeral]
  have "parseHMSDuration (formatDuration d) = Inr (wrap_int 64 (?h * nano_Hour + (?m - ?h * 60) * nano_Minute
      + (?s - ?m * 60) * nano_Second + (d - ?s * 1000000000)))"
  proof -
    have "\<bar>d\<bar> \<le> 2 ^ 63" using assms by simp
    then have "\<bar>?h\<bar> < 2 ^ 31" using b(2,3,5,6,8,9) by simp
    moreover have "\<bar>d - ?s * 1000000000\<bar> < 10 ^ 9" using b(1) by simp
    ultimately show ?thesis
      unfolding formatDuration_def Let_def by (intro parseHMS_text b(4,7))
  qed
  also have "?h * nano_Hour + (?m - ?h * 60) * nano_Minute + (?s - ?m * 60) * nano_Second
      + (d - ?s * 1000000000) = d"
    by (simp add: nano_Hour_def nano_Minute_def nano_Second_def algebra_simps)
  finally have hms: "parseHMSDuration (formatDuration d) = Inr d"
    using wrap_int_id [of 64 d] assms by simp
  have wrap: "wrap_int 64 x = x" if "0 \<le> d \<Longrightarrow> 0 \<le> x \<and> x \<le> d" "d < 0 \<Longrightarrow> d \<le> x \<and> x \<le> 0" for x
  proof (cases "0 \<le> d")
    case True
    from that(1) [OF this] assms(2) show ?thesis by (intro wrap_int_id) simp_all
  next
    case False
    with that(2) assms(1) show ?thesis by (intro wrap_int_id) simp_all
  qed
  have w: "wrap_int 64 (trunc_div d u * u) = trunc_div d u * u" if "0 < u" for u
    by (rule wrap) (use trunc_div_cut [OF that, of d] in blast)+
  have q: "wrap_int 64 (trunc_div d u) = trunc_div d u" if "0 < u" for u
    by (rule wrap) (use trunc_div_less [OF that, of d] in blast)+
  have one: "trunc_div d 1 * 1 = d" by (simp add: trunc_div_def)
  note defs = marshalDurationValue_def unmarshalValueDuration_def durationFormatFactor_def
    ToNumeric_def is_int_type_def int_of_def ToString_def text_of_def
  from assms(3) consider "fmt = ''base60''" "unit = 1" | "fmt = ''nano''" "unit = 1"
    | "fmt = ''micro''" "unit = 10 ^ 3" | "fmt = ''milli''" "unit = 10 ^ 6" by auto
  then show ?thesis
  proof cases
    case 1
    with hms one show ?thesis by (simp add: defs)
  next
    case 2
    with w [of 1] one show ?thesis by (simp add: defs)
  next
    case 3
    with w [of 1000] q [of 1000] show ?thesis by (simp add: defs)
  next
    case 4
    with w [of 1000000] q [of 1000000] show ?thesis by (simp add: defs)
  qed
qed

lemma duration_formats_round_trip_witness:
  "(\<exists>v. marshalDurationValue (- 3723000000004) ''base60'' = Inr v
     \<and> unmarshalValueDuration (\<lambda>_ _. []) (iface_of v) ''base60'' = Inr (trunc_div (- 3723000000004) 1 * 1))
   \<and> (\<exists>v. marshalDurationValue (- 1999999) ''milli'' = Inr v
     \<and> unmarshalValueDuration (\<lambda>_ _. []) (iface_of v) ''milli'' = Inr (trunc_div (- 1999999) (10 ^ 6) * 10 ^ 6))"
  by (intro conjI duration_formats_round_trip) simp_all

text \<open>An empty part for the seconds is no error: what follows the second colon is ignored, up to
  digits before a point.\<close>

lemma empty_seconds_accepted:
  "parseHMSDuration ''1:02:'' = Inr 3720000000000 \<and> parseHMSDuration ''1:02:.x'' = Inr 3720000000000
   \<and> isl (parseHMSDuration ''1:02'') \<and> isl (parseHMSDuration ''1:02:x'')"
  by code_simp

text \<open>A decimal fraction is read as nanoseconds.  Half a second, in the format \<open>H:MM:SS.SSSSSSSSS\<close>
  that the error message names, becomes five nanoseconds: the digits after the point are not
  scaled.\<close>

theorem fraction_read_as_nanoseconds:
  "unmarshalValueDuration sprint (Some (TString, GString ''0:00:00.5'')) ''base60'' = Inr 5"
proof -
  have "parseHMSDuration ''0:00:00.5'' = Inr 5" by code_simp
  then show ?thesis
    by (simp add: unmarshalValueDuration_def durationFormatFactor_def is_int_type_def ToString_def text_of_def)
qed

end
