(* ===== verification/Codec.thy ===== *)
theory Codec
  imports Durations
begin

text \<open>
  The text formats of byte slices: \<open>marshalByteSliceValue\<close> of \<open>internal/marshaler/marshal.go\<close> and
  the format switch of \<open>unmarshalNodeToByteSlice\<close> (\<open>unmarshal.go\<close>), with the encodings of
  \<open>encoding/base64\<close>, \<open>base32\<close> and \<open>hex\<close> they use.  A group of bytes is read as one number and written
  as digits of \<open>w\<close> bits.
\<close>

section \<open>Groups of digits\<close>

fun to_digits :: "nat \<Rightarrow> nat \<Rightarrow> nat \<Rightarrow> nat list" where
  "to_digits base 0 n = []"
| "to_digits base (Suc k) n = to_digits base k (n div base) @ [n mod base]"

fun chunks :: "nat \<Rightarrow> 'a list \<Rightarrow> 'a list list" where
  "chunks n xs = (if n = 0 \<or> xs = [] then [] else take n xs # chunks n (drop n xs))"

declare chunks.simps [simp del]

fun index_of :: "char \<Rightarrow> bytes \<Rightarrow> nat option" where
  "index_of c [] = None"
| "index_of c (x # xs) = (if x = c then Some 0 else map_option Suc (index_of c xs))"

text \<open>The bytes \<open>bs\<close> in digits of \<open>w\<close> bits, filled up to \<open>full\<close> characters.\<close>

definition encode_group :: "nat \<Rightarrow> nat \<Rightarrow> bytes \<Rightarrow> bytes \<Rightarrow> bytes" where
  "encode_group w full alphabet bs =
     (let r = length bs; k = (8 * r + w - 1) div w
      in map ((!) alphabet) (to_digits (2 ^ w) k (digits_value 256 (map rune bs) * 2 ^ (k * w - 8 * r)))
         @ replicate (full - k) (CHR ''=''))"

definition encode_bytes :: "nat \<Rightarrow> nat \<Rightarrow> nat \<Rightarrow> bytes \<Rightarrow> bytes \<Rightarrow> bytes" where
  "encode_bytes w width full alphabet bs = concat (map (encode_group w full alphabet) (chunks width bs))"

text \<open>The whole bytes that the digits hold; left-over bits are ignored.\<close>

definition group_bytes :: "nat \<Rightarrow> nat list \<Rightarrow> bytes" where
  "group_bytes w ds =
     (let bits = length ds * w; r = bits div 8
      in map char_of (to_digits 256 r (digits_value (2 ^ w) ds div 2 ^ (bits - 8 * r))))"

definition strip_newlines :: "bytes \<Rightarrow> bytes" where
  "strip_newlines s = filter (\<lambda>c. c \<noteq> CHR 0x0A \<and> c \<noteq> CHR 0x0D) s"

section \<open>base64\<close>

definition upper_case :: bytes where "upper_case = ''ABCDEFGHIJKLMNOPQRSTUVWXYZ''"

definition lower_case :: bytes where "lower_case = ''abcdefghijklmnopqrstuvwxyz''"

definition base64_std :: bytes where
  "base64_std = upper_case @ lower_case @ ''0123456789+/''"

definition base64_url :: bytes where
  "base64_url = upper_case @ lower_case @ ''0123456789-_''"

definition encode64 :: "bytes \<Rightarrow> bytes \<Rightarrow> bytes" where
  "encode64 alphabet bs = encode_bytes 6 3 4 alphabet bs"

text \<open>\<open>decodeQuantum\<close>, four characters at a time; padding only at the end.\<close>

fun decode_quanta :: "bytes \<Rightarrow> bytes \<Rightarrow> bytes option" where
  "decode_quanta alphabet [] = Some []"
| "decode_quanta alphabet (a # b # c # d # rest) =
     (case (index_of a alphabet, index_of b alphabet, index_of c alphabet, index_of d alphabet) of
        (Some i, Some j, Some k, Some l) \<Rightarrow>
          map_option ((@) (group_bytes 6 [i, j, k, l])) (decode_quanta alphabet rest)
      | (Some i, Some j, Some k, None) \<Rightarrow>
          if d = CHR ''='' \<and> rest = [] then Some (group_bytes 6 [i, j, k]) else None
      | (Some i, Some j, None, None) \<Rightarrow>
          if c = CHR ''='' \<and> d = CHR ''='' \<and> rest = [] then Some (group_bytes 6 [i, j]) else None
      | _ \<Rightarrow> None)"
| "decode_quanta alphabet _ = None"

definition decode64 :: "bytes \<Rightarrow> bytes \<Rightarrow> bytes option" where
  "decode64 alphabet s = decode_quanta alphabet (strip_newlines s)"

section \<open>base32\<close>

definition base32_std :: bytes where "base32_std = upper_case @ ''234567''"

definition base32_hex :: bytes where "base32_hex = ''0123456789ABCDEFGHIJKLMNOPQRSTUV''"

definition encode32 :: "bytes \<Rightarrow> bytes \<Rightarrow> bytes" where
  "encode32 alphabet bs = encode_bytes 5 5 8 alphabet bs"

text \<open>
  One group: the digits read so far are \<open>ds\<close>.  At padding the digits missing to eight must all be
  padding; what stands behind them is not looked at.
\<close>

fun decode_octet :: "bytes \<Rightarrow> nat list \<Rightarrow> bytes \<Rightarrow> bytes option" where
  "decode_octet alphabet ds [] = (if ds = [] then Some [] else None)"
| "decode_octet alphabet ds (c # src) =
     (if c = CHR ''='' \<and> 2 \<le> length ds \<and> length src < 8 then
        if length src + length ds < 7 \<or> list_ex (\<lambda>x. x \<noteq> CHR ''='') (take (7 - length ds) src)
          \<or> length ds \<in> {1, 3, 6} then None
        else Some (group_bytes 5 ds)
      else
        (case index_of c alphabet of
           None \<Rightarrow> None
         | Some i \<Rightarrow>
             if length ds = 7 then map_option ((@) (group_bytes 5 (ds @ [i]))) (decode_octet alphabet [] src)
             else decode_octet alphabet (ds @ [i]) src))"

definition decode32 :: "bytes \<Rightarrow> bytes \<Rightarrow> bytes option" where
  "decode32 alphabet s = decode_octet alphabet [] (strip_newlines s)"

section \<open>Hexadecimal\<close>

definition hex_lower :: bytes where "hex_lower = ''0123456789abcdef''"

definition encode16 :: "bytes \<Rightarrow> bytes" where
  "encode16 bs = encode_bytes 4 1 2 hex_lower bs"

fun decode16 :: "bytes \<Rightarrow> bytes option" where
  "decode16 [] = Some []"
| "decode16 [c] = None"
| "decode16 (c # d # rest) =
     (if is_hex c \<and> is_hex d then map_option ((#) (char_of (hex_value c * 16 + hex_value d))) (decode16 rest)
      else None)"

section \<open>The formats\<close>

text \<open>\<open>array\<close> gives the slice itself, which is outside the values of a document here.\<close>

definition marshalByteSliceValue :: "bytes \<Rightarrow> bytes \<Rightarrow> convert_error + bytes" where
  "marshalByteSliceValue bs fmt0 =
     (let fmt = (if fmt0 = [] then ''base64'' else fmt0)
      in if fmt = ''base64'' then Inr (encode64 base64_std bs)
         else if fmt = ''base64url'' then Inr (encode64 base64_url bs)
         else if fmt = ''base32'' then Inr (encode32 base32_std bs)
         else if fmt = ''base32hex'' then Inr (encode32 base32_hex bs)
         else if fmt = ''base16'' \<or> fmt = ''hex'' then Inr (encode16 bs)
         else if fmt = ''string'' \<or> fmt = ''array'' then Inr bs
         else Inl (InvalidFormat fmt))"

datatype decode_error = CorruptInput | InvalidByteFormat bytes

definition decoded :: "bytes option \<Rightarrow> decode_error + bytes" where
  "decoded r = (case r of None \<Rightarrow> Inl CorruptInput | Some bs \<Rightarrow> Inr bs)"

definition decode_format :: "bytes \<Rightarrow> bytes \<Rightarrow> decode_error + bytes" where
  "decode_format s fmt =
     (if fmt = ''base64'' then decoded (decode64 base64_std s)
      else if fmt = ''base64url'' then decoded (decode64 base64_url s)
      else if fmt = ''base32'' then decoded (decode32 base32_std s)
      else if fmt = ''base32hex'' then decoded (decode32 base32_hex s)
      else if fmt = ''base16'' \<or> fmt = ''hex'' then decoded (decode16 s)
      else if fmt = ''string'' then Inr s
      else Inl (InvalidByteFormat fmt))"

section \<open>Round trip\<close>

lemma length_to_digits [simp]: "length (to_digits base k n) = k"
  by (induction base k n rule: to_digits.induct) simp_all

lemma to_digits_less: "0 < base \<Longrightarrow> d \<in> set (to_digits base k n) \<Longrightarrow> d < base"
  by (induction base k n rule: to_digits.induct) auto

lemma digits_value_snoc: "digits_value base (ds @ [d]) = digits_value base ds * base + d"
  by (simp add: digits_value_def)

lemma digits_value_to_digits: "n < base ^ k \<Longrightarrow> digits_value base (to_digits base k n) = n"
proof (induction base k n rule: to_digits.induct)
  case (2 base k n)
  then have "n div base < base ^ k" by (simp add: less_mult_imp_div_less mult.commute)
  with 2 show ?case by (simp add: digits_value_snoc)
qed (simp add: digits_value_def)

lemma to_digits_digits_value:
  "\<forall>d \<in> set ds. d < base \<Longrightarrow> to_digits base (length ds) (digits_value base ds) = ds"
  by (induction ds rule: rev_induct) (auto simp: digits_value_snoc)

lemma digits_value_less: "0 < base \<Longrightarrow> \<forall>d \<in> set ds. d < base \<Longrightarrow> digits_value base ds < base ^ length ds"
proof (induction ds rule: rev_induct)
  case (snoc d ds)
  then have "digits_value base ds + 1 \<le> base ^ length ds" "d < base" by simp_all
  then have "(digits_value base ds + 1) * base \<le> base ^ length ds * base" by (intro mult_right_mono) simp_all
  with \<open>d < base\<close> show ?case by (simp add: digits_value_snoc algebra_simps)
qed (simp add: digits_value_def)

text \<open>What a group of bytes becomes, and that its bytes come back.\<close>

definition group_digits :: "nat \<Rightarrow> bytes \<Rightarrow> nat list" where
  "group_digits w bs =
     (let r = length bs; k = (8 * r + w - 1) div w
      in to_digits (2 ^ w) k (digits_value 256 (map rune bs) * 2 ^ (k * w - 8 * r)))"

lemma group_round_trip:
  assumes "0 < w" "w < 8"
  shows "group_bytes w (group_digits w bs) = bs"
proof -
  let ?r = "length bs" and ?x = "digits_value 256 (map rune bs)"
  define k where "k = (8 * ?r + w - 1) div w"
  define s where "s = k * w - 8 * ?r"
  have "8 * ?r + w - 1 < k * w + w" "k * w \<le> 8 * ?r + w - 1"
    using dividend_less_div_times [OF assms(1), of "8 * ?r + w - 1"] unfolding k_def by (simp_all add: add.commute)
  then have k: "k * w = 8 * ?r + s" "s < 8" using assms unfolding s_def by linarith+
  have x: "?x < 2 ^ (8 * ?r)"
    using digits_value_less [of 256 "map rune bs"] by (simp add: power_mult)
  have "?x * 2 ^ s < (2 ^ w) ^ k"
    using x k(1) by (simp add: power_mult [symmetric] mult.commute power_add)
  then have "digits_value (2 ^ w) (to_digits (2 ^ w) k (?x * 2 ^ s)) = ?x * 2 ^ s"
    by (rule digits_value_to_digits)
  moreover have "k * w div 8 = ?r" "k * w - 8 * ?r = s" using k by simp_all
  moreover have "map char_of (to_digits 256 ?r ?x) = bs"
    using to_digits_digits_value [of "map rune bs" 256] by (simp add: comp_def)
  moreover have "group_digits w bs = to_digits (2 ^ w) k (?x * 2 ^ s)"
    by (simp only: group_digits_def Let_def k_def s_def)
  ultimately show ?thesis by (simp add: group_bytes_def Let_def)
qed

lemma encode_group_digits: "encode_group w full alphabet bs =
    map ((!) alphabet) (group_digits w bs) @ replicate (full - (8 * length bs + w - 1) div w) (CHR ''='')"
  by (simp add: encode_group_def group_digits_def Let_def)

lemma length_group_digits: "length (group_digits w bs) = (8 * length bs + w - 1) div w"
  by (simp add: group_digits_def Let_def)

lemma group_digits_less: "d \<in> set (group_digits w bs) \<Longrightarrow> d < 2 ^ w"
  by (auto simp: group_digits_def Let_def dest: to_digits_less [rotated])

text \<open>An alphabet: its characters are distinct, and none is padding or a newline.\<close>

definition alphabet_ok :: "nat \<Rightarrow> bytes \<Rightarrow> bool" where
  "alphabet_ok w alphabet \<longleftrightarrow> length alphabet = 2 ^ w \<and> distinct alphabet
     \<and> CHR ''='' \<notin> set alphabet \<and> CHR 0x0A \<notin> set alphabet \<and> CHR 0x0D \<notin> set alphabet"

lemma alphabets: "alphabet_ok 6 base64_std" "alphabet_ok 6 base64_url" "alphabet_ok 5 base32_std"
  "alphabet_ok 5 base32_hex"
  by code_simp+

lemma index_of_nth: "distinct xs \<Longrightarrow> i < length xs \<Longrightarrow> index_of (xs ! i) xs = Some i"
  by (induction xs arbitrary: i) (auto simp: nth_Cons split: nat.split)

lemma alphabet_char:
  assumes "alphabet_ok w alphabet" "d < 2 ^ w"
  shows "index_of (alphabet ! d) alphabet = Some d" "alphabet ! d \<noteq> CHR ''=''"
proof -
  have "d < length alphabet" using assms by (simp add: alphabet_ok_def)
  then have "alphabet ! d \<in> set alphabet" "index_of (alphabet ! d) alphabet = Some d"
    using assms(1) by (simp_all add: alphabet_ok_def index_of_nth)
  moreover have "CHR ''='' \<notin> set alphabet" using assms(1) by (simp add: alphabet_ok_def)
  ultimately show "index_of (alphabet ! d) alphabet = Some d" "alphabet ! d \<noteq> CHR ''=''"
    by (blast, metis)
qed

lemma index_of_None: "c \<notin> set xs \<Longrightarrow> index_of c xs = None"
  by (induction xs) auto

lemma encoded_chars:
  assumes "alphabet_ok w alphabet"
  shows "strip_newlines (encode_bytes w width full alphabet bs) = encode_bytes w width full alphabet bs"
proof -
  have "alphabet ! d \<in> set alphabet" if "d \<in> set (group_digits w xs)" for d xs
    using group_digits_less [OF that] assms by (simp add: alphabet_ok_def)
  then have "c \<noteq> CHR 0x0A \<and> c \<noteq> CHR 0x0D" if "c \<in> set (encode_bytes w width full alphabet bs)" for c
    using that assms by (fastforce simp: encode_bytes_def encode_group_digits alphabet_ok_def)
  then show ?thesis by (simp add: strip_newlines_def filter_id_conv)
qed

lemma chunks_induct [case_names empty step]:
  assumes "P []" "\<And>xs. xs \<noteq> [] \<Longrightarrow> P (drop n xs) \<Longrightarrow> P xs" "0 < n"
  shows "P xs"
proof (induction xs rule: length_induct)
  case (1 xs)
  then show ?case
    by (cases "xs = []") (use assms in \<open>auto simp: length_drop_less\<close>)
qed

lemma encode_bytes_step:
  "xs \<noteq> [] \<Longrightarrow> 0 < n \<Longrightarrow>
     encode_bytes w n full alphabet xs
       = encode_group w full alphabet (take n xs) @ encode_bytes w n full alphabet (drop n xs)"
  by (simp add: encode_bytes_def chunks.simps [of n xs])

lemma encode_bytes_Nil [simp]: "encode_bytes w n full alphabet [] = []"
  by (simp add: encode_bytes_def chunks.simps)

lemma list_of_length:
  "length xs = 2 \<Longrightarrow> \<exists>i j. xs = [i, j]"
  "length xs = 3 \<Longrightarrow> \<exists>i j k. xs = [i, j, k]"
  "length xs = 4 \<Longrightarrow> \<exists>i j k m. xs = [i, j, k, m]"
  by (auto simp: length_Suc_conv eval_nat_numeral)

lemma decode64_encode64:
  assumes "alphabet_ok 6 alphabet"
  shows "decode64 alphabet (encode64 alphabet bs) = Some bs"
proof -
  have ix: "index_of (alphabet ! d) alphabet = Some d" if "d \<in> set (group_digits 6 xs)" for d xs
    using group_digits_less [OF that] by (rule alphabet_char(1) [OF assms])
  have pad: "index_of (CHR ''='') alphabet = None"
    using assms by (intro index_of_None) (simp add: alphabet_ok_def)
  have "decode_quanta alphabet (encode_bytes 6 3 4 alphabet bs) = Some bs"
  proof (induction bs rule: chunks_induct [where n = 3])
    case (step bs)
    obtain c rest where c: "c = take 3 bs" "rest = drop 3 bs" "c @ rest = bs" by simp
    have l: "length c = 1 \<and> rest = [] \<or> length c = 2 \<and> rest = [] \<or> length c = 3"
      using step(1) c by (cases bs; cases "tl bs"; cases "tl (tl bs)") auto
    have g: "group_bytes 6 (group_digits 6 c) = c" by (rule group_round_trip) simp_all
    have e: "encode_bytes 6 3 4 alphabet bs = map ((!) alphabet) (group_digits 6 c)
        @ replicate (4 - (8 * length c + 6 - 1) div 6) (CHR ''='') @ encode_bytes 6 3 4 alphabet rest"
      using encode_bytes_step [OF step(1), of 3 6 4 alphabet] c(1,2) by (simp add: encode_group_digits)
    note n = length_group_digits [of 6 c]
    from l show ?case
    proof (elim disjE conjE)
      assume "length c = 1" "rest = []"
      moreover then obtain i j where "group_digits 6 c = [i, j]" using list_of_length(1) n by fastforce
      ultimately show ?thesis using e g ix [of _ c] pad c(3) by (simp add: numeral_2_eq_2)
    next
      assume "length c = 2" "rest = []"
      moreover then obtain i j k where "group_digits 6 c = [i, j, k]" using list_of_length(2) n by fastforce
      ultimately show ?thesis using e g ix [of _ c] pad c(3) by simp
    next
      assume "length c = 3"
      moreover then obtain i j k m where "group_digits 6 c = [i, j, k, m]" using list_of_length(3) n by fastforce
      ultimately show ?thesis using e g ix [of _ c] c(2,3) step(2) by simp
    qed
  qed simp_all
  then show ?thesis using encoded_chars [OF assms] by (simp add: decode64_def encode64_def)
qed

text \<open>Reading digits of base 32 one after the other.\<close>

lemma decode_octet_digits:
  assumes "alphabet_ok 5 alphabet" "\<forall>d \<in> set ds. d < 32" "length acc + length ds < 8"
  shows "decode_octet alphabet acc (map ((!) alphabet) ds @ src) = decode_octet alphabet (acc @ ds) src"
  using assms(2,3)
proof (induction ds arbitrary: acc)
  case (Cons d ds)
  have "index_of (alphabet ! d) alphabet = Some d" "alphabet ! d \<noteq> CHR ''=''"
    using Cons.prems(1) alphabet_char [OF assms(1), of d] by simp_all
  then show ?case using Cons by simp
qed simp

lemma decode_octet_full:
  assumes "alphabet_ok 5 alphabet" "\<forall>d \<in> set ds. d < 32" "length ds = 8"
  shows "decode_octet alphabet [] (map ((!) alphabet) ds @ src)
    = map_option ((@) (group_bytes 5 ds)) (decode_octet alphabet [] src)"
proof -
  obtain es d where d: "ds = es @ [d]" "length es = 7"
    using assms(3) by (cases ds rule: rev_cases) auto
  have "index_of (alphabet ! d) alphabet = Some d" "alphabet ! d \<noteq> CHR ''=''"
    using assms(2) d alphabet_char [OF assms(1), of d] by simp_all
  then show ?thesis
    using decode_octet_digits [OF assms(1), of es "[]" "alphabet ! d # src"] assms(2) d by simp
qed

lemma decode_octet_padding:
  "length ds \<in> {2, 4, 5, 7} \<Longrightarrow>
     decode_octet alphabet ds (replicate (8 - length ds) (CHR ''='')) = Some (group_bytes 5 ds)"
proof -
  assume l: "length ds \<in> {2, 4, 5, 7}"
  then have r: "replicate (8 - length ds) (CHR ''='') = CHR ''='' # replicate (7 - length ds) (CHR ''='')"
    by (simp add: replicate_Suc [symmetric] Suc_diff_le [symmetric] del: replicate_Suc) auto
  show ?thesis using l unfolding r by (auto simp: list_ex_iff)
qed

lemma decode32_encode32:
  assumes "alphabet_ok 5 alphabet"
  shows "decode32 alphabet (encode32 alphabet bs) = Some bs"
proof -
  have "decode_octet alphabet [] (encode_bytes 5 5 8 alphabet bs) = Some bs"
  proof (induction bs rule: chunks_induct [where n = 5])
    case (step bs)
    obtain c rest where c: "c = take 5 bs" "rest = drop 5 bs" "c @ rest = bs" by simp
    have l: "0 < length c" "length c \<le> 5" "length c < 5 \<Longrightarrow> rest = []" using step(1) c by auto
    have g: "group_bytes 5 (group_digits 5 c) = c" by (rule group_round_trip) simp_all
    define k where "k = (8 * length c + 4) div 5"
    have n: "length (group_digits 5 c) = k" by (simp add: length_group_digits k_def)
    have less: "\<forall>d \<in> set (group_digits 5 c). d < 32" using group_digits_less [of _ 5 c] by simp
    have e: "encode_bytes 5 5 8 alphabet bs = map ((!) alphabet) (group_digits 5 c)
        @ replicate (8 - k) (CHR ''='') @ encode_bytes 5 5 8 alphabet rest"
      using encode_bytes_step [OF step(1), of 5 5 8 alphabet] c(1,2) by (simp add: encode_group_digits k_def)
    show ?case
    proof (cases "length c = 5")
      case True
      then show ?thesis
        using decode_octet_full [OF assms less] n e g step(2) c(2,3) by (simp add: k_def)
    next
      case False
      then have r: "rest = []" and "length c = 1 \<or> length c = 2 \<or> length c = 3 \<or> length c = 4"
        using l by linarith+
      from this(2) have k: "k \<in> {2, 4, 5, 7}" by (elim disjE) (simp_all add: k_def)
      have "decode_octet alphabet (group_digits 5 c) (replicate (8 - k) (CHR ''='')) = Some c"
        using decode_octet_padding [of "group_digits 5 c" alphabet] k n g by auto
      then show ?thesis
        using decode_octet_digits [OF assms less, of "[]" "replicate (8 - k) (CHR ''='')"] n k e r c(3) by auto
    qed
  qed simp_all
  then show ?thesis using encoded_chars [OF assms] by (simp add: decode32_def encode32_def)
qed

lemma to_digits_two: "to_digits base 2 n = [n div base mod base, n mod base]"
  by (simp add: numeral_2_eq_2)

lemma decode16_encode16: "decode16 (encode16 bs) = Some bs"
proof -
  have h: "is_hex (hex_lower ! d) \<and> hex_value (hex_lower ! d) = d" if "d < 16" for d
  proof -
    have "\<forall>d \<in> set [0..<16]. is_hex (hex_lower ! d) \<and> hex_value (hex_lower ! d) = d" by code_simp
    with that show ?thesis by simp
  qed
  show ?thesis
  proof (induction bs rule: chunks_induct [where n = 1])
    case (step bs)
    then obtain c rest where bs: "bs = c # rest" by (cases bs) auto
    have "rune c div 16 < 16" using rune_less [of c] by linarith
    then have "decode16 (encode_group 4 2 hex_lower [c] @ s) = map_option ((#) c) (decode16 s)" for s
      by (simp add: encode_group_def Let_def to_digits_two digits_value_def h)
    then show ?case
      using encode_bytes_step [OF step(1), of 1 4 2 hex_lower] step(2) unfolding bs encode16_def by simp
  qed (simp_all add: encode16_def)
qed

text \<open>C21: byte slices survive their text formats.  Whatever the bytes, what is written for them in
  a format that writes them as one string is read back in this format as the same bytes; without
  a format the slice is written in \<open>base64\<close>.\<close>

theorem byte_formats_round_trip:
  assumes "fmt \<in> {[], ''base64'', ''base64url'', ''base32'', ''base32hex'', ''base16'', ''hex'', ''string''}"
  shows "\<exists>s. marshalByteSliceValue bs fmt = Inr s
    \<and> decode_format s (if fmt = [] then ''base64'' else fmt) = Inr bs"
  using assms
  by (auto simp: marshalByteSliceValue_def decode_format_def decoded_def alphabets
      decode64_encode64 decode32_encode32 decode16_encode16)

lemma byte_formats_round_trip_witness:
  "\<exists>s. marshalByteSliceValue [CHR 0x00, CHR 0xFF] ''base32'' = Inr s
    \<and> decode_format s ''base32'' = Inr [CHR 0x00, CHR 0xFF]"
  using byte_formats_round_trip [of "''base32''" "[CHR 0x00, CHR 0xFF]"] by simp

end
