(* ===== verification/Index.thy ===== *)
theory Index
  imports Writing Codec
begin

text \<open>
  What the marshaler knows of a struct type: \<open>internal/marshaler/util.go\<close> and the index of
  \<open>typeindex.go\<close>.  The code keeps one entry for each type name in a map; the entry depends on the
  type only, so here it is computed from the type.  \<open>lower\<close> is \<open>unicode.ToLower\<close> beyond ASCII.
  The table of comments that a field tagged \<open>,structure\<close> can hold is in the theory \<open>Comments\<close>.
\<close>

section \<open>Names and tags\<close>

definition normalizeKey :: "(nat \<Rightarrow> nat) \<Rightarrow> bytes \<Rightarrow> bool \<Rightarrow> bytes" where
  "normalizeKey lower name caseSensitive =
     (if caseSensitive then TrimSpace name else ToLower lower (TrimSpace name))"

definition parseTagName :: "(nat \<Rightarrow> nat) \<Rightarrow> bytes \<Rightarrow> bytes" where
  "parseTagName lower tag = ToLower lower (fst (Cut tag (CHR '','')))"

definition fieldTagOrName :: "(nat \<Rightarrow> nat) \<Rightarrow> bytes \<Rightarrow> bytes \<Rightarrow> bool \<Rightarrow> bytes" where
  "fieldTagOrName lower tag name caseSensitive =
     (if tag \<noteq> [] \<and> parseTagName lower tag \<noteq> [] then parseTagName lower tag
      else normalizeKey lower name caseSensitive)"

fun split_commas :: "bytes \<Rightarrow> bytes list" where
  "split_commas [] = [[]]"
| "split_commas (c # s) =
     (if c = CHR '','' then [] # split_commas s
      else (case split_commas s of [] \<Rightarrow> [[c]] | p # ps \<Rightarrow> (c # p) # ps))"

definition fieldAttrs :: "bytes \<Rightarrow> bytes list" where
  "fieldAttrs tag = (if tag \<noteq> [] then tl (split_commas tag) else [])"

section \<open>Field details\<close>

record structFieldDetails =
  fd_FieldIndex :: nat
  fd_EmbedIndex :: "nat list"
  fd_Format :: bytes
  fd_Attrs :: "bytes list"

definition has_attr :: "structFieldDetails \<Rightarrow> bytes \<Rightarrow> bool" where
  "has_attr f attr \<longleftrightarrow> attr \<in> set (fd_Attrs f)"

definition IsMultiple :: "structFieldDetails \<Rightarrow> bool" where
  "IsMultiple f \<longleftrightarrow> has_attr f ''multiple''"

definition IsCapture :: "structFieldDetails \<Rightarrow> bool" where
  "IsCapture f \<longleftrightarrow> (\<exists>a \<in> set (fd_Attrs f). a \<in> {''arg'', ''args'', ''props'', ''children''})"

text \<open>The last attribute that gives a format counts.\<close>

definition format_attr :: "bytes list \<Rightarrow> bytes" where
  "format_attr attrs =
     (case rev (filter (prefix ''format:'') attrs) of [] \<Rightarrow> [] | a # _ \<Rightarrow> drop (length ''format:'') a)"

text \<open>
  \<open>indexStructFields\<close>: the exported fields in order, each with its normalized name; embedded
  structs are entered.  \<open>None\<close> is the error for an unexported field tagged \<open>,structure\<close>.
\<close>

fun indexStructFields ::
  "(nat \<Rightarrow> nat) \<Rightarrow> bool \<Rightarrow> nat list \<Rightarrow> nat \<Rightarrow> field list \<Rightarrow> (bytes \<times> structFieldDetails) list option" where
  "indexStructFields lower cs path n [] = Some []"
| "indexStructFields lower cs path n (Field name t tag anonymous exported # fs) =
     (case indexStructFields lower cs path (n + 1) fs of
        None \<Rightarrow> None
      | Some rest \<Rightarrow>
          (case (anonymous, t) of
             (True, TStruct _ gs) \<Rightarrow> map_option (\<lambda>inner. inner @ rest) (indexStructFields lower cs (path @ [n]) 0 gs)
           | _ \<Rightarrow>
               if \<not> exported then (if ''structure'' \<in> set (fieldAttrs tag) then None else Some rest)
               else Some ((fieldTagOrName lower tag name cs,
                           \<lparr>fd_FieldIndex = n, fd_EmbedIndex = path,
                            fd_Format = format_attr (fieldAttrs tag), fd_Attrs = fieldAttrs tag\<rparr>) # rest)))"

record typeDetails =
  td_StructFields :: "bytes \<rightharpoonup> structFieldDetails"
  td_StructAttrs :: "bytes \<Rightarrow> structFieldDetails list"
  td_StructFieldNameList :: "bytes list"

text \<open>
  A field tagged \<open>,structure\<close> is found by its attributes only.  Of two fields with one name the
  later is in the map; the list has the name twice.
\<close>

definition details_of :: "(bytes \<times> structFieldDetails) list \<Rightarrow> typeDetails" where
  "details_of fls =
     (let named = filter (\<lambda>p. \<not> has_attr (snd p) ''structure'') fls
      in \<lparr>td_StructFields = map_of (rev named),
          td_StructAttrs = (\<lambda>a. concat (map (\<lambda>p. map (\<lambda>_. snd p) (filter ((=) a) (fd_Attrs (snd p)))) fls)),
          td_StructFieldNameList = map fst named\<rparr>)"

definition struct_details :: "(nat \<Rightarrow> nat) \<Rightarrow> bool \<Rightarrow> gtype \<Rightarrow> typeDetails option" where
  "struct_details lower cs t =
     (case t of TStruct _ fs \<Rightarrow> map_option details_of (indexStructFields lower cs [] 0 fs) | _ \<Rightarrow> None)"

text \<open>\<open>indexType\<close> visits every type that a value of the type can hold; it fails on the error above.\<close>

fun indexType :: "(nat \<Rightarrow> nat) \<Rightarrow> bool \<Rightarrow> gtype \<Rightarrow> bool"
  and index_fields :: "(nat \<Rightarrow> nat) \<Rightarrow> bool \<Rightarrow> field list \<Rightarrow> bool" where
  "indexType lower cs (TPtr t) \<longleftrightarrow> indexType lower cs t"
| "indexType lower cs (TSlice t) \<longleftrightarrow> indexType lower cs t"
| "indexType lower cs (TArray n t) \<longleftrightarrow> indexType lower cs t"
| "indexType lower cs (TMap k v) \<longleftrightarrow> indexType lower cs k \<and> indexType lower cs v"
| "indexType lower cs (TStruct n fs) \<longleftrightarrow>
     indexStructFields lower cs [] 0 fs \<noteq> None \<and> index_fields lower cs fs"
| "indexType lower cs t \<longleftrightarrow> True"
| "index_fields lower cs [] \<longleftrightarrow> True"
| "index_fields lower cs (Field name t tag anonymous exported # fs) \<longleftrightarrow>
     index_fields lower cs fs \<and>
     (case (anonymous, t) of
        (True, TStruct _ gs) \<Rightarrow> index_fields lower cs gs
      | _ \<Rightarrow> \<not> exported \<or> ''structure'' \<in> set (fieldAttrs tag) \<or> indexType lower cs t)"

text \<open>\<open>IndexIntf\<close>: nil is not indexed; a type is indexed without its pointers.\<close>

definition IndexIntf :: "(nat \<Rightarrow> nat) \<Rightarrow> bool \<Rightarrow> iface \<Rightarrow> bool" where
  "IndexIntf lower cs x = (case x of None \<Rightarrow> True | Some (t, _) \<Rightarrow> indexType lower cs t)"

end
