(* ===== verification/Setting.thy ===== *)
theory Setting
  imports Index
begin

text \<open>
  How the unmarshaler sets one value (\<open>internal/marshaler/unmarshal.go\<close>, lines 132 to 600 and 1081
  to 1133).

  A \<open>reflect.Value\<close> is its type, its contents, and whether it can be set.  The code writes through
  it into the variable it stands for; here an operation returns the value with its new contents,
  and the caller puts it back where it came from.  A \<open>Set\<close> on a value that cannot be set panics,
  and so does one with a value of another type.  What a failed operation has already written is not
  kept.
\<close>

section \<open>Failures, values and options\<close>

datatype uerror =
    Convert convert_error
  | ResolvingSuffix convert_error
  | Decode decode_error
  | UnexpectedArguments bytes
  | ExpectsArguments bytes nat nat
  | UnexpectedProperties bytes "bytes list"
  | MissingProperties bytes "bytes list"
  | UnexpectedChildren bytes
  | NoField bytes
  | TooManyFields bytes
  | NotASlice bytes
  | NotAMap
  | ChildrenKind bytes
  | CannotSet gtype
  | CannotUnmarshal bytes gtype
  | SliceProperties bytes
  | BytesArguments nat
  | BytesProperties
  | BytesChildren
  | OnlyMapsAndSlices
  | StructOrMap
  | NeedPointer
  | UnexportedStructure
  | UserError bytes
  | AtNode bytes uerror

text \<open>\<open>Outside\<close> is a destination the model has no account of: \<open>*big.Int\<close>, \<open>*big.Float\<close>, \<open>SuffixedDecimal\<close>.\<close>

datatype failure = Fails uerror | Panics | Outside

datatype rv = RV (rv_set: bool) (rv_type: gtype) (rv_val: gval)

text \<open>
  The options of \<open>UnmarshalOptions\<close>, and what the code gets from elsewhere: \<open>unicode.ToLower\<close>, the
  \<open>%v\<close> format, the order in which a map of properties is walked, and the methods of struct types
  (\<open>UnmarshalText\<close>, \<open>UnmarshalKDLValue\<close>, \<open>UnmarshalKDL\<close>, where a type has them).  Functions
  registered with \<open>AddCustom...\<close> are left out.
\<close>

record unmarshalContext =
  u_AllowUnhandledNodes :: bool
  u_AllowUnhandledArgs :: bool
  u_AllowUnhandledProps :: bool
  u_AllowUnhandledChildren :: bool
  u_RelaxedNonCompliant :: flags
  u_CaseSensitive :: bool
  u_lower :: "nat \<Rightarrow> nat"
  u_sprint :: "gtype \<Rightarrow> gval \<Rightarrow> bytes"
  u_walk :: "properties \<Rightarrow> (bytes \<times> kdl_value) list"
  u_text :: "gtype \<Rightarrow> (bytes \<Rightarrow> gval \<Rightarrow> failure + gval) option"
  u_value :: "gtype \<Rightarrow> (kdl_value \<Rightarrow> gval \<Rightarrow> failure + gval) option"
  u_node :: "gtype \<Rightarrow> (dnode \<Rightarrow> gval \<Rightarrow> failure + gval) option"

text \<open>Without user code, properties walked in their order.\<close>

definition plain_context :: unmarshalContext where
  "plain_context =
     \<lparr>u_AllowUnhandledNodes = False, u_AllowUnhandledArgs = False, u_AllowUnhandledProps = False,
      u_AllowUnhandledChildren = False, u_RelaxedNonCompliant = 0, u_CaseSensitive = False,
      u_lower = (\<lambda>r. r), u_sprint = (\<lambda>_ _. []),
      u_walk = (\<lambda>p. concat (map (\<lambda>k. case Get p k of None \<Rightarrow> [] | Some v \<Rightarrow> [(k, v)]) (order p))),
      u_text = (\<lambda>_. None), u_value = (\<lambda>_. None), u_node = (\<lambda>_. None)\<rparr>"

definition fails :: "uerror \<Rightarrow> failure + 'a" where
  "fails e = Inl (Fails e)"

definition wrap_error :: "('e \<Rightarrow> uerror) \<Rightarrow> 'e + 'a \<Rightarrow> failure + 'a" where
  "wrap_error f r = (case r of Inl e \<Rightarrow> Inl (Fails (f e)) | Inr x \<Rightarrow> Inr x)"

primrec fold_res :: "('a \<Rightarrow> 's \<Rightarrow> 'e + 's) \<Rightarrow> 'a list \<Rightarrow> 's \<Rightarrow> 'e + 's" where
  "fold_res f [] s = Inr s"
| "fold_res f (x # xs) s = bind_res (f x s) (fold_res f xs)"

section \<open>Set, and going through one pointer\<close>

text \<open>What is stored when a value goes into a place of type \<open>t\<close>.\<close>

definition assign :: "gtype \<Rightarrow> rv \<Rightarrow> failure + gval" where
  "assign t r =
     (if rv_type r = t then Inr (rv_val r)
      else if t = TInterface then Inr (GIface (Some (rv_type r, rv_val r)))
      else Inl Panics)"

definition set_to :: "gtype \<Rightarrow> gval \<Rightarrow> rv \<Rightarrow> failure + rv" where
  "set_to t x v =
     (if rv_set v then bind_res (assign (rv_type v) (RV False t x)) (\<lambda>y. Inr (RV True (rv_type v) y))
      else Inl Panics)"

definition is_big :: "gtype \<Rightarrow> bool" where
  "is_big t \<longleftrightarrow> t = TBigInt \<or> t = TBigFloat"

definition createAndIndirect :: "rv \<Rightarrow> failure + rv \<times> bool" where
  "createAndIndirect v =
     (if is_big (rv_type v) then Inl Outside
      else
        (case (rv_type v, rv_val v) of
           (TPtr t, GPtr (Some x)) \<Rightarrow> Inr (RV True t x, True)
         | (TPtr t, _) \<Rightarrow> if rv_set v then Inr (RV True t (zero t), True) else Inl Panics
         | _ \<Rightarrow> Inr (v, False)))"

definition withCreatedAndIndirected :: "rv \<Rightarrow> (rv \<Rightarrow> failure + rv) \<Rightarrow> failure + rv" where
  "withCreatedAndIndirected v f =
     bind_res (createAndIndirect v) (\<lambda>(w, indirected).
       bind_res (f w) (\<lambda>r.
         if indirected then
           bind_res (assign (rv_type w) r) (\<lambda>x. Inr (RV (rv_set v) (rv_type v) (GPtr (Some x))))
         else if rv_set v then bind_res (assign (rv_type v) r) (\<lambda>x. Inr (RV True (rv_type v) x))
         else Inr r))"

text \<open>The value whose pointer was followed, and back.\<close>

definition outer :: "rv \<Rightarrow> rv \<Rightarrow> rv" where
  "outer dest w =
     (case rv_type dest of TPtr t \<Rightarrow> RV (rv_set dest) (TPtr t) (GPtr (Some (rv_val w))) | _ \<Rightarrow> w)"

definition inner :: "rv \<Rightarrow> rv" where
  "inner d =
     (case (rv_type d, rv_val d) of (TPtr t, GPtr (Some x)) \<Rightarrow> RV True t x | _ \<Rightarrow> d)"

section \<open>User methods\<close>

definition base_type :: "gtype \<Rightarrow> gtype" where
  "base_type t = (case t of TPtr u \<Rightarrow> u | _ \<Rightarrow> t)"

definition is_struct :: "gtype \<Rightarrow> bool" where
  "is_struct t = (case t of TStruct _ _ \<Rightarrow> True | _ \<Rightarrow> False)"

definition text_method :: "unmarshalContext \<Rightarrow> gtype \<Rightarrow> (bytes \<Rightarrow> gval \<Rightarrow> failure + gval) option" where
  "text_method c t = (if is_struct t then u_text c t else None)"

definition value_method :: "unmarshalContext \<Rightarrow> gtype \<Rightarrow> (kdl_value \<Rightarrow> gval \<Rightarrow> failure + gval) option" where
  "value_method c t = (if is_struct t then u_value c t else None)"

definition node_method :: "unmarshalContext \<Rightarrow> gtype \<Rightarrow> (dnode \<Rightarrow> gval \<Rightarrow> failure + gval) option" where
  "node_method c t = (if is_struct t then u_node c t else None)"

text \<open>
  A method works on a pointer.  Through a nil pointer it gets a new value; without a pointer it
  works on a copy, which is stored back when the value can be set.
\<close>

definition callStructMethod :: "rv \<Rightarrow> (gval \<Rightarrow> failure + gval) \<Rightarrow> failure + rv" where
  "callStructMethod v method =
     (case (rv_type v, rv_val v) of
        (TPtr t, GPtr (Some x)) \<Rightarrow> bind_res (method x) (\<lambda>y. Inr (RV (rv_set v) (TPtr t) (GPtr (Some y))))
      | (TPtr t, _) \<Rightarrow>
          if rv_set v then bind_res (method (zero t)) (\<lambda>y. Inr (RV True (TPtr t) (GPtr (Some y)))) else Inl Panics
      | (t, x) \<Rightarrow> bind_res (method x) (\<lambda>y. Inr (if rv_set v then RV True t y else v)))"

text \<open>\<open>None\<close>: the type has no method, the value is not handled.\<close>

definition unmarshalIntfWithUnmarshaler :: "unmarshalContext \<Rightarrow> rv \<Rightarrow> go_value \<Rightarrow> failure + rv option" where
  "unmarshalIntfWithUnmarshaler c dest v =
     (let t = base_type (rv_type dest) in
      case value_method c t of
        Some m \<Rightarrow> bind_res (callStructMethod dest (m (no_value\<lparr>v_Value := v\<rparr>))) (\<lambda>r. Inr (Some r))
      | None \<Rightarrow>
          (case text_method c t of
             Some m \<Rightarrow> bind_res (callStructMethod dest (m (ToString (u_sprint c) (iface_of v)))) (\<lambda>r. Inr (Some r))
           | None \<Rightarrow> Inr None))"

definition unmarshalDocumentValueWithUnmarshaler :: "unmarshalContext \<Rightarrow> rv \<Rightarrow> kdl_value \<Rightarrow> failure + rv option" where
  "unmarshalDocumentValueWithUnmarshaler c dest dv =
     (let t = base_type (rv_type dest) in
      case value_method c t of
        Some m \<Rightarrow> bind_res (callStructMethod dest (m dv)) (\<lambda>r. Inr (Some r))
      | None \<Rightarrow>
          (case text_method c t of
             Some m \<Rightarrow> bind_res (callStructMethod dest (m (ValueString dv))) (\<lambda>r. Inr (Some r))
           | None \<Rightarrow> Inr None))"

section \<open>One value\<close>

text \<open>\<open>IsType\<close> looks through an interface.\<close>

definition is_duration :: "rv \<Rightarrow> bool" where
  "is_duration v \<longleftrightarrow> rv_type v = TDuration \<or> (\<exists>x. rv_type v = TInterface \<and> rv_val v = GIface (Some (TDuration, x)))"

lemma is_duration_code [code]:
  "is_duration v \<longleftrightarrow> rv_type v = TDuration \<or>
     (rv_type v = TInterface \<and> (case rv_val v of GIface (Some (t, _)) \<Rightarrow> t = TDuration | _ \<Rightarrow> False))"
  by (auto simp: is_duration_def split: gval.splits option.splits)

definition set_duration :: "unmarshalContext \<Rightarrow> rv \<Rightarrow> iface \<Rightarrow> bytes \<Rightarrow> failure + rv" where
  "set_duration c dest iv fmt =
     bind_res (wrap_error Convert (unmarshalValueDuration (u_sprint c) iv fmt))
       (\<lambda>d. set_to TDuration (GInt d) dest)"

definition handleFormatIntf :: "unmarshalContext \<Rightarrow> rv \<Rightarrow> iface \<Rightarrow> bytes \<Rightarrow> failure + rv option" where
  "handleFormatIntf c dest iv fmt =
     (if is_duration dest then bind_res (set_duration c dest iv fmt) (\<lambda>r. Inr (Some r))
      else if rv_type dest = TFloat then Inr None
      else fails (Convert (InvalidFormat fmt)))"

definition suffixed_parts :: "iface \<Rightarrow> (bytes \<times> bytes) option" where
  "suffixed_parts x =
     (case x of
        Some (TSuffixed, GSuffixed num suf) \<Rightarrow> Some (num, suf)
      | Some (TString, GString s) \<Rightarrow> (case ParseSuffixedDecimal s of Inl _ \<Rightarrow> None | Inr p \<Rightarrow> Some p)
      | _ \<Rightarrow> None)"

definition resolveSuffixedDecimal :: "gtype \<Rightarrow> iface \<Rightarrow> convert_error + iface" where
  "resolveSuffixedDecimal t x =
     (case suffixed_parts x of
        None \<Rightarrow> Inr x
      | Some (num, suf) \<Rightarrow>
          (let text = Some (TString, GString (suffixed_string num suf));
               number = bind_res (AsNumber num suf) (\<lambda>n. Inr (iface_of n))
           in case t of
                TBool \<Rightarrow> Inr text
              | TString \<Rightarrow> Inr text
              | TExpression \<Rightarrow> Inr text
              | TSlice _ \<Rightarrow> Inr text
              | TArray _ _ \<Rightarrow> Inr text
              | TInterface \<Rightarrow> Inr text
              | TDuration \<Rightarrow> bind_res (AsDuration num suf) (\<lambda>d. Inr (Some (TDuration, GInt d)))
              | TInt _ \<Rightarrow> number
              | TUint _ \<Rightarrow> number
              | TFloat \<Rightarrow> number
              | _ \<Rightarrow> Inr x))"

definition nonfinite_names :: "bytes list" where
  "nonfinite_names = [''+Inf'', ''-Inf'', ''Inf'', ''NaN'']"

definition finite_value :: "bytes \<Rightarrow> iface \<Rightarrow> iface" where
  "finite_value fmt x =
     (case x of
        Some (TString, GString s) \<Rightarrow>
          if fmt \<noteq> ''nonfinite'' \<and> s \<in> set nonfinite_names then Some (TFloat, GFloat float_zero) else x
      | _ \<Rightarrow> x)"

text \<open>An interface that already holds something is not set itself: what it holds is, and cannot be.\<close>

definition set_interface :: "iface \<Rightarrow> rv \<Rightarrow> failure + rv" where
  "set_interface x v =
     (case rv_val v of
        GIface None \<Rightarrow> if rv_set v then Inr (RV True TInterface (GIface x)) else Inl Panics
      | _ \<Rightarrow> Inl Panics)"

definition directSetReflectValueFromIntf ::
  "unmarshalContext \<Rightarrow> rv \<Rightarrow> iface \<Rightarrow> bytes \<Rightarrow> failure + rv" where
  "directSetReflectValueFromIntf c v val0 fmt =
     bind_res
       (if permit (u_RelaxedNonCompliant c) MultiplierSuffixes
        then wrap_error ResolvingSuffix (resolveSuffixedDecimal (rv_type v) val0) else Inr val0)
       (\<lambda>val.
         case rv_type v of
           TBool \<Rightarrow> set_to TBool (GBool (ToBool val)) v
         | TInt w \<Rightarrow> set_to (TInt w) (GInt (wrap_int w (ToInt64 val))) v
         | TDuration \<Rightarrow> set_duration c v val fmt
         | TUint w \<Rightarrow> set_to (TUint w) (GInt (wrap_uint w (ToUint64 val))) v
         | TFloat \<Rightarrow> set_to TFloat (GFloat (ToFloat64 (finite_value fmt val))) v
         | TString \<Rightarrow> set_to TString (GString (ToString (u_sprint c) val)) v
         | TExpression \<Rightarrow> set_to TExpression (GString (ToString (u_sprint c) val)) v
         | TInterface \<Rightarrow> set_interface val v
         | t \<Rightarrow> fails (CannotSet t))"

definition setReflectValueFromIntf ::
  "unmarshalContext \<Rightarrow> rv \<Rightarrow> go_value \<Rightarrow> bytes \<Rightarrow> failure + rv" where
  "setReflectValueFromIntf c dest val fmt =
     withCreatedAndIndirected dest (\<lambda>v.
       let d = outer dest v in
       bind_res (if fmt \<noteq> [] then handleFormatIntf c d (iface_of val) fmt else Inr None) (\<lambda>formatted.
         case formatted of
           Some r \<Rightarrow> Inr (inner r)
         | None \<Rightarrow>
             bind_res (unmarshalIntfWithUnmarshaler c d val) (\<lambda>unmarshaled.
               case unmarshaled of
                 Some r \<Rightarrow> Inr (inner r)
               | None \<Rightarrow> directSetReflectValueFromIntf c v (iface_of val) fmt)))"

definition setReflectValueFromDocumentValue ::
  "unmarshalContext \<Rightarrow> rv \<Rightarrow> kdl_value \<Rightarrow> bytes \<Rightarrow> failure + rv" where
  "setReflectValueFromDocumentValue c dest dv fmt =
     withCreatedAndIndirected dest (\<lambda>v.
       let d = outer dest v in
       bind_res (if fmt \<noteq> [] then handleFormatIntf c d (iface_of (ResolvedValue dv)) fmt else Inr None) (\<lambda>formatted.
         case formatted of
           Some r \<Rightarrow> Inr (inner r)
         | None \<Rightarrow>
             bind_res (unmarshalDocumentValueWithUnmarshaler c d dv) (\<lambda>unmarshaled.
               case unmarshaled of
                 Some r \<Rightarrow> Inr (inner r)
               | None \<Rightarrow> directSetReflectValueFromIntf c v (iface_of (ResolvedValue dv)) fmt)))"

end
