(* ===== verification/Unmarshal.thy ===== *)
theory Unmarshal
  imports Setting
begin

text \<open>
  The unmarshaler (\<open>internal/marshaler/unmarshal.go\<close>): from the nodes of a document into a Go
  value.  The functions of the code call each other around the children of a node; here each takes
  the children with what unmarshals one of them (\<open>kids\<close>), and \<open>unmarshalNodeToValue\<close> ties the knot.
\<close>

section \<open>Nodes\<close>

definition with_args :: "dnode \<Rightarrow> kdl_value list \<Rightarrow> dnode" where
  "with_args n args = DNode (dn_Name n) (dn_Type n) args (dn_Properties n) (dn_Children n) (dn_Comment n)"

text \<open>What unmarshals a node with given arguments into a value, with a format.\<close>

type_synonym handler = "kdl_value list \<Rightarrow> bytes \<Rightarrow> rv \<Rightarrow> failure + rv"

text \<open>\<open>Name.ValueString()\<close>, where the name is not nil.\<close>

definition name_text :: "dnode \<Rightarrow> bytes" where
  "name_text n = (case dn_Name n of None \<Rightarrow> [] | Some v \<Rightarrow> ValueString v)"

definition verifyArgsPropsChildren ::
  "unmarshalContext \<Rightarrow> dnode \<Rightarrow> nat \<Rightarrow> bytes list \<Rightarrow> bool \<Rightarrow> failure + unit" where
  "verifyArgsPropsChildren c n expectedArgs expectedProps allowChildren =
     (let argCount = length (dn_Arguments n);
          props = dn_Properties n;
          name = name_text n;
          missing = filter (\<lambda>p. Len props = 0 \<or> Get props p = None) expectedProps;
          extra = filter (\<lambda>p. p \<notin> set expectedProps) (map fst (u_walk c props))
      in if argCount < expectedArgs \<or> (\<not> u_AllowUnhandledArgs c \<and> argCount > expectedArgs)
         then fails (ExpectsArguments name expectedArgs argCount)
         else if missing \<noteq> [] then fails (MissingProperties name missing)
         else if \<not> u_AllowUnhandledProps c \<and> Len props > 0 \<and> (expectedProps = [] \<or> extra \<noteq> [])
         then fails (UnexpectedProperties name extra)
         else if \<not> allowChildren \<and> dn_Children n \<noteq> [] then fails (UnexpectedChildren name)
         else Inr ())"

section \<open>Fields of a struct\<close>

fun field_at :: "nat list \<Rightarrow> gtype \<Rightarrow> gval \<Rightarrow> gtype \<times> gval" where
  "field_at (i # path) (TStruct _ fs) (GStruct vs) = field_at path (f_type (fs ! i)) (vs ! i)"
| "field_at _ t v = (t, v)"

fun put_at :: "nat list \<Rightarrow> gval \<Rightarrow> gval \<Rightarrow> gval" where
  "put_at (i # path) (GStruct vs) x = GStruct (vs[i := put_at path (vs ! i) x])"
| "put_at _ v x = x"

definition field_path :: "structFieldDetails \<Rightarrow> nat list" where
  "field_path f = fd_EmbedIndex f @ [fd_FieldIndex f]"

definition GetValueFrom :: "structFieldDetails \<Rightarrow> rv \<Rightarrow> rv" where
  "GetValueFrom f s =
     (case field_at (field_path f) (rv_type s) (rv_val s) of (t, x) \<Rightarrow> RV (rv_set s) t x)"

text \<open>
  The struct after its field has been worked on.  In a struct that cannot be set nothing changes
  but what the field points to.
\<close>

definition shared :: "gtype \<Rightarrow> bool" where
  "shared t = (case t of TPtr _ \<Rightarrow> True | TMap _ _ \<Rightarrow> True | TStruct _ _ \<Rightarrow> True | _ \<Rightarrow> False)"

definition SetValueIn :: "structFieldDetails \<Rightarrow> rv \<Rightarrow> rv \<Rightarrow> rv" where
  "SetValueIn f s r =
     (let old = GetValueFrom f s
      in if rv_set s \<or> shared (rv_type old) then RV (rv_set s) (rv_type s) (put_at (field_path f) (rv_val s) (rv_val r))
         else s)"

definition details :: "unmarshalContext \<Rightarrow> gtype \<Rightarrow> typeDetails option" where
  "details c t = struct_details (u_lower c) (u_CaseSensitive c) t"

definition safe_key :: "unmarshalContext \<Rightarrow> bytes \<Rightarrow> bytes" where
  "safe_key c k = normalizeKey (u_lower c) k (u_CaseSensitive c)"

section \<open>Maps and slices\<close>

definition indirectKind :: "rv \<Rightarrow> gtype" where
  "indirectKind v = base_type (rv_type v)"

definition createMapIfNil :: "rv \<Rightarrow> failure + rv" where
  "createMapIfNil m =
     (case rv_val m of
        GMap None \<Rightarrow> if rv_set m then Inr (RV True (rv_type m) (GMap (Some []))) else Inl Panics
      | GMap (Some _) \<Rightarrow> Inr m
      | _ \<Rightarrow> Inl Panics)"

text \<open>\<open>SetMapIndex\<close>; keys are compared as values, so that a NaN is found again, which Go never does.\<close>

fun map_put :: "gval \<Rightarrow> gval \<Rightarrow> (gval \<times> gval) list \<Rightarrow> (gval \<times> gval) list" where
  "map_put k v [] = [(k, v)]"
| "map_put k v ((a, b) # kvs) = (if a = k then (k, v) # kvs else (a, b) # map_put k v kvs)"

definition entries :: "rv \<Rightarrow> (gval \<times> gval) list" where
  "entries m = (case rv_val m of GMap (Some kvs) \<Rightarrow> kvs | _ \<Rightarrow> [])"

definition SetMapIndex :: "rv \<Rightarrow> gval \<Rightarrow> gval \<Rightarrow> rv" where
  "SetMapIndex m k v = RV (rv_set m) (rv_type m) (GMap (Some (map_put k v (entries m))))"

definition key_type :: "gtype \<Rightarrow> gtype" where
  "key_type t = (case t of TMap k _ \<Rightarrow> k | _ \<Rightarrow> t)"

definition elem_type :: "gtype \<Rightarrow> gtype" where
  "elem_type t = (case t of TMap _ u \<Rightarrow> u | TSlice u \<Rightarrow> u | TArray _ u \<Rightarrow> u | _ \<Rightarrow> t)"

definition is_pointer :: "gtype \<Rightarrow> bool" where
  "is_pointer t = (case t of TPtr _ \<Rightarrow> True | _ \<Rightarrow> is_big t)"

definition is_map :: "gtype \<Rightarrow> bool" where
  "is_map t = (case t of TMap _ _ \<Rightarrow> True | _ \<Rightarrow> False)"

definition new_value :: "gtype \<Rightarrow> rv" where
  "new_value t = RV True t (zero t)"

text \<open>
  A key of pointer type is followed before there is anything behind it.  An entry that is there
  already cannot be set, unless it is a pointer.
\<close>

definition setMapKeyValueFromIntf :: "unmarshalContext \<Rightarrow> go_value \<Rightarrow> go_value \<Rightarrow> rv \<Rightarrow> failure + rv" where
  "setMapKeyValueFromIntf c key v m =
     (let kt = key_type (rv_type m); vt = elem_type (rv_type m); u = base_type vt
      in if is_pointer kt then Inl Panics
         else
           bind_res (setReflectValueFromIntf c (new_value kt) key []) (\<lambda>k.
             case map_of (entries m) (rv_val k) of
               None \<Rightarrow>
                 bind_res (setReflectValueFromIntf c (new_value u) v []) (\<lambda>x.
                   Inr (SetMapIndex m (rv_val k) (if vt = u then rv_val x else GPtr (Some (rv_val x)))))
             | Some (GPtr (Some y)) \<Rightarrow>
                 bind_res (setReflectValueFromIntf c (RV True u y) v []) (\<lambda>x.
                   Inr (SetMapIndex m (rv_val k) (GPtr (Some (rv_val x)))))
             | Some (GPtr None) \<Rightarrow> bind_res (setReflectValueFromIntf c (new_value u) v []) (\<lambda>x. Inl Panics)
             | Some y \<Rightarrow> bind_res (setReflectValueFromIntf c (RV False vt y) v []) (\<lambda>x. Inl Panics)))"

definition setMapKeyValueFromFunc ::
  "unmarshalContext \<Rightarrow> go_value \<Rightarrow> (rv \<Rightarrow> failure + rv) \<Rightarrow> rv \<Rightarrow> failure + rv" where
  "setMapKeyValueFromFunc c key f m =
     (let kt = key_type (rv_type m); vt = elem_type (rv_type m)
      in bind_res (setReflectValueFromIntf c (new_value (base_type kt)) key []) (\<lambda>k.
           if is_pointer kt then Inl Panics
           else
             bind_res
               (f (case map_of (entries m) (rv_val k) of None \<Rightarrow> new_value vt | Some y \<Rightarrow> RV False vt y)) (\<lambda>r.
               bind_res (assign vt r) (\<lambda>x. Inr (SetMapIndex m (rv_val k) x)))))"

text \<open>\<open>IsNil\<close> of an array panics.\<close>

definition newValueForSlice :: "rv \<Rightarrow> rv" where [simp]:
  "newValueForSlice s = new_value (elem_type (rv_type s))"

definition createSliceIfNil :: "rv \<Rightarrow> failure + rv" where
  "createSliceIfNil s =
     (case rv_val s of
        GSlice None \<Rightarrow> if rv_set s then Inr (RV True (rv_type s) (GSlice (Some []))) else Inl Panics
      | GSlice (Some _) \<Rightarrow> Inr s
      | _ \<Rightarrow> Inl Panics)"

text \<open>The result of \<open>reflect.Append\<close> is a new value, which cannot be set.\<close>

definition Append :: "rv \<Rightarrow> rv \<Rightarrow> failure + rv" where
  "Append s el =
     bind_res (assign (elem_type (rv_type s)) el) (\<lambda>x.
       case rv_val s of
         GSlice (Some vs) \<Rightarrow> Inr (RV False (rv_type s) (GSlice (Some (vs @ [x]))))
       | _ \<Rightarrow> Inr (RV False (rv_type s) (GSlice (Some [x]))))"

definition addArgumentsToSlice :: "unmarshalContext \<Rightarrow> kdl_value list \<Rightarrow> rv \<Rightarrow> failure + rv" where
  "addArgumentsToSlice c args sl =
     fold_res (\<lambda>a s.
       bind_res (setReflectValueFromIntf c (newValueForSlice s) (ResolvedValue a) []) (Append s))
       args sl"

definition bytes_value :: "bytes \<Rightarrow> gval" where
  "bytes_value bs = GSlice (Some (map (\<lambda>b. GInt (int (rune b))) bs))"

definition unmarshalNodeToByteSlice :: "unmarshalContext \<Rightarrow> dnode \<Rightarrow> bytes \<Rightarrow> rv \<Rightarrow> failure + rv" where
  "unmarshalNodeToByteSlice c n fmt0 sl =
     (let args = dn_Arguments n in
      if args = [] then fails (BytesArguments 0)
      else if Len (dn_Properties n) \<noteq> 0 then fails BytesProperties
      else if dn_Children n \<noteq> [] then fails BytesChildren
      else
        let fmt = (if fmt0 \<noteq> [] then fmt0
                   else if length args > 1 \<or> IsNumeric (u_sprint c) (iface_of (v_Value (hd args))) then ''array''
                   else ''base64'')
        in bind_res
             (if fmt = ''array'' then Inr (map (\<lambda>a. char_of (nat (ToByte (iface_of (ResolvedValue a))))) args)
              else if length args \<noteq> 1 then fails (BytesArguments (length args))
              else wrap_error Decode (decode_format (ValueString (hd args)) fmt))
             (\<lambda>bs. set_to (TSlice (TUint 8)) (bytes_value bs) sl))"

text \<open>A property in a slice: key and value as a slice of two, or as one string.\<close>

definition add_property :: "unmarshalContext \<Rightarrow> bytes \<times> kdl_value \<Rightarrow> rv \<Rightarrow> failure + rv" where
  "add_property c p s =
     (case elem_type (rv_type s) of
        TInterface \<Rightarrow>
          Append s (RV True (TSlice TInterface)
            (GSlice (Some [GIface (Some (TString, GString (fst p))), GIface (iface_of (ResolvedValue (snd p)))])))
      | t \<Rightarrow>
          bind_res (setReflectValueFromIntf c (new_value t) (VString (fst p @ ''='' @ ValueString (snd p))) [])
            (Append s))"

definition unmarshalNodeToSlice :: "unmarshalContext \<Rightarrow> dnode \<Rightarrow> bytes \<Rightarrow> rv \<Rightarrow> failure + rv" where
  "unmarshalNodeToSlice c n fmt sl =
     (let t = elem_type (rv_type sl) in
      if t = TUint 8 then unmarshalNodeToByteSlice c n fmt sl
      else
        bind_res (createSliceIfNil sl) (\<lambda>s.
        bind_res (addArgumentsToSlice c (dn_Arguments n) s) (\<lambda>s.
          if Len (dn_Properties n) = 0 then Inr s
          else if t \<notin> {TInterface, TString, TExpression} then fails (SliceProperties (name_text n))
          else fold_res (add_property c) (u_walk c (dn_Properties n)) s)))"

section \<open>Nodes into maps\<close>

definition child_to_map :: "unmarshalContext \<Rightarrow> dnode \<times> handler \<Rightarrow> rv \<Rightarrow> failure + rv" where
  "child_to_map c kid m =
     (case dn_Name (fst kid) of
        None \<Rightarrow> Inl Panics
      | Some name \<Rightarrow>
          setMapKeyValueFromFunc c (ResolvedValue name) (snd kid (dn_Arguments (fst kid)) []) m)"

definition unmarshalNodeToMap :: "unmarshalContext \<Rightarrow> dnode \<Rightarrow> (dnode \<times> handler) list \<Rightarrow> rv \<Rightarrow> failure + rv" where
  "unmarshalNodeToMap c n kids m0 =
     bind_res (createMapIfNil m0) (\<lambda>m.
     bind_res (fold_res (\<lambda>(i, a). setMapKeyValueFromIntf c (VInt (int i)) (ResolvedValue a))
       (List.enumerate 0 (dn_Arguments n)) m) (\<lambda>m.
     bind_res (fold_res (\<lambda>(k, v). setMapKeyValueFromIntf c (VString k) (ResolvedValue v))
       (u_walk c (dn_Properties n)) m) (\<lambda>m.
     fold_res (child_to_map c) kids m)))"

definition unmarshalNodesToMap :: "unmarshalContext \<Rightarrow> (dnode \<times> handler) list \<Rightarrow> rv \<Rightarrow> failure + rv" where
  "unmarshalNodesToMap c kids m0 =
     withCreatedAndIndirected m0 (\<lambda>m. bind_res (createMapIfNil m) (fold_res (child_to_map c) kids))"

fun unmarshalNodeToMultiDimensionalMap ::
  "unmarshalContext \<Rightarrow> handler \<Rightarrow> kdl_value list \<Rightarrow> rv \<Rightarrow> failure + rv" where
  "unmarshalNodeToMultiDimensionalMap c h [] m = bind_res (createMapIfNil m) (\<lambda>m. Inl Panics)"
| "unmarshalNodeToMultiDimensionalMap c h (a # args) m =
     bind_res (createMapIfNil m)
       (setMapKeyValueFromFunc c (ResolvedValue a) (\<lambda>v.
          if is_map (rv_type v) \<and> args \<noteq> [] then unmarshalNodeToMultiDimensionalMap c h args v
          else h args [] v))"

definition unmarshalNodeToMultiple :: "unmarshalContext \<Rightarrow> dnode \<Rightarrow> handler \<Rightarrow> rv \<Rightarrow> failure + rv" where
  "unmarshalNodeToMultiple c n h v =
     withCreatedAndIndirected v (\<lambda>d.
       case rv_type d of
         TMap _ _ \<Rightarrow> unmarshalNodeToMultiDimensionalMap c h (dn_Arguments n) d
       | TSlice t \<Rightarrow>
           bind_res (createSliceIfNil d) (\<lambda>d. bind_res (h (dn_Arguments n) [] (new_value t)) (Append d))
       | TArray _ _ \<Rightarrow> Inl Panics
       | _ \<Rightarrow> fails OnlyMapsAndSlices)"

section \<open>Nodes into structs\<close>

definition unmarshalNodeToStructField :: "unmarshalContext \<Rightarrow> dnode \<times> handler \<Rightarrow> rv \<Rightarrow> failure + rv" where
  "unmarshalNodeToStructField c kid s =
     (case (dn_Name (fst kid), details c (rv_type s)) of
        (Some name, Some d) \<Rightarrow>
          (case td_StructFields d (safe_key c (ValueString name)) of
             None \<Rightarrow> if u_AllowUnhandledNodes c then Inr s else fails (NoField (ValueString name))
           | Some f \<Rightarrow>
               let field = GetValueFrom f s in
               bind_res
                 (if IsMultiple f then
                    if rv_set field then unmarshalNodeToMultiple c (fst kid) (snd kid) field else Inl Panics
                  else snd kid (dn_Arguments (fst kid)) (fd_Format f) field)
                 (\<lambda>r. Inr (SetValueIn f s r)))
      | _ \<Rightarrow> Inl Panics)"

definition unmarshalNodesToStruct :: "unmarshalContext \<Rightarrow> (dnode \<times> handler) list \<Rightarrow> rv \<Rightarrow> failure + rv" where
  "unmarshalNodesToStruct c kids v =
     withCreatedAndIndirected v (fold_res (unmarshalNodeToStructField c) kids)"

text \<open>The fields tagged \<open>,arg\<close>, one argument each; it panics when there are fewer arguments.\<close>

fun arg_fields_loop ::
  "unmarshalContext \<Rightarrow> structFieldDetails list \<Rightarrow> kdl_value list \<Rightarrow> rv \<Rightarrow> failure + kdl_value list \<times> rv" where
  "arg_fields_loop c [] args s = Inr (args, s)"
| "arg_fields_loop c (f # fs) [] s = Inl Panics"
| "arg_fields_loop c (f # fs) (a # args) s =
     bind_res
       (withCreatedAndIndirected (GetValueFrom f s)
         (\<lambda>v. setReflectValueFromIntf c v (ResolvedValue a) (fd_Format f)))
       (\<lambda>r. arg_fields_loop c fs args (SetValueIn f s r))"

definition args_field :: "unmarshalContext \<Rightarrow> bytes \<Rightarrow> structFieldDetails list \<Rightarrow> kdl_value list \<Rightarrow> rv \<Rightarrow> failure + rv" where
  "args_field c name fs args s =
     (case fs of
        [] \<Rightarrow> Inr s
      | f # _ \<Rightarrow>
          bind_res
            (withCreatedAndIndirected (GetValueFrom f s) (\<lambda>sl.
               case rv_type sl of
                 TSlice _ \<Rightarrow> bind_res (createSliceIfNil sl) (addArgumentsToSlice c args)
               | TArray _ _ \<Rightarrow> Inl Panics
               | _ \<Rightarrow> fails (NotASlice name)))
            (\<lambda>r. Inr (SetValueIn f s r)))"

definition struct_arguments :: "unmarshalContext \<Rightarrow> typeDetails \<Rightarrow> dnode \<Rightarrow> rv \<Rightarrow> failure + rv" where
  "struct_arguments c d n s =
     (let args = dn_Arguments n; argFields = td_StructAttrs d ''arg''; argsFields = td_StructAttrs d ''args''
      in if args = [] then Inr s
         else if \<not> u_AllowUnhandledArgs c \<and> argsFields = [] \<and> length argFields < length args
         then fails (UnexpectedArguments (name_text n))
         else if length argsFields > 1 then fails (TooManyFields ''args'')
         else
           bind_res (arg_fields_loop c argFields args s) (\<lambda>(rest, s).
             args_field c (name_text n) argsFields rest s))"

text \<open>Properties into the fields of their names; the names that found one are collected.\<close>

definition property_to_field ::
  "unmarshalContext \<Rightarrow> typeDetails \<Rightarrow> bytes \<times> kdl_value \<Rightarrow> bytes list \<times> rv \<Rightarrow> failure + bytes list \<times> rv" where
  "property_to_field c d p st =
     (case td_StructFields d (safe_key c (fst p)) of
        None \<Rightarrow> Inr st
      | Some f \<Rightarrow>
          bind_res (setReflectValueFromIntf c (GetValueFrom f (snd st)) (ResolvedValue (snd p)) (fd_Format f))
            (\<lambda>r. Inr (fst st @ [fst p], SetValueIn f (snd st) r)))"

definition props_field :: "unmarshalContext \<Rightarrow> structFieldDetails list \<Rightarrow> (bytes \<times> kdl_value) list \<Rightarrow> rv \<Rightarrow> failure + rv" where
  "props_field c fs props s =
     (case fs of
        [] \<Rightarrow> Inr s
      | f # gs \<Rightarrow>
          if gs \<noteq> [] then fails (TooManyFields ''props'')
          else if \<not> is_map (indirectKind (GetValueFrom f s)) then fails NotAMap
          else
            bind_res
              (withCreatedAndIndirected (GetValueFrom f s) (\<lambda>m.
                 bind_res (createMapIfNil m)
                   (fold_res (\<lambda>(k, v). setMapKeyValueFromIntf c (VString k) (ResolvedValue v)) props)))
              (\<lambda>r. Inr (SetValueIn f s r)))"

definition struct_properties :: "unmarshalContext \<Rightarrow> typeDetails \<Rightarrow> dnode \<Rightarrow> rv \<Rightarrow> failure + rv" where
  "struct_properties c d n s =
     (let props = dn_Properties n; walk = u_walk c props; propsFields = td_StructAttrs d ''props''
      in if Len props = 0 then Inr s
         else
           bind_res (fold_res (property_to_field c d) walk ([], s)) (\<lambda>(handled, s).
             if \<not> u_AllowUnhandledProps c \<and> propsFields = [] \<and> length handled < Len props
             then fails (UnexpectedProperties (name_text n) (filter (\<lambda>k. k \<notin> set handled) (map fst walk)))
             else props_field c propsFields walk s))"

definition struct_children ::
  "unmarshalContext \<Rightarrow> typeDetails \<Rightarrow> dnode \<Rightarrow> (dnode \<times> handler) list \<Rightarrow> rv \<Rightarrow> failure + rv" where
  "struct_children c d n kids s =
     (if kids = [] then Inr s
      else
        (case td_StructAttrs d ''children'' of
           [] \<Rightarrow> if u_AllowUnhandledChildren c then Inl Panics else unmarshalNodesToStruct c kids s
         | f # _ \<Rightarrow>
             let field = GetValueFrom f s; put = (\<lambda>r. Inr (SetValueIn f s r)) in
             (case indirectKind field of
                TMap _ _ \<Rightarrow> bind_res (unmarshalNodesToMap c kids field) put
              | TStruct _ _ \<Rightarrow> bind_res (unmarshalNodesToStruct c kids field) put
              | TInterface \<Rightarrow> Inl Panics
              | TSuffixed \<Rightarrow> Inl Outside
              | _ \<Rightarrow> if is_big (indirectKind field) then Inl Outside else fails (ChildrenKind (name_text n)))))"

definition unmarshalNodeToStruct ::
  "unmarshalContext \<Rightarrow> dnode \<Rightarrow> (dnode \<times> handler) list \<Rightarrow> rv \<Rightarrow> failure + rv" where
  "unmarshalNodeToStruct c n kids s =
     (case details c (rv_type s) of
        None \<Rightarrow> Inl Panics
      | Some d \<Rightarrow>
          if length (dn_Arguments n) = 1
            \<and> (text_method c (rv_type s) \<noteq> None \<or> value_method c (rv_type s) \<noteq> None)
          then setReflectValueFromIntf c s (ResolvedValue (hd (dn_Arguments n))) []
          else
            bind_res (struct_arguments c d n s) (\<lambda>s.
            bind_res (struct_properties c d n s) (\<lambda>s.
            struct_children c d n kids s)))"

section \<open>Nodes into values\<close>

definition unmarshalNodeWithUnmarshaler ::
  "unmarshalContext \<Rightarrow> rv \<Rightarrow> dnode \<Rightarrow> bytes \<Rightarrow> failure + rv option" where
  "unmarshalNodeWithUnmarshaler c dest n fmt =
     (let t = base_type (rv_type dest) in
      case node_method c t of
        Some m \<Rightarrow> bind_res (callStructMethod dest (m n)) (\<lambda>r. Inr (Some r))
      | None \<Rightarrow>
          if length (dn_Arguments n) = 1 \<and> (text_method c t \<noteq> None \<or> value_method c t \<noteq> None)
          then bind_res (setReflectValueFromDocumentValue c dest (hd (dn_Arguments n)) fmt) (\<lambda>r. Inr (Some r))
          else Inr None)"

text \<open>A node into an \<open>interface{}\<close>: one argument as it is, more as a slice, everything else as a map.\<close>

definition any_map :: rv where
  "any_map = RV False (TMap TString TInterface) (GMap (Some []))"

definition any_slice :: rv where
  "any_slice = RV False (TSlice TInterface) (GSlice (Some []))"

definition node_to_interface ::
  "unmarshalContext \<Rightarrow> dnode \<Rightarrow> (dnode \<times> handler) list \<Rightarrow> bytes \<Rightarrow> rv \<Rightarrow> failure + rv" where
  "node_to_interface c n kids fmt v =
     (let args = dn_Arguments n; plain = (Len (dn_Properties n) = 0 \<and> dn_Children n = [])
      in if plain \<and> args = [] then Inr v
         else if plain \<and> length args = 1 then set_interface (iface_of (ResolvedValue (hd args))) v
         else if plain then
           bind_res (unmarshalNodeToSlice c n fmt any_slice) (\<lambda>s. set_interface (Some (rv_type s, rv_val s)) v)
         else
           bind_res (unmarshalNodeToMap c n kids any_map) (\<lambda>m.
             case rv_val v of
               GIface None \<Rightarrow> if rv_set v then set_interface (Some (rv_type m, rv_val m)) v else Inr m
             | _ \<Rightarrow> Inr m))"

definition at_node :: "dnode \<Rightarrow> failure + rv \<Rightarrow> failure + rv" where
  "at_node n r =
     (case r of
        Inl (Fails e) \<Rightarrow>
          (case dn_Name n of None \<Rightarrow> r | Some name \<Rightarrow> fails (AtNode (NodeNameString name) e))
      | _ \<Rightarrow> r)"

definition node_to_kind ::
  "unmarshalContext \<Rightarrow> dnode \<Rightarrow> (dnode \<times> handler) list \<Rightarrow> bytes \<Rightarrow> rv \<Rightarrow> failure + rv" where
  "node_to_kind c n kids fmt v =
     (case rv_type v of
        TStruct _ _ \<Rightarrow> unmarshalNodeToStruct c n kids v
      | TMap _ _ \<Rightarrow> unmarshalNodeToMap c n kids v
      | TSlice _ \<Rightarrow> unmarshalNodeToSlice c n fmt v
      | TArray _ _ \<Rightarrow> unmarshalNodeToSlice c n fmt v
      | TInterface \<Rightarrow> node_to_interface c n kids fmt v
      | TSuffixed \<Rightarrow> Inl Outside
      | TPtr _ \<Rightarrow> fails (CannotUnmarshal (name_text n) (rv_type v))
      | _ \<Rightarrow>
          bind_res (verifyArgsPropsChildren c n 1 [] False) (\<lambda>_.
            setReflectValueFromIntf c v (ResolvedValue (hd (dn_Arguments n))) fmt))"

definition node_to_value ::
  "unmarshalContext \<Rightarrow> dnode \<Rightarrow> (dnode \<times> handler) list \<Rightarrow> bytes \<Rightarrow> rv \<Rightarrow> failure + rv" where
  "node_to_value c n kids fmt v =
     at_node n
       (bind_res (unmarshalNodeWithUnmarshaler c v n fmt) (\<lambda>unmarshaled.
          case unmarshaled of
            Some r \<Rightarrow> Inr r
          | None \<Rightarrow> withCreatedAndIndirected v (node_to_kind c n kids fmt)))"

text \<open>The height of a node does not depend on its arguments.\<close>

fun height :: "dnode \<Rightarrow> nat" where
  "height (DNode name ty args props children comment) = Suc (sum_list (map height children))"

lemma height_with_args [simp]: "height (with_args n args) = height n"
  by (cases n) (simp add: with_args_def)

lemma height_child: "ch \<in> set (dn_Children n) \<Longrightarrow> height ch < height n"
  by (cases n) (auto intro!: le_imp_less_Suc member_le_sum_list)

function unmarshalNodeToValue :: "unmarshalContext \<Rightarrow> dnode \<Rightarrow> bytes \<Rightarrow> rv \<Rightarrow> failure + rv" where
  "unmarshalNodeToValue c n fmt v =
     node_to_value c n
       (map (\<lambda>ch. (ch, \<lambda>args f w. unmarshalNodeToValue c (with_args ch args) f w)) (dn_Children n)) fmt v"
  by pat_completeness auto
termination
  by (relation "measure (\<lambda>(c, n, fmt, v). height n)") (auto simp: height_child)

declare unmarshalNodeToValue.simps [simp del]

definition kid_list :: "unmarshalContext \<Rightarrow> dnode list \<Rightarrow> (dnode \<times> handler) list" where
  "kid_list c nodes = map (\<lambda>n. (n, \<lambda>args f w. unmarshalNodeToValue c (with_args n args) f w)) nodes"

section \<open>Documents\<close>

definition unmarshalNodes :: "unmarshalContext \<Rightarrow> dnode list \<Rightarrow> rv \<Rightarrow> failure + rv" where
  "unmarshalNodes c nodes dest =
     withCreatedAndIndirected dest (\<lambda>d.
       case rv_type d of
         TStruct _ _ \<Rightarrow> unmarshalNodesToStruct c (kid_list c nodes) d
       | TMap _ _ \<Rightarrow> unmarshalNodesToMap c (kid_list c nodes) d
       | TInterface \<Rightarrow>
           bind_res (unmarshalNodesToMap c (kid_list c nodes) any_map) (\<lambda>m. set_to (rv_type m) (rv_val m) d)
       | TSuffixed \<Rightarrow> Inl Outside
       | _ \<Rightarrow> fails StructOrMap)"

definition unmarshalNode :: "unmarshalContext \<Rightarrow> dnode \<Rightarrow> rv \<Rightarrow> failure + rv" where
  "unmarshalNode c n dest = withCreatedAndIndirected dest (unmarshalNodeToValue c n [])"

text \<open>The target is what an \<open>interface{}\<close> holds, and cannot be set itself; its new contents are returned.\<close>

definition unmarshal_into ::
  "unmarshalContext \<Rightarrow> (rv \<Rightarrow> failure + rv) \<Rightarrow> iface \<Rightarrow> failure + iface" where
  "unmarshal_into c f target =
     (if \<not> IndexIntf (u_lower c) (u_CaseSensitive c) target then fails UnexportedStructure
      else
        (case target of
           None \<Rightarrow> fails NeedPointer
         | Some (t, x) \<Rightarrow>
             if is_pointer t \<or> is_map t
             then bind_res (f (RV False t x)) (\<lambda>r. Inr (Some (rv_type r, rv_val r)))
             else fails NeedPointer))"

definition UnmarshalWithOptions :: "unmarshalContext \<Rightarrow> dnode list \<Rightarrow> iface \<Rightarrow> failure + iface" where
  "UnmarshalWithOptions c nodes target = unmarshal_into c (unmarshalNodes c nodes) target"

definition UnmarshalNodeWithOptions :: "unmarshalContext \<Rightarrow> dnode \<Rightarrow> iface \<Rightarrow> failure + iface" where
  "UnmarshalNodeWithOptions c n target = unmarshal_into c (unmarshalNode c n) target"

end
