(* ===== verification/Typing.thy ===== *)
theory Typing
  imports Unmarshal
begin

text \<open>
  Typing of the unmarshaler: what it leaves in a destination has the type of the destination.  The
  lemmas go through the operations one by one; \<open>preserves\<close> is what they share.
\<close>

section \<open>Values of a document\<close>

definition is_int64 :: "int \<Rightarrow> bool" where
  "is_int64 n \<longleftrightarrow> - (2 ^ 63) \<le> n \<and> n < 2 ^ 63"

definition int64_ok :: "go_value \<Rightarrow> bool" where
  "int64_ok v = (case v of VInt n \<Rightarrow> is_int64 n | _ \<Rightarrow> True)"

definition iface_typed :: "iface \<Rightarrow> bool" where
  "iface_typed x = (case x of None \<Rightarrow> True | Some (t, v) \<Rightarrow> has_type v t \<and> t \<noteq> TInterface)"

lemma iface_of_typed: "int64_ok v \<Longrightarrow> iface_typed (iface_of v)"
  by (cases v) (simp_all add: iface_typed_def int64_ok_def is_int64_def)

lemma ResolvedValue_ok: "int64_ok (v_Value v) \<Longrightarrow> int64_ok (ResolvedValue v)"
  by (simp add: ResolvedValue_def int64_ok_def split: go_value.splits)

text \<open>Every integer of a document fits \<open>int64\<close>, and so does the number of arguments of a node.\<close>

fun document_ok :: "dnode \<Rightarrow> bool" where
  "document_ok (DNode name ty args props children comment) \<longleftrightarrow>
     (\<forall>v. name = Some v \<longrightarrow> int64_ok (v_Value v)) \<and> (\<forall>v \<in> set args. int64_ok (v_Value v))
     \<and> (\<forall>k v. p_props props k = Some v \<longrightarrow> int64_ok (v_Value v))
     \<and> int (length args) < 2 ^ 63 \<and> (\<forall>n \<in> set children. document_ok n)"

section \<open>Ranges\<close>

lemma bind_resE: "bind_res r f = Inr y \<Longrightarrow> (\<And>x. r = Inr x \<Longrightarrow> f x = Inr y \<Longrightarrow> P) \<Longrightarrow> P"
  by (cases r) auto

lemma int_of_float_range: "is_int64 (int_of_float f)"
  by (auto simp: int_of_float_def is_int64_def Let_def split: float64.splits prod.splits)

lemma wrap_int64: "is_int64 (wrap_int 64 n)"
  using wrap_int_range [of 64 n] by (simp add: is_int64_def)

lemma parse_groups_bound: "parse_groups d s = Some r \<Longrightarrow> d \<le> 2 ^ 63 \<Longrightarrow> r \<le> 2 ^ 63"
proof (induction d s rule: parse_groups.induct)
  case (1 d s)
  show ?case
  proof (cases "s = []")
    case True
    with 1 show ?thesis by (simp add: parse_groups.simps)
  next
    case False
    with 1(2) obtain v t where g: "duration_group s = Some (v, t)" "\<not> d + v > 2 ^ 63" "parse_groups (d + v) t = Some r"
      by (subst (asm) parse_groups.simps) (auto split: option.splits prod.splits if_splits)
    then show ?thesis by (intro 1(1) [OF False g(1) refl g(2,3)]) simp
  qed
qed

lemma ParseDuration_range: "ParseDuration s = Some n \<Longrightarrow> is_int64 n"
  using parse_groups_bound [of 0]
  by (fastforce simp: ParseDuration_def is_int64_def split: prod.splits if_splits option.splits)

lemma ParseInt_range: "ParseInt s b = Inr n \<Longrightarrow> is_int64 n"
  by (auto simp: ParseInt_def is_int64_def split: prod.splits if_splits sum.splits)

lemma duration_result_range: "duration_result (ParseDuration s) = Inr n \<Longrightarrow> is_int64 n"
  by (auto simp: duration_result_def ParseDuration_range split: option.splits)

lemma parseHMSDuration_range: "parseHMSDuration s = Inr n \<Longrightarrow> is_int64 n"
  unfolding parseHMSDuration_def
  by (auto split: prod.splits if_splits elim!: bind_resE simp: wrap_int64)

lemma AsDuration_range: "AsDuration num suf = Inr n \<Longrightarrow> is_int64 n"
  unfolding AsDuration_def by (rule duration_result_range)

lemma unmarshalValueDuration_range: "unmarshalValueDuration sprint x fmt = Inr n \<Longrightarrow> is_int64 n"
  unfolding unmarshalValueDuration_def Let_def
  by (auto split: prod.splits if_splits option.splits gtype.splits gval.splits
      intro: wrap_int64 int_of_float_range dest: AsDuration_range parseHMSDuration_range duration_result_range)

lemma parseNumber_range: "parseNumber num b = Inr (NInt n) \<Longrightarrow> is_int64 n"
  by (auto simp: parseNumber_def Let_def split: prod.splits if_splits sum.splits float64.splits dest: ParseInt_range)

lemma AsNumber_ok: "AsNumber num suf = Inr v \<Longrightarrow> int64_ok v"
proof -
  have "int64_ok (multiplied n k)" for n k by (cases n) (simp_all add: multiplied_def int64_ok_def)
  moreover have "int64_ok (plain_number n)" if "parseNumber num 10 = Inr n" for n
    using that by (cases n) (simp_all add: int64_ok_def parseNumber_range)
  moreover assume "AsNumber num suf = Inr v"
  ultimately show ?thesis by (auto simp: AsNumber_def split: sum.splits if_splits elim!: bind_resE)
qed

section \<open>Values in places\<close>

definition typed :: "rv \<Rightarrow> bool" where
  "typed v \<longleftrightarrow> has_type (rv_val v) (rv_type v)"

definition same_place :: "rv \<Rightarrow> rv \<Rightarrow> bool" where
  "same_place v r \<longleftrightarrow> typed r \<and> (rv_type r = rv_type v \<or> rv_type v = TInterface \<and> \<not> rv_set v)"

definition preserves :: "(rv \<Rightarrow> failure + rv) \<Rightarrow> bool" where
  "preserves f \<longleftrightarrow> (\<forall>v r. wf_type (rv_type v) \<longrightarrow> typed v \<longrightarrow> f v = Inr r \<longrightarrow> same_place v r)"

lemma preservesI:
  "(\<And>v r. wf_type (rv_type v) \<Longrightarrow> typed v \<Longrightarrow> f v = Inr r \<Longrightarrow> same_place v r) \<Longrightarrow> preserves f"
  by (simp add: preserves_def)

lemma preservesD:
  "preserves f \<Longrightarrow> f v = Inr r \<Longrightarrow> wf_type (rv_type v) \<Longrightarrow> typed v \<Longrightarrow> same_place v r"
  unfolding preserves_def by blast

lemma has_type_interface: "typed r \<Longrightarrow> rv_type r \<noteq> TInterface \<Longrightarrow> has_type (GIface (Some (rv_type r, rv_val r))) TInterface"
  by (simp add: typed_def)

lemma assign_typed: "typed r \<Longrightarrow> assign t r = Inr x \<Longrightarrow> has_type x t"
  by (auto simp: assign_def typed_def split: if_splits)

lemma set_to_typed: "has_type x t \<Longrightarrow> set_to t x v = Inr r \<Longrightarrow> typed r \<and> rv_type r = rv_type v \<and> rv_set r"
  using assign_typed [of "RV False t x"]
  by (auto simp: set_to_def bind_res_Inr_iff typed_def split: if_splits)

lemma fold_res_preserves:
  assumes "\<And>x. x \<in> set xs \<Longrightarrow> preserves (f x)" "rv_type v \<noteq> TInterface"
    "fold_res f xs v = Inr r" "wf_type (rv_type v)" "typed v"
  shows "typed r \<and> rv_type r = rv_type v"
  using assms
proof (induction xs arbitrary: v)
  case (Cons x xs)
  from Cons.prems(3) obtain w where w: "f x v = Inr w" "fold_res f xs w = Inr r"
    by (auto simp: bind_res_Inr_iff)
  have "same_place v w" using preservesD [OF Cons.prems(1) w(1)] Cons.prems by simp
  then show ?case
    using Cons.IH [of w] Cons.prems w(2) by (auto simp: same_place_def)
qed simp

lemma has_type_pointer: "has_type v (TPtr t) \<longleftrightarrow> v = GPtr None \<or> (\<exists>x. v = GPtr (Some x) \<and> has_type x t)"
proof (cases v)
  case (GPtr p) then show ?thesis by (cases p) auto
next
  case (GIface p) then show ?thesis by (cases p) auto
next
  case (GSlice p) then show ?thesis by (cases p) auto
next
  case (GMap p) then show ?thesis by (cases p) auto
qed auto

lemma createAndIndirect_cases:
  assumes "createAndIndirect v = Inr (w, ind)" "wf_type (rv_type v)" "typed v"
  shows "typed w \<and> wf_type (rv_type w) \<and>
    (if ind then rv_type v = TPtr (rv_type w) \<and> rv_set w else w = v \<and> (\<forall>t. rv_type v \<noteq> TPtr t))"
  using assms
  by (auto simp: createAndIndirect_def typed_def has_type_pointer zero_typed
      split: if_splits gtype.splits gval.splits option.splits)

definition fits :: "rv \<Rightarrow> rv \<Rightarrow> bool" where
  "fits v r \<longleftrightarrow> typed r \<and> (rv_type r = rv_type v \<or> rv_type v = TInterface)"

lemma withCreated_fits:
  assumes "wf_type (rv_type v)" "typed v" "withCreatedAndIndirected v f = Inr r"
    and f: "\<And>w ind x. createAndIndirect v = Inr (w, ind) \<Longrightarrow> f w = Inr x \<Longrightarrow> fits w x"
  shows "same_place v r"
proof -
  from assms(3) obtain w ind x where w: "createAndIndirect v = Inr (w, ind)" "f w = Inr x"
    and r: "(if ind then bind_res (assign (rv_type w) x) (\<lambda>x. Inr (RV (rv_set v) (rv_type v) (GPtr (Some x))))
         else if rv_set v then bind_res (assign (rv_type v) x) (\<lambda>x. Inr (RV True (rv_type v) x))
         else Inr x) = Inr r"
    by (auto simp: withCreatedAndIndirected_def bind_res_Inr_iff)
  with createAndIndirect_cases [OF w(1) assms(1,2)] f [OF w] show ?thesis
    by (auto simp: same_place_def fits_def typed_def bind_res_Inr_iff dest!: assign_typed [rotated] split: if_splits)
qed

lemma withCreated_typed:
  assumes "wf_type (rv_type v)" "typed v" "withCreatedAndIndirected v f = Inr r"
    and f: "\<And>w ind x. createAndIndirect v = Inr (w, ind) \<Longrightarrow> f w = Inr x \<Longrightarrow> same_place w x"
  shows "same_place v r"
  by (rule withCreated_fits [OF assms(1-3)]) (auto simp: fits_def same_place_def dest!: f)

lemma withCreated_preserves:
  assumes "preserves f"
  shows "preserves (\<lambda>v. withCreatedAndIndirected v f)"
proof (rule preservesI)
  fix v r
  assume v: "wf_type (rv_type v)" "typed v" "withCreatedAndIndirected v f = Inr r"
  show "same_place v r"
    by (rule withCreated_typed [OF v]) (use preservesD [OF assms] createAndIndirect_cases [OF _ v(1,2)] in blast)
qed

text \<open>The same for operations that may leave a value unhandled.\<close>

definition preserves_handled :: "(rv \<Rightarrow> failure + rv option) \<Rightarrow> bool" where
  "preserves_handled f \<longleftrightarrow>
     (\<forall>v r. wf_type (rv_type v) \<longrightarrow> typed v \<longrightarrow> f v = Inr (Some r) \<longrightarrow>
       typed r \<and> rv_type r = rv_type v \<and> (\<forall>t. rv_type v = TPtr t \<longrightarrow> rv_val r \<noteq> GPtr None))"

lemma preserves_handledD:
  "preserves_handled f \<Longrightarrow> f v = Inr (Some r) \<Longrightarrow> wf_type (rv_type v) \<Longrightarrow> typed v \<Longrightarrow>
     typed r \<and> rv_type r = rv_type v \<and> (\<forall>t. rv_type v = TPtr t \<longrightarrow> rv_val r \<noteq> GPtr None)"
  unfolding preserves_handled_def by blast

section \<open>One value\<close>

lemma is_int64_typed: "is_int64 n \<Longrightarrow> has_type (GInt n) TDuration"
  by (simp add: is_int64_def)

lemma suffixed_typed:
  assumes "iface_typed x" "resolveSuffixedDecimal t x = Inr y"
  shows "iface_typed y"
proof -
  have t: "iface_typed (Some (TString, GString s))" for s by (simp add: iface_typed_def)
  have "iface_typed (iface_of n)" if "AsNumber num suf = Inr n" for n num suf
    by (rule iface_of_typed [OF AsNumber_ok [OF that]])
  moreover have "iface_typed (Some (TDuration, GInt n))" if "AsDuration num suf = Inr n" for n num suf
    using AsDuration_range [OF that] by (simp add: iface_typed_def is_int64_def)
  ultimately show ?thesis
    using assms t
    by (auto simp: resolveSuffixedDecimal_def Let_def split: option.splits prod.splits gtype.splits elim!: bind_resE)
qed

lemma set_duration_typed: "set_duration c v x fmt = Inr r \<Longrightarrow> typed r \<and> rv_type r = rv_type v \<and> rv_set r"
  unfolding set_duration_def
  by (auto simp: wrap_error_def split: sum.splits elim!: bind_resE
      dest!: unmarshalValueDuration_range dest: set_to_typed [OF is_int64_typed])

lemma handleFormat_typed: "preserves_handled (\<lambda>d. handleFormatIntf c d x fmt)"
  unfolding preserves_handled_def handleFormatIntf_def fails_def
  by (auto simp: is_duration_def elim!: bind_resE dest: set_duration_typed split: if_splits)

lemma set_interface_typed:
  "iface_typed x \<Longrightarrow> rv_type v = TInterface \<Longrightarrow> set_interface x v = Inr r \<Longrightarrow> typed r \<and> rv_type r = TInterface"
  by (auto simp: set_interface_def typed_def iface_typed_def split: gval.splits option.splits if_splits)

lemma directSet_typed:
  assumes "iface_typed x" "directSetReflectValueFromIntf c v x fmt = Inr r" "wf_type (rv_type v)"
  shows "typed r \<and> rv_type r = rv_type v"
proof -
  obtain y where y: "iface_typed y" and
    s: "(case rv_type v of
           TBool \<Rightarrow> set_to TBool (GBool (ToBool y)) v
         | TInt w \<Rightarrow> set_to (TInt w) (GInt (wrap_int w (ToInt64 y))) v
         | TDuration \<Rightarrow> set_duration c v y fmt
         | TUint w \<Rightarrow> set_to (TUint w) (GInt (wrap_uint w (ToUint64 y))) v
         | TFloat \<Rightarrow> set_to TFloat (GFloat (ToFloat64 (finite_value fmt y))) v
         | TString \<Rightarrow> set_to TString (GString (ToString (u_sprint c) y)) v
         | TExpression \<Rightarrow> set_to TExpression (GString (ToString (u_sprint c) y)) v
         | TInterface \<Rightarrow> set_interface y v
         | t \<Rightarrow> fails (CannotSet t)) = Inr r"
    using assms(1,2) unfolding directSetReflectValueFromIntf_def
    by (auto simp: wrap_error_def split: if_splits sum.splits elim!: bind_resE dest: suffixed_typed)
  show ?thesis
  proof (cases "rv_type v")
    case (TInt w)
    then have "has_type (GInt (wrap_int w (ToInt64 y))) (TInt w)"
      using assms(3) wrap_int_range [of w "ToInt64 y"] by auto
    from set_to_typed [OF this] s TInt show ?thesis by simp
  next
    case (TUint w)
    have "has_type (GInt (wrap_uint w (ToUint64 y))) (TUint w)"
      using wrap_uint_range by auto
    from set_to_typed [OF this] s TUint show ?thesis by simp
  next
    case TInterface
    with s y show ?thesis by (auto dest: set_interface_typed)
  qed (use s in \<open>auto simp: fails_def dest!: set_duration_typed set_to_typed [rotated]\<close>)
qed

text \<open>What the code relies on of user code, and of the walk over a map of properties.\<close>

locale user_methods =
  fixes c :: unmarshalContext
  assumes text_typed: "u_text c t = Some m \<Longrightarrow> has_type x t \<Longrightarrow> m b x = Inr y \<Longrightarrow> has_type y t"
    and value_typed: "u_value c t = Some m' \<Longrightarrow> has_type x t \<Longrightarrow> m' dv x = Inr y \<Longrightarrow> has_type y t"
    and node_typed: "u_node c t = Some m'' \<Longrightarrow> has_type x t \<Longrightarrow> m'' n x = Inr y \<Longrightarrow> has_type y t"
    and walk_entries: "(k, v) \<in> set (u_walk c p) \<Longrightarrow> p_props p k = Some v"

lemma callStructMethod_typed:
  assumes "\<And>x y. has_type x (base_type (rv_type v)) \<Longrightarrow> m x = Inr y \<Longrightarrow> has_type y (base_type (rv_type v))"
    "wf_type (rv_type v)" "typed v" "callStructMethod v m = Inr r"
  shows "typed r \<and> rv_type r = rv_type v \<and> (\<forall>t. rv_type v = TPtr t \<longrightarrow> rv_val r \<noteq> GPtr None)"
proof (cases "\<exists>t. rv_type v = TPtr t")
  case True
  then obtain t where t: "rv_type v = TPtr t" ..
  then have x: "rv_val v = GPtr None \<or> (\<exists>x. rv_val v = GPtr (Some x) \<and> has_type x t)"
    using assms(3) by (simp add: typed_def has_type_pointer)
  show ?thesis
    using x assms(1,4) t zero_typed [of t] assms(2)
    by (auto simp: callStructMethod_def base_type_def typed_def elim!: bind_resE split: if_splits)
next
  case False
  then have n: "\<And>t. rv_type v \<noteq> TPtr t" by blast
  have e: "callStructMethod v m
      = bind_res (m (rv_val v)) (\<lambda>y. Inr (if rv_set v then RV True (rv_type v) y else v))"
    by (cases "rv_type v") (simp_all add: callStructMethod_def n cong: if_cong)
  have b: "base_type (rv_type v) = rv_type v"
    by (cases "rv_type v") (simp_all add: base_type_def n)
  obtain y where y: "m (rv_val v) = Inr y" "Inr (if rv_set v then RV True (rv_type v) y else v) = Inr r"
    using assms(4) unfolding e by (rule bind_resE) blast
  with assms(1) [OF _ y(1)] assms(3) b n show ?thesis by (auto simp: typed_def)
qed

context user_methods
begin

lemma unmarshalIntf_typed: "preserves_handled (\<lambda>d. unmarshalIntfWithUnmarshaler c d v)"
  unfolding preserves_handled_def unmarshalIntfWithUnmarshaler_def Let_def
  by (auto simp: value_method_def text_method_def split: option.splits if_splits elim!: bind_resE
      dest!: callStructMethod_typed [rotated 3] dest: value_typed text_typed)

lemma unmarshalDocumentValue_typed: "preserves_handled (\<lambda>d. unmarshalDocumentValueWithUnmarshaler c d v)"
  unfolding preserves_handled_def unmarshalDocumentValueWithUnmarshaler_def Let_def
  by (auto simp: value_method_def text_method_def split: option.splits if_splits elim!: bind_resE
      dest!: callStructMethod_typed [rotated 3] dest: value_typed text_typed)

end

lemma outer_inner:
  assumes "createAndIndirect v = Inr (w, ind)" "wf_type (rv_type v)" "typed v"
  shows "typed (outer v w)" "wf_type (rv_type (outer v w))"
    and "typed r \<Longrightarrow> rv_type r = rv_type (outer v w) \<Longrightarrow> (\<forall>t. rv_type r = TPtr t \<longrightarrow> rv_val r \<noteq> GPtr None) \<Longrightarrow>
      same_place w (inner r)"
proof -
  note c = createAndIndirect_cases [OF assms]
  show "typed (outer v w)" "wf_type (rv_type (outer v w))"
    using c by (auto simp: outer_def typed_def split: gtype.splits if_splits)
  assume r: "typed r" "rv_type r = rv_type (outer v w)" "\<forall>t. rv_type r = TPtr t \<longrightarrow> rv_val r \<noteq> GPtr None"
  show "same_place w (inner r)"
  proof (cases ind)
    case True
    with c have "rv_type (outer v w) = TPtr (rv_type w)" by (simp add: outer_def)
    with r obtain x where "rv_val r = GPtr (Some x)" "has_type x (rv_type w)" "rv_type r = TPtr (rv_type w)"
      by (auto simp: typed_def has_type_pointer)
    then show ?thesis by (simp add: inner_def same_place_def typed_def)
  next
    case False
    with c have "w = v" "\<And>t. rv_type v \<noteq> TPtr t" by auto
    then have "inner r = r" "rv_type r = rv_type w"
      using r(2) by (auto simp: inner_def outer_def split: gtype.splits)
    with r(1) show ?thesis by (simp add: same_place_def)
  qed
qed

lemma set_value_typed:
  assumes "iface_typed (iface_of x)" "preserves_handled unmarshaler"
  shows "preserves (\<lambda>v. withCreatedAndIndirected v (\<lambda>w.
       let d = outer v w in
       bind_res (if fmt \<noteq> [] then handleFormatIntf c d (iface_of x) fmt else Inr None) (\<lambda>formatted.
         case formatted of
           Some r \<Rightarrow> Inr (inner r)
         | None \<Rightarrow>
             bind_res (unmarshaler d) (\<lambda>unmarshaled.
               case unmarshaled of
                 Some r \<Rightarrow> Inr (inner r)
               | None \<Rightarrow> directSetReflectValueFromIntf c w (iface_of x) fmt))))" (is "preserves (\<lambda>v. withCreatedAndIndirected v (?f v))")
proof (rule preservesI)
  fix v r
  assume v: "wf_type (rv_type v)" "typed v" "withCreatedAndIndirected v (?f v) = Inr r"
  show "same_place v r"
  proof (rule withCreated_typed [OF v])
    fix w ind y
    assume w: "createAndIndirect v = Inr (w, ind)" and y: "?f v w = Inr y"
    note o = outer_inner [OF w v(1,2)]
    show "same_place w y"
    proof (cases "(if fmt \<noteq> [] then handleFormatIntf c (outer v w) (iface_of x) fmt else Inr None) = Inr None")
      case True
      with y have "bind_res (unmarshaler (outer v w)) (\<lambda>unmarshaled.
          case unmarshaled of
            Some r \<Rightarrow> Inr (inner r)
          | None \<Rightarrow> directSetReflectValueFromIntf c w (iface_of x) fmt) = Inr y"
        by (simp add: Let_def)
      then obtain q where q: "unmarshaler (outer v w) = Inr q"
        "(case q of Some r \<Rightarrow> Inr (inner r) | None \<Rightarrow> directSetReflectValueFromIntf c w (iface_of x) fmt) = Inr y"
        by (rule bind_resE)
      show ?thesis
      proof (cases q)
        case None
        with q directSet_typed [OF assms(1), of c w fmt y] createAndIndirect_cases [OF w v(1,2)] show ?thesis
          by (simp add: same_place_def)
      next
        case (Some r)
        with q have "unmarshaler (outer v w) = Inr (Some r)" "y = inner r" by simp_all
        with preserves_handledD [OF assms(2) this(1) o(2,1)] show ?thesis using o(3) [of r] by simp
      qed
    next
      case False
      with y obtain r where "handleFormatIntf c (outer v w) (iface_of x) fmt = Inr (Some r)" "y = inner r"
        by (auto simp: Let_def split: if_splits option.splits elim!: bind_resE)
      with preserves_handledD [OF handleFormat_typed this(1) o(2,1)] show ?thesis using o(3) [of r] by simp
    qed
  qed
qed

context user_methods
begin

lemma setReflectValueFromIntf_typed:
  "int64_ok x \<Longrightarrow> preserves (\<lambda>v. setReflectValueFromIntf c v x fmt)"
  unfolding setReflectValueFromIntf_def
  by (rule set_value_typed [OF iface_of_typed unmarshalIntf_typed])

lemma setReflectValueFromDocumentValue_typed:
  "int64_ok (v_Value dv) \<Longrightarrow> preserves (\<lambda>v. setReflectValueFromDocumentValue c v dv fmt)"
  unfolding setReflectValueFromDocumentValue_def
  by (rule set_value_typed [OF iface_of_typed [OF ResolvedValue_ok] unmarshalDocumentValue_typed])

end

section \<open>Maps and slices\<close>

lemma base_wf: "wf_type t \<Longrightarrow> wf_type (base_type t)"
  by (cases t) (simp_all add: base_type_def)

lemma new_value_typed: "wf_type t \<Longrightarrow> typed (new_value t) \<and> wf_type (rv_type (new_value t)) \<and> rv_set (new_value t)"
  by (simp add: new_value_def typed_def zero_typed)

lemma has_type_map:
  "has_type v (TMap a b) \<longleftrightarrow>
     v = GMap None \<or> (\<exists>kvs. v = GMap (Some kvs) \<and> distinct (map fst kvs)
       \<and> (\<forall>(k, x) \<in> set kvs. has_type k a \<and> has_type x b))"
proof (cases v)
  case (GPtr p) then show ?thesis by (cases p) auto
next
  case (GIface p) then show ?thesis by (cases p) auto
next
  case (GSlice p) then show ?thesis by (cases p) auto
next
  case (GMap p) then show ?thesis by (cases p) auto
qed auto

lemma has_type_slice:
  "has_type v (TSlice t) \<longleftrightarrow> v = GSlice None \<or> (\<exists>vs. v = GSlice (Some vs) \<and> (\<forall>x \<in> set vs. has_type x t))"
proof (cases v)
  case (GPtr p) then show ?thesis by (cases p) auto
next
  case (GIface p) then show ?thesis by (cases p) auto
next
  case (GSlice p) then show ?thesis by (cases p) auto
next
  case (GMap p) then show ?thesis by (cases p) auto
qed auto

lemma map_put_set: "set (map_put k v kvs) \<subseteq> insert (k, v) (set kvs)"
  by (induction k v kvs rule: map_put.induct) auto

lemma map_put_keys: "fst ` set (map_put k v kvs) = insert k (fst ` set kvs)"
  by (induction k v kvs rule: map_put.induct) auto

lemma map_put_distinct: "distinct (map fst kvs) \<Longrightarrow> distinct (map fst (map_put k v kvs))"
proof (induction k v kvs rule: map_put.induct)
  case (2 k v a b kvs)
  then show ?case using map_put_keys [of k v kvs] by (auto simp: image_iff)
qed simp

lemma SetMapIndex_typed:
  assumes "rv_type m = TMap a b" "typed m" "has_type k a" "has_type x b"
  shows "typed (SetMapIndex m k x) \<and> rv_type (SetMapIndex m k x) = rv_type m"
proof -
  have "distinct (map fst (entries m))" "\<forall>(k, x) \<in> set (entries m). has_type k a \<and> has_type x b"
    using assms(1,2) by (auto simp: typed_def has_type_map entries_def)
  then show ?thesis
    using assms map_put_set [of k x "entries m"] map_put_distinct [of "entries m" k x]
    by (fastforce simp: SetMapIndex_def typed_def)
qed

lemma entries_typed: "rv_type m = TMap a b \<Longrightarrow> typed m \<Longrightarrow> map_of (entries m) k = Some x \<Longrightarrow> has_type x b"
  by (auto simp: typed_def has_type_map entries_def dest!: map_of_SomeD split: gval.splits option.splits)

lemma createMapIfNil_typed:
  "typed m \<Longrightarrow> createMapIfNil m = Inr r \<Longrightarrow> is_map (rv_type m) \<and> typed r \<and> rv_type r = rv_type m"
  by (auto simp: createMapIfNil_def typed_def is_map_def split: gval.splits option.splits if_splits gtype.splits)

lemma createSliceIfNil_typed: "typed m \<Longrightarrow> createSliceIfNil m = Inr r \<Longrightarrow> typed r \<and> rv_type r = rv_type m"
  by (auto simp: createSliceIfNil_def typed_def split: gval.splits option.splits if_splits gtype.splits)

lemma Append_typed:
  assumes "rv_type s = TSlice t" "typed s" "typed el" "Append s el = Inr r"
  shows "typed r \<and> rv_type r = rv_type s"
proof -
  from assms(4) obtain x where x: "assign t el = Inr x"
    "r = (case rv_val s of GSlice (Some vs) \<Rightarrow> RV False (rv_type s) (GSlice (Some (vs @ [x])))
            | _ \<Rightarrow> RV False (rv_type s) (GSlice (Some [x])))"
    using assms(1) by (auto simp: Append_def elem_type_def elim!: bind_resE split: gval.splits option.splits)
  have "has_type x t" by (rule assign_typed [OF assms(3) x(1)])
  then show ?thesis using assms(1,2) x(2) by (auto simp: typed_def has_type_slice)
qed

lemma fold_res_inv:
  assumes "\<And>x s s'. x \<in> set xs \<Longrightarrow> I s \<Longrightarrow> f x s = Inr s' \<Longrightarrow> I s'" "I s" "fold_res f xs s = Inr r"
  shows "I r"
  using assms
proof (induction xs arbitrary: s)
  case (Cons x xs)
  from Cons.prems(3) obtain t where "f x s = Inr t" "fold_res f xs t = Inr r" by (auto elim!: bind_resE)
  with Cons.IH [of t] Cons.prems show ?case by auto
qed simp

lemma preserves_new:
  assumes "preserves f" "wf_type t" "f (new_value t) = Inr r"
  shows "typed r \<and> rv_type r = t"
  using preservesD [OF assms(1,3)] new_value_typed [OF assms(2)]
  by (auto simp: same_place_def new_value_def)

definition args_ok :: "kdl_value list \<Rightarrow> bool" where
  "args_ok args \<longleftrightarrow> (\<forall>v \<in> set args. int64_ok (v_Value v)) \<and> int (length args) < 2 ^ 63"

definition kid_ok :: "dnode \<times> handler \<Rightarrow> bool" where
  "kid_ok kid \<longleftrightarrow> document_ok (fst kid) \<and> (\<forall>args fmt. args_ok args \<longrightarrow> preserves (snd kid args fmt))"

lemma document_ok_parts:
  "document_ok n \<Longrightarrow> args_ok (dn_Arguments n)"
  "document_ok n \<Longrightarrow> dn_Name n = Some v \<Longrightarrow> int64_ok (v_Value v)"
  "document_ok n \<Longrightarrow> p_props (dn_Properties n) k = Some v \<Longrightarrow> int64_ok (v_Value v)"
  by (cases n; auto simp: args_ok_def)+

context user_methods
begin

lemma setMapKeyValueFromIntf_typed:
  assumes "int64_ok key" "int64_ok v" "rv_type m = TMap a b" "wf_type (rv_type m)" "typed m"
    "setMapKeyValueFromIntf c key v m = Inr r"
  shows "typed r \<and> rv_type r = rv_type m"
proof -
  let ?u = "base_type b"
  have wf: "wf_type a" "wf_type b" "wf_type ?u" using assms(3,4) base_wf by auto
  note set = setReflectValueFromIntf_typed
  from assms(3,6) obtain k where k: "setReflectValueFromIntf c (new_value a) key [] = Inr k"
    and rest: "(case map_of (entries m) (rv_val k) of
               None \<Rightarrow>
                 bind_res (setReflectValueFromIntf c (new_value ?u) v []) (\<lambda>x.
                   Inr (SetMapIndex m (rv_val k) (if b = ?u then rv_val x else GPtr (Some (rv_val x)))))
             | Some (GPtr (Some y)) \<Rightarrow>
                 bind_res (setReflectValueFromIntf c (RV True ?u y) v []) (\<lambda>x.
                   Inr (SetMapIndex m (rv_val k) (GPtr (Some (rv_val x)))))
             | Some (GPtr None) \<Rightarrow> bind_res (setReflectValueFromIntf c (new_value ?u) v []) (\<lambda>x. Inl Panics)
             | Some y \<Rightarrow> bind_res (setReflectValueFromIntf c (RV False b y) v []) (\<lambda>x. Inl Panics)) = Inr r"
    by (auto simp: setMapKeyValueFromIntf_def Let_def key_type_def elem_type_def split: if_splits elim!: bind_resE)
  have key: "has_type (rv_val k) a"
    using preserves_new [OF set [OF assms(1)] wf(1) k] by (auto simp: typed_def)
  show ?thesis
  proof (cases "map_of (entries m) (rv_val k)")
    case None
    with rest obtain x where x: "setReflectValueFromIntf c (new_value ?u) v [] = Inr x"
      "r = SetMapIndex m (rv_val k) (if b = ?u then rv_val x else GPtr (Some (rv_val x)))"
      by (auto elim!: bind_resE)
    have "has_type (rv_val x) ?u"
      using preserves_new [OF set [OF assms(2)] wf(3) x(1)] by (auto simp: typed_def)
    then have "has_type (if b = ?u then rv_val x else GPtr (Some (rv_val x))) b"
      by (cases b) (simp_all add: base_type_def)
    with SetMapIndex_typed [OF assms(3,5) key] x(2) show ?thesis by simp
  next
    case (Some old)
    with rest obtain y x where x: "old = GPtr (Some y)" "setReflectValueFromIntf c (RV True ?u y) v [] = Inr x"
      "r = SetMapIndex m (rv_val k) (GPtr (Some (rv_val x)))"
      by (auto elim!: bind_resE split: gval.splits option.splits)
    then obtain w where b: "b = TPtr w" "has_type y w"
      using entries_typed [OF assms(3,5) Some] by (auto split: gtype.splits)
    then have "has_type (GPtr (Some (rv_val x))) b"
      using preservesD [OF set [OF assms(2)] x(2)] wf(3) by (auto simp: same_place_def typed_def base_type_def)
    with SetMapIndex_typed [OF assms(3,5) key] x(3) show ?thesis by simp
  qed
qed

lemma setMapKeyValueFromFunc_typed:
  assumes "int64_ok key" "preserves f" "rv_type m = TMap a b" "wf_type (rv_type m)" "typed m"
    "setMapKeyValueFromFunc c key f m = Inr r"
  shows "typed r \<and> rv_type r = rv_type m"
proof -
  let ?v = "\<lambda>k. case map_of (entries m) (rv_val k) of None \<Rightarrow> new_value b | Some y \<Rightarrow> RV False b y"
  have wf: "wf_type (base_type a)" "wf_type b" using assms(3,4) base_wf by auto
  from assms(3,6) obtain k x y where k: "setReflectValueFromIntf c (new_value (base_type a)) key [] = Inr k"
    "\<not> is_pointer a" "f (?v k) = Inr x" "assign b x = Inr y" "r = SetMapIndex m (rv_val k) y"
    by (auto simp: setMapKeyValueFromFunc_def Let_def key_type_def elem_type_def split: if_splits elim!: bind_resE)
  have "base_type a = a" using k(2) by (cases a) (simp_all add: base_type_def is_pointer_def)
  then have key: "has_type (rv_val k) a"
    using preserves_new [OF setReflectValueFromIntf_typed [OF assms(1)] wf(1) k(1)] by (auto simp: typed_def)
  have "typed (?v k) \<and> rv_type (?v k) = b"
    using new_value_typed [OF wf(2)] entries_typed [OF assms(3,5)]
    by (auto simp: typed_def new_value_def split: option.splits)
  then have "typed x" using preservesD [OF assms(2) k(3)] wf(2) by (simp add: same_place_def)
  then have "has_type y b" by (rule assign_typed [OF _ k(4)])
  with SetMapIndex_typed [OF assms(3,5) key] k(5) show ?thesis by simp
qed

lemma addArgumentsToSlice_typed:
  assumes "args_ok args" "rv_type s = TSlice t" "wf_type t" "typed s" "addArgumentsToSlice c args s = Inr r"
  shows "typed r \<and> rv_type r = rv_type s"
proof -
  have "typed r \<and> rv_type r = TSlice t"
  proof (rule fold_res_inv [OF _ _ assms(5) [unfolded addArgumentsToSlice_def newValueForSlice_def]])
    fix a s s'
    assume a: "a \<in> set args" and s: "typed s \<and> rv_type s = TSlice t"
      and "bind_res (setReflectValueFromIntf c (new_value (elem_type (rv_type s))) (ResolvedValue a) []) (Append s) = Inr s'"
    then obtain x where x: "setReflectValueFromIntf c (new_value t) (ResolvedValue a) [] = Inr x" "Append s x = Inr s'"
      by (auto simp: elem_type_def elim!: bind_resE)
    have "int64_ok (ResolvedValue a)" using a assms(1) by (simp add: args_ok_def ResolvedValue_ok)
    then have "typed x" using preserves_new [OF setReflectValueFromIntf_typed assms(3) x(1)] by simp
    with Append_typed [of s t x s'] s x(2) show "typed s' \<and> rv_type s' = TSlice t" by simp
  qed (use assms in simp)
  with assms(2) show ?thesis by simp
qed

lemma bytes_typed: "has_type (bytes_value bs) (TSlice (TUint 8))"
  using rune_less by (auto simp: bytes_value_def less_imp_le_nat)

lemma unmarshalNodeToByteSlice_typed: "preserves (unmarshalNodeToByteSlice c n fmt)"
proof (rule preservesI)
  fix v r
  assume "unmarshalNodeToByteSlice c n fmt v = Inr r"
  then obtain bs where "set_to (TSlice (TUint 8)) (bytes_value bs) v = Inr r"
    by (auto simp: unmarshalNodeToByteSlice_def fails_def Let_def split: if_splits elim!: bind_resE)
  from set_to_typed [OF bytes_typed this] show "same_place v r" by (simp add: same_place_def)
qed

lemma add_property_typed:
  assumes "int64_ok (v_Value (snd p))" "rv_type s = TSlice t" "wf_type t" "typed s" "add_property c p s = Inr r"
  shows "typed r \<and> rv_type r = rv_type s"
proof (cases "t = TInterface")
  case True
  let ?x = "RV True (TSlice TInterface)
    (GSlice (Some [GIface (Some (TString, GString (fst p))), GIface (iface_of (ResolvedValue (snd p)))]))"
  have "iface_typed (iface_of (ResolvedValue (snd p)))"
    by (rule iface_of_typed [OF ResolvedValue_ok [OF assms(1)]])
  then have "typed ?x" by (auto simp: typed_def iface_typed_def split: option.splits)
  moreover have "Append s ?x = Inr r"
    using assms(2,5) True by (simp add: add_property_def elem_type_def)
  ultimately show ?thesis using Append_typed [OF assms(2,4)] by blast
next
  case False
  let ?t = "VString (fst p @ ''='' @ ValueString (snd p))"
  have "bind_res (setReflectValueFromIntf c (new_value t) ?t []) (Append s) = Inr r"
    using assms(2,5) False by (simp add: add_property_def elem_type_def split: gtype.splits)
  then obtain x where x: "setReflectValueFromIntf c (new_value t) ?t [] = Inr x" "Append s x = Inr r"
    by (auto elim!: bind_resE)
  have "typed x"
    using preserves_new [OF setReflectValueFromIntf_typed assms(3) x(1)] by (simp add: int64_ok_def)
  with Append_typed [OF assms(2,4) _ x(2)] show ?thesis by blast
qed

lemma walk_ok: "document_ok n \<Longrightarrow> p \<in> set (u_walk c (dn_Properties n)) \<Longrightarrow> int64_ok (v_Value (snd p))"
  using walk_entries document_ok_parts(3) by (metis prod.collapse)

lemma unmarshalNodeToSlice_typed:
  assumes "document_ok n"
  shows "preserves (unmarshalNodeToSlice c n fmt)"
proof (rule preservesI)
  fix v r
  assume v: "wf_type (rv_type v)" "typed v" and r: "unmarshalNodeToSlice c n fmt v = Inr r"
  show "same_place v r"
  proof (cases "elem_type (rv_type v) = TUint 8")
    case True
    with r v show ?thesis
      using preservesD [OF unmarshalNodeToByteSlice_typed] by (simp add: unmarshalNodeToSlice_def)
  next
    case False
    with r obtain s s' where s: "createSliceIfNil v = Inr s" "addArgumentsToSlice c (dn_Arguments n) s = Inr s'"
      "r = s' \<or> fold_res (add_property c) (u_walk c (dn_Properties n)) s' = Inr r"
      by (auto simp: unmarshalNodeToSlice_def Let_def fails_def split: if_splits elim!: bind_resE)
    from s(1) v(2) obtain t where t: "rv_type v = TSlice t"
      by (auto simp: createSliceIfNil_def typed_def split: gval.splits option.splits gtype.splits)
    with v(1) have wf: "wf_type t" by simp
    have "typed s \<and> rv_type s = TSlice t" using createSliceIfNil_typed [OF v(2) s(1)] t by simp
    then have s': "typed s' \<and> rv_type s' = TSlice t"
      using addArgumentsToSlice_typed [OF document_ok_parts(1) [OF assms] _ wf _ s(2)] by simp
    have "typed r \<and> rv_type r = TSlice t"
      using s(3)
    proof
      assume "fold_res (add_property c) (u_walk c (dn_Properties n)) s' = Inr r"
      from fold_res_inv [where I = "\<lambda>s. typed s \<and> rv_type s = TSlice t", OF _ s' this] show ?thesis
        using add_property_typed [OF walk_ok [OF assms] _ wf] by metis
    qed (use s' in simp)
    with t show ?thesis by (simp add: same_place_def)
  qed
qed

lemma child_to_map_typed:
  assumes "kid_ok kid" "rv_type m = TMap a b" "wf_type (rv_type m)" "typed m" "child_to_map c kid m = Inr r"
  shows "typed r \<and> rv_type r = rv_type m"
proof -
  from assms(5) obtain name where name: "dn_Name (fst kid) = Some name"
    "setMapKeyValueFromFunc c (ResolvedValue name) (snd kid (dn_Arguments (fst kid)) []) m = Inr r"
    by (auto simp: child_to_map_def split: option.splits)
  have "int64_ok (ResolvedValue name)" "preserves (snd kid (dn_Arguments (fst kid)) [])"
    using assms(1) name(1) document_ok_parts by (auto simp: kid_ok_def intro: ResolvedValue_ok)
  from setMapKeyValueFromFunc_typed [OF this assms(2-4) name(2)] show ?thesis .
qed

lemma fold_map_typed:
  assumes "rv_type m = TMap a b" "wf_type (rv_type m)" "typed m" "fold_res f xs m = Inr r"
    and f: "\<And>x s s'. x \<in> set xs \<Longrightarrow> rv_type s = TMap a b \<Longrightarrow> wf_type (rv_type s) \<Longrightarrow> typed s \<Longrightarrow>
      f x s = Inr s' \<Longrightarrow> typed s' \<and> rv_type s' = rv_type s"
  shows "typed r \<and> rv_type r = rv_type m"
proof -
  have "typed r \<and> rv_type r = TMap a b"
  proof (rule fold_res_inv [where I = "\<lambda>s. typed s \<and> rv_type s = TMap a b", OF _ _ assms(4)])
    fix x s s'
    assume "x \<in> set xs" "typed s \<and> rv_type s = TMap a b" "f x s = Inr s'"
    then show "typed s' \<and> rv_type s' = TMap a b" using f [of x s s'] assms(1,2) by simp
  qed (use assms(1,3) in simp)
  with assms(1) show ?thesis by simp
qed

lemma map_created:
  assumes "wf_type (rv_type m0)" "typed m0" "createMapIfNil m0 = Inr m"
  obtains a b where "rv_type m0 = TMap a b" "rv_type m = TMap a b" "typed m" "wf_type (rv_type m)"
  using createMapIfNil_typed [OF assms(2,3)] assms(1) by (cases "rv_type m0") (auto simp: is_map_def)

lemma properties_to_map_typed:
  assumes "document_ok n" "rv_type m = TMap a b" "wf_type (rv_type m)" "typed m"
    "fold_res (\<lambda>(k, v). setMapKeyValueFromIntf c (VString k) (ResolvedValue v)) (u_walk c (dn_Properties n)) m = Inr r"
  shows "typed r \<and> rv_type r = rv_type m"
proof (rule fold_map_typed [OF assms(2-5)])
  fix p s s'
  assume p: "p \<in> set (u_walk c (dn_Properties n))" and s: "rv_type s = TMap a b" "wf_type (rv_type s)" "typed s"
    and "(case p of (k, v) \<Rightarrow> setMapKeyValueFromIntf c (VString k) (ResolvedValue v)) s = Inr s'"
  then have "setMapKeyValueFromIntf c (VString (fst p)) (ResolvedValue (snd p)) s = Inr s'"
    by (simp add: case_prod_beta)
  from setMapKeyValueFromIntf_typed [OF _ _ s this] walk_ok [OF assms(1) p]
  show "typed s' \<and> rv_type s' = rv_type s" by (simp add: int64_ok_def [of "VString _"] ResolvedValue_ok)
qed

lemma children_to_map_typed:
  assumes "\<forall>k \<in> set kids. kid_ok k" "rv_type m = TMap a b" "wf_type (rv_type m)" "typed m"
    "fold_res (child_to_map c) kids m = Inr r"
  shows "typed r \<and> rv_type r = rv_type m"
proof (rule fold_map_typed [OF assms(2-5)])
  fix k s s'
  assume "k \<in> set kids" and s: "rv_type s = TMap a b" "wf_type (rv_type s)" "typed s" "child_to_map c k s = Inr s'"
  then have "kid_ok k" using assms(1) by simp
  from child_to_map_typed [OF this s] show "typed s' \<and> rv_type s' = rv_type s" .
qed

lemma unmarshalNodeToMap_typed:
  assumes "document_ok n" "\<forall>k \<in> set kids. kid_ok k" "wf_type (rv_type m0)" "typed m0"
    "unmarshalNodeToMap c n kids m0 = Inr r"
  shows "typed r \<and> rv_type r = rv_type m0"
proof -
  let ?args = "\<lambda>(i, a). setMapKeyValueFromIntf c (VInt (int i)) (ResolvedValue a)"
  from assms(5) obtain m m1 m2 where m: "createMapIfNil m0 = Inr m"
    "fold_res ?args (List.enumerate 0 (dn_Arguments n)) m = Inr m1"
    "fold_res (\<lambda>(k, v). setMapKeyValueFromIntf c (VString k) (ResolvedValue v)) (u_walk c (dn_Properties n)) m1 = Inr m2"
    "fold_res (child_to_map c) kids m2 = Inr r"
    unfolding unmarshalNodeToMap_def by (auto elim!: bind_resE)
  obtain a b where t: "rv_type m0 = TMap a b" "rv_type m = TMap a b" "typed m" "wf_type (rv_type m)"
    by (rule map_created [OF assms(3,4) m(1)])
  have m1: "typed m1 \<and> rv_type m1 = rv_type m"
  proof (rule fold_map_typed [OF t(2,4,3) m(2)])
    fix p s s'
    assume p: "p \<in> set (List.enumerate 0 (dn_Arguments n))" "rv_type s = TMap a b" "wf_type (rv_type s)" "typed s"
      and "?args p s = Inr s'"
    then have r: "setMapKeyValueFromIntf c (VInt (int (fst p))) (ResolvedValue (snd p)) s = Inr s'"
      by (simp add: case_prod_beta)
    have "fst p < length (dn_Arguments n)" "snd p \<in> set (dn_Arguments n)"
      using p(1) nth_mem [of "fst p" "dn_Arguments n"] by (auto simp: in_set_enumerate_eq)
    then have "int64_ok (VInt (int (fst p)))" "int64_ok (ResolvedValue (snd p))"
      using document_ok_parts(1) [OF assms(1)]
      by (auto simp: args_ok_def int64_ok_def [of "VInt _"] is_int64_def intro: ResolvedValue_ok)
    from setMapKeyValueFromIntf_typed [OF this p(2-4) r] show "typed s' \<and> rv_type s' = rv_type s" .
  qed
  have m2: "typed m2 \<and> rv_type m2 = rv_type m1"
    by (rule properties_to_map_typed [OF assms(1) _ _ _ m(3), of a b]) (use m1 t in simp_all)
  have "typed r \<and> rv_type r = rv_type m2"
    by (rule children_to_map_typed [OF assms(2) _ _ _ m(4), of a b]) (use m1 m2 t in simp_all)
  with m1 m2 t show ?thesis by simp
qed

lemma unmarshalNodesToMap_typed:
  assumes "\<forall>k \<in> set kids. kid_ok k"
  shows "preserves (unmarshalNodesToMap c kids)"
proof -
  have "preserves (\<lambda>m. bind_res (createMapIfNil m) (fold_res (child_to_map c) kids))"
  proof (rule preservesI)
    fix m0 r
    assume v: "wf_type (rv_type m0)" "typed m0"
      and "bind_res (createMapIfNil m0) (fold_res (child_to_map c) kids) = Inr r"
    then obtain m where m: "createMapIfNil m0 = Inr m" "fold_res (child_to_map c) kids m = Inr r"
      by (auto elim!: bind_resE)
    obtain a b where t: "rv_type m0 = TMap a b" "rv_type m = TMap a b" "typed m" "wf_type (rv_type m)"
      by (rule map_created [OF v m(1)])
    have "typed r \<and> rv_type r = rv_type m"
      by (rule children_to_map_typed [OF assms t(2,4,3) m(2)])
    with t show "same_place m0 r" by (simp add: same_place_def)
  qed
  from withCreated_preserves [OF this] show ?thesis by (simp add: unmarshalNodesToMap_def [abs_def])
qed

lemma multi_dimensional_typed:
  assumes "\<And>args fmt. args_ok args \<Longrightarrow> preserves (h args fmt)" "args_ok args"
  shows "preserves (unmarshalNodeToMultiDimensionalMap c h args)"
  using assms(2)
proof (induction args)
  case Nil
  show ?case by (rule preservesI) (auto elim!: bind_resE)
next
  case (Cons a args)
  then have ok: "args_ok args" "int64_ok (v_Value a)" by (auto simp: args_ok_def)
  have p: "preserves (\<lambda>v. if is_map (rv_type v) \<and> args \<noteq> [] then unmarshalNodeToMultiDimensionalMap c h args v
          else h args [] v)"
    using Cons.IH [OF ok(1)] assms(1) [OF ok(1), of "[]"] by (simp add: preserves_def)
  show ?case
  proof (rule preservesI)
    fix m0 r
    assume v: "wf_type (rv_type m0)" "typed m0" and "unmarshalNodeToMultiDimensionalMap c h (a # args) m0 = Inr r"
    then obtain m where m: "createMapIfNil m0 = Inr m"
      "setMapKeyValueFromFunc c (ResolvedValue a) (\<lambda>v.
          if is_map (rv_type v) \<and> args \<noteq> [] then unmarshalNodeToMultiDimensionalMap c h args v
          else h args [] v) m = Inr r"
      by (auto elim!: bind_resE)
    obtain a' b where t: "rv_type m0 = TMap a' b" "rv_type m = TMap a' b" "typed m" "wf_type (rv_type m)"
      by (rule map_created [OF v m(1)])
    from setMapKeyValueFromFunc_typed [OF ResolvedValue_ok [OF ok(2)] p t(2,4,3) m(2)] t
    show "same_place m0 r" by (simp add: same_place_def)
  qed
qed

lemma unmarshalNodeToMultiple_typed:
  assumes "kid_ok kid"
  shows "preserves (unmarshalNodeToMultiple c (fst kid) (snd kid))"
proof -
  have ok: "args_ok (dn_Arguments (fst kid))" "\<And>args fmt. args_ok args \<Longrightarrow> preserves (snd kid args fmt)"
    using assms document_ok_parts by (auto simp: kid_ok_def)
  have "preserves (\<lambda>d. case rv_type d of
         TMap _ _ \<Rightarrow> unmarshalNodeToMultiDimensionalMap c (snd kid) (dn_Arguments (fst kid)) d
       | TSlice t \<Rightarrow>
           bind_res (createSliceIfNil d) (\<lambda>d. bind_res (snd kid (dn_Arguments (fst kid)) [] (new_value t)) (Append d))
       | TArray _ _ \<Rightarrow> Inl Panics
       | _ \<Rightarrow> fails OnlyMapsAndSlices)" (is "preserves ?f")
  proof (rule preservesI)
    fix v r
    assume v: "wf_type (rv_type v)" "typed v" and r: "?f v = Inr r"
    show "same_place v r"
    proof (cases "rv_type v")
      case (TMap a b)
      with r preservesD [OF multi_dimensional_typed [OF ok(2,1)] _ v] show ?thesis by simp
    next
      case (TSlice t)
      with r obtain d el where d: "createSliceIfNil v = Inr d"
        "snd kid (dn_Arguments (fst kid)) [] (new_value t) = Inr el" "Append d el = Inr r"
        by (auto elim!: bind_resE)
      have "typed el" using preserves_new [OF ok(2) [OF ok(1)] _ d(2)] v(1) TSlice by simp
      with Append_typed [OF _ _ _ d(3)] createSliceIfNil_typed [OF v(2) d(1)] TSlice
      show ?thesis by (simp add: same_place_def)
    qed (use r in \<open>simp_all add: fails_def\<close>)
  qed
  from withCreated_preserves [OF this] show ?thesis by (simp add: unmarshalNodeToMultiple_def [abs_def])
qed

end

end
