(* ===== verification/TypeSound.thy ===== *)
theory TypeSound
  imports Typing
begin

text \<open>
  Typing of the unmarshaler, second part: structs, nodes into values, and whole documents.
\<close>

section \<open>Structs\<close>

fun valid_path :: "nat list \<Rightarrow> gtype \<Rightarrow> bool" where
  "valid_path [] t \<longleftrightarrow> True"
| "valid_path (i # p) t \<longleftrightarrow> (case t of TStruct n fs \<Rightarrow> i < length fs \<and> valid_path p (f_type (fs ! i)) | _ \<Rightarrow> False)"

lemma zip_all:
  "length xs = length ys \<Longrightarrow> (\<forall>p \<in> set (zip xs ys). P (fst p) (snd p)) \<longleftrightarrow> (\<forall>i < length ys. P (xs ! i) (ys ! i))"
  by (auto simp: set_zip)

lemma has_type_struct:
  "has_type v (TStruct n fs) \<longleftrightarrow>
     (\<exists>vs. v = GStruct vs \<and> length vs = length fs \<and> (\<forall>i < length fs. has_type (vs ! i) (f_type (fs ! i))))"
proof (cases v)
  case (GPtr p) then show ?thesis by (cases p) auto
next
  case (GIface p) then show ?thesis by (cases p) auto
next
  case (GSlice p) then show ?thesis by (cases p) auto
next
  case (GMap p) then show ?thesis by (cases p) auto
next
  case (GStruct vs)
  then show ?thesis using zip_all [of vs fs "\<lambda>x f. has_type x (f_type f)"] by auto
qed auto

lemma field_at_typed:
  "valid_path p t \<Longrightarrow> wf_type t \<Longrightarrow> has_type v t \<Longrightarrow> field_at p t v = (u, x) \<Longrightarrow> has_type x u \<and> wf_type u"
proof (induction p arbitrary: t v)
  case (Cons i p)
  then obtain n fs vs where t: "t = TStruct n fs" "v = GStruct vs" "i < length fs" "valid_path p (f_type (fs ! i))"
    "has_type (vs ! i) (f_type (fs ! i))"
    by (auto simp: has_type_struct split: gtype.splits)
  with Cons show ?case by simp
qed simp

lemma put_at_typed:
  "valid_path p t \<Longrightarrow> has_type v t \<Longrightarrow> has_type y (fst (field_at p t v)) \<Longrightarrow> has_type (put_at p v y) t"
proof (induction p arbitrary: t v)
  case (Cons i p)
  then obtain n fs vs where t: "t = TStruct n fs" "v = GStruct vs" "i < length fs" "valid_path p (f_type (fs ! i))"
    "has_type (vs ! i) (f_type (fs ! i))"
    by (auto simp: has_type_struct split: gtype.splits)
  with Cons have "has_type (put_at p (vs ! i) y) (f_type (fs ! i))" by simp
  with t Cons.prems(2) show ?case by (auto simp: has_type_struct nth_list_update simp del: has_type.simps)
qed simp

lemma indexed_path:
  assumes "indexStructFields lower cs path n fs = Some ls" "(k, f) \<in> set ls"
  shows "\<exists>i q. field_path f = path @ (n + i) # q \<and> i < length fs \<and> valid_path q (f_type (fs ! i))"
  using assms
proof (induction lower cs path n fs arbitrary: ls rule: indexStructFields.induct)
  case (2 lower cs path n name t tag anonymous exported fs)
  from 2(3) obtain rest where rest: "indexStructFields lower cs path (n + 1) fs = Some rest"
    by (auto split: option.splits)
  have later: ?case if "(k, f) \<in> set rest"
  proof -
    from 2(1) [OF rest that] obtain i q where "field_path f = path @ (n + 1 + i) # q" "i < length fs"
      "valid_path q (f_type (fs ! i))" by blast
    then show ?thesis by (intro exI [of _ "Suc i"] exI [of _ q]) simp
  qed
  show ?case
  proof (cases "\<exists>m gs. anonymous \<and> t = TStruct m gs")
    case True
    then obtain m gs where t: "anonymous" "t = TStruct m gs" by blast
    with 2(3) rest obtain inner where i: "indexStructFields lower cs (path @ [n]) 0 gs = Some inner" "ls = inner @ rest"
      by (auto split: option.splits)
    show ?thesis
    proof (cases "(k, f) \<in> set inner")
      case True
      from 2(2) [OF rest refl _ _ i(1) True] t obtain j q where
        "field_path f = (path @ [n]) @ (0 + j) # q" "j < length gs" "valid_path q (f_type (gs ! j))" by auto
      then show ?thesis using t by (intro exI [of _ 0] exI [of _ "j # q"]) simp
    qed (use later i 2(4) in auto)
  next
    case False
    with 2(3) rest have "ls = rest \<or> (\<exists>g. ls = g # rest \<and> field_path (snd g) = path @ [n])"
      by (auto simp: field_path_def split: gtype.splits if_splits bool.splits)
    then consider "(k, f) \<in> set rest" | "field_path f = path @ [n]" using 2(4) by auto
    then show ?thesis
    proof cases
      case 2
      then show ?thesis by (intro exI [of _ 0] exI [of _ "[]"]) simp
    qed (rule later)
  qed
qed simp

lemma details_valid:
  assumes "details c t = Some d"
  shows "td_StructFields d k = Some f \<Longrightarrow> valid_path (field_path f) t"
    and "f \<in> set (td_StructAttrs d a) \<Longrightarrow> valid_path (field_path f) t"
proof -
  obtain n fs ls where t: "t = TStruct n fs" "indexStructFields (u_lower c) (u_CaseSensitive c) [] 0 fs = Some ls"
    "d = details_of ls"
    using assms by (auto simp: details_def struct_details_def split: gtype.splits)
  have v: "valid_path (field_path f) t" if "(k, f) \<in> set ls" for k f
    using indexed_path [OF t(2) that] t(1) by auto
  show "td_StructFields d k = Some f \<Longrightarrow> valid_path (field_path f) t"
    using v t(3) by (auto simp: details_of_def Let_def dest!: map_of_SomeD)
  show "f \<in> set (td_StructAttrs d a) \<Longrightarrow> valid_path (field_path f) t"
    using v t(3) by (auto simp: details_of_def Let_def)
qed

lemma GetValueFrom_typed:
  assumes "valid_path (field_path f) (rv_type s)" "wf_type (rv_type s)" "typed s"
  shows "typed (GetValueFrom f s)" "wf_type (rv_type (GetValueFrom f s))" "rv_set (GetValueFrom f s) = rv_set s"
  using field_at_typed [OF assms(1,2)] assms(3)
  by (auto simp: GetValueFrom_def typed_def split: prod.splits)

lemma SetValueIn_typed:
  assumes "valid_path (field_path f) (rv_type s)" "typed s" "same_place (GetValueFrom f s) r"
  shows "typed (SetValueIn f s r)" "rv_type (SetValueIn f s r) = rv_type s"
proof -
  obtain u x where u: "field_at (field_path f) (rv_type s) (rv_val s) = (u, x)" by fastforce
  then have g: "GetValueFrom f s = RV (rv_set s) u x" by (simp add: GetValueFrom_def)
  then have "has_type (rv_val r) u" if "rv_set s \<or> shared u"
    using assms(3) that by (auto simp: same_place_def typed_def shared_def)
  then show "typed (SetValueIn f s r)" "rv_type (SetValueIn f s r) = rv_type s"
    using put_at_typed [OF assms(1), of "rv_val s" "rv_val r"] assms(2) u g
    by (auto simp: SetValueIn_def typed_def)
qed

text \<open>A field is worked on and put back.\<close>

lemma field_step:
  assumes "valid_path (field_path f) (rv_type s)" "wf_type (rv_type s)" "typed s" "preserves g"
    "bind_res (g (GetValueFrom f s)) (\<lambda>r. Inr (SetValueIn f s r)) = Inr s'"
  shows "typed s' \<and> rv_type s' = rv_type s"
proof -
  from assms(5) obtain r where r: "g (GetValueFrom f s) = Inr r" "s' = SetValueIn f s r"
    by (auto elim!: bind_resE)
  note v = GetValueFrom_typed [OF assms(1-3)]
  have "same_place (GetValueFrom f s) r" by (rule preservesD [OF assms(4) r(1) v(2,1)])
  from SetValueIn_typed [OF assms(1,3) this] r(2) show ?thesis by simp
qed

context user_methods
begin

lemma unmarshalNodeToStructField_typed:
  assumes "kid_ok kid" "wf_type (rv_type s)" "typed s" "unmarshalNodeToStructField c kid s = Inr s'"
  shows "typed s' \<and> rv_type s' = rv_type s"
proof -
  from assms(4) obtain name d where nd: "dn_Name (fst kid) = Some name" "details c (rv_type s) = Some d"
    by (auto simp: unmarshalNodeToStructField_def split: option.splits)
  show ?thesis
  proof (cases "td_StructFields d (safe_key c (ValueString name))")
    case None
    with nd assms(3,4) show ?thesis by (auto simp: unmarshalNodeToStructField_def fails_def split: if_splits)
  next
    case (Some f)
    let ?g = "\<lambda>field. if IsMultiple f then
        if rv_set field then unmarshalNodeToMultiple c (fst kid) (snd kid) field else Inl Panics
      else snd kid (dn_Arguments (fst kid)) (fd_Format f) field"
    have "preserves (snd kid (dn_Arguments (fst kid)) (fd_Format f))"
      using assms(1) document_ok_parts by (auto simp: kid_ok_def)
    then have "preserves ?g"
      using unmarshalNodeToMultiple_typed [OF assms(1)] by (auto simp: preserves_def)
    moreover have "bind_res (?g (GetValueFrom f s)) (\<lambda>r. Inr (SetValueIn f s r)) = Inr s'"
      using assms(4) nd Some by (simp add: unmarshalNodeToStructField_def Let_def)
    ultimately show ?thesis by (rule field_step [OF details_valid(1) [OF nd(2) Some] assms(2,3)])
  qed
qed

lemma unmarshalNodesToStruct_typed:
  assumes "\<forall>k \<in> set kids. kid_ok k"
  shows "preserves (unmarshalNodesToStruct c kids)"
proof -
  have "preserves (fold_res (unmarshalNodeToStructField c) kids)"
  proof (rule preservesI)
    fix v r
    assume v: "wf_type (rv_type v)" "typed v" "fold_res (unmarshalNodeToStructField c) kids v = Inr r"
    have "typed r \<and> rv_type r = rv_type v"
    proof (rule fold_res_inv [where I = "\<lambda>s. typed s \<and> rv_type s = rv_type v", OF _ _ v(3)])
      fix k s s'
      assume "k \<in> set kids" "typed s \<and> rv_type s = rv_type v" "unmarshalNodeToStructField c k s = Inr s'"
      then show "typed s' \<and> rv_type s' = rv_type v"
        using unmarshalNodeToStructField_typed [of k s s'] assms v(1) by simp
    qed (use v in simp)
    then show "same_place v r" by (simp add: same_place_def)
  qed
  from withCreated_preserves [OF this] show ?thesis by (simp add: unmarshalNodesToStruct_def [abs_def])
qed

lemma arg_fields_loop_typed:
  assumes "arg_fields_loop c fs args s = Inr (rest, s')" "\<forall>f \<in> set fs. valid_path (field_path f) (rv_type s)"
    "args_ok args" "wf_type (rv_type s)" "typed s"
  shows "typed s' \<and> rv_type s' = rv_type s \<and> args_ok rest"
  using assms
proof (induction fs arbitrary: args s)
  case (Cons f fs)
  show ?case
  proof (cases args)
    case (Cons a args')
    with Cons.prems(1) obtain s1 where s1:
      "bind_res (withCreatedAndIndirected (GetValueFrom f s)
        (\<lambda>v. setReflectValueFromIntf c v (ResolvedValue a) (fd_Format f))) (\<lambda>r. Inr (SetValueIn f s r)) = Inr s1"
      "arg_fields_loop c fs args' s1 = Inr (rest, s')"
      by (auto elim!: bind_resE)
    have ok: "int64_ok (ResolvedValue a)" "args_ok args'"
      using Cons.prems(3) Cons by (auto simp: args_ok_def ResolvedValue_ok)
    have "typed s1 \<and> rv_type s1 = rv_type s"
      by (rule field_step [OF _ Cons.prems(4,5)
            withCreated_preserves [OF setReflectValueFromIntf_typed [OF ok(1)]] s1(1)])
         (use Cons.prems(2) in simp)
    with Cons.IH [OF s1(2) _ ok(2)] Cons.prems(2,4) show ?thesis by simp
  qed (use Cons.prems in simp)
qed simp

lemma args_field_typed:
  assumes "args_field c name fs args s = Inr s'" "\<forall>f \<in> set fs. valid_path (field_path f) (rv_type s)"
    "args_ok args" "wf_type (rv_type s)" "typed s"
  shows "typed s' \<and> rv_type s' = rv_type s"
proof (cases fs)
  case (Cons f gs)
  let ?g = "\<lambda>sl. case rv_type sl of
      TSlice _ \<Rightarrow> bind_res (createSliceIfNil sl) (addArgumentsToSlice c args)
    | TArray _ _ \<Rightarrow> Inl Panics
    | _ \<Rightarrow> fails (NotASlice name)"
  have "preserves ?g"
  proof (rule preservesI)
    fix v r
    assume v: "wf_type (rv_type v)" "typed v" "?g v = Inr r"
    then obtain t sl where t: "rv_type v = TSlice t" "createSliceIfNil v = Inr sl" "addArgumentsToSlice c args sl = Inr r"
      by (auto simp: fails_def split: gtype.splits elim!: bind_resE)
    with createSliceIfNil_typed [OF v(2) t(2)] v(1) addArgumentsToSlice_typed [OF assms(3), of sl t r]
    show "same_place v r" by (simp add: same_place_def)
  qed
  from field_step [OF _ assms(4,5) withCreated_preserves [OF this], of f s'] show ?thesis
    using assms(1,2) Cons by (simp add: args_field_def)
qed (use assms in \<open>simp add: args_field_def\<close>)

lemma struct_arguments_typed:
  assumes "details c (rv_type s) = Some d" "document_ok n" "wf_type (rv_type s)" "typed s"
    "struct_arguments c d n s = Inr s'"
  shows "typed s' \<and> rv_type s' = rv_type s"
proof (cases "dn_Arguments n = []")
  case False
  with assms(5) obtain rest s1 where s1:
    "arg_fields_loop c (td_StructAttrs d ''arg'') (dn_Arguments n) s = Inr (rest, s1)"
    "args_field c (name_text n) (td_StructAttrs d ''args'') rest s1 = Inr s'"
    by (auto simp: struct_arguments_def fails_def Let_def split: if_splits elim!: bind_resE)
  have v: "\<forall>f \<in> set (td_StructAttrs d a). valid_path (field_path f) (rv_type s)" for a
    using details_valid(2) [OF assms(1)] by blast
  from arg_fields_loop_typed [OF s1(1) v document_ok_parts(1) [OF assms(2)] assms(3,4)]
  have "typed s1" "rv_type s1 = rv_type s" "args_ok rest" by simp_all
  with args_field_typed [OF s1(2)] v assms(3) show ?thesis by metis
qed (use assms in \<open>simp add: struct_arguments_def\<close>)

lemma property_to_field_typed:
  assumes "details c (rv_type s) = Some d" "int64_ok (v_Value (snd p))" "wf_type (rv_type s)" "typed s"
    "property_to_field c d p (hs, s) = Inr (hs', s')"
  shows "typed s' \<and> rv_type s' = rv_type s"
proof (cases "td_StructFields d (safe_key c (fst p))")
  case (Some f)
  let ?g = "\<lambda>v. setReflectValueFromIntf c v (ResolvedValue (snd p)) (fd_Format f)"
  from assms(5) Some have "bind_res (?g (GetValueFrom f s)) (\<lambda>r. Inr (SetValueIn f s r)) = Inr s'"
    by (auto simp: property_to_field_def elim!: bind_resE)
  from field_step [OF details_valid(1) [OF assms(1) Some] assms(3,4)
      setReflectValueFromIntf_typed [OF ResolvedValue_ok [OF assms(2)]] this]
  show ?thesis .
qed (use assms in \<open>simp add: property_to_field_def\<close>)

lemma props_field_typed:
  assumes "props_field c fs (u_walk c (dn_Properties n)) s = Inr s'" "document_ok n"
    "\<forall>f \<in> set fs. valid_path (field_path f) (rv_type s)" "wf_type (rv_type s)" "typed s"
  shows "typed s' \<and> rv_type s' = rv_type s"
proof (cases fs)
  case (Cons f gs)
  let ?g = "\<lambda>m. bind_res (createMapIfNil m)
    (fold_res (\<lambda>(k, v). setMapKeyValueFromIntf c (VString k) (ResolvedValue v)) (u_walk c (dn_Properties n)))"
  have "preserves ?g"
  proof (rule preservesI)
    fix v r
    assume v: "wf_type (rv_type v)" "typed v" "?g v = Inr r"
    then obtain m where m: "createMapIfNil v = Inr m"
      "fold_res (\<lambda>(k, v). setMapKeyValueFromIntf c (VString k) (ResolvedValue v)) (u_walk c (dn_Properties n)) m = Inr r"
      by (auto elim!: bind_resE)
    obtain a b where t: "rv_type v = TMap a b" "rv_type m = TMap a b" "typed m" "wf_type (rv_type m)"
      by (rule map_created [OF v(1,2) m(1)])
    from properties_to_map_typed [OF assms(2) t(2,4,3) m(2)] t show "same_place v r" by (simp add: same_place_def)
  qed
  from field_step [OF _ assms(4,5) withCreated_preserves [OF this], of f s'] show ?thesis
    using assms(1,3) Cons by (simp add: props_field_def fails_def split: if_splits)
qed (use assms in \<open>simp add: props_field_def\<close>)

lemma struct_properties_typed:
  assumes "details c (rv_type s) = Some d" "document_ok n" "wf_type (rv_type s)" "typed s"
    "struct_properties c d n s = Inr s'"
  shows "typed s' \<and> rv_type s' = rv_type s"
proof (cases "Len (dn_Properties n) = 0")
  case False
  let ?walk = "u_walk c (dn_Properties n)"
  from False assms(5) obtain hs s1 where s1: "fold_res (property_to_field c d) ?walk ([], s) = Inr (hs, s1)"
    "props_field c (td_StructAttrs d ''props'') ?walk s1 = Inr s'"
    by (auto simp: struct_properties_def Let_def fails_def split: if_splits elim!: bind_resE)
  have "typed (snd (hs, s1)) \<and> rv_type (snd (hs, s1)) = rv_type s"
  proof (rule fold_res_inv [where I = "\<lambda>st. typed (snd st) \<and> rv_type (snd st) = rv_type s", OF _ _ s1(1)])
    fix p st st'
    assume p: "p \<in> set ?walk" "typed (snd st) \<and> rv_type (snd st) = rv_type s" "property_to_field c d p st = Inr st'"
    then show "typed (snd st') \<and> rv_type (snd st') = rv_type s"
      using property_to_field_typed [of "snd st" d p "fst st" "fst st'" "snd st'"] assms(1,3) walk_ok [OF assms(2) p(1)]
      by simp
  qed (use assms(4) in simp)
  then have t: "typed s1" "rv_type s1 = rv_type s" by simp_all
  have "\<forall>f \<in> set (td_StructAttrs d ''props''). valid_path (field_path f) (rv_type s1)"
    using details_valid(2) [OF assms(1)] t(2) by metis
  from props_field_typed [OF s1(2) assms(2) this] t assms(3) show ?thesis by simp
qed (use assms in \<open>simp add: struct_properties_def\<close>)

lemma struct_children_typed:
  assumes "details c (rv_type s) = Some d" "\<forall>k \<in> set kids. kid_ok k" "wf_type (rv_type s)" "typed s"
    "struct_children c d n kids s = Inr s'"
  shows "typed s' \<and> rv_type s' = rv_type s"
proof (cases "kids = []")
  case False
  show ?thesis
  proof (cases "td_StructAttrs d ''children''")
    case Nil
    with False assms(5) have "unmarshalNodesToStruct c kids s = Inr s'"
      by (simp add: struct_children_def split: if_splits)
    from preservesD [OF unmarshalNodesToStruct_typed [OF assms(2)] this assms(3,4)] assms(1) show ?thesis
      by (auto simp: same_place_def details_def struct_details_def)
  next
    case (Cons f fs)
    then have v: "valid_path (field_path f) (rv_type s)" using details_valid(2) [OF assms(1), of f "''children''"] by simp
    from False Cons assms(5) have
      "bind_res (unmarshalNodesToMap c kids (GetValueFrom f s)) (\<lambda>r. Inr (SetValueIn f s r)) = Inr s'
       \<or> bind_res (unmarshalNodesToStruct c kids (GetValueFrom f s)) (\<lambda>r. Inr (SetValueIn f s r)) = Inr s'"
      by (simp add: struct_children_def Let_def fails_def split: gtype.splits if_splits)
    then show ?thesis
      using field_step [OF v assms(3,4) unmarshalNodesToMap_typed [OF assms(2)]]
        field_step [OF v assms(3,4) unmarshalNodesToStruct_typed [OF assms(2)]] by blast
  qed
qed (use assms in \<open>simp add: struct_children_def\<close>)

lemma unmarshalNodeToStruct_typed:
  assumes "document_ok n" "\<forall>k \<in> set kids. kid_ok k" "wf_type (rv_type s)" "typed s" "is_struct (rv_type s)"
    "unmarshalNodeToStruct c n kids s = Inr r"
  shows "typed r \<and> rv_type r = rv_type s"
proof -
  from assms(6) obtain d where d: "details c (rv_type s) = Some d"
    by (auto simp: unmarshalNodeToStruct_def split: option.splits)
  show ?thesis
  proof (cases "length (dn_Arguments n) = 1
      \<and> (text_method c (rv_type s) \<noteq> None \<or> value_method c (rv_type s) \<noteq> None)")
    case True
    then have "hd (dn_Arguments n) \<in> set (dn_Arguments n)" by (intro hd_in_set) auto
    then have "int64_ok (ResolvedValue (hd (dn_Arguments n)))"
      using document_ok_parts(1) [OF assms(1)] by (auto simp: args_ok_def ResolvedValue_ok)
    moreover have "rv_type s \<noteq> TInterface" using assms(5) by (auto simp: is_struct_def)
    ultimately show ?thesis
      using preservesD [OF setReflectValueFromIntf_typed _ assms(3,4)] assms(6) d True
      by (auto simp: unmarshalNodeToStruct_def same_place_def)
  next
    case False
    with assms(6) d obtain s1 s2 where s: "struct_arguments c d n s = Inr s1"
      "struct_properties c d n s1 = Inr s2" "struct_children c d n kids s2 = Inr r"
      unfolding unmarshalNodeToStruct_def by (auto elim!: bind_resE split: if_splits)
    have s1: "typed s1 \<and> rv_type s1 = rv_type s"
      by (rule struct_arguments_typed [OF d assms(1,3,4) s(1)])
    then have s2: "typed s2 \<and> rv_type s2 = rv_type s"
      using struct_properties_typed [of s1 d n s2] d assms(1,3) s(2) by simp
    then show ?thesis
      using struct_children_typed [of s2 d kids n r] d assms(2,3) s(3) by simp
  qed
qed

lemma unmarshalNodeWithUnmarshaler_typed:
  assumes "document_ok n" "wf_type (rv_type v)" "typed v" "unmarshalNodeWithUnmarshaler c v n fmt = Inr (Some r)"
  shows "same_place v r"
proof (cases "node_method c (base_type (rv_type v))")
  case (Some m)
  with assms(4) have m: "u_node c (base_type (rv_type v)) = Some m" "callStructMethod v (m n) = Inr r"
    by (auto simp: unmarshalNodeWithUnmarshaler_def Let_def node_method_def split: if_splits elim!: bind_resE)
  from callStructMethod_typed [OF node_typed [OF m(1)] assms(2,3) m(2)] show ?thesis by (simp add: same_place_def)
next
  case None
  with assms(4) have l: "length (dn_Arguments n) = 1"
    and r: "setReflectValueFromDocumentValue c v (hd (dn_Arguments n)) fmt = Inr r"
    by (auto simp: unmarshalNodeWithUnmarshaler_def Let_def split: if_splits elim!: bind_resE)
  from l have "hd (dn_Arguments n) \<in> set (dn_Arguments n)" by (intro hd_in_set) auto
  then have "int64_ok (v_Value (hd (dn_Arguments n)))"
    using document_ok_parts(1) [OF assms(1)] by (auto simp: args_ok_def)
  from preservesD [OF setReflectValueFromDocumentValue_typed [OF this] r assms(2,3)] show ?thesis .
qed

lemma set_interface_fits:
  "iface_typed x \<Longrightarrow> rv_type v = TInterface \<Longrightarrow> set_interface x v = Inr r \<Longrightarrow> fits v r"
  using set_interface_typed by (simp add: fits_def)

lemma any_typed: "typed any_map" "wf_type (rv_type any_map)" "typed any_slice" "wf_type (rv_type any_slice)"
  by (simp_all add: any_map_def any_slice_def typed_def)

lemma node_to_interface_typed:
  assumes "document_ok n" "\<forall>k \<in> set kids. kid_ok k" "rv_type v = TInterface" "typed v"
    "node_to_interface c n kids fmt v = Inr r"
  shows "fits v r"
proof -
  let ?plain = "Len (dn_Properties n) = 0 \<and> dn_Children n = []"
  consider (none) "?plain" "dn_Arguments n = []" | (one) "?plain" "length (dn_Arguments n) = 1"
    | (many) "?plain" "dn_Arguments n \<noteq> []" "length (dn_Arguments n) \<noteq> 1" | (map) "\<not> ?plain" by blast
  then show ?thesis
  proof cases
    case none
    with assms show ?thesis by (simp add: node_to_interface_def fits_def)
  next
    case one
    then have "hd (dn_Arguments n) \<in> set (dn_Arguments n)" by (intro hd_in_set) auto
    then have "iface_typed (iface_of (ResolvedValue (hd (dn_Arguments n))))"
      using document_ok_parts(1) [OF assms(1)] by (auto simp: args_ok_def intro!: iface_of_typed ResolvedValue_ok)
    moreover have "dn_Arguments n \<noteq> []" using one(2) by auto
    then have "set_interface (iface_of (ResolvedValue (hd (dn_Arguments n)))) v = Inr r"
      using one assms(5) by (simp add: node_to_interface_def Let_def)
    ultimately show ?thesis using set_interface_fits assms(3) by blast
  next
    case many
    with assms(5) obtain s where s: "unmarshalNodeToSlice c n fmt any_slice = Inr s"
      "set_interface (Some (rv_type s, rv_val s)) v = Inr r"
      by (auto simp: node_to_interface_def Let_def elim!: bind_resE split: if_splits)
    from preservesD [OF unmarshalNodeToSlice_typed [OF assms(1)] s(1)] any_typed
    have "iface_typed (Some (rv_type s, rv_val s))"
      by (auto simp: same_place_def typed_def iface_typed_def any_slice_def)
    with s(2) show ?thesis using set_interface_fits assms(3) by blast
  next
    case map
    with assms(5) obtain m where m: "unmarshalNodeToMap c n kids any_map = Inr m"
      "r = m \<or> set_interface (Some (rv_type m, rv_val m)) v = Inr r"
      by (auto simp: node_to_interface_def Let_def elim!: bind_resE split: if_splits gval.splits option.splits)
    have t: "typed m" "rv_type m = TMap TString TInterface"
      using unmarshalNodeToMap_typed [OF assms(1,2) any_typed(2,1) m(1)] by (simp_all add: any_map_def)
    then have "iface_typed (Some (rv_type m, rv_val m))" by (simp add: iface_typed_def typed_def)
    with m(2) t(1) show ?thesis using set_interface_fits assms(3) by (auto simp: fits_def)
  qed
qed

lemma node_to_kind_typed:
  assumes "document_ok n" "\<forall>k \<in> set kids. kid_ok k" "wf_type (rv_type v)" "typed v"
    "node_to_kind c n kids fmt v = Inr r"
  shows "fits v r"
proof -
  have scalar: "fits v r" if "bind_res (verifyArgsPropsChildren c n 1 [] False) (\<lambda>_.
      setReflectValueFromIntf c v (ResolvedValue (hd (dn_Arguments n))) fmt) = Inr r"
  proof -
    from that have l: "verifyArgsPropsChildren c n 1 [] False = Inr ()"
      and s: "setReflectValueFromIntf c v (ResolvedValue (hd (dn_Arguments n))) fmt = Inr r"
      by (auto elim!: bind_resE)
    from l have "hd (dn_Arguments n) \<in> set (dn_Arguments n)"
      by (intro hd_in_set) (auto simp: verifyArgsPropsChildren_def fails_def)
    then have "int64_ok (ResolvedValue (hd (dn_Arguments n)))"
      using document_ok_parts(1) [OF assms(1)] by (auto simp: args_ok_def intro: ResolvedValue_ok)
    from preservesD [OF setReflectValueFromIntf_typed [OF this] s assms(3,4)] show ?thesis
      by (auto simp: fits_def same_place_def)
  qed
  show ?thesis
  proof (cases "rv_type v")
    case (TStruct m fs)
    with assms unmarshalNodeToStruct_typed [OF assms(1-4), of r] show ?thesis
      by (simp add: node_to_kind_def fits_def is_struct_def)
  next
    case (TMap a b)
    with assms unmarshalNodeToMap_typed [OF assms(1-4), of r] show ?thesis
      by (simp add: node_to_kind_def fits_def)
  next
    case (TSlice t)
    with assms(5) preservesD [OF unmarshalNodeToSlice_typed [OF assms(1)] _ assms(3,4)] show ?thesis
      by (auto simp: node_to_kind_def fits_def same_place_def)
  next
    case (TArray k t)
    with assms(5) preservesD [OF unmarshalNodeToSlice_typed [OF assms(1)] _ assms(3,4)] show ?thesis
      by (auto simp: node_to_kind_def fits_def same_place_def)
  next
    case TInterface
    with assms(5) node_to_interface_typed [OF assms(1,2) _ assms(4)] show ?thesis
      by (simp add: node_to_kind_def)
  qed (use assms(5) scalar in \<open>simp_all add: node_to_kind_def fails_def\<close>)
qed

lemma node_to_value_typed:
  assumes "document_ok n" "\<forall>k \<in> set kids. kid_ok k"
  shows "preserves (node_to_value c n kids fmt)"
proof (rule preservesI)
  fix v r
  assume v: "wf_type (rv_type v)" "typed v" and "node_to_value c n kids fmt v = Inr r"
  then have "bind_res (unmarshalNodeWithUnmarshaler c v n fmt) (\<lambda>unmarshaled.
      case unmarshaled of Some r \<Rightarrow> Inr r | None \<Rightarrow> withCreatedAndIndirected v (node_to_kind c n kids fmt)) = Inr r"
    by (auto simp: node_to_value_def at_node_def fails_def split: sum.splits failure.splits option.splits)
  then consider "unmarshalNodeWithUnmarshaler c v n fmt = Inr (Some r)"
    | "withCreatedAndIndirected v (node_to_kind c n kids fmt) = Inr r"
    by (auto elim!: bind_resE split: option.splits)
  then show "same_place v r"
  proof cases
    case 1
    then show ?thesis by (rule unmarshalNodeWithUnmarshaler_typed [OF assms(1) v])
  next
    case 2
    from withCreated_fits [OF v 2] show ?thesis
      using node_to_kind_typed [OF assms] createAndIndirect_cases [OF _ v] by blast
  qed
qed

lemma document_ok_with_args: "document_ok n \<Longrightarrow> args_ok args \<Longrightarrow> document_ok (with_args n args)"
  by (cases n) (simp add: with_args_def args_ok_def)

lemma unmarshalNodeToValue_typed: "document_ok n \<Longrightarrow> preserves (unmarshalNodeToValue c n fmt)"
proof (induction "height n" arbitrary: n fmt rule: less_induct)
  case less
  let ?kids = "map (\<lambda>ch. (ch, \<lambda>args f w. unmarshalNodeToValue c (with_args ch args) f w)) (dn_Children n)"
  have "kid_ok k" if k: "k \<in> set ?kids" for k
  proof -
    from k obtain ch where ch: "ch \<in> set (dn_Children n)"
      "k = (ch, \<lambda>args f w. unmarshalNodeToValue c (with_args ch args) f w)" by auto
    have ok: "document_ok ch" using less(2) ch(1) by (cases n) simp
    have "preserves (unmarshalNodeToValue c (with_args ch args) f)" if "args_ok args" for args f
      by (rule less(1)) (use ch(1) ok that in \<open>simp_all add: height_child document_ok_with_args\<close>)
    with ok ch(2) show ?thesis by (simp add: kid_ok_def)
  qed
  then have "\<forall>k \<in> set ?kids. kid_ok k" by (rule ballI)
  from node_to_value_typed [OF less(2) this, of fmt]
  show ?case unfolding preserves_def unmarshalNodeToValue.simps [of c n] .
qed

lemma kid_list_ok: "\<forall>n \<in> set nodes. document_ok n \<Longrightarrow> \<forall>k \<in> set (kid_list c nodes). kid_ok k"
  by (auto simp: kid_list_def kid_ok_def document_ok_with_args intro: unmarshalNodeToValue_typed)

lemma unmarshalNodes_typed:
  assumes "\<forall>n \<in> set nodes. document_ok n"
  shows "preserves (unmarshalNodes c nodes)"
proof -
  note kids = kid_list_ok [OF assms]
  note struct = unmarshalNodesToStruct_typed [OF kids] and map = unmarshalNodesToMap_typed [OF kids]
  let ?f = "\<lambda>d. case rv_type d of
         TStruct _ _ \<Rightarrow> unmarshalNodesToStruct c (kid_list c nodes) d
       | TMap _ _ \<Rightarrow> unmarshalNodesToMap c (kid_list c nodes) d
       | TInterface \<Rightarrow>
           bind_res (unmarshalNodesToMap c (kid_list c nodes) any_map) (\<lambda>m. set_to (rv_type m) (rv_val m) d)
       | TSuffixed \<Rightarrow> Inl Outside
       | _ \<Rightarrow> fails StructOrMap"
  have "preserves ?f"
  proof (rule preservesI)
    fix v r
    assume v: "wf_type (rv_type v)" "typed v" and r: "?f v = Inr r"
    show "same_place v r"
    proof (cases "rv_type v")
      case TInterface
      with r obtain m where m: "unmarshalNodesToMap c (kid_list c nodes) any_map = Inr m"
        "set_to (rv_type m) (rv_val m) v = Inr r" by (auto elim!: bind_resE)
      have "has_type (rv_val m) (rv_type m)"
        using preservesD [OF map m(1) any_typed(2,1)] by (simp add: same_place_def typed_def)
      from set_to_typed [OF this m(2)] show ?thesis by (simp add: same_place_def)
    qed (use r preservesD [OF struct _ v] preservesD [OF map _ v] in \<open>simp_all add: fails_def\<close>)
  qed
  from withCreated_preserves [OF this] show ?thesis by (simp add: unmarshalNodes_def [abs_def])
qed

end

section \<open>Documents\<close>

interpretation plain: user_methods plain_context
  by unfold_locales (auto simp: plain_context_def Get_def split: option.splits)

text \<open>C5: unmarshalling is type sound.  Whatever the document, the options and the type of the
  target, if \<open>UnmarshalWithOptions\<close> returns without an error, the target has its type as before,
  and its contents are of this type at every depth: integers within their width, slices and maps
  of the right elements, map keys distinct, interfaces with a dynamic type that fits.  User methods
  are taken to keep the type of what they are called on, and integers of the document to be
  \<open>int64\<close>, as the reader makes them.\<close>

theorem unmarshal_type_sound:
  assumes "user_methods c" "\<forall>n \<in> set nodes. document_ok n" "wf_type t" "has_type x t"
    "UnmarshalWithOptions c nodes (Some (t, x)) = Inr r"
  shows "\<exists>y. r = Some (t, y) \<and> has_type y t"
proof -
  from assms(5) obtain v where v: "unmarshalNodes c nodes (RV False t x) = Inr v" "r = Some (rv_type v, rv_val v)"
    and t: "is_pointer t \<or> is_map t"
    by (auto simp: UnmarshalWithOptions_def unmarshal_into_def fails_def split: if_splits elim!: bind_resE)
  from t have "t \<noteq> TInterface" by (auto simp: is_pointer_def is_map_def is_big_def)
  then show ?thesis
    using preservesD [OF user_methods.unmarshalNodes_typed [OF assms(1,2)] v(1)] v(2) assms(3,4)
    by (auto simp: same_place_def typed_def)
qed

text \<open>A node with an integer as its only argument.\<close>

definition int_node :: "bytes \<Rightarrow> int \<Rightarrow> dnode" where
  "int_node name n =
     DNode (Some (no_value\<lparr>v_Value := VString name\<rparr>)) [] [no_value\<lparr>v_Value := VInt n\<rparr>] no_properties [] None"

lemma unmarshal_type_sound_witness:
  "\<exists>y. UnmarshalWithOptions plain_context [int_node ''age'' 300]
       (Some (TPtr (TStruct ''T'' [Field ''Age'' (TInt 8) [] False True]), GPtr (Some (GStruct [GInt 1]))))
     = Inr (Some (TPtr (TStruct ''T'' [Field ''Age'' (TInt 8) [] False True]), y))
     \<and> has_type y (TPtr (TStruct ''T'' [Field ''Age'' (TInt 8) [] False True]))"
proof -
  let ?t = "TPtr (TStruct ''T'' [Field ''Age'' (TInt 8) [] False True])"
  have r: "UnmarshalWithOptions plain_context [int_node ''age'' 300] (Some (?t, GPtr (Some (GStruct [GInt 1]))))
      = Inr (Some (?t, GPtr (Some (GStruct [GInt 44]))))"
    by code_simp
  have "\<forall>n \<in> set [int_node ''age'' 300]. document_ok n"
    by (simp add: int_node_def int64_ok_def is_int64_def no_properties_def no_value_def)
  from unmarshal_type_sound [OF plain.user_methods_axioms this _ _ r] r show ?thesis by simp
qed

end
