(* ===== verification/Marshal.thy ===== *)
theory Marshal
  imports Unmarshal "HOL-Library.Char_ord" "HOL-Library.List_Lexorder"
begin

text \<open>
  The marshaler (\<open>internal/marshaler/marshal.go\<close>): from a Go value to nodes.  The functions of the
  code call each other on the parts of a value; here each takes the results for the parts, in
  their order, so that the first error is the one the code returns, and three functions at the end
  tie the knot.
\<close>

section \<open>Failures, values and options\<close>

datatype marshal_error =
    BadFormat convert_error
  | NonSliceArguments
  | NonMapProperties
  | MultipleOn gtype
  | CannotMarshalNodes gtype
  | StructureUnexported
  | NotAValue token_id
  | TextValue value_error
  | MarshalerError bytes

text \<open>\<open>NoValue\<close>: a result outside the values of a document here, such as a slice within a slice.\<close>

datatype marshal_failure = Refused marshal_error | Crash | NoValue

text \<open>
  A \<open>reflect.Value\<close>: its type with its contents; \<open>Zero\<close> is the zero \<open>Value\<close>, which a nil pointer leads
  to; \<open>Opaque\<close> is the inside of a \<open>*big.Int\<close> or \<open>*big.Float\<close>.
\<close>

datatype mval = Zero | Opaque | Val gtype gval

text \<open>
  The options, and what comes from elsewhere: \<open>unicode.ToLower\<close>, the \<open>%v\<close> format, the methods
  of struct types, and the state in which the shared scanner was left.  \<open>m_index\<close> are the types
  that the index was built for: those that the type of the value contains.
\<close>

record marshalContext =
  m_CaseSensitive :: bool
  m_BareSuffixed :: bool
  m_lower :: "nat \<Rightarrow> nat"
  m_sprint :: "gtype \<Rightarrow> gval \<Rightarrow> bytes"
  m_text :: "gtype \<Rightarrow> (gval \<Rightarrow> marshal_failure + bytes) option"
  m_value :: "gtype \<Rightarrow> (gval \<Rightarrow> marshal_failure + kdl_value) option"
  m_node :: "gtype \<Rightarrow> (gval \<Rightarrow> dnode \<Rightarrow> marshal_failure + dnode) option"
  m_static :: scanner
  m_index :: "gtype list"

definition plain_marshaler :: marshalContext where
  "plain_marshaler =
     \<lparr>m_CaseSensitive = False, m_BareSuffixed = False, m_lower = (\<lambda>r. r), m_sprint = (\<lambda>_ _. []),
      m_text = (\<lambda>_. None), m_value = (\<lambda>_. None), m_node = (\<lambda>_. None), m_static = sliceScanner [],
      m_index = []\<rparr>"

text \<open>The types that the index of a type has entries for.\<close>

fun types_in :: "gtype \<Rightarrow> gtype list" and field_types :: "field list \<Rightarrow> gtype list" where
  "types_in (TPtr t) = types_in t"
| "types_in (TSlice t) = TSlice t # types_in t"
| "types_in (TArray n t) = TArray n t # types_in t"
| "types_in (TMap k v) = TMap k v # types_in k @ types_in v"
| "types_in (TStruct n fs) = TStruct n fs # field_types fs"
| "types_in t = [t]"
| "field_types [] = []"
| "field_types (Field name t tag anonymous exported # fs) =
     (case (anonymous, t) of
        (True, TStruct _ gs) \<Rightarrow> field_types gs
      | _ \<Rightarrow> if exported \<and> ''structure'' \<notin> set (fieldAttrs tag) then types_in t else []) @ field_types fs"

definition type_details :: "marshalContext \<Rightarrow> gtype \<Rightarrow> typeDetails option" where
  "type_details c t = (if t \<in> set (m_index c) then struct_details (m_lower c) (m_CaseSensitive c) t else None)"

definition text_marshaler :: "marshalContext \<Rightarrow> gtype \<Rightarrow> (gval \<Rightarrow> marshal_failure + bytes) option" where
  "text_marshaler c t = (if is_struct t \<and> t \<in> set (m_index c) then m_text c t else None)"

definition value_marshaler :: "marshalContext \<Rightarrow> gtype \<Rightarrow> (gval \<Rightarrow> marshal_failure + kdl_value) option" where
  "value_marshaler c t = (if is_struct t \<and> t \<in> set (m_index c) then m_value c t else None)"

definition node_marshaler :: "marshalContext \<Rightarrow> gtype \<Rightarrow> (gval \<Rightarrow> dnode \<Rightarrow> marshal_failure + dnode) option" where
  "node_marshaler c t = (if is_struct t \<and> t \<in> set (m_index c) then m_node c t else None)"

section \<open>Parts of a value\<close>

definition indirect :: "mval \<Rightarrow> mval" where
  "indirect v =
     (case v of
        Val (TPtr t) (GPtr (Some x)) \<Rightarrow> Val t x
      | Val (TPtr t) _ \<Rightarrow> Zero
      | Val t x \<Rightarrow> if is_big t then (if x = GPtr None then Zero else Opaque) else v
      | _ \<Rightarrow> v)"

text \<open>\<open>Interface()\<close>: what a value holds as an \<open>interface{}\<close>.\<close>

definition interface :: "gtype \<Rightarrow> gval \<Rightarrow> iface" where
  "interface t x = (case x of GIface y \<Rightarrow> y | _ \<Rightarrow> Some (t, x))"

text \<open>\<open>Elem()\<close> of an interface that is not nil.\<close>

definition elem_of_interface :: "mval \<Rightarrow> mval" where
  "elem_of_interface v = (case v of Val TInterface (GIface (Some (t, x))) \<Rightarrow> Val t x | _ \<Rightarrow> v)"

definition inside :: "gval \<Rightarrow> mval" where
  "inside x = (case x of GIface (Some (t, y)) \<Rightarrow> Val t y | _ \<Rightarrow> Zero)"

text \<open>The elements of a slice or array, and the entries of a map.\<close>

definition elements :: "gtype \<Rightarrow> gval \<Rightarrow> mval list" where
  "elements t x =
     (case x of
        GSlice (Some xs) \<Rightarrow> map (Val (elem_type t)) xs
      | GArray xs \<Rightarrow> map (Val (elem_type t)) xs
      | _ \<Rightarrow> [])"

definition key_text :: "marshalContext \<Rightarrow> iface \<Rightarrow> bytes" where
  "key_text c k = ToString (m_sprint c) k"

text \<open>\<open>sortMapKeys\<close>: the entries of a map, each with its key as an \<open>interface{}\<close>, by the text of their keys.\<close>

definition sorted_entries :: "marshalContext \<Rightarrow> gtype \<Rightarrow> gval \<Rightarrow> (iface \<times> mval) list" where
  "sorted_entries c t x =
     (case x of
        GMap (Some kvs) \<Rightarrow>
          sort_key (\<lambda>e. key_text c (fst e)) (map (\<lambda>(k, y). (interface (key_type t) k, Val (elem_type t) y)) kvs)
      | _ \<Rightarrow> [])"

text \<open>\<open>GetValueFrom\<close>; a path that leads nowhere panics.\<close>

definition field_value :: "structFieldDetails \<Rightarrow> gtype \<Rightarrow> gval \<Rightarrow> mval" where
  "field_value f t x =
     (case field_at (field_path f) t x of (u, y) \<Rightarrow> if size y < size x then Val u y else Zero)"

text \<open>\<open>IsZero\<close>; of floats only the positive zero.\<close>

fun is_zero :: "gval \<Rightarrow> bool" where
  "is_zero (GBool b) \<longleftrightarrow> \<not> b"
| "is_zero (GInt n) \<longleftrightarrow> n = 0"
| "is_zero (GFloat f) \<longleftrightarrow> f = float_zero"
| "is_zero (GString s) \<longleftrightarrow> s = []"
| "is_zero (GBigInt n) \<longleftrightarrow> False"
| "is_zero (GBigFloat x) \<longleftrightarrow> False"
| "is_zero (GSuffixed a b) \<longleftrightarrow> a = [] \<and> b = []"
| "is_zero (GIface x) \<longleftrightarrow> x = None"
| "is_zero (GPtr x) \<longleftrightarrow> x = None"
| "is_zero (GSlice x) \<longleftrightarrow> x = None"
| "is_zero (GArray xs) \<longleftrightarrow> (\<forall>x \<in> set xs. is_zero x)"
| "is_zero (GMap x) \<longleftrightarrow> x = None"
| "is_zero (GStruct xs) \<longleftrightarrow> (\<forall>x \<in> set xs. is_zero x)"

section \<open>Nodes\<close>

definition new_node :: "bytes \<Rightarrow> dnode" where
  "new_node name = DNode (Some (no_value\<lparr>v_Value := VString name\<rparr>)) [] [] no_properties [] None"

definition add_arg :: "kdl_value \<Rightarrow> dnode \<Rightarrow> dnode" where
  "add_arg v n = with_args n (dn_Arguments n @ [v])"

definition add_prop :: "bytes \<Rightarrow> kdl_value \<Rightarrow> dnode \<Rightarrow> dnode" where
  "add_prop k v n =
     DNode (dn_Name n) (dn_Type n) (dn_Arguments n) (AddAllocated k v (dn_Properties n)) (dn_Children n) (dn_Comment n)"

definition add_children :: "dnode list \<Rightarrow> dnode \<Rightarrow> dnode" where
  "add_children ns n =
     DNode (dn_Name n) (dn_Type n) (dn_Arguments n) (dn_Properties n) (dn_Children n @ ns) (dn_Comment n)"

definition prependArguments :: "bytes list \<Rightarrow> dnode \<Rightarrow> dnode" where
  "prependArguments names n = with_args n (map (\<lambda>s. no_value\<lparr>v_Value := VString s\<rparr>) names @ dn_Arguments n)"

definition the_format :: "structFieldDetails option \<Rightarrow> bytes" where
  "the_format f = (case f of None \<Rightarrow> [] | Some d \<Rightarrow> fd_Format d)"

definition tagged :: "structFieldDetails option \<Rightarrow> bytes \<Rightarrow> bool" where
  "tagged f attr = (case f of None \<Rightarrow> False | Some d \<Rightarrow> has_attr d attr)"

text \<open>\<open>&structFieldDetails{}\<close> and \<open>valuesAsChildrenMapFieldDetails\<close>.\<close>

definition no_details :: structFieldDetails where
  "no_details = \<lparr>fd_FieldIndex = 0, fd_EmbedIndex = [], fd_Format = [], fd_Attrs = []\<rparr>"

definition valuesAsChildrenMapFieldDetails :: structFieldDetails where
  "valuesAsChildrenMapFieldDetails = no_details\<lparr>fd_Attrs := [''child'']\<rparr>"

section \<open>One value\<close>

text \<open>What the values of a document can hold of a Go value.\<close>

definition go_value_of :: "iface \<Rightarrow> go_value option" where
  "go_value_of v =
     (case v of
        None \<Rightarrow> Some VNil
      | Some (t, x) \<Rightarrow>
          (case x of
             GBool b \<Rightarrow> Some (VBool b)
           | GInt n \<Rightarrow> if t = TDuration then None else Some (VInt n)
           | GFloat f \<Rightarrow> Some (VFloat f)
           | GString s \<Rightarrow> Some (if t = TExpression then VExpression s else VString s)
           | GBigInt n \<Rightarrow> Some (VBigInt n)
           | GBigFloat y \<Rightarrow> Some (VBigFloat y)
           | GSuffixed a b \<Rightarrow> Some (VSuffixed a b)
           | _ \<Rightarrow> None))"

definition plain_value :: "iface \<Rightarrow> marshal_failure + kdl_value" where
  "plain_value v = (case go_value_of v of None \<Rightarrow> Inl NoValue | Some x \<Rightarrow> Inr (no_value\<lparr>v_Value := x\<rparr>))"

definition refused :: "('e \<Rightarrow> marshal_error) \<Rightarrow> 'e + 'a \<Rightarrow> marshal_failure + 'a" where
  "refused f r = (case r of Inl e \<Rightarrow> Inl (Refused (f e)) | Inr x \<Rightarrow> Inr x)"

text \<open>The text of a \<open>TextMarshaler\<close> is scanned; what is no string is parsed.\<close>

definition marshalTextValue :: "marshalContext \<Rightarrow> bytes \<Rightarrow> marshal_failure + kdl_value" where
  "marshalTextValue c b =
     (if b = [] then Inr (no_value\<lparr>v_Value := VString []\<rparr>)
      else
        (case fst (ScanOne b (m_static c)) of
           Inl e \<Rightarrow> Inr (no_value\<lparr>v_Value := VString b\<rparr>)
         | Inr token \<Rightarrow>
             if t_ID token \<in> {BareIdentifier, RawString, QuotedString}
             then Inr (no_value\<lparr>v_Value := VString (t_Data token)\<rparr>)
             else if t_ID token \<in> {Decimal, Hexadecimal, Octal, Binary, Boolean, Null}
             then refused TextValue (ValueFromToken token)
             else Inl (Refused (NotAValue (t_ID token)))))"

text \<open>What a method of a struct is called on; a nil pointer is left out.\<close>

definition receiver :: "gtype \<Rightarrow> gval \<Rightarrow> gval option" where
  "receiver t x = (case (t, x) of (TPtr u, GPtr y) \<Rightarrow> y | _ \<Rightarrow> Some x)"

definition call :: "(gval \<Rightarrow> marshal_failure + 'a) \<Rightarrow> gtype \<Rightarrow> gval \<Rightarrow> marshal_failure + 'a" where
  "call m t x = (case receiver t x of None \<Rightarrow> Inl NoValue | Some y \<Rightarrow> m y)"

definition duration_value :: "marshalContext \<Rightarrow> int \<Rightarrow> bytes \<Rightarrow> marshal_failure + kdl_value" where
  "duration_value c d fmt =
     bind_res (refused BadFormat (marshalDurationValue d fmt)) (\<lambda>x.
       Inr (no_value\<lparr>v_Value := x, v_Flag := (if fmt = [] \<and> m_BareSuffixed c then FlagBareSuffixed else 0)\<rparr>))"

text \<open>The bytes of a \<open>[]byte\<close> or an array of them.\<close>

definition bytes_of :: "gval \<Rightarrow> bytes" where
  "bytes_of x =
     map (\<lambda>y. char_of (nat (int_of y))) (case x of GSlice (Some ys) \<Rightarrow> ys | GArray ys \<Rightarrow> ys | _ \<Rightarrow> [])"

definition bytes_text :: "bytes \<Rightarrow> bytes \<Rightarrow> marshal_failure + kdl_value" where
  "bytes_text bs fmt =
     (if fmt = ''array'' then Inl NoValue
      else bind_res (refused BadFormat (marshalByteSliceValue bs fmt)) (\<lambda>s. Inr (no_value\<lparr>v_Value := VString s\<rparr>)))"

definition reflectValueToDocumentValue ::
  "marshalContext \<Rightarrow> mval \<Rightarrow> bytes \<Rightarrow> marshal_failure + kdl_value" where
  "reflectValueToDocumentValue c v fmt =
     (case v of
        Zero \<Rightarrow> Inl Crash
      | Opaque \<Rightarrow> Inl NoValue
      | Val t x \<Rightarrow>
          (case value_marshaler c (base_type t) of
             Some m \<Rightarrow> call m t x
           | None \<Rightarrow>
               (case text_marshaler c (base_type t) of
                  Some m \<Rightarrow> bind_res (call m t x) (marshalTextValue c)
                | None \<Rightarrow>
                    (case interface t x of
                       Some (TDuration, d) \<Rightarrow> duration_value c (int_of d) fmt
                     | Some (TSlice u, bs) \<Rightarrow>
                         if u = TUint 8 then bytes_text (bytes_of bs) fmt else Inl NoValue
                     | y \<Rightarrow> plain_value y))))"

section \<open>Slices\<close>

definition marshalByteSliceToNode ::
  "marshalContext \<Rightarrow> bytes \<Rightarrow> structFieldDetails option \<Rightarrow> gval \<Rightarrow> marshal_failure + dnode" where
  "marshalByteSliceToNode c name f x =
     (case f of
        None \<Rightarrow> Inl Crash
      | Some d \<Rightarrow>
          if fd_Format d = ''array''
          then Inr (with_args (new_node name) (map (\<lambda>b. no_value\<lparr>v_Value := VInt (int (rune b))\<rparr>) (bytes_of x)))
          else bind_res (bytes_text (bytes_of x) (fd_Format d)) (\<lambda>v. Inr (add_arg v (new_node name))))"

text \<open>An element of a slice: a string with an equals sign, or a slice of key and value, is a property.\<close>

definition slice_element :: "marshalContext \<Rightarrow> gtype \<Rightarrow> bytes \<Rightarrow> mval \<Rightarrow> dnode \<Rightarrow> marshal_failure + dnode" where
  "slice_element c t fmt v n =
     (case (t \<in> {TString, TExpression}, indirect v) of
        (True, Val u (GString s)) \<Rightarrow>
          (case Cut s (CHR ''='') of
             (k, w, True) \<Rightarrow> bind_res (plain_value (FromString w)) (\<lambda>x. Inr (add_prop k x n))
           | _ \<Rightarrow> bind_res (reflectValueToDocumentValue c (indirect v) fmt) (\<lambda>x. Inr (add_arg x n)))
      | _ \<Rightarrow>
          (case elem_of_interface (indirect v) of
             Val (TSlice TInterface) (GSlice (Some [k, w])) \<Rightarrow>
               bind_res (plain_value (interface TInterface w)) (\<lambda>x.
                 Inr (add_prop (key_text c (interface TInterface k)) x n))
           | el \<Rightarrow> bind_res (reflectValueToDocumentValue c el fmt) (\<lambda>x. Inr (add_arg x n))))"

definition marshalSliceToNode ::
  "marshalContext \<Rightarrow> bytes \<Rightarrow> structFieldDetails option \<Rightarrow> gtype \<Rightarrow> gval \<Rightarrow> marshal_failure + dnode" where
  "marshalSliceToNode c name f t x =
     (if elem_type t = TUint 8 then marshalByteSliceToNode c name f x
      else fold_res (slice_element c (elem_type t) (the_format f)) (elements t x) (new_node name))"

section \<open>Maps\<close>

text \<open>What becomes of a value within a map or struct: child nodes, nothing, or a property.\<close>

datatype tried = AsChild dnode | AsChildren "dnode list" | Omitted | AsProperty

record entry_state =
  e_node :: dnode
  e_args :: "(int \<times> go_value) list"

definition put_arg :: "int \<Rightarrow> go_value \<Rightarrow> (int \<times> go_value) list \<Rightarrow> (int \<times> go_value) list" where
  "put_arg i x args = (i, x) # filter (\<lambda>a. fst a \<noteq> i) args"

definition numbered_args :: "(int \<times> go_value) list \<Rightarrow> kdl_value list" where
  "numbered_args args =
     map (\<lambda>i. no_value\<lparr>v_Value := (case map_of args (int i) of None \<Rightarrow> VNil | Some x \<Rightarrow> x)\<rparr>) [0..<length args]"

text \<open>One entry, with what trying it as a child gave.\<close>

definition map_entry ::
  "marshalContext \<Rightarrow> bytes \<Rightarrow> iface \<times> mval \<times> (marshal_failure + tried) \<Rightarrow> entry_state \<Rightarrow> marshal_failure + entry_state" where
  "map_entry c fmt e s =
     (case e of (k, v, r) \<Rightarrow>
        bind_res r (\<lambda>tr.
          case tr of
            AsChild n \<Rightarrow> Inr (s\<lparr>e_node := add_children [n] (e_node s)\<rparr>)
          | AsChildren ns \<Rightarrow> Inr (s\<lparr>e_node := add_children ns (e_node s)\<rparr>)
          | Omitted \<Rightarrow> Inr s
          | AsProperty \<Rightarrow>
              bind_res (reflectValueToDocumentValue c v fmt) (\<lambda>dv.
                if IsInteger (m_sprint c) k then Inr (s\<lparr>e_args := put_arg (ToInt64 k) (v_Value dv) (e_args s)\<rparr>)
                else Inr (s\<lparr>e_node := add_prop (key_text c k) dv (e_node s)\<rparr>))))"

definition marshalMapToNode ::
  "marshalContext \<Rightarrow> bytes \<Rightarrow> bytes \<Rightarrow> (iface \<times> mval \<times> (marshal_failure + tried)) list \<Rightarrow> marshal_failure + dnode" where
  "marshalMapToNode c name fmt es =
     bind_res (fold_res (map_entry c fmt) es \<lparr>e_node = new_node name, e_args = []\<rparr>) (\<lambda>s.
       Inr (with_args (e_node s) (dn_Arguments (e_node s) @ numbered_args (e_args s))))"

definition map_kids :: "marshalContext \<Rightarrow> gtype \<Rightarrow> gval \<Rightarrow> (iface \<times> mval) list" where
  "map_kids c t x = map (\<lambda>(k, v). (k, indirect v)) (sorted_entries c t x)"

definition map_details :: "structFieldDetails option \<Rightarrow> structFieldDetails option" where
  "map_details f = (if tagged f ''childvalues'' then Some valuesAsChildrenMapFieldDetails else None)"

section \<open>Several nodes\<close>

text \<open>The nodes that there are, in order; the first error counts.\<close>

fun collect :: "(marshal_failure + 'a option) list \<Rightarrow> marshal_failure + 'a list" where
  "collect [] = Inr []"
| "collect (r # rs) =
     bind_res r (\<lambda>n. bind_res (collect rs) (\<lambda>ns. Inr ((case n of None \<Rightarrow> [] | Some m \<Rightarrow> [m]) @ ns)))"

definition marshalMultiSliceToNodes :: "(marshal_failure + dnode option) list \<Rightarrow> marshal_failure + dnode list" where
  "marshalMultiSliceToNodes rs = collect rs"

definition marshalMapToNodes :: "(marshal_failure + dnode option) list \<Rightarrow> marshal_failure + dnode list" where
  "marshalMapToNodes rs = collect rs"

text \<open>
  \<open>marshalMultiMapToNodes\<close>: maps within maps are followed to the values, each with the keys that
  lead to it; the keys become the first arguments.
\<close>

fun multi_leaves :: "marshalContext \<Rightarrow> gtype \<Rightarrow> gtype \<Rightarrow> gval \<Rightarrow> (bytes list \<times> mval) list" where
  "multi_leaves c kt vt x =
     (case vt of
        TMap a b \<Rightarrow>
          concat (map (\<lambda>(k, v).
            case v of
              Val t y \<Rightarrow> map (\<lambda>(ks, w). (key_text c k # ks, w)) (multi_leaves c a b y)
            | _ \<Rightarrow> []) (sorted_entries c (TMap kt vt) x))
      | _ \<Rightarrow> map (\<lambda>(k, v). ([key_text c k], indirect v)) (sorted_entries c (TMap kt vt) x))"

declare multi_leaves.simps [simp del]

definition marshalMultiMapToNodes :: "(bytes list \<times> (marshal_failure + dnode option)) list \<Rightarrow> marshal_failure + dnode list" where
  "marshalMultiMapToNodes rs = collect (map (\<lambda>(ks, r). bind_res r (\<lambda>n. Inr (map_option (prependArguments ks) n))) rs)"

section \<open>Structs\<close>

text \<open>
  The fields that have a name, in order, with their values, pointers not followed.  A name that is
  not in the map of fields, because it has a blank at an end, has no details.
\<close>

definition field_kids ::
  "marshalContext \<Rightarrow> typeDetails \<Rightarrow> gtype \<Rightarrow> gval \<Rightarrow> (bytes \<times> structFieldDetails option \<times> mval) list" where
  "field_kids c d t x =
     map (\<lambda>name.
       case td_StructFields d (normalizeKey (m_lower c) name (m_CaseSensitive c)) of
         None \<Rightarrow> (name, None, Zero)
       | Some f \<Rightarrow> (name, Some f, field_value f t x))
       (filter (\<lambda>name. name \<noteq> ''-'') (td_StructFieldNameList d))"

definition is_captured :: "structFieldDetails option \<Rightarrow> bool" where
  "is_captured f = (case f of None \<Rightarrow> False | Some d \<Rightarrow> IsCapture d)"

text \<open>The fields of a struct that becomes a node; those that capture something are left out.\<close>

definition struct_kids ::
  "marshalContext \<Rightarrow> gtype \<Rightarrow> gval \<Rightarrow> (bytes \<times> structFieldDetails option \<times> mval) list" where
  "struct_kids c t x =
     (case type_details c t of
        None \<Rightarrow> []
      | Some d \<Rightarrow>
          map (\<lambda>(name, f, v). (name, f, indirect v)) (filter (\<lambda>(name, f, v). \<not> is_captured f) (field_kids c d t x)))"

definition children_kids :: "marshalContext \<Rightarrow> gtype \<Rightarrow> gval \<Rightarrow> mval list" where
  "children_kids c t x =
     (case type_details c t of
        None \<Rightarrow> []
      | Some d \<Rightarrow> map (\<lambda>f. field_value f t x) (take 1 (td_StructAttrs d ''children'')))"

definition add_values :: "marshalContext \<Rightarrow> bytes \<Rightarrow> mval list \<Rightarrow> dnode \<Rightarrow> marshal_failure + dnode" where
  "add_values c fmt vs n =
     fold_res (\<lambda>v n. bind_res (reflectValueToDocumentValue c v fmt) (\<lambda>dv. Inr (add_arg dv n))) vs n"

definition struct_arg_fields ::
  "marshalContext \<Rightarrow> typeDetails \<Rightarrow> gtype \<Rightarrow> gval \<Rightarrow> dnode \<Rightarrow> marshal_failure + dnode" where
  "struct_arg_fields c d t x n =
     fold_res (\<lambda>f. add_values c (fd_Format f) [indirect (field_value f t x)]) (td_StructAttrs d ''arg'') n"

definition struct_args_field ::
  "marshalContext \<Rightarrow> typeDetails \<Rightarrow> gtype \<Rightarrow> gval \<Rightarrow> dnode \<Rightarrow> marshal_failure + dnode" where
  "struct_args_field c d t x n =
     (case td_StructAttrs d ''args'' of
        [] \<Rightarrow> Inr n
      | f # _ \<Rightarrow>
          (case indirect (field_value f t x) of
             Val (TSlice u) y \<Rightarrow> add_values c (fd_Format f) (map indirect (elements (TSlice u) y)) n
           | Val (TArray k u) y \<Rightarrow> add_values c (fd_Format f) (map indirect (elements (TArray k u) y)) n
           | _ \<Rightarrow> Inl (Refused NonSliceArguments)))"

definition struct_props_field ::
  "marshalContext \<Rightarrow> typeDetails \<Rightarrow> gtype \<Rightarrow> gval \<Rightarrow> dnode \<Rightarrow> marshal_failure + dnode" where
  "struct_props_field c d t x n =
     (case td_StructAttrs d ''props'' of
        [] \<Rightarrow> Inr n
      | f # _ \<Rightarrow>
          (case indirect (field_value f t x) of
             Val (TMap kt vt) y \<Rightarrow>
               fold_res (\<lambda>(k, v) n.
                 bind_res (reflectValueToDocumentValue c v (fd_Format f)) (\<lambda>dv. Inr (add_prop (key_text c k) dv n)))
                 (sorted_entries c (TMap kt vt) y) n
           | _ \<Rightarrow> Inl (Refused NonMapProperties)))"

text \<open>One named field, with what trying it as a child gave.\<close>

definition struct_field ::
  "marshalContext \<Rightarrow> bytes \<times> structFieldDetails option \<times> mval \<times> (marshal_failure + tried) \<Rightarrow> dnode \<Rightarrow> marshal_failure + dnode" where
  "struct_field c e n =
     (case e of
        (name, None, v, r) \<Rightarrow> Inl Crash
      | (name, Some f, v, r) \<Rightarrow>
          bind_res r (\<lambda>tr.
            case tr of
              AsChild k \<Rightarrow> Inr (add_children [k] n)
            | AsChildren ks \<Rightarrow> Inr (add_children ks n)
            | Omitted \<Rightarrow> Inr n
            | AsProperty \<Rightarrow>
                bind_res (reflectValueToDocumentValue c v (fd_Format f)) (\<lambda>dv. Inr (add_prop name dv n))))"

definition marshalStructToNode ::
  "marshalContext \<Rightarrow> bytes \<Rightarrow> gtype \<Rightarrow> gval
   \<Rightarrow> (bytes \<times> structFieldDetails option \<times> mval \<times> (marshal_failure + tried)) list
   \<Rightarrow> (marshal_failure + dnode list) list \<Rightarrow> marshal_failure + dnode" where
  "marshalStructToNode c name t x kids children =
     (case type_details c t of
        None \<Rightarrow> Inl Crash
      | Some d \<Rightarrow>
          bind_res (struct_arg_fields c d t x (new_node name)) (\<lambda>n.
          bind_res (struct_args_field c d t x n) (\<lambda>n.
          bind_res (struct_props_field c d t x n) (\<lambda>n.
          bind_res (fold_res (struct_field c) kids n) (\<lambda>n.
          fold_res (\<lambda>r n. bind_res r (\<lambda>ns. Inr (add_children ns n))) children n)))))"

section \<open>Values with methods\<close>

definition omitted :: "structFieldDetails option \<Rightarrow> mval \<Rightarrow> marshal_failure + bool" where
  "omitted f v =
     (if \<not> tagged f ''omitempty'' then Inr False
      else (case v of Zero \<Rightarrow> Inl Crash | Opaque \<Rightarrow> Inl NoValue | Val t x \<Rightarrow> Inr (is_zero x)))"

text \<open>A method that fills a node; comments of the struct are the business of the theory \<open>Comments\<close>.\<close>

definition marshalKDLNode ::
  "(gval \<Rightarrow> dnode \<Rightarrow> marshal_failure + dnode) \<Rightarrow> bytes \<Rightarrow> gtype \<Rightarrow> gval \<Rightarrow> marshal_failure + dnode" where
  "marshalKDLNode m name t x = call (\<lambda>y. m y (new_node name)) t x"

text \<open>Without details of a field there is no format to hand on.\<close>

definition marshalValueWithMarshaler ::
  "marshalContext \<Rightarrow> bytes \<Rightarrow> mval \<Rightarrow> structFieldDetails option \<Rightarrow> marshal_failure + dnode option" where
  "marshalValueWithMarshaler c name v f =
     (case v of
        Val t x \<Rightarrow>
          (case node_marshaler c (base_type t) of
             Some m \<Rightarrow> bind_res (marshalKDLNode m name t x) (\<lambda>n. Inr (Some n))
           | None \<Rightarrow>
               if value_marshaler c (base_type t) = None \<and> text_marshaler c (base_type t) = None then Inr None
               else if f = None then Inl Crash
               else bind_res (reflectValueToDocumentValue c (indirect v) (the_format f)) (\<lambda>dv.
                      Inr (Some (add_arg dv (new_node name)))))
      | Zero \<Rightarrow> Inl Crash
      | Opaque \<Rightarrow> Inl NoValue)"

section \<open>Scalars\<close>

definition infinite_text :: "bool \<Rightarrow> bytes" where
  "infinite_text neg = (if neg then ''-Inf'' else ''+Inf'')"

text \<open>Without the format \<open>nonfinite\<close> a float that is not finite becomes zero.\<close>

definition writable_float :: "bytes \<Rightarrow> go_value \<Rightarrow> go_value" where
  "writable_float fmt v =
     (case v of
        VFloat (Inf neg) \<Rightarrow> if fmt = ''nonfinite'' then VString (infinite_text neg) else VFloat float_zero
      | VFloat NaN \<Rightarrow> if fmt = ''nonfinite'' then VString ''NaN'' else VFloat float_zero
      | _ \<Rightarrow> v)"

definition scalar_node :: "marshalContext \<Rightarrow> bytes \<Rightarrow> bytes \<Rightarrow> gtype \<Rightarrow> gval \<Rightarrow> marshal_failure + dnode" where
  "scalar_node c name fmt t x =
     bind_res (reflectValueToDocumentValue c (Val t x) fmt) (\<lambda>dv.
       Inr (add_arg
         (if t = TFloat then dv\<lparr>v_Value := writable_float fmt (v_Value dv)\<rparr>
          else if t = TString then dv\<lparr>v_Flag := v_Flag dv OR FlagQuoted\<rparr>
          else if t = TExpression then dv\<lparr>v_Flag := v_Flag dv OR FlagExpression\<rparr>
          else dv) (new_node name)))"

text \<open>The fields of a struct that becomes nodes; nothing is left out.\<close>

definition node_kids ::
  "marshalContext \<Rightarrow> gtype \<Rightarrow> gval \<Rightarrow> (bytes \<times> structFieldDetails option \<times> mval) list" where
  "node_kids c t x = (case type_details c t of None \<Rightarrow> [] | Some d \<Rightarrow> field_kids c d t x)"

definition marshalStructToNodes ::
  "marshalContext \<Rightarrow> gtype \<Rightarrow> gval \<Rightarrow> (marshal_failure + dnode list) list \<Rightarrow> marshal_failure + dnode list" where
  "marshalStructToNodes c t x kids =
     bind_res (marshalValueWithMarshaler c [] (Val t x) None) (\<lambda>marshaled.
       case marshaled of
         Some n \<Rightarrow> Inr (dn_Children n)
       | None \<Rightarrow>
           if type_details c t = None then Inl Crash
           else fold_res (\<lambda>r ns. bind_res r (\<lambda>ms. Inr (ns @ ms))) kids [])"

section \<open>Parts are smaller\<close>

fun msize :: "mval \<Rightarrow> nat" where
  "msize (Val t x) = Suc (size x)"
| "msize Zero = 0"
| "msize Opaque = 0"

lemma msize_indirect: "msize (indirect v) \<le> msize v"
  by (cases v) (simp_all add: indirect_def split: gtype.split gval.split option.split)

lemma msize_elem: "msize (elem_of_interface v) \<le> msize v"
  by (cases v) (simp_all add: elem_of_interface_def split: gtype.split gval.split option.split)

lemma msize_field: "msize (field_value f t x) \<le> size x"
  by (auto simp: field_value_def split: prod.splits)

lemma msize_elements: "v \<in> set (elements t x) \<Longrightarrow> msize v \<le> size x"
  by (auto simp: elements_def split: gval.splits option.splits)
    (metis size_list_estimation' le_imp_less_Suc order_refl less_eq_Suc_le Suc_leD)+

lemma msize_entries: "(k, v) \<in> set (sorted_entries c t x) \<Longrightarrow> msize v \<le> size x"
  by (auto simp: sorted_entries_def split: gval.splits option.splits)
    (fastforce dest!: size_list_estimation' [where f = "size_prod size size", OF _ order_refl])

lemma msize_map_kids: "(k, v) \<in> set (map_kids c t x) \<Longrightarrow> msize v \<le> size x"
  using msize_entries msize_indirect order_trans by (fastforce simp: map_kids_def)

lemma msize_leaves: "(ks, v) \<in> set (multi_leaves c kt vt x) \<Longrightarrow> msize v \<le> size x"
proof (induction c kt vt x arbitrary: ks v rule: multi_leaves.induct)
  case (1 c kt vt x)
  show ?case
  proof (cases "\<exists>a b. vt = TMap a b")
    case True
    then obtain a b where vt: "vt = TMap a b" by blast
    with "1.prems" obtain k t y ks' where e: "(k, Val t y) \<in> set (sorted_entries c (TMap kt vt) x)"
      and "(ks', v) \<in> set (multi_leaves c a b y)"
      by (subst (asm) multi_leaves.simps) (auto split: mval.splits)
    with "1.IH" [OF vt e refl refl] msize_entries [OF e] show ?thesis by fastforce
  next
    case False
    with "1.prems" have "(ks, v) \<in> set (map (\<lambda>(k, v). ([key_text c k], indirect v)) (sorted_entries c (TMap kt vt) x))"
      by (subst (asm) multi_leaves.simps) (auto split: gtype.splits)
    then show ?thesis using msize_entries msize_indirect order_trans by fastforce
  qed
qed

lemma msize_fields: "(name, f, v) \<in> set (field_kids c d t x) \<Longrightarrow> msize v \<le> size x"
  by (auto simp: field_kids_def msize_field split: option.splits)

lemma msize_node_kids: "(name, f, v) \<in> set (node_kids c t x) \<Longrightarrow> msize v \<le> size x"
  by (auto simp: node_kids_def msize_fields split: option.splits)

lemma msize_struct_kids: "(name, f, v) \<in> set (struct_kids c t x) \<Longrightarrow> msize v \<le> size x"
  using msize_fields msize_indirect order_trans by (fastforce simp: struct_kids_def split: option.splits)

lemma msize_children_kids: "v \<in> set (children_kids c t x) \<Longrightarrow> msize v \<le> size x"
  by (auto simp: children_kids_def msize_field split: option.splits)

lemma msize_indirect_le: "indirect v = Val t x \<Longrightarrow> Suc (size x) \<le> msize v"
  using msize_indirect [of v] by simp

lemma msize_elem_le: "elem_of_interface v = Val t x \<Longrightarrow> Suc (size x) \<le> msize v"
  using msize_elem [of v] by simp

lemma msize_inside: "msize (inside x) \<le> size x"
  by (auto simp: inside_def split: gval.splits option.splits)

lemma msize_each: "v \<in> set (elements t x) \<Longrightarrow> msize (indirect v) \<le> size x"
  using msize_elements msize_indirect order_trans by blast

lemmas part_sizes = msize_each msize_entries msize_map_kids msize_leaves msize_struct_kids msize_node_kids
  msize_children_kids msize_indirect_le msize_elem_le

section \<open>The marshaler\<close>

text \<open>The types whose slices become several nodes: structs, also through pointers.\<close>

fun struct_kind :: "gtype \<Rightarrow> bool" where
  "struct_kind (TPtr t) = struct_kind t"
| "struct_kind t = (is_struct t \<or> t = TSuffixed \<or> is_big t)"

definition is_sequence :: "gtype \<Rightarrow> bool" where
  "is_sequence t = (case t of TSlice _ \<Rightarrow> True | TArray _ _ \<Rightarrow> True | _ \<Rightarrow> False)"

definition one_node :: "marshal_failure + dnode \<Rightarrow> marshal_failure + dnode option" where
  "one_node r = bind_res r (\<lambda>n. Inr (Some n))"

definition as_child :: "marshal_failure + dnode \<Rightarrow> marshal_failure + tried" where
  "as_child r = bind_res r (\<lambda>n. Inr (AsChild n))"

definition as_children :: "marshal_failure + dnode list \<Rightarrow> marshal_failure + tried" where
  "as_children r = bind_res r (\<lambda>ns. Inr (AsChildren ns))"

text \<open>A value that is no map, slice or struct is a child only where the field asks for one.\<close>

definition as_asked :: "structFieldDetails option \<Rightarrow> marshal_failure + dnode option \<Rightarrow> marshal_failure + tried" where
  "as_asked f r =
     (if tagged f ''child'' then bind_res r (\<lambda>n. Inr (case n of None \<Rightarrow> AsProperty | Some k \<Rightarrow> AsChild k))
      else Inr AsProperty)"

text \<open>The kinds with nothing inside: bool, integers, duration, float, string.\<close>

function
  marshalValueToNode :: "marshalContext \<Rightarrow> bytes \<Rightarrow> structFieldDetails option \<Rightarrow> mval \<Rightarrow> marshal_failure + dnode option" and
  tryMarshalValueAsChild :: "marshalContext \<Rightarrow> bytes \<Rightarrow> structFieldDetails option \<Rightarrow> mval \<Rightarrow> marshal_failure + tried" and
  marshalValueToNodeOrNodes :: "marshalContext \<Rightarrow> bytes \<Rightarrow> structFieldDetails option \<Rightarrow> mval \<Rightarrow> marshal_failure + dnode list" and
  marshalValueToNodes :: "marshalContext \<Rightarrow> mval \<Rightarrow> marshal_failure + dnode list"
where
  "marshalValueToNode c name f v =
     bind_res (omitted f (indirect v)) (\<lambda>skip.
       if skip then Inr None
       else
         bind_res (marshalValueWithMarshaler c name v f) (\<lambda>marshaled.
           if marshaled \<noteq> None then Inr marshaled
           else
             (case indirect v of
                Zero \<Rightarrow> Inr None
              | Opaque \<Rightarrow> Inl NoValue
              | Val t x \<Rightarrow>
                  (case t of
                     TPtr _ \<Rightarrow> Inr None
                   | TSuffixed \<Rightarrow> Inl NoValue
                   | TInterface \<Rightarrow>
                       if inside x = Zero then Inr (Some (add_arg no_value (new_node name)))
                       else marshalValueToNode c name f (inside x)
                   | TStruct _ _ \<Rightarrow>
                       one_node (marshalStructToNode c name t x
                         (map (\<lambda>(k, g, w). (k, g, w, tryMarshalValueAsChild c k g w)) (struct_kids c t x))
                         (map (marshalValueToNodes c) (children_kids c t x)))
                   | TMap _ _ \<Rightarrow>
                       one_node (marshalMapToNode c name (the_format f)
                         (map (\<lambda>(k, w). (k, w, tryMarshalValueAsChild c (key_text c k) (map_details f) w))
                           (map_kids c t x)))
                   | TSlice _ \<Rightarrow> one_node (marshalSliceToNode c name f t x)
                   | TArray _ _ \<Rightarrow> one_node (marshalSliceToNode c name f t x)
                   | _ \<Rightarrow> one_node (scalar_node c name (the_format f) t x)))))"
| "tryMarshalValueAsChild c name f v =
     (case elem_of_interface v of
        Zero \<Rightarrow> Inl Crash
      | Opaque \<Rightarrow> Inl NoValue
      | Val t x \<Rightarrow>
          if tagged f ''omitempty'' \<and> is_zero x then Inr Omitted
          else if node_marshaler c (base_type t) \<noteq> None then Inr AsProperty
          else if value_marshaler c (base_type t) \<noteq> None \<or> text_marshaler c (base_type t) \<noteq> None
          then as_asked f (marshalValueToNode c name f (Val t x))
          else if is_sequence t \<and> struct_kind (elem_type t)
          then as_children (marshalMultiSliceToNodes
                 (map (\<lambda>w. marshalValueToNode c name (Some no_details) (indirect w)) (elements t x)))
          else if is_sequence t then as_child (marshalSliceToNode c name (Some no_details) t x)
          else
            (case t of
               TSuffixed \<Rightarrow> Inl NoValue
             | TStruct _ _ \<Rightarrow>
                 as_child (marshalStructToNode c name t x
                   (map (\<lambda>(k, g, w). (k, g, w, tryMarshalValueAsChild c k g w)) (struct_kids c t x))
                   (map (marshalValueToNodes c) (children_kids c t x)))
             | TMap kt vt \<Rightarrow>
                 if tagged f ''multiple''
                 then as_children (marshalMultiMapToNodes
                        (map (\<lambda>(ks, w). (ks, marshalValueToNode c name f w)) (multi_leaves c kt vt x)))
                 else as_child (marshalMapToNode c name (the_format f)
                        (map (\<lambda>(k, w). (k, w, tryMarshalValueAsChild c (key_text c k) (map_details f) w))
                          (map_kids c t x)))
             | _ \<Rightarrow> as_asked f (marshalValueToNode c name f (Val t x))))"
| "marshalValueToNodeOrNodes c name f v =
     (if f = None then Inl Crash
      else if \<not> tagged f ''multiple'' then collect [marshalValueToNode c name f v]
      else
        (case indirect v of
           Zero \<Rightarrow> Inl Crash
         | Opaque \<Rightarrow> Inl NoValue
         | Val t x \<Rightarrow>
             if is_sequence t
             then marshalMultiSliceToNodes (map (\<lambda>w. marshalValueToNode c name f (indirect w)) (elements t x))
             else
               (case t of
                  TMap kt vt \<Rightarrow>
                    marshalMultiMapToNodes (map (\<lambda>(ks, w). (ks, marshalValueToNode c name f w)) (multi_leaves c kt vt x))
                | _ \<Rightarrow> Inl (Refused (MultipleOn t)))))"
| "marshalValueToNodes c v =
     (case indirect v of
        Zero \<Rightarrow> Inl Crash
      | Opaque \<Rightarrow> Inl NoValue
      | Val t x \<Rightarrow>
          (case t of
             TInterface \<Rightarrow> marshalValueToNodes c (inside x)
           | TSuffixed \<Rightarrow> Inl NoValue
           | TMap _ _ \<Rightarrow>
               if indirect v \<noteq> v then Inl Crash
               else marshalMapToNodes
                      (map (\<lambda>(k, w). marshalValueToNode c (key_text c k) None w) (sorted_entries c t x))
           | TStruct _ _ \<Rightarrow>
               marshalStructToNodes c t x
                 (map (\<lambda>(name, f, w). marshalValueToNodeOrNodes c name f w) (node_kids c t x))
           | _ \<Rightarrow> Inl (Refused (CannotMarshalNodes t))))"
  by pat_completeness auto
termination
  apply (relation "measures
    [\<lambda>q. case q of
       Inl (Inl (c, name, f, v)) \<Rightarrow> msize v | Inl (Inr (c, name, f, v)) \<Rightarrow> msize v
     | Inr (Inl (c, name, f, v)) \<Rightarrow> msize v | Inr (Inr (c, v)) \<Rightarrow> msize v,
     \<lambda>q. case q of Inl (Inl _) \<Rightarrow> 0 | _ \<Rightarrow> 1]")
  apply (auto dest!: part_sizes simp: less_eq_Suc_le [symmetric] intro: le_less_trans [OF msize_inside])
  done

declare marshalValueToNode.simps [simp del]
declare tryMarshalValueAsChild.simps [simp del]
declare marshalValueToNodeOrNodes.simps [simp del]
declare marshalValueToNodes.simps [simp del]

section \<open>Documents\<close>

definition mval_of :: "iface \<Rightarrow> mval" where
  "mval_of v = (case v of None \<Rightarrow> Zero | Some (t, x) \<Rightarrow> Val t x)"

definition indexed :: "marshalContext \<Rightarrow> iface \<Rightarrow> marshalContext" where
  "indexed c v = c\<lparr>m_index := (case v of None \<Rightarrow> [] | Some (t, _) \<Rightarrow> types_in t)\<rparr>"

text \<open>\<open>MarshalWithOptions\<close> appends to the nodes of a document, here \<open>nodes\<close>.\<close>

definition MarshalWithOptions :: "marshalContext \<Rightarrow> iface \<Rightarrow> dnode list \<Rightarrow> marshal_failure + dnode list" where
  "MarshalWithOptions c v nodes =
     (if \<not> IndexIntf (m_lower c) (m_CaseSensitive c) v then Inl (Refused StructureUnexported)
      else bind_res (marshalValueToNodes (indexed c v) (mval_of v)) (\<lambda>ns. Inr (nodes @ ns)))"

definition MarshalNodeWithOptions :: "marshalContext \<Rightarrow> iface \<Rightarrow> marshal_failure + dnode option" where
  "MarshalNodeWithOptions c v =
     (if \<not> IndexIntf (m_lower c) (m_CaseSensitive c) v then Inl (Refused StructureUnexported)
      else marshalValueToNode (indexed c v) [] None (mval_of v))"

end
