(* ===== verification/RoundTrip.thy ===== *)
theory RoundTrip
  imports Marshal Typing
begin

text \<open>
  Marshalling and unmarshalling are inverse to each other on scalars, structs of what can be stored,
  and slices of scalars: the nodes that the marshaler makes of such a value, unmarshalled into a
  new value of the type, give the value back.
\<close>

section \<open>Values that can be stored\<close>

definition scalar_type :: "gtype \<Rightarrow> bool" where
  "scalar_type t \<longleftrightarrow>
     (case t of
        TBool \<Rightarrow> True | TFloat \<Rightarrow> True | TString \<Rightarrow> True | TExpression \<Rightarrow> True
      | TInt w \<Rightarrow> w \<in> {8, 16, 32, 64} | TUint w \<Rightarrow> w \<in> {8, 16, 32, 64} | _ \<Rightarrow> False)"

definition is_finite :: "float64 \<Rightarrow> bool" where
  "is_finite f = (case f of Fin _ _ _ \<Rightarrow> True | _ \<Rightarrow> False)"

definition scalar_ok :: "gtype \<Rightarrow> gval \<Rightarrow> bool" where
  "scalar_ok t x \<longleftrightarrow> scalar_type t \<and> has_type x t \<and> (case x of GFloat f \<Rightarrow> is_finite f | _ \<Rightarrow> True)"

text \<open>What a value of the document holds for a scalar.\<close>

definition scalar_value :: "gtype \<Rightarrow> gval \<Rightarrow> go_value" where
  "scalar_value t x =
     (case x of
        GBool b \<Rightarrow> VBool b | GInt n \<Rightarrow> VInt n | GFloat f \<Rightarrow> VFloat f
      | GString s \<Rightarrow> if t = TExpression then VExpression s else VString s | _ \<Rightarrow> VNil)"

definition holds :: "kdl_value \<Rightarrow> gtype \<Rightarrow> gval \<Rightarrow> bool" where
  "holds v t x \<longleftrightarrow> v_Type v = [] \<and> v_Value v = scalar_value t x"

lemma scalar_cases:
  assumes "scalar_ok t x"
  obtains b where "t = TBool" "x = GBool b"
  | w n where "t = TInt w" "w \<in> {8, 16, 32, 64}" "x = GInt n" "- (2 ^ (w - 1)) \<le> n" "n < 2 ^ (w - 1)"
  | w n where "t = TUint w" "w \<in> {8, 16, 32, 64}" "x = GInt n" "0 \<le> n" "n < 2 ^ w"
  | neg m e where "t = TFloat" "x = GFloat (Fin neg m e)"
  | s where "t = TString" "x = GString s"
  | s where "t = TExpression" "x = GString s"
proof (cases x)
  case (GIface y) with assms show ?thesis by (cases y) (auto simp: scalar_ok_def scalar_type_def)
next
  case (GPtr y) with assms show ?thesis by (cases y) (auto simp: scalar_ok_def scalar_type_def split: gtype.splits)
next
  case (GSlice y) with assms show ?thesis by (cases y) (auto simp: scalar_ok_def scalar_type_def split: gtype.splits)
next
  case (GMap y) with assms show ?thesis by (cases y) (auto simp: scalar_ok_def scalar_type_def split: gtype.splits)
qed (use assms that in \<open>auto simp: scalar_ok_def scalar_type_def is_finite_def split: gtype.splits float64.splits\<close>)

lemma unquoted_string: "v_Type v = [] \<Longrightarrow> v_Value v = VString s \<Longrightarrow> value_string v voNoQuotes VersionV1 = s"
  by (simp add: value_string_def append_value_def numeric_base_def append_string_value_def Has_def vo_defs)

lemma ValueString_name [simp]: "ValueString (no_value\<lparr>v_Value := VString s\<rparr>) = s"
  by (simp add: ValueString_def append_value_def numeric_base_def append_string_value_def Has_def vo_defs
      no_value_def flag_defs)

lemma ResolvedValue_holds: "holds v t x \<Longrightarrow> scalar_ok t x \<Longrightarrow> ResolvedValue v = scalar_value t x"
  by (erule scalar_cases) (simp_all add: holds_def scalar_value_def ResolvedValue_def unquoted_string)

lemma wrap_mod: "wrap_int 64 n mod 18446744073709551616 = n mod 18446744073709551616"
  by (simp add: wrap_int_def mod_diff_left_eq)

section \<open>Scalars\<close>

text \<open>Two contexts without user methods that agree on names; properties are walked in any order.\<close>

locale no_methods =
  fixes c :: marshalContext and d :: unmarshalContext and l :: "nat \<Rightarrow> nat" and cs :: bool
  assumes methods: "m_text c = (\<lambda>_. None)" "m_value c = (\<lambda>_. None)" "m_node c = (\<lambda>_. None)"
      "u_text d = (\<lambda>_. None)" "u_value d = (\<lambda>_. None)" "u_node d = (\<lambda>_. None)"
    and names: "m_lower c = l" "u_lower d = l" "m_CaseSensitive c = cs" "u_CaseSensitive d = cs"
    and strict: "\<not> u_AllowUnhandledChildren d" "u_RelaxedNonCompliant d = 0"
    and walk: "ok_properties p \<Longrightarrow> distinct (map fst (u_walk d p))"
      "ok_properties p \<Longrightarrow> set (u_walk d p) = {(k, v). Get p k = Some v}"
begin

lemma no_method [simp]: "node_marshaler c t = None" "value_marshaler c t = None" "text_marshaler c t = None"
  "text_method d t = None" "value_method d t = None" "node_method d t = None"
  by (simp_all add: node_marshaler_def value_marshaler_def text_marshaler_def text_method_def
      value_method_def node_method_def methods)

lemma no_marshaler [simp]: "marshalValueWithMarshaler c name (Val t x) f = Inr None"
  by (simp add: marshalValueWithMarshaler_def)

lemma no_unmarshaler [simp]: "unmarshalIntfWithUnmarshaler d r v = Inr None" "unmarshalNodeWithUnmarshaler d r n fmt = Inr None"
  by (simp_all add: unmarshalIntfWithUnmarshaler_def unmarshalNodeWithUnmarshaler_def Let_def)

lemma scalar_value_of: "scalar_ok t x \<Longrightarrow>
    reflectValueToDocumentValue c (Val t x) [] = Inr (no_value\<lparr>v_Value := scalar_value t x\<rparr>)"
  by (erule scalar_cases)
    (simp_all add: reflectValueToDocumentValue_def interface_def plain_value_def go_value_of_def scalar_value_def)

lemma holds_plain: "holds (no_value\<lparr>v_Value := scalar_value t x\<rparr>) t x"
  by (simp add: holds_def no_value_def)

lemma scalar_node_of:
  assumes "scalar_ok t x"
  shows "\<exists>v. scalar_node c name [] t x = Inr (add_arg v (new_node name)) \<and> holds v t x"
  unfolding scalar_node_def scalar_value_of [OF assms] bind_res.simps
  using assms
  by (cases rule: scalar_cases) (auto simp: writable_float_def holds_def no_value_def scalar_value_def)

lemma scalar_set:
  assumes "scalar_ok t x" "holds v t x"
  shows "setReflectValueFromIntf d (RV True t y) (ResolvedValue v) [] = Inr (RV True t x)"
proof -
  have w: "withCreatedAndIndirected (RV True t y) f = bind_res (f (RV True t y)) (\<lambda>r.
      bind_res (assign t r) (\<lambda>x. Inr (RV True t x)))" for f
    using assms(1) by (cases rule: scalar_cases) (simp_all add: withCreatedAndIndirected_def createAndIndirect_def is_big_def)
  have "directSetReflectValueFromIntf d (RV True t y) (iface_of (scalar_value t x)) [] = Inr (RV True t x)"
    using assms(1)
    by (cases rule: scalar_cases)
      (auto simp: directSetReflectValueFromIntf_def strict permit_def scalar_value_def set_to_def assign_def
        ToBool_def ToInt64_def ToUint64_def ToFloat64_def finite_value_def ToString_def text_of_def stringer_def
        is_int_type_def int_of_def float_of_def wrap_int_id wrap_uint_id wrap_uint_def wrap_mod)
  then show ?thesis
    by (simp add: setReflectValueFromIntf_def w ResolvedValue_holds [OF assms(2,1)] assign_def Let_def)
qed

end

section \<open>Structs\<close>

text \<open>
  Fields that are exported, not embedded, and whose tag gives a name at most; the names are
  distinct, and looking one up finds it.
\<close>

definition field_name :: "(nat \<Rightarrow> nat) \<Rightarrow> bool \<Rightarrow> field \<Rightarrow> bytes" where
  "field_name l cs f = fieldTagOrName l (f_tag f) (f_name f) cs"

definition plain_fields :: "(nat \<Rightarrow> nat) \<Rightarrow> bool \<Rightarrow> field list \<Rightarrow> bool" where
  "plain_fields l cs fs \<longleftrightarrow>
     (\<forall>f \<in> set fs. f_exported f \<and> \<not> f_anonymous f \<and> fieldAttrs (f_tag f) = []
        \<and> field_name l cs f \<noteq> ''-'' \<and> normalizeKey l (field_name l cs f) cs = field_name l cs f)
     \<and> distinct (map (field_name l cs) fs)"

definition nth_field :: "nat \<Rightarrow> structFieldDetails" where
  "nth_field i = \<lparr>fd_FieldIndex = i, fd_EmbedIndex = [], fd_Format = [], fd_Attrs = []\<rparr>"

lemma nth_field_simps [simp]: "fd_Format (nth_field i) = []" "fd_Attrs (nth_field i) = []"
  "\<not> has_attr (nth_field i) a" "\<not> IsMultiple (nth_field i)" "\<not> IsCapture (nth_field i)"
  by (simp_all add: nth_field_def has_attr_def IsMultiple_def IsCapture_def)

lemma index_plain:
  assumes "\<forall>f \<in> set fs. f_exported f \<and> \<not> f_anonymous f \<and> fieldAttrs (f_tag f) = []"
  shows "indexStructFields l cs [] n fs = Some (map (\<lambda>(i, f). (field_name l cs f, nth_field i)) (List.enumerate n fs))"
  using assms
proof (induction fs arbitrary: n)
  case (Cons f fs)
  then show ?case
    by (cases f) (simp add: field_name_def nth_field_def format_attr_def split: gtype.splits)
qed simp

lemma enumerate_names: "map (\<lambda>(i, f). (field_name l cs f, nth_field i)) (List.enumerate 0 fs)
    = map (\<lambda>i. (field_name l cs (fs ! i), nth_field i)) [0..<length fs]"
  by (auto intro!: nth_equalityI simp: nth_enumerate_eq)

lemma plain_details:
  assumes "plain_fields l cs fs"
  obtains D where "struct_details l cs (TStruct nm fs) = Some D"
    and "\<And>i. i < length fs \<Longrightarrow> td_StructFields D (field_name l cs (fs ! i)) = Some (nth_field i)"
    and "td_StructAttrs D = (\<lambda>_. [])"
    and "td_StructFieldNameList D = map (\<lambda>i. field_name l cs (fs ! i)) [0..<length fs]"
proof -
  let ?fls = "map (\<lambda>i. (field_name l cs (fs ! i), nth_field i)) [0..<length fs]"
  have sd: "struct_details l cs (TStruct nm fs) = Some (details_of ?fls)"
    using assms by (simp add: struct_details_def plain_fields_def index_plain enumerate_names)
  have keys: "map fst ?fls = map (field_name l cs) fs"
    by (auto intro!: nth_equalityI)
  have named: "filter (\<lambda>p. \<not> has_attr (snd p) ''structure'') ?fls = ?fls"
    by (auto simp: filter_id_conv has_attr_def nth_field_def)
  have dist: "distinct (map fst (rev ?fls))"
    using assms keys by (simp add: rev_map [symmetric] plain_fields_def)
  show ?thesis
  proof (rule that [OF sd])
    fix i assume "i < length fs"
    then have "(field_name l cs (fs ! i), nth_field i) \<in> set (rev ?fls)" by auto
    then show "td_StructFields (details_of ?fls) (field_name l cs (fs ! i)) = Some (nth_field i)"
      unfolding details_of_def Let_def named using dist by (simp add: map_of_eq_Some_iff)
  next
    show "td_StructAttrs (details_of ?fls) = (\<lambda>_. [])"
      by (simp add: details_of_def Let_def nth_field_def comp_def fun_eq_iff concat_eq_Nil_conv)
  next
    show "td_StructFieldNameList (details_of ?fls) = map (\<lambda>i. field_name l cs (fs ! i)) [0..<length fs]"
      unfolding details_of_def Let_def named by (simp add: comp_def)
  qed
qed

lemma nth_field_value:
  "i < length vs \<Longrightarrow> field_value (nth_field i) (TStruct nm fs) (GStruct vs) = Val (f_type (fs ! i)) (vs ! i)"
  using size_list_estimation' [of "vs ! i" vs "size (vs ! i)" size]
  by (simp add: field_value_def field_path_def nth_field_def less_Suc_eq_le)

lemma nth_field_get:
  "GetValueFrom (nth_field i) (RV b (TStruct nm fs) (GStruct ys)) = RV b (f_type (fs ! i)) (ys ! i)"
  by (simp add: GetValueFrom_def field_path_def nth_field_def)

lemma nth_field_set:
  "SetValueIn (nth_field i) (RV True (TStruct nm fs) (GStruct ys)) r = RV True (TStruct nm fs) (GStruct (ys[i := rv_val r]))"
  by (simp add: SetValueIn_def field_path_def nth_field_def Let_def)

text \<open>The struct whose fields in \<open>A\<close> have been set, the others being new.\<close>

definition filled :: "field list \<Rightarrow> gval list \<Rightarrow> nat set \<Rightarrow> gval" where
  "filled fs vs A = GStruct (map (\<lambda>i. if i \<in> A then vs ! i else zero (f_type (fs ! i))) [0..<length fs])"

lemma filled_empty: "zero (TStruct nm fs) = filled fs vs {}"
  by (auto simp: filled_def intro!: nth_equalityI)

lemma filled_all: "length vs = length fs \<Longrightarrow> {0..<length fs} \<subseteq> A \<Longrightarrow> filled fs vs A = GStruct vs"
  by (auto simp: filled_def subset_iff intro!: nth_equalityI)

lemma filled_get: "i < length fs \<Longrightarrow> GetValueFrom (nth_field i) (RV True (TStruct nm fs) (filled fs vs A))
    = RV True (f_type (fs ! i)) (if i \<in> A then vs ! i else zero (f_type (fs ! i)))"
  by (simp add: filled_def nth_field_get)

lemma filled_set: "i < length fs \<Longrightarrow> rv_val r = vs ! i \<Longrightarrow>
    SetValueIn (nth_field i) (RV True (TStruct nm fs) (filled fs vs A)) r
      = RV True (TStruct nm fs) (filled fs vs (insert i A))"
  by (auto simp: filled_def nth_field_set intro!: nth_equalityI simp: nth_list_update)

section \<open>What is stored is read back\<close>

definition direct :: "gtype \<Rightarrow> bool" where
  "direct t \<longleftrightarrow> (\<forall>u. t \<noteq> TPtr u) \<and> \<not> is_big t"

lemma indirect_direct [simp]: "direct t \<Longrightarrow> indirect (Val t x) = Val t x"
  by (cases t) (simp_all add: indirect_def direct_def)

lemma created_direct: "direct t \<Longrightarrow> withCreatedAndIndirected (RV True t y) g =
    bind_res (g (RV True t y)) (\<lambda>r. bind_res (assign t r) (\<lambda>x. Inr (RV True t x)))"
  by (cases t) (simp_all add: withCreatedAndIndirected_def createAndIndirect_def direct_def)

definition bare :: "structFieldDetails option \<Rightarrow> bool" where
  "bare f \<longleftrightarrow> (\<forall>g. f = Some g \<longrightarrow> fd_Attrs g = [] \<and> fd_Format g = [])"

lemma bare_simps [simp]: "bare f \<Longrightarrow> \<not> tagged f a" "bare f \<Longrightarrow> the_format f = []" "bare (Some (nth_field i))"
  "bare (Some no_details)" "bare None"
  by (auto simp: bare_def tagged_def the_format_def has_attr_def nth_field_def no_details_def split: option.splits)

lemma bare_map [simp]: "bare f \<Longrightarrow> map_details f = None"
  by (simp add: map_details_def)

lemma omitted_bare [simp]: "bare f \<Longrightarrow> omitted f v = Inr False"
  by (simp add: omitted_def)

lemma with_own_args [simp]: "with_args n (dn_Arguments n) = n"
  by (cases n) (simp add: with_args_def)

text \<open>Slices of scalars; a string with an equals sign would become a property.\<close>

definition element_ok :: "gtype \<Rightarrow> gval \<Rightarrow> bool" where
  "element_ok u x \<longleftrightarrow> scalar_ok u x \<and> (case x of GString s \<Rightarrow> CHR ''='' \<notin> set s | _ \<Rightarrow> True)"

context no_methods
begin

definition reads_back :: "gtype \<Rightarrow> gval \<Rightarrow> bytes \<Rightarrow> dnode \<Rightarrow> bool" where
  "reads_back t x name n \<longleftrightarrow> dn_Name n = Some (no_value\<lparr>v_Value := VString name\<rparr>)
     \<and> unmarshalNodeToValue d n [] (RV True t (zero t)) = Inr (RV True t x)"

definition stored :: "gtype \<Rightarrow> gval \<Rightarrow> bool" where
  "stored t x \<longleftrightarrow> direct t \<and> (\<forall>name f. bare f \<longrightarrow>
     (\<exists>n. marshalValueToNode c name f (Val t x) = Inr (Some n) \<and> reads_back t x name n
        \<and> tryMarshalValueAsChild c name f (Val t x) = Inr (if scalar_type t then AsProperty else AsChild n)))"

lemma scalar_direct: "scalar_type t \<Longrightarrow> direct t"
  by (cases t) (simp_all add: scalar_type_def direct_def is_big_def)

lemma scalar_reads_back:
  assumes "scalar_ok t x" "holds v t x"
  shows "reads_back t x name (add_arg v (new_node name))"
proof -
  let ?n = "add_arg v (new_node name)"
  have t: "scalar_type t" using assms(1) by (simp add: scalar_ok_def)
  have n: "dn_Arguments ?n = [v]" "dn_Children ?n = []" "Len (dn_Properties ?n) = 0"
    "dn_Name ?n = Some (no_value\<lparr>v_Value := VString name\<rparr>)"
    by (simp_all add: add_arg_def with_args_def new_node_def Len_def order_def no_properties_def)
  have verify: "verifyArgsPropsChildren d ?n 1 [] False = Inr ()"
    by (simp add: verifyArgsPropsChildren_def n Let_def)
  have kind: "node_to_kind d ?n kids [] (RV True t (zero t)) = Inr (RV True t x)" for kids
    using t scalar_set [OF assms, of "zero t"]
    by (cases t) (simp_all add: node_to_kind_def verify [unfolded One_nat_def] n scalar_type_def)
  show ?thesis
    unfolding reads_back_def unmarshalNodeToValue.simps [of d ?n] node_to_value_def
    by (simp add: n created_direct [OF scalar_direct [OF t]] kind assign_def at_node_def)
qed

lemma scalar_stored:
  assumes "scalar_ok t x"
  shows "stored t x"
  unfolding stored_def
proof (intro conjI allI impI)
  have t: "scalar_type t" using assms by (simp add: scalar_ok_def)
  then show "direct t" by (rule scalar_direct)
  fix name f assume f: "bare f"
  obtain v where v: "scalar_node c name [] t x = Inr (add_arg v (new_node name))" "holds v t x"
    using scalar_node_of [OF assms] by blast
  have "marshalValueToNode c name f (Val t x) = Inr (Some (add_arg v (new_node name)))"
    using t \<open>direct t\<close> f v(1)
    by (subst marshalValueToNode.simps) (cases t, simp_all add: one_node_def scalar_type_def)
  moreover have "elem_of_interface (Val t x) = Val t x"
    using t by (simp add: elem_of_interface_def scalar_type_def split: gtype.splits)
  then have "tryMarshalValueAsChild c name f (Val t x) = Inr AsProperty"
    using t f by (subst tryMarshalValueAsChild.simps)
      (cases t, simp_all add: scalar_type_def is_sequence_def as_asked_def)
  ultimately show "\<exists>n. marshalValueToNode c name f (Val t x) = Inr (Some n) \<and> reads_back t x name n
      \<and> tryMarshalValueAsChild c name f (Val t x) = Inr (if scalar_type t then AsProperty else AsChild n)"
    using scalar_reads_back [OF assms v(2)] t by auto
qed

text \<open>Fields as properties, and as children.\<close>

definition named_value :: "field list \<Rightarrow> gval list \<Rightarrow> nat \<Rightarrow> bytes \<times> kdl_value" where
  "named_value fs vs i =
     (field_name l cs (fs ! i), no_value\<lparr>v_Value := scalar_value (f_type (fs ! i)) (vs ! i)\<rparr>)"

definition scalars :: "field list \<Rightarrow> nat list \<Rightarrow> nat list" where
  "scalars fs js = filter (\<lambda>i. scalar_type (f_type (fs ! i))) js"

definition others :: "field list \<Rightarrow> nat list \<Rightarrow> nat list" where
  "others fs js = filter (\<lambda>i. \<not> scalar_type (f_type (fs ! i))) js"

definition kid_of :: "field list \<Rightarrow> gval list \<Rightarrow> nat \<Rightarrow> dnode" where
  "kid_of fs vs i =
     (case marshalValueToNode c (field_name l cs (fs ! i)) (Some (nth_field i)) (Val (f_type (fs ! i)) (vs ! i)) of
        Inr (Some n) \<Rightarrow> n | _ \<Rightarrow> new_node [])"

definition field_item where
  "field_item fs vs i =
     (field_name l cs (fs ! i), Some (nth_field i), Val (f_type (fs ! i)) (vs ! i),
      tryMarshalValueAsChild c (field_name l cs (fs ! i)) (Some (nth_field i)) (Val (f_type (fs ! i)) (vs ! i)))"

lemma kid_of_stored:
  assumes "stored (f_type (fs ! i)) (vs ! i)"
  shows "marshalValueToNode c (field_name l cs (fs ! i)) (Some (nth_field i)) (Val (f_type (fs ! i)) (vs ! i))
      = Inr (Some (kid_of fs vs i))"
    and "reads_back (f_type (fs ! i)) (vs ! i) (field_name l cs (fs ! i)) (kid_of fs vs i)"
    and "tryMarshalValueAsChild c (field_name l cs (fs ! i)) (Some (nth_field i)) (Val (f_type (fs ! i)) (vs ! i))
      = Inr (if scalar_type (f_type (fs ! i)) then AsProperty else AsChild (kid_of fs vs i))"
proof -
  from assms obtain n where
    "marshalValueToNode c (field_name l cs (fs ! i)) (Some (nth_field i)) (Val (f_type (fs ! i)) (vs ! i)) = Inr (Some n)"
    "reads_back (f_type (fs ! i)) (vs ! i) (field_name l cs (fs ! i)) n"
    "tryMarshalValueAsChild c (field_name l cs (fs ! i)) (Some (nth_field i)) (Val (f_type (fs ! i)) (vs ! i))
      = Inr (if scalar_type (f_type (fs ! i)) then AsProperty else AsChild n)"
    unfolding stored_def by (metis bare_simps(3))
  moreover from this(1) have "kid_of fs vs i = n" by (simp add: kid_of_def)
  ultimately show
    "marshalValueToNode c (field_name l cs (fs ! i)) (Some (nth_field i)) (Val (f_type (fs ! i)) (vs ! i))
      = Inr (Some (kid_of fs vs i))"
    "reads_back (f_type (fs ! i)) (vs ! i) (field_name l cs (fs ! i)) (kid_of fs vs i)"
    "tryMarshalValueAsChild c (field_name l cs (fs ! i)) (Some (nth_field i)) (Val (f_type (fs ! i)) (vs ! i))
      = Inr (if scalar_type (f_type (fs ! i)) then AsProperty else AsChild (kid_of fs vs i))"
    by simp_all
qed

lemma marshal_fields:
  assumes "\<forall>i \<in> set js. stored (f_type (fs ! i)) (vs ! i)
      \<and> (scalar_type (f_type (fs ! i)) \<longrightarrow> scalar_ok (f_type (fs ! i)) (vs ! i))"
  shows "fold_res (struct_field c) (map (field_item fs vs) js) (DNode nm ty args props ch cm)
     = Inr (DNode nm ty args (fold (\<lambda>(k, v). AddAllocated k v) (map (named_value fs vs) (scalars fs js)) props)
         (ch @ map (kid_of fs vs) (others fs js)) cm)"
  using assms
proof (induction js arbitrary: props ch)
  case (Cons i js)
  then have i: "stored (f_type (fs ! i)) (vs ! i)" by simp
  show ?case
  proof (cases "scalar_type (f_type (fs ! i))")
    case True
    with Cons.prems have "scalar_ok (f_type (fs ! i)) (vs ! i)" by simp
    then have "struct_field c (field_item fs vs i) (DNode nm ty args props ch cm)
        = Inr (DNode nm ty args (case_prod AddAllocated (named_value fs vs i) props) ch cm)"
      using True by (simp add: struct_field_def field_item_def kid_of_stored(3) [OF i] scalar_value_of add_prop_def named_value_def)
    with Cons True show ?thesis by (simp add: scalars_def others_def case_prod_unfold)
  next
    case False
    then have "struct_field c (field_item fs vs i) (DNode nm ty args props ch cm)
        = Inr (DNode nm ty args props (ch @ [kid_of fs vs i]) cm)"
      by (simp add: struct_field_def field_item_def kid_of_stored(3) [OF i] add_children_def)
    with Cons False show ?thesis by (simp add: scalars_def others_def)
  qed
qed (simp add: scalars_def others_def)

text \<open>Unmarshalling them fills the fields.\<close>

lemma safe_key_field: "plain_fields l cs fs \<Longrightarrow> i < length fs \<Longrightarrow>
    safe_key d (field_name l cs (fs ! i)) = field_name l cs (fs ! i)"
  by (simp add: safe_key_def names plain_fields_def)

lemma fill_properties:
  assumes "plain_fields l cs fs"
    and D: "\<And>i. i < length fs \<Longrightarrow> td_StructFields D (field_name l cs (fs ! i)) = Some (nth_field i)"
    and "\<forall>i \<in> set js. i < length fs \<and> scalar_ok (f_type (fs ! i)) (vs ! i)"
  shows "fold_res (property_to_field d D) (map (named_value fs vs) js) (h, RV True (TStruct nm fs) (filled fs vs A))
     = Inr (h @ map (\<lambda>i. field_name l cs (fs ! i)) js, RV True (TStruct nm fs) (filled fs vs (A \<union> set js)))"
  using assms(3)
proof (induction js arbitrary: h A)
  case (Cons i js)
  then have i: "i < length fs" "scalar_ok (f_type (fs ! i)) (vs ! i)" by simp_all
  have "property_to_field d D (named_value fs vs i) (h, RV True (TStruct nm fs) (filled fs vs A))
      = Inr (h @ [field_name l cs (fs ! i)], RV True (TStruct nm fs) (filled fs vs (insert i A)))"
    by (simp add: property_to_field_def named_value_def safe_key_field [OF assms(1) i(1)] D [OF i(1)]
        filled_get [OF i(1)] scalar_set [OF i(2) holds_plain] filled_set [OF i(1)])
  with Cons show ?case by simp
qed simp

lemma fill_children:
  assumes "plain_fields l cs fs" "details d (TStruct nm fs) = Some D"
    and D: "\<And>i. i < length fs \<Longrightarrow> td_StructFields D (field_name l cs (fs ! i)) = Some (nth_field i)"
    and "\<forall>i \<in> set js. i < length fs \<and> stored (f_type (fs ! i)) (vs ! i)" "distinct js" "set js \<inter> A = {}"
  shows "fold_res (unmarshalNodeToStructField d) (kid_list d (map (kid_of fs vs) js))
      (RV True (TStruct nm fs) (filled fs vs A)) = Inr (RV True (TStruct nm fs) (filled fs vs (A \<union> set js)))"
  using assms(4-6)
proof (induction js arbitrary: A)
  case (Cons i js)
  then have i: "i < length fs" "stored (f_type (fs ! i)) (vs ! i)" "i \<notin> A" by simp_all
  let ?n = "kid_of fs vs i"
  have r: "dn_Name ?n = Some (no_value\<lparr>v_Value := VString (field_name l cs (fs ! i))\<rparr>)"
    "unmarshalNodeToValue d ?n [] (RV True (f_type (fs ! i)) (zero (f_type (fs ! i))))
      = Inr (RV True (f_type (fs ! i)) (vs ! i))"
    using kid_of_stored(2) [OF i(2)] by (simp_all add: reads_back_def)
  have "unmarshalNodeToStructField d (?n, \<lambda>args f w. unmarshalNodeToValue d (with_args ?n args) f w)
      (RV True (TStruct nm fs) (filled fs vs A)) = Inr (RV True (TStruct nm fs) (filled fs vs (insert i A)))"
    by (simp add: unmarshalNodeToStructField_def r assms(2) safe_key_field [OF assms(1) i(1)] D [OF i(1)] Let_def
        filled_get [OF i(1)] i(3) filled_set [OF i(1)])
  with Cons show ?case by (simp add: kid_list_def)
qed (simp add: kid_list_def)

definition field_ok :: "field list \<Rightarrow> gval list \<Rightarrow> nat \<Rightarrow> bool" where
  "field_ok fs vs i \<longleftrightarrow> stored (f_type (fs ! i)) (vs ! i)
     \<and> (scalar_type (f_type (fs ! i)) \<longrightarrow> scalar_ok (f_type (fs ! i)) (vs ! i))"

text \<open>The properties of the node, walked in any order, fill the fields with scalars.\<close>

lemma fill_node_properties:
  assumes pf: "plain_fields l cs fs"
    and D: "\<And>i. i < length fs \<Longrightarrow> td_StructFields D (field_name l cs (fs ! i)) = Some (nth_field i)"
      "td_StructAttrs D = (\<lambda>_. [])"
    and ok: "\<forall>i < length fs. field_ok fs vs i"
    and n: "dn_Properties n = props.build (map (named_value fs vs) (scalars fs [0..<length fs]))"
  shows "struct_properties d D n (RV True (TStruct nm fs) (filled fs vs {}))
     = Inr (RV True (TStruct nm fs) (filled fs vs (set (scalars fs [0..<length fs]))))"
proof -
  let ?js = "scalars fs [0..<length fs]" and ?P = "dn_Properties n"
  let ?kvs = "map (named_value fs vs) ?js"
  have "map (\<lambda>i. field_name l cs (fs ! i)) [0..<length fs] = map (field_name l cs) fs"
    by (auto intro: nth_equalityI)
  then have "distinct (map (\<lambda>i. field_name l cs (fs ! i)) [0..<length fs])"
    using pf by (metis plain_fields_def)
  then have dist: "distinct (map fst ?kvs)"
    unfolding scalars_def by (simp add: distinct_map inj_on_def named_value_def)
  have ordered: "ok_properties ?P" and order: "order ?P = map fst ?kvs"
    and get: "\<And>k v. Get ?P k = Some v \<longleftrightarrow> (k, v) \<in> set ?kvs"
  proof -
    show "ok_properties ?P" unfolding n by (rule props.ok_build)
    show "order ?P = map fst ?kvs"
      unfolding n props.keys_build using dist by (metis distinct_remdups_id distinct_rev rev_rev_ident)
    show "Get ?P k = Some v \<longleftrightarrow> (k, v) \<in> set ?kvs" for k v
      unfolding n props.get_build using dist map_of_eq_Some_iff [of "rev ?kvs" k v] by (metis distinct_rev rev_map set_rev)
  qed
  have same: "set (u_walk d ?P) = named_value fs vs ` set ?js"
    unfolding walk(2) [OF ordered] get by auto
  have dw: "distinct (map fst (u_walk d ?P))" by (rule walk(1) [OF ordered])
  have len: "length (u_walk d ?P) = Len ?P"
  proof -
    have "distinct (u_walk d ?P)" "distinct ?kvs" using dw dist by (simp_all only: distinct_map)
    moreover have "set (u_walk d ?P) = set ?kvs" using same by simp
    ultimately have "length (u_walk d ?P) = length ?kvs" by (metis distinct_card)
    then show ?thesis by (simp add: Len_def order)
  qed
  obtain ks where w: "u_walk d ?P = map (named_value fs vs) ks" and ks: "set ks = set ?js"
  proof -
    let ?ks = "map (inv_into (set ?js) (named_value fs vs)) (u_walk d ?P)"
    have "inj_on (named_value fs vs) (set ?js)"
      using dist by (metis distinct_map inj_on_imageI2 list.map_comp)
    then have "inv_into (set ?js) (named_value fs vs) ` (named_value fs vs ` set ?js) = set ?js"
      by (metis inv_into_image_cancel subset_refl)
    moreover have "map (named_value fs vs) ?ks = u_walk d ?P"
      using same by (auto simp: comp_def f_inv_into_f intro!: map_idI)
    ultimately show thesis using that [of ?ks] by (simp add: same)
  qed
  have "fold_res (property_to_field d D) (u_walk d ?P) ([], RV True (TStruct nm fs) (filled fs vs {}))
      = Inr (map (\<lambda>i. field_name l cs (fs ! i)) ks, RV True (TStruct nm fs) (filled fs vs (set ?js)))"
    unfolding w
    by (subst fill_properties [OF pf D(1)]) (use ok ks in \<open>auto simp: field_ok_def scalars_def\<close>)
  moreover have "length ks = Len ?P" using len w by simp
  moreover have "?js = []" if "Len ?P = 0" using that by (simp add: Len_def order)
  ultimately show ?thesis
    by (auto simp: struct_properties_def Let_def D(2) props_field_def)
qed

lemma scalar_zero_args: "struct_arguments d D n s = Inr s" if "dn_Arguments n = []"
  using that by (simp add: struct_arguments_def Let_def)

lemma filled_fields: "A \<union> B = {0..<length fs} \<Longrightarrow> length vs = length fs \<Longrightarrow> filled fs vs (A \<union> B) = GStruct vs"
  by (simp add: filled_all)

lemma struct_stored:
  assumes pf: "plain_fields l cs fs" and vs: "length vs = length fs"
    and idx: "TStruct nm fs \<in> set (m_index c)" and ok: "\<forall>i < length fs. field_ok fs vs i"
  shows "stored (TStruct nm fs) (GStruct vs)"
  unfolding stored_def
proof (intro conjI allI impI)
  let ?t = "TStruct nm fs" and ?x = "GStruct vs" and ?js = "[0..<length fs]"
  show "direct ?t" by (simp add: direct_def is_big_def)
  fix name f assume f: "bare f"
  obtain D where sd: "struct_details l cs ?t = Some D"
    and D: "\<And>i. i < length fs \<Longrightarrow> td_StructFields D (field_name l cs (fs ! i)) = Some (nth_field i)"
      "td_StructAttrs D = (\<lambda>_. [])"
    and nl: "td_StructFieldNameList D = map (\<lambda>i. field_name l cs (fs ! i)) ?js"
    using plain_details [OF pf] by blast
  have td: "type_details c ?t = Some D" and dd: "details d ?t = Some D"
    using sd idx by (simp_all add: type_details_def details_def names)
  have fk: "field_kids c D ?t ?x
      = map (\<lambda>i. (field_name l cs (fs ! i), Some (nth_field i), Val (f_type (fs ! i)) (vs ! i))) ?js"
    using pf unfolding field_kids_def nl
    by (auto simp: filter_id_conv plain_fields_def names D nth_field_value vs)
  have kids: "map (\<lambda>(k, g, w). (k, g, w, tryMarshalValueAsChild c k g w)) (struct_kids c ?t ?x) = map (field_item fs vs) ?js"
    using ok by (auto simp: struct_kids_def td fk is_captured_def field_item_def field_ok_def stored_def)
  let ?n = "DNode (Some (no_value\<lparr>v_Value := VString name\<rparr>)) [] []
      (props.build (map (named_value fs vs) (scalars fs ?js))) (map (kid_of fs vs) (others fs ?js)) None"
  have node: "marshalStructToNode c name ?t ?x (map (field_item fs vs) ?js) (map (marshalValueToNodes c) (children_kids c ?t ?x)) = Inr ?n"
    using marshal_fields [of ?js fs vs] ok
    by (simp add: marshalStructToNode_def td D struct_arg_fields_def struct_args_field_def struct_props_field_def
        children_kids_def new_node_def field_ok_def props.build_def)
  have "marshalValueToNode c name f (Val ?t ?x) = Inr (Some ?n)"
    using f \<open>direct ?t\<close> by (subst marshalValueToNode.simps) (simp add: kids node one_node_def)
  moreover have "tryMarshalValueAsChild c name f (Val ?t ?x) = Inr (AsChild ?n)"
    using f by (subst tryMarshalValueAsChild.simps) (simp add: kids node elem_of_interface_def is_sequence_def as_child_def)
  moreover have "reads_back ?t ?x name ?n"
  proof -
    have "struct_properties d D ?n (RV True ?t (filled fs vs {})) = Inr (RV True ?t (filled fs vs (set (scalars fs ?js))))"
      by (rule fill_node_properties [OF pf D ok dnode.sel(4)])
    moreover have "struct_children d D ?n (kid_list d (dn_Children ?n)) (RV True ?t (filled fs vs (set (scalars fs ?js))))
        = Inr (RV True ?t ?x)"
    proof -
      have "set (scalars fs ?js) \<union> set (others fs ?js) = {0..<length fs}"
        by (auto simp: scalars_def others_def)
      then have "filled fs vs (set (scalars fs ?js) \<union> set (others fs ?js)) = ?x" by (rule filled_fields [OF _ vs])
      moreover have "fold_res (unmarshalNodeToStructField d) (kid_list d (map (kid_of fs vs) (others fs ?js)))
          (RV True ?t (filled fs vs (set (scalars fs ?js))))
          = Inr (RV True ?t (filled fs vs (set (scalars fs ?js) \<union> set (others fs ?js))))"
        using ok by (intro fill_children [OF pf dd D(1)]) (auto simp: others_def scalars_def field_ok_def)
      ultimately show ?thesis
        by (auto simp: struct_children_def D(2) strict unmarshalNodesToStruct_def created_direct [OF \<open>direct ?t\<close>]
            assign_def kid_list_def)
    qed
    ultimately have "unmarshalNodeToStruct d ?n (kid_list d (dn_Children ?n)) (RV True ?t (zero ?t)) = Inr (RV True ?t ?x)"
      by (simp add: unmarshalNodeToStruct_def dd scalar_zero_args filled_empty [of nm fs vs] del: zero.simps)
    then show ?thesis
      unfolding reads_back_def unmarshalNodeToValue.simps [of d ?n] node_to_value_def kid_list_def
      by (simp add: created_direct [OF \<open>direct ?t\<close>] node_to_kind_def assign_def at_node_def)
  qed
  ultimately show "\<exists>n. marshalValueToNode c name f (Val ?t ?x) = Inr (Some n) \<and> reads_back ?t ?x name n
      \<and> tryMarshalValueAsChild c name f (Val ?t ?x) = Inr (if scalar_type ?t then AsProperty else AsChild n)"
    by (auto simp: scalar_type_def)
qed

definition slice_node :: "bytes \<Rightarrow> gtype \<Rightarrow> gval list \<Rightarrow> dnode" where
  "slice_node name u xs =
     with_args (new_node name) (map (\<lambda>x. no_value\<lparr>v_Value := scalar_value u x\<rparr>) xs)"

lemma Cut_none: "a \<notin> set s \<Longrightarrow> \<exists>k w. Cut s a = (k, w, False)"
  by (auto simp: Cut_def Let_def dropWhile_eq_Nil_conv split: list.splits)

lemma slice_element_scalar:
  assumes "element_ok u x"
  shows "slice_element c u [] (Val u x) n = Inr (add_arg (no_value\<lparr>v_Value := scalar_value u x\<rparr>) n)"
proof -
  have ok: "scalar_ok u x" using assms by (simp add: element_ok_def)
  note r = scalar_value_of [OF ok]
  from ok show ?thesis
  proof (cases rule: scalar_cases)
    case (5 s)
    with assms have "CHR ''='' \<notin> set s" by (simp add: element_ok_def)
    then obtain k w where "Cut s (CHR ''='') = (k, w, False)" using Cut_none by blast
    with 5 r show ?thesis by (simp add: slice_element_def indirect_def is_big_def)
  next
    case (6 s)
    with assms have "CHR ''='' \<notin> set s" by (simp add: element_ok_def)
    then obtain k w where "Cut s (CHR ''='') = (k, w, False)" using Cut_none by blast
    with 6 r show ?thesis by (simp add: slice_element_def indirect_def is_big_def)
  qed (use r in \<open>simp_all add: slice_element_def indirect_def is_big_def elem_of_interface_def\<close>)
qed

lemma slice_fold:
  assumes "\<forall>x \<in> set xs. element_ok u x"
  shows "fold_res (slice_element c u []) (map (Val u) xs) (with_args (new_node name) args)
     = Inr (with_args (new_node name) (args @ map (\<lambda>x. no_value\<lparr>v_Value := scalar_value u x\<rparr>) xs))"
  using assms
proof (induction xs arbitrary: args)
  case (Cons x xs)
  then show ?case
    by (simp add: slice_element_scalar add_arg_def with_args_def)
qed simp

lemma append_fold:
  assumes "\<forall>x \<in> set xs. scalar_ok u x" "scalar_type u"
  shows "\<exists>b'. addArgumentsToSlice d (map (\<lambda>x. no_value\<lparr>v_Value := scalar_value u x\<rparr>) xs) (RV b (TSlice u) (GSlice (Some ys)))
     = Inr (RV b' (TSlice u) (GSlice (Some (ys @ xs))))"
  using assms(1)
proof (induction xs arbitrary: b ys)
  case (Cons x xs)
  then have "scalar_ok u x" by simp
  from Cons.IH [of False "ys @ [x]"] Cons.prems show ?case
    by (simp add: addArgumentsToSlice_def elem_type_def new_value_def scalar_set [OF \<open>scalar_ok u x\<close> holds_plain]
        Append_def assign_def)
qed (simp add: addArgumentsToSlice_def)

lemma slice_stored:
  assumes u: "scalar_type u" "u \<noteq> TUint 8" and xs: "\<forall>x \<in> set xs. element_ok u x"
  shows "stored (TSlice u) (GSlice (Some xs))"
  unfolding stored_def
proof (intro conjI allI impI)
  let ?t = "TSlice u" and ?x = "GSlice (Some xs)"
  show d: "direct ?t" by (simp add: direct_def is_big_def)
  fix name f assume f: "bare f"
  let ?n = "slice_node name u xs"
  have node: "marshalSliceToNode c name g ?t ?x = Inr ?n" if "bare g" for g
  proof -
    have "with_args (new_node name) [] = new_node name" by (simp add: with_args_def new_node_def)
    with slice_fold [OF xs, of name "[]"] u(2) that show ?thesis
      by (simp add: marshalSliceToNode_def elem_type_def elements_def slice_node_def)
  qed
  have k: "\<not> struct_kind u" using u(1) by (cases u) (simp_all add: scalar_type_def is_struct_def is_big_def)
  have "marshalValueToNode c name f (Val ?t ?x) = Inr (Some ?n)"
    using f d by (subst marshalValueToNode.simps) (simp add: node one_node_def)
  moreover have "tryMarshalValueAsChild c name f (Val ?t ?x) = Inr (AsChild ?n)"
    using f k by (subst tryMarshalValueAsChild.simps)
      (simp add: node elem_of_interface_def is_sequence_def elem_type_def as_child_def)
  moreover have "reads_back ?t ?x name ?n"
  proof -
    have n: "dn_Name ?n = Some (no_value\<lparr>v_Value := VString name\<rparr>)" "dn_Children ?n = []" "Len (dn_Properties ?n) = 0"
      by (simp_all add: slice_node_def with_args_def new_node_def Len_def order_def no_properties_def)
    have args: "dn_Arguments ?n = map (\<lambda>x. no_value\<lparr>v_Value := scalar_value u x\<rparr>) xs"
      by (simp add: slice_node_def with_args_def)
    have "\<forall>x \<in> set xs. scalar_ok u x" using xs by (simp add: element_ok_def)
    then obtain b where "addArgumentsToSlice d (dn_Arguments ?n) (RV True ?t (GSlice (Some []))) = Inr (RV b ?t ?x)"
      using append_fold [of xs u True "[]"] u(1) unfolding args by auto
    then have "unmarshalNodeToSlice d ?n [] (RV True ?t (zero ?t)) = Inr (RV b ?t ?x)"
      using u(2) by (simp add: unmarshalNodeToSlice_def elem_type_def createSliceIfNil_def n Let_def)
    then show ?thesis
      unfolding reads_back_def unmarshalNodeToValue.simps [of d ?n] node_to_value_def
      by (simp add: n created_direct [OF d] node_to_kind_def assign_def at_node_def)
  qed
  ultimately show "\<exists>n. marshalValueToNode c name f (Val ?t ?x) = Inr (Some n) \<and> reads_back ?t ?x name n
      \<and> tryMarshalValueAsChild c name f (Val ?t ?x) = Inr (if scalar_type ?t then AsProperty else AsChild n)"
    by (auto simp: scalar_type_def)
qed

lemma nodes_of_fields:
  assumes "\<forall>i \<in> set js. stored (f_type (fs ! i)) (vs ! i)"
  shows "fold_res (\<lambda>r ns. bind_res r (\<lambda>ms. Inr (ns @ ms)))
      (map (\<lambda>i. marshalValueToNodeOrNodes c (field_name l cs (fs ! i)) (Some (nth_field i)) (Val (f_type (fs ! i)) (vs ! i))) js) ns
    = Inr (ns @ map (kid_of fs vs) js)"
  using assms
proof (induction js arbitrary: ns)
  case (Cons i js)
  then have "stored (f_type (fs ! i)) (vs ! i)" by simp
  with Cons show ?case
    by (simp add: marshalValueToNodeOrNodes.simps kid_of_stored(1))
qed simp

lemma document_round_trip:
  assumes pf: "plain_fields l cs fs" and vs: "length vs = length fs"
    and idx: "TStruct nm fs \<in> set (m_index c)" and ok: "\<forall>i < length fs. field_ok fs vs i"
  shows "\<exists>ns. marshalValueToNodes c (Val (TStruct nm fs) (GStruct vs)) = Inr ns
    \<and> unmarshalNodes d ns (RV b (TPtr (TStruct nm fs)) (GPtr (Some (zero (TStruct nm fs)))))
       = Inr (RV b (TPtr (TStruct nm fs)) (GPtr (Some (GStruct vs))))"
proof (intro exI conjI)
  let ?t = "TStruct nm fs" and ?x = "GStruct vs" and ?js = "[0..<length fs]"
  have d: "direct ?t" by (simp add: direct_def is_big_def)
  obtain D where sd: "struct_details l cs ?t = Some D"
    and D: "\<And>i. i < length fs \<Longrightarrow> td_StructFields D (field_name l cs (fs ! i)) = Some (nth_field i)"
    and nl: "td_StructFieldNameList D = map (\<lambda>i. field_name l cs (fs ! i)) ?js"
    using plain_details [OF pf] by blast
  have td: "type_details c ?t = Some D" and dd: "details d ?t = Some D"
    using sd idx by (simp_all add: type_details_def details_def names)
  have fk: "field_kids c D ?t ?x
      = map (\<lambda>i. (field_name l cs (fs ! i), Some (nth_field i), Val (f_type (fs ! i)) (vs ! i))) ?js"
    using pf unfolding field_kids_def nl
    by (auto simp: filter_id_conv plain_fields_def names D nth_field_value vs)
  show "marshalValueToNodes c (Val ?t ?x) = Inr (map (kid_of fs vs) ?js)"
    using nodes_of_fields [of ?js fs vs "[]"] ok d
    by (subst marshalValueToNodes.simps) (simp add: marshalStructToNodes_def node_kids_def td fk comp_def field_ok_def)
  have "fold_res (unmarshalNodeToStructField d) (kid_list d (map (kid_of fs vs) ?js)) (RV True ?t (filled fs vs {}))
      = Inr (RV True ?t (filled fs vs ({} \<union> set ?js)))"
    using ok by (intro fill_children [OF pf dd D]) (auto simp: field_ok_def)
  moreover have "filled fs vs ({} \<union> set ?js) = ?x" by (rule filled_all [OF vs]) simp
  ultimately have "unmarshalNodesToStruct d (kid_list d (map (kid_of fs vs) ?js)) (RV True ?t (zero ?t)) = Inr (RV True ?t ?x)"
    by (simp add: unmarshalNodesToStruct_def created_direct [OF d] assign_def filled_empty [of nm fs vs] del: zero.simps)
  then show "unmarshalNodes d (map (kid_of fs vs) ?js) (RV b (TPtr ?t) (GPtr (Some (zero ?t)))) = Inr (RV b (TPtr ?t) (GPtr (Some ?x)))"
    by (simp add: unmarshalNodes_def withCreatedAndIndirected_def createAndIndirect_def is_big_def assign_def del: zero.simps)
qed

end

section \<open>All that can be stored\<close>

text \<open>Scalars, structs of what can be stored, and slices of scalars.\<close>

fun storable :: "(nat \<Rightarrow> nat) \<Rightarrow> bool \<Rightarrow> gtype \<Rightarrow> gval \<Rightarrow> bool" where
  "storable l cs t x =
     (case x of
        GStruct vs \<Rightarrow>
          (case t of
             TStruct nm fs \<Rightarrow>
               plain_fields l cs fs \<and> length vs = length fs
               \<and> (\<forall>p \<in> set (zip vs fs). storable l cs (f_type (snd p)) (fst p))
           | _ \<Rightarrow> False)
      | GSlice (Some xs) \<Rightarrow>
          (case t of
             TSlice u \<Rightarrow> scalar_type u \<and> u \<noteq> TUint 8 \<and> (\<forall>y \<in> set xs. element_ok u y)
           | _ \<Rightarrow> False)
      | _ \<Rightarrow> scalar_ok t x)"

declare storable.simps [simp del]

lemma zip_nth: "length vs = length fs \<Longrightarrow> i < length fs \<Longrightarrow> (vs ! i, fs ! i) \<in> set (zip vs fs)"
  by (metis length_zip min.idem nth_mem nth_zip)

lemma storable_cases:
  assumes "storable l cs t x"
  obtains nm fs vs where "t = TStruct nm fs" "x = GStruct vs" "plain_fields l cs fs" "length vs = length fs"
      "\<forall>i < length fs. storable l cs (f_type (fs ! i)) (vs ! i)"
  | u xs where "t = TSlice u" "x = GSlice (Some xs)" "scalar_type u" "u \<noteq> TUint 8" "\<forall>y \<in> set xs. element_ok u y"
  | "scalar_ok t x"
  using assms unfolding storable.simps [of l cs t x]
  by (fastforce split: gval.splits option.splits gtype.splits dest: zip_nth)

lemma storable_scalar: "storable l cs t x \<Longrightarrow> scalar_type t \<Longrightarrow> scalar_ok t x"
  by (erule storable_cases) (simp_all add: scalar_type_def)

lemma types_of_field:
  assumes "plain_fields l cs fs" "f \<in> set fs"
  shows "set (types_in (f_type f)) \<subseteq> set (field_types fs)"
  using assms(2) assms(1) [unfolded plain_fields_def]
proof (induction fs)
  case (Cons g fs)
  show ?case
  proof (cases "f = g")
    case True
    with Cons.prems show ?thesis by (cases g) (auto split: gtype.splits)
  next
    case False
    with Cons show ?thesis by (cases g) auto
  qed
qed simp

context no_methods
begin

lemma storable_stored: "storable l cs t x \<Longrightarrow> set (types_in t) \<subseteq> set (m_index c) \<Longrightarrow> stored t x"
proof (induction "size x" arbitrary: t x rule: less_induct)
  case less
  from less.prems(1) show ?case
  proof (cases rule: storable_cases)
    case (1 nm fs vs)
    have "field_ok fs vs i" if i: "i < length fs" for i
    proof -
      from 1(5) i have s: "storable l cs (f_type (fs ! i)) (vs ! i)" by simp
      have "size (vs ! i) < size x"
        using 1 i size_list_estimation' [of "vs ! i" vs "size (vs ! i)" size] by (simp add: less_Suc_eq_le)
      moreover have "set (types_in (f_type (fs ! i))) \<subseteq> set (m_index c)"
        using types_of_field [OF 1(3) nth_mem [OF i]] less.prems(2) 1(1) by auto
      ultimately show ?thesis
        using less.hyps [OF _ s] storable_scalar [OF s] by (simp add: field_ok_def)
    qed
    then show ?thesis
      using struct_stored [OF 1(3,4), of nm] less.prems(2) 1(1,2) by simp
  next
    case (2 u xs)
    then show ?thesis by (simp add: slice_stored)
  next
    case 3
    then show ?thesis by (rule scalar_stored)
  qed
qed

lemma storable_round_trip:
  assumes "storable l cs (TStruct nm fs) (GStruct vs)" "set (types_in (TStruct nm fs)) \<subseteq> set (m_index c)"
  shows "\<exists>ns. marshalValueToNodes c (Val (TStruct nm fs) (GStruct vs)) = Inr ns
    \<and> unmarshalNodes d ns (RV b (TPtr (TStruct nm fs)) (GPtr (Some (zero (TStruct nm fs)))))
       = Inr (RV b (TPtr (TStruct nm fs)) (GPtr (Some (GStruct vs))))"
proof -
  from assms(1) have pf: "plain_fields l cs fs" and vs: "length vs = length fs"
    and st: "\<forall>i < length fs. storable l cs (f_type (fs ! i)) (vs ! i)"
    by (auto elim: storable_cases simp: scalar_ok_def scalar_type_def)
  have "field_ok fs vs i" if i: "i < length fs" for i
    using storable_stored [of "f_type (fs ! i)" "vs ! i"] storable_scalar st i
      types_of_field [OF pf nth_mem [OF i]] assms(2) by (fastforce simp: field_ok_def)
  with document_round_trip [OF pf vs, of nm b] assms(2) show ?thesis by simp
qed

end

lemma index_fields_plain:
  assumes "\<forall>f \<in> set fs. f_exported f \<and> \<not> f_anonymous f" "\<forall>f \<in> set fs. indexType l cs (f_type f)"
  shows "index_fields l cs fs"
  using assms
proof (induction fs)
  case (Cons f fs)
  then show ?case by (cases f) (simp split: gtype.splits)
qed simp

lemma storable_indexed: "storable l cs t x \<Longrightarrow> indexType l cs t"
proof (induction "size x" arbitrary: t x rule: less_induct)
  case less
  from less.prems show ?case
  proof (cases rule: storable_cases)
    case (1 nm fs vs)
    have "indexType l cs (f_type (fs ! i))" if i: "i < length fs" for i
    proof (rule less.hyps)
      show "size (vs ! i) < size x"
        using 1 i size_list_estimation' [of "vs ! i" vs "size (vs ! i)" size] by (simp add: less_Suc_eq_le)
    qed (use 1 i in simp)
    then have "\<forall>f \<in> set fs. indexType l cs (f_type f)" by (auto simp: in_set_conv_nth)
    with 1(3) show ?thesis
      by (simp add: 1(1) plain_fields_def index_plain index_fields_plain)
  next
    case (2 u xs)
    then show ?thesis by (cases u) (simp_all add: scalar_type_def)
  next
    case 3
    then show ?thesis by (cases t) (simp_all add: scalar_ok_def scalar_type_def)
  qed
qed

section \<open>Round trip\<close>

text \<open>The contexts without user code; \<open>walk\<close> is the order in which Go walks a map.\<close>

definition marshaler_with :: "(nat \<Rightarrow> nat) \<Rightarrow> bool \<Rightarrow> gtype list \<Rightarrow> marshalContext" where
  "marshaler_with l cs index = plain_marshaler\<lparr>m_lower := l, m_CaseSensitive := cs, m_index := index\<rparr>"

definition unmarshaler_with ::
  "(nat \<Rightarrow> nat) \<Rightarrow> bool \<Rightarrow> (properties \<Rightarrow> (bytes \<times> kdl_value) list) \<Rightarrow> unmarshalContext" where
  "unmarshaler_with l cs walk = plain_context\<lparr>u_lower := l, u_CaseSensitive := cs, u_walk := walk\<rparr>"

definition walks_all :: "(properties \<Rightarrow> (bytes \<times> kdl_value) list) \<Rightarrow> bool" where
  "walks_all walk \<longleftrightarrow> (\<forall>p. ok_properties p \<longrightarrow>
     distinct (map fst (walk p)) \<and> set (walk p) = {(k, v). Get p k = Some v})"

lemma plain_no_methods:
  assumes "walks_all walk"
  shows "no_methods (marshaler_with l cs index) (unmarshaler_with l cs walk) l cs"
  using assms
  by unfold_locales (simp_all add: marshaler_with_def unmarshaler_with_def plain_marshaler_def plain_context_def walks_all_def)

lemma walk_in_order: "walks_all (u_walk plain_context)"
proof -
  let ?g = "\<lambda>p k. case Get p k of None \<Rightarrow> [] | Some v \<Rightarrow> [(k, v)]"
  have "distinct (map fst (concat (map (?g p) ks)))" if "distinct ks" for p ks
    using that by (induction ks) (auto split: option.splits)
  moreover have "set (concat (map (?g p) (order p))) = {(k, v). Get p k = Some v}" if "ok_properties p" for p
    using that by (auto simp: ok_properties_def Get_def dom_def split: option.splits)
  ultimately show ?thesis
    by (simp add: walks_all_def plain_context_def ok_properties_def)
qed

interpretation plain_pair: no_methods plain_marshaler plain_context "\<lambda>r. r" False
  using plain_no_methods [OF walk_in_order, of "\<lambda>r. r" False "[]"]
  by (simp add: marshaler_with_def unmarshaler_with_def plain_marshaler_def plain_context_def)

text \<open>C4: marshalling and unmarshalling are inverse to each other.  A struct whose fields are
  exported, have distinct names, and hold bools, integers of any width, finite floats, strings,
  expressions, further such structs, or slices of these scalars (but bytes), becomes nodes without
  an error; and unmarshalling these nodes into a new value of the type gives the struct back, in
  whatever order the properties of a node are walked.\<close>

theorem marshal_unmarshal_round_trip:
  assumes "storable l cs (TStruct nm fs) (GStruct vs)" "walks_all walk"
  shows "\<exists>nodes. MarshalWithOptions (marshaler_with l cs []) (Some (TStruct nm fs, GStruct vs)) [] = Inr nodes
    \<and> UnmarshalWithOptions (unmarshaler_with l cs walk) nodes
        (Some (TPtr (TStruct nm fs), GPtr (Some (zero (TStruct nm fs)))))
      = Inr (Some (TPtr (TStruct nm fs), GPtr (Some (GStruct vs))))"
proof -
  let ?t = "TStruct nm fs"
  have ix: "indexType l cs ?t" using storable_indexed [OF assms(1)] .
  have c: "indexed (marshaler_with l cs []) (Some (?t, GStruct vs)) = marshaler_with l cs (types_in ?t)"
    by (simp add: indexed_def marshaler_with_def)
  have "m_lower (marshaler_with l cs []) = l" "m_CaseSensitive (marshaler_with l cs []) = cs"
    "u_lower (unmarshaler_with l cs walk) = l" "u_CaseSensitive (unmarshaler_with l cs walk) = cs"
    "m_index (marshaler_with l cs (types_in ?t)) = types_in ?t"
    by (simp_all add: marshaler_with_def unmarshaler_with_def)
  moreover from this(5) obtain ns where "marshalValueToNodes (marshaler_with l cs (types_in ?t)) (Val ?t (GStruct vs)) = Inr ns"
    "unmarshalNodes (unmarshaler_with l cs walk) ns (RV False (TPtr ?t) (GPtr (Some (zero ?t))))
      = Inr (RV False (TPtr ?t) (GPtr (Some (GStruct vs))))"
    using no_methods.storable_round_trip [OF plain_no_methods [OF assms(2)] assms(1), of "types_in ?t" False] by auto
  ultimately show ?thesis
    using ix by (simp add: MarshalWithOptions_def UnmarshalWithOptions_def unmarshal_into_def IndexIntf_def c mval_of_def
        is_pointer_def del: zero.simps indexType.simps types_in.simps) simp
qed

definition tls_fields :: "field list" where
  "tls_fields = [Field ''On'' TBool [] False True, Field ''Level'' (TInt 8) [] False True]"

definition sample_fields :: "field list" where
  "sample_fields =
     [Field ''Name'' TString [] False True, Field ''Port'' (TUint 16) ''listen'' False True,
      Field ''Tls'' (TStruct ''main.Tls'' tls_fields) [] False True, Field ''Weights'' (TSlice TFloat) [] False True]"

definition sample_values :: "gval list" where
  "sample_values =
     [GString ''a'', GInt 8080, GStruct [GBool True, GInt (- 3)], GSlice (Some [GFloat (Fin False 3 (- 1))])]"

lemma sample_storable: "storable (\<lambda>r. r) False (TStruct ''main.Server'' sample_fields) (GStruct sample_values)"
proof -
  have "plain_fields (\<lambda>r. r) False sample_fields" "plain_fields (\<lambda>r. r) False tls_fields" by code_simp+
  then show ?thesis
    by (simp add: storable.simps sample_fields_def sample_values_def tls_fields_def
        scalar_ok_def scalar_type_def is_finite_def element_ok_def)
qed

lemma marshal_unmarshal_round_trip_witness:
  "\<exists>nodes. MarshalWithOptions (marshaler_with (\<lambda>r. r) False [])
      (Some (TStruct ''main.Server'' sample_fields, GStruct sample_values)) [] = Inr nodes
    \<and> UnmarshalWithOptions (unmarshaler_with (\<lambda>r. r) False (u_walk plain_context)) nodes
        (Some (TPtr (TStruct ''main.Server'' sample_fields), GPtr (Some (zero (TStruct ''main.Server'' sample_fields)))))
      = Inr (Some (TPtr (TStruct ''main.Server'' sample_fields), GPtr (Some (GStruct sample_values))))"
  by (rule marshal_unmarshal_round_trip [OF sample_storable walk_in_order])

end
