(* ===== verification/Marshaling.thy ===== *)
theory Marshaling
  imports RoundTrip
begin

text \<open>
  More of what the marshaler and unmarshaler do: nodes that match no field, where values are lost
  on the way through a document, and determinism.
\<close>

section \<open>Bytes that read as a number\<close>

lemma not_digits: "\<not> is_digit (CHR ''.'')" "\<not> is_digit (CHR ''e'')" "\<not> is_digit (CHR ''E'')"
  by code_simp+

text \<open>C38: bytes whose base64 is a number are misread.  A \<open>[]byte\<close> field is written as base64; when
  the base64 happens to consist of digits, the unmarshaler takes it for a number, and the field
  comes back as one byte, the number modulo 256, whatever its length was.\<close>

theorem numeric_base64_misread:
  assumes "reInteger (encode64 base64_std (bytes_of x))"
  shows "\<exists>n. marshalByteSliceToNode c name (Some no_details) x = Inr n
    \<and> unmarshalNodeToByteSlice d n [] (RV True (TSlice (TUint 8)) y)
      = Inr (RV True (TSlice (TUint 8))
          (bytes_value [char_of (nat (ToByte (Some (TString, GString (encode64 base64_std (bytes_of x))))))]))"
proof -
  let ?s = "encode64 base64_std (bytes_of x)"
  let ?n = "add_arg (no_value\<lparr>v_Value := VString ?s\<rparr>) (new_node name)"
  have "dn_Arguments ?n = [no_value\<lparr>v_Value := VString ?s\<rparr>]" "Len (dn_Properties ?n) = 0" "dn_Children ?n = []"
    by (simp_all add: add_arg_def with_args_def new_node_def Len_def order_def no_properties_def)
  moreover have "\<not> CHR ''.'' \<in> set ?s" "CHR ''e'' \<notin> set ?s" "CHR ''E'' \<notin> set ?s"
    using assms not_digits by (auto simp: reInteger_def list_all_iff)
  then have e: "takeWhile (\<lambda>c. c \<notin> set ''eE'') ?s = ?s" "dropWhile (\<lambda>c. c \<notin> set ''eE'') ?s = []"
    and c: "Cut ?s (CHR ''.'') = (?s, [], False)"
    by (auto simp: takeWhile_eq_all_conv dropWhile_eq_Nil_conv Cut_def Let_def)
  have "reNumeric ?s" unfolding reNumeric_def Let_def e using assms c by (simp add: re_fixed_def)
  then have "IsNumeric sprint (Some (TString, GString ?s))" for sprint
    by (simp add: IsNumeric_def is_int_type_def text_of_def ToString_def)
  moreover have "ResolvedValue (no_value\<lparr>v_Value := VString ?s\<rparr>) = VString ?s"
    by (simp add: ResolvedValue_def unquoted_string no_value_def)
  moreover have "marshalByteSliceToNode c name (Some no_details) x = Inr ?n"
    by (simp add: marshalByteSliceToNode_def no_details_def bytes_text_def marshalByteSliceValue_def refused_def)
  ultimately show ?thesis
    by (simp add: unmarshalNodeToByteSlice_def Let_def set_to_def assign_def)
qed

lemma numeric_base64_misread_witness:
  "\<exists>n. marshalByteSliceToNode plain_marshaler ''b'' (Some no_details) (GSlice (Some [GInt 215, GInt 109, GInt 248])) = Inr n
    \<and> unmarshalNodeToByteSlice plain_context n [] (RV True (TSlice (TUint 8)) (GSlice None))
      = Inr (RV True (TSlice (TUint 8)) (GSlice (Some [GInt 210])))"
proof -
  have e: "encode64 base64_std (bytes_of (GSlice (Some [GInt 215, GInt 109, GInt 248]))) = ''1234''" by code_simp
  have i: "reInteger (encode64 base64_std (bytes_of (GSlice (Some [GInt 215, GInt 109, GInt 248]))))"
    unfolding e by code_simp
  have "bytes_value [char_of (nat (ToByte (Some (TString, GString ''1234''))))] = GSlice (Some [GInt 210])" by code_simp
  with numeric_base64_misread [OF i, of plain_marshaler "''b''" plain_context "GSlice None"] show ?thesis
    by (simp add: e)
qed

section \<open>Keys that read as a number\<close>

text \<open>Numeric keys lose their values.  A map entry whose key reads as an integer is written as
  the argument with that number, and arguments are counted from zero up to the number of such
  entries: so the only entry of a map with one scalar under such a key, zero excepted, becomes a
  null argument, and neither key nor value is in the node.  The key may be a string of digits.\<close>

theorem numeric_key_lost:
  assumes "scalar_type kt" "IsInteger (\<lambda>_ _. []) (interface kt k)" "ToInt64 (interface kt k) \<noteq> 0" "scalar_ok t x"
  shows "MarshalNodeWithOptions plain_marshaler (Some (TMap kt t, GMap (Some [(k, x)])))
    = Inr (Some (add_arg no_value (new_node [])))"
proof -
  let ?m = "TMap kt t" and ?x = "GMap (Some [(k, x)])"
  define ct where "ct = marshaler_with (\<lambda>r. r) False (types_in ?m)"
  have nm: "no_methods ct (unmarshaler_with (\<lambda>r. r) False (u_walk plain_context)) (\<lambda>r. r) False"
    unfolding ct_def by (rule plain_no_methods [OF walk_in_order])
  have st: "scalar_type t" using assms(4) by (simp add: scalar_ok_def)
  have ix: "indexType (\<lambda>r. r) False ?m"
    using assms(1) st by (cases kt; cases t) (simp_all add: scalar_type_def)
  have c: "indexed plain_marshaler (Some (?m, ?x)) = ct" "m_sprint ct = (\<lambda>_ _. [])"
    by (simp_all add: ct_def indexed_def marshaler_with_def plain_marshaler_def)
  have kids: "map_kids ct ?m ?x = [(interface kt k, Val t x)]"
    using st by (simp add: map_kids_def sorted_entries_def key_type_def elem_type_def no_methods.scalar_direct [OF nm])
  have tried: "tryMarshalValueAsChild ct (key_text ct (interface kt k)) None (Val t x) = Inr AsProperty"
    using no_methods.scalar_stored [OF nm assms(4)] st bare_simps(5) unfolding no_methods.stored_def [OF nm] by metis
  have "marshalMapToNode ct [] [] [(interface kt k, Val t x, Inr AsProperty)] = Inr (add_arg no_value (new_node []))"
    using assms(2,3)
    by (simp add: marshalMapToNode_def map_entry_def no_methods.scalar_value_of [OF nm assms(4)] c put_arg_def
        numbered_args_def add_arg_def no_value_def)
  then have "marshalValueToNode ct [] None (Val ?m ?x) = Inr (Some (add_arg no_value (new_node [])))"
    by (subst marshalValueToNode.simps)
      (simp add: kids tried one_node_def no_methods.no_marshaler [OF nm] indirect_def is_big_def)
  then show ?thesis
    using ix unfolding MarshalNodeWithOptions_def c(1) by (simp add: IndexIntf_def mval_of_def plain_marshaler_def)
qed

lemma numeric_key_lost_witness:
  "MarshalNodeWithOptions plain_marshaler (Some (TMap TString TBool, GMap (Some [(GString ''2024'', GBool True)])))
    = Inr (Some (add_arg no_value (new_node [])))"
proof (rule numeric_key_lost)
  show "IsInteger (\<lambda>_ _. []) (interface TString (GString ''2024''))" by code_simp
  show "ToInt64 (interface TString (GString ''2024'')) \<noteq> 0" by code_simp
qed (simp_all add: scalar_type_def scalar_ok_def)

section \<open>Nodes that match no field\<close>

lemma struct_field_type: "unmarshalNodeToStructField c kid s = Inr r \<Longrightarrow> rv_type r = rv_type s"
  by (auto simp: unmarshalNodeToStructField_def SetValueIn_def Let_def fails_def split: option.splits if_splits elim!: bind_resE)

definition has_field :: "unmarshalContext \<Rightarrow> gtype \<Rightarrow> dnode \<Rightarrow> bool" where
  "has_field c t n =
     (case (dn_Name n, details c t) of
        (Some name, Some d) \<Rightarrow> td_StructFields d (safe_key c (ValueString name)) \<noteq> None
      | _ \<Rightarrow> False)"

lemma strict_fields:
  assumes "fold_res (unmarshalNodeToStructField c) (kid_list c nodes) s = Inr r" "\<not> u_AllowUnhandledNodes c"
  shows "\<forall>n \<in> set nodes. has_field c (rv_type s) n"
  using assms(1)
proof (induction nodes arbitrary: s)
  case (Cons n nodes)
  then obtain w where w: "unmarshalNodeToStructField c (n, \<lambda>args f w. unmarshalNodeToValue c (with_args n args) f w) s = Inr w"
    "fold_res (unmarshalNodeToStructField c) (kid_list c nodes) w = Inr r"
    by (auto simp: kid_list_def elim!: bind_resE)
  from w(1) assms(2) have "has_field c (rv_type s) n"
    by (auto simp: unmarshalNodeToStructField_def has_field_def fails_def split: option.splits)
  with Cons.IH [OF w(2)] struct_field_type [OF w(1)] show ?case by simp
qed simp

lemma lenient_fields:
  assumes "u_AllowUnhandledNodes c" "\<forall>n \<in> set nodes. dn_Name n \<noteq> None" "details c (rv_type s) \<noteq> None"
  shows "fold_res (unmarshalNodeToStructField c) (kid_list c nodes) s
    = fold_res (unmarshalNodeToStructField c) (kid_list c (filter (has_field c (rv_type s)) nodes)) s"
  using assms(2,3)
proof (induction nodes arbitrary: s)
  case (Cons n nodes)
  let ?k = "(n, \<lambda>args f w. unmarshalNodeToValue c (with_args n args) f w)"
  show ?case
  proof (cases "has_field c (rv_type s) n")
    case True
    show ?thesis
    proof (cases "unmarshalNodeToStructField c ?k s")
      case (Inr w)
      with struct_field_type [OF Inr] Cons True show ?thesis by (simp add: kid_list_def)
    qed (simp add: kid_list_def True)
  next
    case False
    with Cons.prems assms(1) have "unmarshalNodeToStructField c ?k s = Inr s"
      by (auto simp: unmarshalNodeToStructField_def has_field_def)
    with Cons False show ?thesis by (simp add: kid_list_def)
  qed
qed simp

lemma nodes_into_struct:
  "unmarshalNodes c nodes (RV b (TPtr (TStruct nm fs)) (GPtr (Some x)))
   = bind_res (fold_res (unmarshalNodeToStructField c) (kid_list c nodes) (RV True (TStruct nm fs) x)) (\<lambda>r.
       bind_res (assign (TStruct nm fs) r) (\<lambda>x.
         bind_res (assign (TStruct nm fs) (RV True (TStruct nm fs) x)) (\<lambda>x.
           Inr (RV b (TPtr (TStruct nm fs)) (GPtr (Some x))))))"
  by (cases "fold_res (unmarshalNodeToStructField c) (kid_list c nodes) (RV True (TStruct nm fs) x)")
    (simp_all add: unmarshalNodes_def unmarshalNodesToStruct_def withCreatedAndIndirected_def
      createAndIndirect_def is_big_def assign_def split: if_splits)

text \<open>C13: no node is dropped in silence.  When a document has been unmarshalled into a struct and
  unhandled nodes are not allowed, the name of each of its top-level nodes is that of a field.\<close>

theorem every_node_has_a_field:
  assumes "UnmarshalWithOptions c nodes (Some (TPtr (TStruct nm fs), GPtr (Some x))) = Inr r" "\<not> u_AllowUnhandledNodes c"
  shows "list_all (has_field c (TStruct nm fs)) nodes"
proof -
  from assms(1) obtain r' where
    "fold_res (unmarshalNodeToStructField c) (kid_list c nodes) (RV True (TStruct nm fs) x) = Inr r'"
    by (auto simp: UnmarshalWithOptions_def unmarshal_into_def nodes_into_struct is_pointer_def is_map_def fails_def
        split: if_splits elim!: bind_resE)
  from strict_fields [OF this assms(2)] show ?thesis by (simp add: list_all_iff)
qed

text \<open>C14: where unhandled nodes are allowed, they make no difference: unmarshalling a document into a
  struct gives what unmarshalling only the nodes that have a field gives, values and errors
  alike.\<close>

theorem unhandled_nodes_ignored:
  assumes "u_AllowUnhandledNodes c" "\<forall>n \<in> set nodes. named n"
  shows "UnmarshalWithOptions c nodes (Some (TPtr (TStruct nm fs), GPtr (Some x)))
    = UnmarshalWithOptions c (filter (has_field c (TStruct nm fs)) nodes) (Some (TPtr (TStruct nm fs), GPtr (Some x)))"
proof (cases "IndexIntf (u_lower c) (u_CaseSensitive c) (Some (TPtr (TStruct nm fs), GPtr (Some x)))")
  case True
  then have "details c (TStruct nm fs) \<noteq> None"
    by (auto simp: IndexIntf_def details_def struct_details_def)
  moreover have "\<forall>n \<in> set nodes. dn_Name n \<noteq> None"
    using assms(2) by (metis dnode.exhaust_sel named.simps)
  ultimately show ?thesis
    using lenient_fields [OF assms(1), of nodes "RV True (TStruct nm fs) x"]
    by (simp add: UnmarshalWithOptions_def unmarshal_into_def nodes_into_struct)
qed (simp add: UnmarshalWithOptions_def unmarshal_into_def)

definition port_type :: gtype where
  "port_type = TStruct ''main.T'' [Field ''Port'' (TInt 64) [] False True]"

definition port_nodes :: "dnode list" where
  "port_nodes = [add_arg (no_value\<lparr>v_Value := VInt 80\<rparr>) (new_node ''port'')]"

lemma every_node_has_a_field_witness:
  "list_all (has_field plain_context port_type) port_nodes"
  unfolding port_type_def
proof (rule every_node_has_a_field)
  show "UnmarshalWithOptions plain_context port_nodes
      (Some (TPtr (TStruct ''main.T'' [Field ''Port'' (TInt 64) [] False True]), GPtr (Some (GStruct [GInt 0]))))
    = Inr (Some (TPtr (TStruct ''main.T'' [Field ''Port'' (TInt 64) [] False True]), GPtr (Some (GStruct [GInt 80]))))"
    by code_simp
  show "\<not> u_AllowUnhandledNodes plain_context" by (simp add: plain_context_def)
qed

lemma unhandled_nodes_ignored_witness:
  "UnmarshalWithOptions (plain_context\<lparr>u_AllowUnhandledNodes := True\<rparr>) (port_nodes @ [new_node ''x''])
      (Some (TPtr (TStruct ''main.T'' [Field ''Port'' (TInt 64) [] False True]), GPtr (Some (GStruct [GInt 0]))))
    = UnmarshalWithOptions (plain_context\<lparr>u_AllowUnhandledNodes := True\<rparr>)
        (filter (has_field (plain_context\<lparr>u_AllowUnhandledNodes := True\<rparr>)
           (TStruct ''main.T'' [Field ''Port'' (TInt 64) [] False True])) (port_nodes @ [new_node ''x'']))
      (Some (TPtr (TStruct ''main.T'' [Field ''Port'' (TInt 64) [] False True]), GPtr (Some (GStruct [GInt 0]))))"
  by (rule unhandled_nodes_ignored) (simp_all add: port_nodes_def new_node_def add_arg_def with_args_def)

section \<open>Integers that do not fit\<close>

lemma wrap_int_fits: "0 < w \<Longrightarrow> wrap_int w n = n \<longleftrightarrow> - (2 ^ (w - 1)) \<le> n \<and> n < 2 ^ (w - 1)"
  using wrap_int_range [of w n] wrap_int_id [of w n] by auto

lemma wrap_uint_fits: "wrap_uint w n = n \<longleftrightarrow> 0 \<le> n \<and> n < 2 ^ w"
  using wrap_uint_range [of w n] wrap_uint_id [of n w] by auto

definition int_arg :: "bytes \<Rightarrow> int \<Rightarrow> dnode" where
  "int_arg name n = add_arg (no_value\<lparr>v_Value := VInt n\<rparr>) (new_node name)"

text \<open>C16: an integer that does not fit is cut off without an error.  A node with one \<open>int64\<close>
  argument, unmarshalled into an integer of 8 to 64 bits, signed or not, always succeeds and keeps
  the low bits of the argument; the result is the argument exactly when that is in the range of
  the type.\<close>

theorem integers_wrap:
  assumes "is_int64 n" "w \<in> {8, 16, 32, 64}"
  shows "UnmarshalNodeWithOptions plain_context (int_arg name n) (Some (TPtr (TInt w), GPtr (Some y)))
      = Inr (Some (TPtr (TInt w), GPtr (Some (GInt (wrap_int w n)))))
    \<and> (wrap_int w n = n \<longleftrightarrow> - (2 ^ (w - 1)) \<le> n \<and> n < 2 ^ (w - 1))
    \<and> UnmarshalNodeWithOptions plain_context (int_arg name n) (Some (TPtr (TUint w), GPtr (Some y)))
      = Inr (Some (TPtr (TUint w), GPtr (Some (GInt (wrap_uint w n)))))
    \<and> (wrap_uint w n = n \<longleftrightarrow> 0 \<le> n \<and> n < 2 ^ w)"
proof -
  let ?n = "int_arg name n"
  have n: "dn_Arguments ?n = [no_value\<lparr>v_Value := VInt n\<rparr>]" "dn_Children ?n = []" "Len (dn_Properties ?n) = 0"
    by (simp_all add: int_arg_def add_arg_def with_args_def new_node_def Len_def order_def no_properties_def)
  have v: "verifyArgsPropsChildren plain_context ?n 1 [] False = Inr ()"
    by (simp add: verifyArgsPropsChildren_def n Let_def)
  have r: "ResolvedValue (no_value\<lparr>v_Value := VInt n\<rparr>) = VInt n" by (simp add: ResolvedValue_def)
  have i: "ToInt64 (Some (TInt 64, GInt n)) = n"
    using assms(1) wrap_int_id [of 64 n] by (simp add: ToInt64_def is_int_type_def int_of_def is_int64_def)
  have u: "wrap_uint w (ToUint64 (Some (TInt 64, GInt n))) = wrap_uint w n"
  proof -
    from assms(2) have "(2 :: int) ^ w dvd 2 ^ 64" by (auto intro: le_imp_power_dvd)
    then show ?thesis by (simp add: ToUint64_def i wrap_uint_def mod_mod_cancel)
  qed
  have p: "u_RelaxedNonCompliant plain_context = 0" by (simp add: plain_context_def)
  have set: "setReflectValueFromIntf plain_context (RV True (TInt w) y) (VInt n) [] = Inr (RV True (TInt w) (GInt (wrap_int w n)))"
    "setReflectValueFromIntf plain_context (RV True (TUint w) y) (VInt n) [] = Inr (RV True (TUint w) (GInt (wrap_uint w n)))"
    by (simp_all add: setReflectValueFromIntf_def created_direct direct_def is_big_def Let_def
        directSetReflectValueFromIntf_def p permit_def set_to_def assign_def i u)
  have node: "unmarshalNodeToValue plain_context ?n [] (RV True t y) = Inr (RV True t x)"
    if "direct t" "node_to_kind plain_context ?n [] [] (RV True t y) = Inr (RV True t x)" for t x
    using that unfolding unmarshalNodeToValue.simps [of plain_context ?n] node_to_value_def
    by (simp add: n created_direct assign_def at_node_def)
  have "unmarshalNodeToValue plain_context ?n [] (RV True (TInt w) y) = Inr (RV True (TInt w) (GInt (wrap_int w n)))"
    "unmarshalNodeToValue plain_context ?n [] (RV True (TUint w) y) = Inr (RV True (TUint w) (GInt (wrap_uint w n)))"
    by (rule node; simp add: direct_def is_big_def node_to_kind_def v [unfolded One_nat_def] n r set)+
  then have "UnmarshalNodeWithOptions plain_context ?n (Some (TPtr (TInt w), GPtr (Some y)))
      = Inr (Some (TPtr (TInt w), GPtr (Some (GInt (wrap_int w n)))))"
    "UnmarshalNodeWithOptions plain_context ?n (Some (TPtr (TUint w), GPtr (Some y)))
      = Inr (Some (TPtr (TUint w), GPtr (Some (GInt (wrap_uint w n)))))"
    by (simp_all add: UnmarshalNodeWithOptions_def unmarshal_into_def IndexIntf_def is_pointer_def unmarshalNode_def
        withCreatedAndIndirected_def createAndIndirect_def is_big_def assign_def)
  with assms(2) show ?thesis by (auto simp: wrap_int_fits wrap_uint_fits)
qed

lemma integers_wrap_witness:
  "UnmarshalNodeWithOptions plain_context (int_arg ''n'' 300) (Some (TPtr (TInt 8), GPtr (Some (GInt 0))))
      = Inr (Some (TPtr (TInt 8), GPtr (Some (GInt 44))))
   \<and> UnmarshalNodeWithOptions plain_context (int_arg ''n'' (- 1)) (Some (TPtr (TUint 16), GPtr (Some (GInt 0))))
      = Inr (Some (TPtr (TUint 16), GPtr (Some (GInt 65535))))"
proof -
  have "wrap_int 8 300 = 44" "wrap_uint 16 (- 1) = 65535" "is_int64 300" "is_int64 (- 1)"
    by (simp_all add: wrap_int_def wrap_uint_def is_int64_def)
  then show ?thesis
    using integers_wrap [of 300 8 "''n''" "GInt 0"] integers_wrap [of "- 1" 16 "''n''" "GInt 0"] by simp
qed

end
