(* ===== verification/Api.thy ===== *)
theory Api
  imports Marshaling
begin

text \<open>
  The functions of the package (\<open>marshal.go\<close>, \<open>unmarshal.go\<close>): from text to a Go value and back,
  through a document.
\<close>

section \<open>Decoding\<close>

datatype decode_failure = ReadFailed read_error | UnmarshalFailed failure

text \<open>\<open>UnmarshalOptions{}\<close>: what is not an option of the context stays.\<close>

definition default_unmarshal :: "unmarshalContext \<Rightarrow> unmarshalContext" where
  "default_unmarshal c =
     c\<lparr>u_AllowUnhandledNodes := False, u_AllowUnhandledArgs := False, u_AllowUnhandledProps := False,
       u_AllowUnhandledChildren := False, u_RelaxedNonCompliant := 0, u_CaseSensitive := False\<rparr>"

text \<open>\<open>marshaler.Unmarshal\<close> and \<open>marshaler.UnmarshalNode\<close>.\<close>

definition UnmarshalDocument :: "unmarshalContext \<Rightarrow> dnode list \<Rightarrow> iface \<Rightarrow> failure + iface" where
  "UnmarshalDocument c nodes v = UnmarshalWithOptions (default_unmarshal c) nodes v"

definition UnmarshalNode :: "unmarshalContext \<Rightarrow> dnode \<Rightarrow> iface \<Rightarrow> failure + iface" where
  "UnmarshalNode c n v = UnmarshalNodeWithOptions (default_unmarshal c) n v"

definition decode :: "read_error + document \<Rightarrow> (dnode list \<Rightarrow> failure + iface) \<Rightarrow> decode_failure + iface" where
  "decode doc f =
     (case doc of
        Inl e \<Rightarrow> Inl (ReadFailed e)
      | Inr d \<Rightarrow> (case f (trees d) of Inl e \<Rightarrow> Inl (UnmarshalFailed e) | Inr v \<Rightarrow> Inr v))"

definition kdl_Unmarshal :: "unmarshalContext \<Rightarrow> bytes \<Rightarrow> iface \<Rightarrow> decode_failure + iface" where
  "kdl_Unmarshal c data v = decode (kdl_parse (NewSlice data)) (\<lambda>nodes. UnmarshalDocument c nodes v)"

text \<open>\<open>comments\<close> is the option \<open>ParseComments\<close>.\<close>

definition kdl_UnmarshalWithOptions ::
  "unmarshalContext \<Rightarrow> bool \<Rightarrow> bytes \<Rightarrow> iface \<Rightarrow> decode_failure + iface" where
  "kdl_UnmarshalWithOptions c comments data v =
     decode (kdl_parse (configure (u_RelaxedNonCompliant c) comments VersionAuto (NewSlice data)))
       (\<lambda>nodes. UnmarshalDocument c nodes v)"

definition Decode :: "unmarshalContext \<Rightarrow> bool \<Rightarrow> bytes \<Rightarrow> iface \<Rightarrow> decode_failure + iface" where
  "Decode c comments r v =
     decode (kdl_parse (configure (u_RelaxedNonCompliant c) comments VersionAuto (New r)))
       (\<lambda>nodes. UnmarshalWithOptions c nodes v)"

section \<open>Encoding\<close>

datatype encode_failure = MarshalFailed marshal_failure | WriteFailed string | GeneratorPanics

definition Encode ::
  "marshalContext \<Rightarrow> generator_options \<Rightarrow> iface \<Rightarrow> 'w io_write \<Rightarrow> 'w \<Rightarrow> (encode_failure + unit) \<times> 'w" where
  "Encode c opts v write w =
     (case MarshalWithOptions c v [] of
        Inl e \<Rightarrow> (Inl (MarshalFailed e), w)
      | Inr nodes \<Rightarrow>
          (case Generate write (generator_NewOptions opts) nodes w of
             None \<Rightarrow> (Inl GeneratorPanics, w)
           | Some (Some e, w') \<Rightarrow> (Inl (WriteFailed e), w')
           | Some (None, w') \<Rightarrow> (Inr (), w')))"

definition kdl_MarshalWithOptions :: "marshalContext \<Rightarrow> generator_options \<Rightarrow> iface \<Rightarrow> encode_failure + bytes" where
  "kdl_MarshalWithOptions c opts v =
     (case Encode c opts v buffer_write [] of (Inl e, _) \<Rightarrow> Inl e | (Inr _, b) \<Rightarrow> Inr b)"

text \<open>\<open>MarshalOptions{}\<close>, and \<open>generator.New\<close> with the default options.\<close>

definition default_marshal :: "marshalContext \<Rightarrow> marshalContext" where
  "default_marshal c = c\<lparr>m_CaseSensitive := False, m_BareSuffixed := False\<rparr>"

definition kdl_Marshal :: "marshalContext \<Rightarrow> iface \<Rightarrow> encode_failure + bytes" where
  "kdl_Marshal c v = kdl_MarshalWithOptions (default_marshal c) DefaultOptions v"

definition MarshalDocument :: "marshalContext \<Rightarrow> iface \<Rightarrow> dnode list \<Rightarrow> marshal_failure + dnode list" where
  "MarshalDocument c v nodes = MarshalWithOptions (default_marshal c) v nodes"

definition MarshalNode :: "marshalContext \<Rightarrow> iface \<Rightarrow> marshal_failure + dnode option" where
  "MarshalNode c v = MarshalNodeWithOptions (default_marshal c) v"

section \<open>The rest of the interface\<close>

text \<open>\<open>parser.ParseAll\<close>: without options.\<close>

definition defaultParseContextOptions :: parse_options where
  "defaultParseContextOptions = \<lparr>o_RelaxedNonCompliant = 0, o_Flags = 0, o_Version = VersionAuto\<rparr>"

definition NewContext :: ctx where
  "NewContext = NewContextOptions defaultParseContextOptions"

definition ParseAll :: "token list \<Rightarrow> read_error + document" where
  "ParseAll tokens = ParseAllContext NewContext tokens"

text \<open>What a reader tells of its size; an estimate of 0 means that it is not known.\<close>

datatype sized = HasLen int | HasSize int | Unsized

definition estimateReaderSize :: "sized \<Rightarrow> int" where
  "estimateReaderSize r =
     (case r of
        HasLen n \<Rightarrow> n
      | HasSize sz \<Rightarrow> if sz > 0 \<and> sz \<le> int (drop_bit 1 (2 ^ 64 - 1)) then wrap_int 64 sz else 0
      | Unsized \<Rightarrow> 0)"

text \<open>The size is taken over as it is, if there is any.\<close>

lemma estimateReaderSize_size:
  "sz < 2 ^ 63 \<Longrightarrow> estimateReaderSize (HasSize sz) = max 0 sz"
  by (simp add: estimateReaderSize_def drop_bit_eq_div wrap_int_id max_def)

definition kdl_UnmarshalDocument :: "unmarshalContext \<Rightarrow> dnode list \<Rightarrow> iface \<Rightarrow> failure + iface" where
  "kdl_UnmarshalDocument c nodes v = UnmarshalDocument c nodes v"

definition kdl_UnmarshalDocumentWithOptions :: "unmarshalContext \<Rightarrow> dnode list \<Rightarrow> iface \<Rightarrow> failure + iface" where
  "kdl_UnmarshalDocumentWithOptions c nodes v = UnmarshalWithOptions c nodes v"

definition kdl_UnmarshalNode :: "unmarshalContext \<Rightarrow> dnode \<Rightarrow> iface \<Rightarrow> failure + iface" where
  "kdl_UnmarshalNode c n v = UnmarshalNode c n v"

definition kdl_UnmarshalNodeWithOptions :: "unmarshalContext \<Rightarrow> dnode \<Rightarrow> iface \<Rightarrow> failure + iface" where
  "kdl_UnmarshalNodeWithOptions c n v = UnmarshalNodeWithOptions c n v"

definition kdl_MarshalDocument :: "marshalContext \<Rightarrow> iface \<Rightarrow> dnode list \<Rightarrow> marshal_failure + dnode list" where
  "kdl_MarshalDocument c v nodes = MarshalDocument c v nodes"

definition kdl_MarshalDocumentWithOptions ::
  "marshalContext \<Rightarrow> iface \<Rightarrow> dnode list \<Rightarrow> marshal_failure + dnode list" where
  "kdl_MarshalDocumentWithOptions c v nodes = MarshalWithOptions c v nodes"

definition kdl_MarshalNode :: "marshalContext \<Rightarrow> iface \<Rightarrow> marshal_failure + dnode option" where
  "kdl_MarshalNode c v = MarshalNode c v"

definition kdl_MarshalNodeWithOptions :: "marshalContext \<Rightarrow> iface \<Rightarrow> marshal_failure + dnode option" where
  "kdl_MarshalNodeWithOptions c v = MarshalNodeWithOptions c v"

section \<open>Options\<close>

definition lenient :: unmarshalContext where
  "lenient = plain_context\<lparr>u_AllowUnhandledNodes := True\<rparr>"

definition empty_target :: iface where
  "empty_target = Some (TPtr (TStruct ''main.T'' []), GPtr (Some (GStruct [])))"

lemma lenient_decode: "Decode lenient False ''x 1'' empty_target = Inr empty_target"
  by code_simp

lemma lenient_unmarshal:
  "kdl_UnmarshalWithOptions lenient False ''x 1'' empty_target = Inl (UnmarshalFailed (Fails (NoField ''x'')))"
  by code_simp

text \<open>C35: options that are not heeded.  \<open>kdl.UnmarshalWithOptions\<close> gives the same result, on every
  input and for every target, whatever the options for unhandled nodes, arguments, properties and
  children and for the case of names say, and without options for reading it is \<open>kdl.Unmarshal\<close>.
  A \<open>Decoder\<close> heeds them: with unhandled nodes allowed it decodes \<open>x 1\<close> into a struct without
  fields, where \<open>UnmarshalWithOptions\<close> fails.\<close>

theorem unmarshal_options_dropped:
  "kdl_UnmarshalWithOptions
      (c\<lparr>u_AllowUnhandledNodes := a, u_AllowUnhandledArgs := b, u_AllowUnhandledProps := p,
        u_AllowUnhandledChildren := k, u_CaseSensitive := cs\<rparr>) comments data v
    = kdl_UnmarshalWithOptions c comments data v
   \<and> kdl_UnmarshalWithOptions (c\<lparr>u_RelaxedNonCompliant := 0\<rparr>) False data v = kdl_Unmarshal c data v
   \<and> Decode lenient False ''x 1'' empty_target = Inr empty_target
   \<and> kdl_UnmarshalWithOptions lenient False ''x 1'' empty_target = Inl (UnmarshalFailed (Fails (NoField ''x'')))"
proof -
  have "configure 0 False VersionAuto (NewSlice data) = NewSlice data"
    by (simp add: configure_def NewSlice_def sliceScanner_def)
  then show ?thesis
    using lenient_decode lenient_unmarshal
    by (simp add: kdl_UnmarshalWithOptions_def kdl_Unmarshal_def UnmarshalDocument_def default_unmarshal_def)
qed

end
