(* ===== verification/Streaming.thy ===== *)
theory Streaming
  imports Reading
begin

text \<open>
  The scanner's buffer over an \<open>io.Reader\<close> and its cache of peeked runes
  (\<open>internal/tokenizer/scanner.go\<close>): \<open>New\<close>, \<open>NewBuffer\<close>, \<open>refill\<close>, \<open>Read\<close>, and the primitives \<open>get\<close>,
  \<open>peek*\<close>, marks and \<open>copyFromMark\<close> as the code has them, on the backing array.  The theories from
  \<open>Scanner\<close> on work on a scanner that holds its whole input and decodes anew each time; here the
  primitives of the buffered scanner are shown to simulate those, as far as they do.
\<close>

section \<open>Readers\<close>

text \<open>
  A reader is what it still has to give and how it ends: with \<open>io.EOF\<close> (\<open>None\<close>) or with an error of
  its own.  \<open>ReadFull\<close> is \<open>io.ReadFull\<close> with a buffer of \<open>n\<close> bytes, which does not depend on the
  portions the reader gives its bytes in.
\<close>

record reader =
  rd_bytes :: bytes
  rd_fault :: "string option"

datatype read_end = EndOfFile | UnexpectedEnd | Fault string

definition ReadFull :: "nat \<Rightarrow> reader \<Rightarrow> (bytes \<times> read_end option) \<times> reader" where
  "ReadFull n r =
     (if n \<le> length (rd_bytes r) then
        ((take n (rd_bytes r), None), r\<lparr>rd_bytes := drop n (rd_bytes r)\<rparr>)
      else
        ((rd_bytes r,
          Some (case rd_fault r of
                  Some e \<Rightarrow> Fault e
                | None \<Rightarrow> if rd_bytes r = [] then EndOfFile else UnexpectedEnd)),
         r\<lparr>rd_bytes := []\<rparr>))"

section \<open>State\<close>

text \<open>
  \<open>b_buf\<close> is the backing array of \<open>raw\<close>, so its length is \<open>cap(s.raw)\<close>; \<open>raw\<close> is its first \<open>b_len\<close>
  bytes, and \<open>input\<close> is \<open>raw\<close> from \<open>b_off\<close> on, to its end.  The field \<open>len\<close> of the code is the length
  of \<open>input\<close>.
\<close>

record stream =
  b_buf :: bytes
  b_len :: nat
  b_off :: nat
  b_peeked :: "(nat \<times> nat) list"
  b_line :: nat
  b_column :: nat
  b_marks :: "nat list"
  b_err :: "read_end option"
  b_r :: "reader option"
  b_lastErr :: "read_end option"

definition raw :: "stream \<Rightarrow> bytes" where
  "raw s = take (b_len s) (b_buf s)"

definition input :: "stream \<Rightarrow> bytes" where
  "input s = drop (b_off s) (raw s)"

definition newScanner :: stream where
  "newScanner = \<lparr>b_buf = [], b_len = 0, b_off = 0, b_peeked = [], b_line = 0, b_column = 0,
     b_marks = [], b_err = None, b_r = None, b_lastErr = None\<rparr>"

definition NewBuffer :: "reader \<Rightarrow> bytes \<Rightarrow> stream" where
  "NewBuffer r b =
     (case ReadFull (length b) r of
        ((got, err), r') \<Rightarrow>
          if err \<noteq> None \<and> err \<noteq> Some UnexpectedEnd then newScanner\<lparr>b_err := err\<rparr>
          else newScanner\<lparr>b_r := if err = None then Some r' else None,
                 b_buf := got @ drop (length got) b, b_len := length got\<rparr>)"

definition DefaultBufferSize :: nat where
  "DefaultBufferSize = 64 * 1024"

definition stream_New :: "reader \<Rightarrow> stream" where
  "stream_New r = NewBuffer r (replicate DefaultBufferSize (CHR 0x00))"

definition stream_NewSlice :: "bytes \<Rightarrow> stream" where
  "stream_NewSlice inp = newScanner\<lparr>b_buf := inp, b_len := length inp\<rparr>"

section \<open>Refilling\<close>

text \<open>
  Without marks the unread bytes move to the front; with marks, everything from the oldest one
  on does.  A read that fails leaves \<open>raw\<close> and \<open>input\<close> where they were, but the array under them
  has been written to, unless it was replaced by a larger one.
\<close>

definition refill :: "stream \<Rightarrow> stream" where
  "refill s =
     (case b_r s of
        None \<Rightarrow> s
      | Some r \<Rightarrow>
          let unreadLen = length (input s);
              marked = (b_marks s \<noteq> []);
              oldestMark = (if marked then hd (b_marks s) else 0);
              retained = (if marked then drop oldestMark (raw s) else input s);
              retainLen = length retained;
              inputOffset = (if marked then retainLen - unreadLen else 0);
              moved = retained @ drop retainLen (b_buf s);
              grow = (marked \<and> retainLen > length (b_buf s) * 3 div 4);
              target = (if grow then moved @ replicate (length (b_buf s)) (CHR 0x00) else moved);
              s' = s\<lparr>b_marks := map (\<lambda>m. m - oldestMark) (b_marks s)\<rparr>
          in (case ReadFull (length target - retainLen) r of
                ((got, err), r') \<Rightarrow>
                  let nr = length got; filled = retained @ got @ drop (retainLen + nr) target
                  in case err of
                       Some (Fault e) \<Rightarrow>
                         s'\<lparr>b_err := err, b_lastErr := err, b_r := None,
                            b_buf := if grow then moved else filled\<rparr>
                     | _ \<Rightarrow>
                         s'\<lparr>b_r := if err = None then Some r' else None,
                            b_buf := filled, b_len := retainLen + nr, b_off := inputOffset\<rparr>))"

section \<open>Reading the bytes\<close>

text \<open>\<open>Read\<close> with a buffer of \<open>n\<close> bytes.\<close>

definition Read :: "nat \<Rightarrow> stream \<Rightarrow> (bytes \<times> read_end option) \<times> stream" where
  "Read n s =
     (case b_lastErr s of
        Some e \<Rightarrow> (([], Some e), s)
      | None \<Rightarrow>
          let s1 = (if length (input s) = 0 then refill s else s)
          in if length (input s1) = 0 then (([], Some EndOfFile), s1)
             else ((take n (input s1), None), s1\<lparr>b_off := b_off s1 + length (take n (input s1))\<rparr>))"

section \<open>Looking ahead\<close>

definition stream_peekSize :: "stream \<Rightarrow> (scan_error + nat \<times> nat) \<times> stream" where
  "stream_peekSize s =
     (case b_peeked s of
        p # _ \<Rightarrow> (Inr p, s)
      | [] \<Rightarrow>
          (case decode1 (input s) of
             Inl e \<Rightarrow> (Inl e, s)
           | Inr p \<Rightarrow> (Inr p, s\<lparr>b_peeked := [p]\<rparr>)))"

function peekTwo_fill :: "nat \<Rightarrow> stream \<Rightarrow> scan_error option \<times> stream" where
  "peekTwo_fill peekedSize s =
     (if length (b_peeked s) < 2 then
        (case decode1 (drop peekedSize (input s)) of
           Inl e \<Rightarrow> (Some e, s)
         | Inr p \<Rightarrow> peekTwo_fill (peekedSize + snd p) (s\<lparr>b_peeked := b_peeked s @ [p]\<rparr>))
      else (None, s))"
  by pat_completeness auto
termination by (relation "measure (\<lambda>(_, s). 2 - length (b_peeked s))") auto

declare peekTwo_fill.simps [simp del]

definition stream_peekTwoSize :: "stream \<Rightarrow> (scan_error + nat \<times> nat \<times> nat \<times> nat) \<times> stream" where
  "stream_peekTwoSize s =
     (case peekTwo_fill (if length (b_peeked s) = 1 then snd (b_peeked s ! 0) else 0) s of
        (Some e, s') \<Rightarrow> (Inl e, s')
      | (None, s') \<Rightarrow>
          (Inr (fst (b_peeked s' ! 0), snd (b_peeked s' ! 0), fst (b_peeked s' ! 1), snd (b_peeked s' ! 1)), s'))"

lemma refill_peeked [simp]: "b_peeked (refill s) = b_peeked s"
  by (simp add: refill_def Let_def split: option.splits prod.splits read_end.splits)

lemma refill_None [simp]: "b_r s = None \<Longrightarrow> refill s = s"
  by (simp add: refill_def)

function peekAt_fill :: "nat \<Rightarrow> nat \<Rightarrow> stream \<Rightarrow> scan_error option \<times> stream" where
  "peekAt_fill n peekedSize s =
     (if length (b_peeked s) \<le> n then
        let s1 = (if length (input s) \<le> peekedSize then refill s else s)
        in (case decode1 (drop peekedSize (input s1)) of
              Inl e \<Rightarrow> (Some e, s1)
            | Inr p \<Rightarrow> peekAt_fill n (peekedSize + snd p) (s1\<lparr>b_peeked := b_peeked s1 @ [p]\<rparr>))
      else (None, s))"
  by pat_completeness auto
termination by (relation "measure (\<lambda>(n, _, s). Suc n - length (b_peeked s))") auto

declare peekAt_fill.simps [simp del]

definition stream_peekAtSize :: "nat \<Rightarrow> stream \<Rightarrow> (scan_error + nat \<times> nat) \<times> stream" where
  "stream_peekAtSize n s =
     (case peekAt_fill n (sum_list (map snd (b_peeked s))) s of
        (Some e, s') \<Rightarrow> (Inl e, s')
      | (None, s') \<Rightarrow> (Inr (b_peeked s' ! n), s'))"

section \<open>Consuming\<close>

definition stream_get :: "stream \<Rightarrow> (scan_error + nat) \<times> stream" where
  "stream_get s0 =
     (let s = (if length (input s0) \<le> 4 * 2 then refill s0 else s0);
          next = (case b_peeked s of p # _ \<Rightarrow> Inr p | [] \<Rightarrow> decode1 (input s))
      in case next of
           Inl e \<Rightarrow> (Inl e, s)
         | Inr (c, sz) \<Rightarrow>
             (Inr c,
              (if isNewline c then s\<lparr>b_line := b_line s + 1, b_column := 1\<rparr>
               else s\<lparr>b_column := b_column s + 1\<rparr>)\<lparr>b_peeked := tl (b_peeked s), b_off := b_off s + sz\<rparr>))"

definition stream_copyInput :: "nat \<Rightarrow> stream \<Rightarrow> bytes" where
  "stream_copyInput sz s = take sz (input s)"

definition SizeEstimate :: "stream \<Rightarrow> nat" where
  "SizeEstimate s = length (raw s)"

definition stream_Offset :: "stream \<Rightarrow> nat" where
  "stream_Offset s = length (raw s) - length (input s)"

definition stream_pushMark :: "stream \<Rightarrow> stream" where
  "stream_pushMark s = s\<lparr>b_marks := b_marks s @ [length (raw s) - length (input s)]\<rparr>"

definition stream_popMark :: "stream \<Rightarrow> stream" where
  "stream_popMark s = (if length (b_marks s) > 0 then s\<lparr>b_marks := butlast (b_marks s)\<rparr> else s)"

definition stream_copyFromMark :: "stream \<Rightarrow> bytes" where
  "stream_copyFromMark s =
     (let p = last (b_marks s); newPos = length (raw s) - length (input s)
      in take (newPos - p) (drop p (raw s)))"

section \<open>What is still to be read\<close>

definition rest :: "stream \<Rightarrow> bytes" where
  "rest s = (case b_r s of None \<Rightarrow> [] | Some r \<Rightarrow> rd_bytes r)"

definition unread :: "stream \<Rightarrow> bytes" where
  "unread s = input s @ rest s"

definition faultless :: "stream \<Rightarrow> bool" where
  "faultless s \<longleftrightarrow> b_lastErr s = None \<and> (case b_r s of None \<Rightarrow> True | Some r \<Rightarrow> rd_fault r = None)"

text \<open>The indices lie where the code takes them to lie; the marks are in order.\<close>

definition placed :: "stream \<Rightarrow> bool" where
  "placed s \<longleftrightarrow> b_off s \<le> b_len s \<and> b_len s \<le> length (b_buf s)
     \<and> sorted (b_marks s) \<and> list_all (\<lambda>m. m \<le> b_off s) (b_marks s)"

lemma length_raw [simp]: "placed s \<Longrightarrow> length (raw s) = b_len s"
  by (simp add: placed_def raw_def)

lemma length_input [simp]: "placed s \<Longrightarrow> length (input s) = b_len s - b_off s"
  by (simp add: input_def)

lemma faultless_end:
  "rd_fault r = None \<Longrightarrow> ReadFull n r = ((got, err), r') \<Longrightarrow>
     got @ rd_bytes r' = rd_bytes r \<and> rd_fault r' = None \<and> (\<forall>e. err \<noteq> Some (Fault e))
     \<and> (if err = None then length got = n else rd_bytes r' = [])"
  by (auto simp: ReadFull_def split: if_splits option.splits)

text \<open>
  \<open>refilled s k s'\<close>: the state after a refill of \<open>s\<close> that did not fail, where the first \<open>k\<close> bytes
  of \<open>raw\<close> are given up and \<open>got\<close> comes in behind.
\<close>

definition refilled :: "stream \<Rightarrow> bytes \<Rightarrow> nat \<Rightarrow> stream \<Rightarrow> bool" where
  "refilled s got k s' \<longleftrightarrow>
     k \<le> b_off s \<and> (b_marks s = [] \<longrightarrow> k = b_off s) \<and> list_all (\<lambda>m. k \<le> m) (b_marks s) \<and> placed s'
     \<and> raw s' = drop k (raw s) @ got \<and> b_off s' = b_off s - k
     \<and> b_marks s' = map (\<lambda>m. m - k) (b_marks s) \<and> got @ rest s' = rest s \<and> faultless s'
     \<and> b_peeked s' = b_peeked s \<and> b_line s' = b_line s \<and> b_column s' = b_column s
     \<and> (b_r s' \<noteq> None \<longrightarrow> length (b_buf s) \<le> length (b_buf s')
          \<and> (b_marks s \<noteq> [] \<longrightarrow> length (b_buf s) div 4 \<le> length got)
          \<and> (b_marks s = [] \<longrightarrow> b_len s' = length (b_buf s')))"

lemma sorted_hd: "sorted ms \<Longrightarrow> ms \<noteq> [] \<Longrightarrow> list_all (\<lambda>m. hd ms \<le> m) ms"
  by (cases ms) (auto simp: list_all_iff)


lemma sorted_minus: "sorted (ms :: nat list) \<Longrightarrow> sorted_wrt (\<lambda>x y. x - k \<le> y - k) ms"
  by (induction ms) (auto intro: diff_le_mono)

lemma refill_refilled:
  assumes "placed s" "faultless s" "b_r s = Some r"
  shows "\<exists>got k. refilled s got k (refill s)"
proof -
  define k where "k = (if b_marks s \<noteq> [] then hd (b_marks s) else b_off s)"
  define retained where "retained = drop k (raw s)"
  define grow where "grow \<longleftrightarrow> b_marks s \<noteq> [] \<and> length retained > length (b_buf s) * 3 div 4"
  define target where "target = retained @ drop (length retained) (b_buf s)
    @ (if grow then replicate (length (b_buf s)) (CHR 0x00) else [])"
  obtain got err r' where f: "ReadFull (length target - length retained) r = ((got, err), r')"
    by (metis prod.exhaust)
  have marks: "b_marks s \<noteq> [] \<Longrightarrow> list_all (\<lambda>m. hd (b_marks s) \<le> m) (b_marks s)"
    using assms(1) by (simp add: placed_def sorted_hd)
  have k: "k \<le> b_off s" "b_marks s = [] \<longrightarrow> k = b_off s" "list_all (\<lambda>m. k \<le> m) (b_marks s)"
    using assms(1) marks by (auto simp: k_def placed_def list_all_iff)
  have lens: "b_off s \<le> b_len s" "b_len s \<le> length (b_buf s)" using assms(1) by (simp_all add: placed_def)
  have lr: "length retained = b_len s - k" using assms(1) by (simp add: retained_def)
  have inp: "input s = drop (b_off s) (raw s)" by (simp add: input_def)
  have off: "(if b_marks s \<noteq> [] then length retained - length (input s) else 0) = b_off s - k"
    using assms(1) k lens lr by (auto simp: k_def)
  from faultless_end [OF _ f] assms(2,3)
  have e: "got @ rd_bytes r' = rd_bytes r" "rd_fault r' = None" "\<And>e. err \<noteq> Some (Fault e)"
    "if err = None then length got = length target - length retained else rd_bytes r' = []"
    by (auto simp: faultless_def)
  have ret: "(if b_marks s \<noteq> [] then drop (if b_marks s \<noteq> [] then hd (b_marks s) else 0) (raw s) else input s)
      = retained"
    by (simp add: retained_def k_def inp)
  define filled where "filled = retained @ got @ drop (length retained + length got) target"
  define ms where "ms = map (\<lambda>m. m - k) (b_marks s)"
  have ms: "map (\<lambda>m. m - (if b_marks s \<noteq> [] then hd (b_marks s) else 0)) (b_marks s) = ms"
    by (simp add: ms_def k_def)
  have refill: "refill s = s\<lparr>b_marks := ms, b_r := if err = None then Some r' else None,
      b_buf := filled, b_len := length retained + length got, b_off := b_off s - k\<rparr>"
    using e(3) f unfolding refill_def Let_def assms(3) option.case ret ms off grow_def [symmetric]
    by (cases err; cases "the err") (auto simp: target_def filled_def split: if_splits)
  have got: "length got \<le> length target - length retained" using f by (auto simp: ReadFull_def split: if_splits)
  have lt: "length target = length (b_buf s) + (if grow then length (b_buf s) else 0)"
    using lr lens k by (auto simp: target_def)
  have raw: "raw (refill s) = drop k (raw s) @ got"
    by (simp add: refill raw_def filled_def) (simp add: retained_def raw_def)
  have space: "b_marks s \<noteq> [] \<Longrightarrow> length (b_buf s) div 4 \<le> length target - length retained"
    using lt lr lens k by (auto simp: grow_def k_def)
  have placed': "placed (refill s)"
    using k lens got lt lr assms(1) unfolding refill
    by (auto simp: placed_def filled_def ms_def list_all_iff sorted_map sorted_minus)
  show ?thesis
    unfolding refilled_def
    using k placed' raw space e got lt lr assms lens
    by (intro exI [of _ got] exI [of _ k] conjI)
      (auto simp: refill ms_def rest_def faultless_def filled_def split: if_splits)
qed


section \<open>The cache of peeked runes\<close>

text \<open>Decoding looks at no more than four bytes, and once it succeeds nothing behind matters.\<close>

lemma decode_rune_ahead:
  "4 \<le> length inp \<Longrightarrow> decode_rune (inp @ ys) = decode_rune inp"
  by (cases inp; cases "tl inp"; cases "tl (tl inp)"; cases "tl (tl (tl inp))")
    (auto simp: Let_def)

lemma decode1_append: "4 \<le> length inp \<Longrightarrow> decode1 (inp @ ys) = decode1 inp"
  by (simp add: decode1_def decode_rune_ahead)

lemma decode1_Inr_append: "decode1 inp = Inr p \<Longrightarrow> decode1 (inp @ ys) = Inr p"
  by (cases inp) (auto simp: decode1_def Let_def RuneError_def split: if_splits list.splits prod.splits)

fun cached :: "(nat \<times> nat) list \<Rightarrow> bytes \<Rightarrow> bool" where
  "cached [] inp \<longleftrightarrow> True"
| "cached (p # ps) inp \<longleftrightarrow> decode1 inp = Inr p \<and> cached ps (drop (snd p) inp)"

lemma cached_append: "cached ps inp \<Longrightarrow> cached ps (inp @ ys)"
  by (induction ps inp rule: cached.induct)
    (auto dest: decode1_Inr simp: decode1_Inr_append)

lemma cached_snoc:
  "cached ps inp \<Longrightarrow> decode1 (drop (sum_list (map snd ps)) inp) = Inr p \<Longrightarrow> cached (ps @ [p]) inp"
  by (induction ps inp rule: cached.induct) (auto simp: add.commute)

lemma cached_sizes: "cached ps inp \<Longrightarrow> sum_list (map snd ps) \<le> length inp"
  by (induction ps inp rule: cached.induct) (force dest: decode1_Inr)+

lemma cached_nth: "cached ps inp \<Longrightarrow> n < length ps \<Longrightarrow> decode_at n inp = Inr (ps ! n)"
  by (induction n arbitrary: ps inp) (case_tac [!] ps, auto)

section \<open>The flat scanner it stands for\<close>

text \<open>
  \<open>stands_for s f\<close>: the buffered scanner has as much left to give as the flat one, stands at the
  same place, and has the same text between its marks and the end.
\<close>

definition stands_for :: "stream \<Rightarrow> scanner \<Rightarrow> bool" where
  "stands_for s f \<longleftrightarrow> wf f \<and> s_input f = unread s \<and> b_line s = s_line f \<and> b_column s = s_column f
     \<and> list_all2 (\<lambda>m m'. drop m (raw s) @ rest s = drop m' (s_raw f)) (b_marks s) (s_marks f)"

text \<open>
  \<open>sound\<close>: the indices are in place, the cache is right, no error is pending; while there is more
  to come the array has at least 32 bytes and the input the four bytes that decoding may need.
\<close>

definition fit :: "stream \<Rightarrow> bool" where
  "fit s \<longleftrightarrow> placed s \<and> faultless s \<and> cached (b_peeked s) (input s)
     \<and> (b_r s \<noteq> None \<longrightarrow> 32 \<le> length (b_buf s))"

definition primed :: "stream \<Rightarrow> bool" where
  "primed s \<longleftrightarrow> rest s = [] \<or> 4 \<le> length (input s)"

lemma decode_unread: "primed s \<Longrightarrow> decode1 (unread s) = decode1 (input s)"
  by (auto simp: primed_def unread_def decode1_append)

lemma refilled_input: "refilled s got k s' \<Longrightarrow> placed s \<Longrightarrow> input s' = input s @ got"
  by (auto simp: refilled_def input_def placed_def raw_def min_def)

lemma refilled_stands:
  assumes "refilled s got k s'" "placed s" "stands_for s f" shows "stands_for s' f"
proof -
  have "drop (m - k) (raw s') @ rest s' = drop m (raw s) @ rest s" if "m \<in> set (b_marks s)" for m
  proof -
    have "k \<le> m" "m \<le> b_off s" "b_off s \<le> b_len s"
      using assms(1,2) that unfolding refilled_def placed_def list_all_iff by blast+
    then show ?thesis using assms(1,2) by (auto simp: refilled_def)
  qed
  moreover have "unread s' = unread s"
    using assms(1) refilled_input [OF assms(1,2)] by (simp add: unread_def refilled_def)
  ultimately show ?thesis
    using assms by (auto simp: stands_for_def refilled_def list.rel_map intro: list.rel_mono_strong)
qed

lemma refilled_fit: "refilled s got k s' \<Longrightarrow> fit s \<Longrightarrow> b_r s \<noteq> None \<Longrightarrow> fit s'"
  using refilled_input [of s got k s']
  by (auto simp: fit_def refilled_def intro: cached_append)

lemma refill_fit:
  assumes "fit s" "stands_for s f"
  shows "fit (refill s) \<and> stands_for (refill s) f \<and> (b_r (refill s) = None \<or> 8 \<le> length (input (refill s)))"
proof (cases "b_r s")
  case None
  then show ?thesis using assms by (simp add: refill_def)
next
  case (Some r)
  then obtain got k where r: "refilled s got k (refill s)"
    using refill_refilled [of s r] assms(1) by (metis fit_def)
  have lens: "b_marks s = [] \<Longrightarrow> k = b_off s \<and> length (input (refill s)) = b_len (refill s)"
    using r length_input [of "refill s"] by (simp add: refilled_def)
  have "8 \<le> length (input (refill s))" if "b_r (refill s) \<noteq> None"
    using that r assms(1) Some refilled_input [OF r] length_input [of "refill s"] lens
    by (cases "b_marks s = []") (auto simp: refilled_def fit_def lens simp del: length_input)
  then show ?thesis
    using refilled_fit [OF r assms(1)] refilled_stands [OF r _ assms(2)] assms(1) Some
    by (cases "b_r (refill s)") (auto simp: fit_def simp del: length_input)
qed


section \<open>The operations simulate the flat ones\<close>

definition agrees :: "stream \<Rightarrow> scanner \<Rightarrow> bool" where
  "agrees s f \<longleftrightarrow> fit s \<and> primed s \<and> stands_for s f"

lemma rest_None [simp]: "b_r s = None \<Longrightarrow> rest s = []"
  by (simp add: rest_def)

lemma input_update [simp]:
  "input (s\<lparr>b_peeked := ps\<rparr>) = input s" "input (s\<lparr>b_marks := ms\<rparr>) = input s"
  "raw (s\<lparr>b_peeked := ps\<rparr>) = raw s" "raw (s\<lparr>b_marks := ms\<rparr>) = raw s"
  "rest (s\<lparr>b_peeked := ps\<rparr>) = rest s" "rest (s\<lparr>b_marks := ms\<rparr>) = rest s"
  by (simp_all add: input_def raw_def rest_def)

text \<open>The state after \<open>get\<close> has refilled, and the rune it then finds.\<close>

definition taken :: "nat \<Rightarrow> nat \<Rightarrow> stream \<Rightarrow> stream" where
  "taken c sz s =
     (if isNewline c then s\<lparr>b_line := b_line s + 1, b_column := 1\<rparr>
      else s\<lparr>b_column := b_column s + 1\<rparr>)\<lparr>b_peeked := tl (b_peeked s), b_off := b_off s + sz\<rparr>"

lemma taken_fields [simp]:
  "raw (taken c sz s) = raw s" "rest (taken c sz s) = rest s" "b_marks (taken c sz s) = b_marks s"
  "input (taken c sz s) = drop sz (input s)" "b_r (taken c sz s) = b_r s"
  "b_peeked (taken c sz s) = tl (b_peeked s)" "b_buf (taken c sz s) = b_buf s"
  "b_len (taken c sz s) = b_len s" "b_off (taken c sz s) = b_off s + sz"
  "b_lastErr (taken c sz s) = b_lastErr s"
  by (simp_all add: taken_def raw_def rest_def input_def add.commute)

lemma cached_next: "cached ps inp \<Longrightarrow> (case ps of p # _ \<Rightarrow> Inr p | [] \<Rightarrow> decode1 inp) = decode1 inp"
  by (cases ps) auto

lemma taken_agrees:
  assumes "fit s" "stands_for s f" "b_r s = None \<or> 8 \<le> length (input s)" "decode1 (input s) = Inr (c, sz)"
  shows "\<exists>f'. get f = (Inr c, f') \<and> agrees (taken c sz s) f'"
proof -
  have sz: "0 < sz" "sz \<le> 4" "sz \<le> length (input s)" using decode1_Inr [OF assms(4)] by auto
  have p: "primed s" using assms(3) by (auto simp: primed_def)
  have d: "decode1 (s_input f) = Inr (c, sz)"
    using assms(2,4) decode_unread [OF p] by (simp add: stands_for_def)
  define f' where "f' = (if isNewline c then f\<lparr>s_line := s_line f + 1, s_column := 1\<rparr>
            else f\<lparr>s_column := s_column f + 1\<rparr>)\<lparr>s_input := drop sz (s_input f)\<rparr>"
  have g: "get f = (Inr c, f')" using d by (simp add: get_def f'_def)
  have "wf f'" using get_adv [OF g] assms(2) adv_wf by (auto simp: stands_for_def)
  then have "stands_for (taken c sz s) f'"
    using assms(2) sz by (auto simp: stands_for_def f'_def unread_def) (auto simp: taken_def)
  moreover have "fit (taken c sz s)"
    using assms(1,4) sz by (cases "b_peeked s") (auto simp: fit_def placed_def faultless_def list_all_iff input_def raw_def add.commute)
  moreover have "primed (taken c sz s)" using assms(3) sz by (auto simp: primed_def)
  ultimately show ?thesis using g by (auto simp: agrees_def)
qed

lemma get_agrees:
  assumes "agrees s f"
  shows "fst (stream_get s) = fst (get f) \<and> agrees (snd (stream_get s)) (snd (get f))"
proof -
  define s' where "s' = (if length (input s) \<le> 4 * 2 then refill s else s)"
  have s': "fit s'" "stands_for s' f" "b_r s' = None \<or> 8 \<le> length (input s')"
    using assms refill_fit by (auto simp: s'_def agrees_def)
  have p: "primed s'" using s'(3) by (auto simp: primed_def)
  have n: "(case b_peeked s' of p # _ \<Rightarrow> Inr p | [] \<Rightarrow> decode1 (input s')) = decode1 (input s')"
    using s'(1) by (simp add: fit_def cached_next)
  show ?thesis
  proof (cases "decode1 (input s')")
    case (Inl e)
    then have "stream_get s = (Inl e, s')" 
      unfolding stream_get_def s'_def [symmetric] Let_def n by simp
    moreover have "get f = (Inl e, f)"
      using Inl decode_unread [OF p] s'(2) by (simp add: get_def stands_for_def)
    ultimately show ?thesis using s' p by (simp add: agrees_def)
  next
    case (Inr q)
    obtain c sz where q: "q = (c, sz)" by fastforce
    with n Inr have n': "(case b_peeked s' of p # _ \<Rightarrow> Inr p | [] \<Rightarrow> decode1 (input s')) = Inr (c, sz)"
      by simp
    have "stream_get s = (Inr c, taken c sz s')"
      unfolding stream_get_def s'_def [symmetric] Let_def n' by (simp add: taken_def)
    with taken_agrees [OF s'] Inr q show ?thesis by fastforce
  qed
qed

lemma peek_agrees:
  assumes "agrees s f"
  shows "fst (stream_peekSize s) = peekSize f \<and> agrees (snd (stream_peekSize s)) f"
proof -
  have d: "peekSize f = decode1 (input s)"
    using assms decode_unread [of s] by (simp add: peekSize_def agrees_def stands_for_def)
  have f: "cached (b_peeked s) (input s)" using assms by (simp add: agrees_def fit_def)
  show ?thesis
  proof (cases "b_peeked s")
    case (Cons p ps)
    with f d assms show ?thesis by (simp add: stream_peekSize_def)
  next
    case Nil
    with d assms show ?thesis
      by (cases "decode1 (input s)")
        (auto simp: stream_peekSize_def agrees_def fit_def primed_def stands_for_def placed_def faultless_def unread_def)
  qed
qed

lemma push_agrees:
  assumes "agrees s f" shows "agrees (stream_pushMark s) (pushMark f)"
proof -
  have p: "placed s" and f: "suffix (input s @ rest s) (s_raw f)" "s_input f = input s @ rest s"
    using assms by (auto simp: agrees_def fit_def stands_for_def wf_def unread_def)
  have "drop (length (raw s) - length (input s)) (raw s) @ rest s
      = drop (length (s_raw f) - length (s_input f)) (s_raw f)"
    using p f by (auto simp: suffix_def input_def placed_def)
  moreover have "length (raw s) - length (input s) = b_off s" using p by (auto simp: placed_def)
  ultimately show ?thesis
    using assms
    by (auto simp: agrees_def fit_def primed_def stands_for_def stream_pushMark_def pushMark_def placed_def
        faultless_def wf_def unread_def sorted_append list_all_iff simp del: length_raw length_input
        intro!: list_all2_appendI)
qed

lemma pop_agrees: "agrees s f \<Longrightarrow> agrees (stream_popMark s) (popMark f)"
proof -
  assume a: "agrees s f"
  then have "length (b_marks s) = length (s_marks f)"
    by (auto simp: agrees_def stands_for_def dest: list_all2_lengthD)
  with a show ?thesis
    by (cases "b_marks s" rule: rev_cases; cases "s_marks f" rule: rev_cases)
      (auto simp: agrees_def fit_def primed_def stands_for_def stream_popMark_def popMark_def
        placed_def faultless_def wf_def unread_def sorted_append list_all_iff list_all2_append)
qed

lemma copy_agrees:
  assumes "agrees s f" "b_marks s \<noteq> []"
  shows "stream_copyFromMark s = copyFromMark f"
proof -
  obtain ms m where ms: "b_marks s = ms @ [m]" using assms(2) by (metis rev_exhaust)
  with assms obtain ms' m' where ms': "s_marks f = ms' @ [m']" "drop m (raw s) @ rest s = drop m' (s_raw f)"
    by (auto simp: agrees_def stands_for_def list_all2_append1 list_all2_Cons1)
  have p: "placed s" "m \<le> b_off s" using assms(1) ms by (auto simp: agrees_def fit_def placed_def)
  have w: "suffix (s_input f) (s_raw f)" "s_input f = input s @ rest s"
    using assms(1) by (auto simp: agrees_def stands_for_def wf_def unread_def)
  have "length (drop m' (s_raw f)) = length (drop m (raw s)) + length (rest s)"
    using ms'(2) by (metis length_append)
  then have "length (s_raw f) - length (s_input f) - m' = b_off s - m"
    using p w by (auto simp: placed_def dest: suffix_length_le)
  then show ?thesis
    using p ms ms' by (auto simp: stream_copyFromMark_def copyFromMark_def Let_def placed_def ms'(2) [symmetric])
qed


text \<open>Looking further ahead agrees when the whole input is in the array.\<close>

lemma peekTwo_fill_cases:
  "2 \<le> length (b_peeked s) \<Longrightarrow> peekTwo_fill d s = (None, s)"
  "length (b_peeked s) < 2 \<Longrightarrow> decode1 (drop d (input s)) = Inl e \<Longrightarrow> peekTwo_fill d s = (Some e, s)"
  "length (b_peeked s) < 2 \<Longrightarrow> decode1 (drop d (input s)) = Inr p \<Longrightarrow>
     peekTwo_fill d s = peekTwo_fill (d + snd p) (s\<lparr>b_peeked := b_peeked s @ [p]\<rparr>)"
  by (simp_all add: peekTwo_fill.simps [of d s])

lemma peekAt_fill_cases:
  "n < length (b_peeked s) \<Longrightarrow> peekAt_fill n d s = (None, s)"
  "b_r s = None \<Longrightarrow> length (b_peeked s) \<le> n \<Longrightarrow> decode1 (drop d (input s)) = Inl e \<Longrightarrow>
     peekAt_fill n d s = (Some e, s)"
  "b_r s = None \<Longrightarrow> length (b_peeked s) \<le> n \<Longrightarrow> decode1 (drop d (input s)) = Inr p \<Longrightarrow>
     peekAt_fill n d s = peekAt_fill n (d + snd p) (s\<lparr>b_peeked := b_peeked s @ [p]\<rparr>)"
  by (auto simp: peekAt_fill.simps [of n d s])

lemma peekTwo_fill_spec:
  assumes "cached (b_peeked s) (input s)" "length (b_peeked s) < 2 \<longrightarrow> d = sum_list (map snd (b_peeked s))"
    "peekTwo_fill d s = (e, s')"
  shows "\<exists>ps. s' = s\<lparr>b_peeked := ps\<rparr> \<and> cached ps (input s)
    \<and> (case e of None \<Rightarrow> 2 \<le> length ps
        | Some err \<Rightarrow> length ps < 2 \<and> decode1 (drop (sum_list (map snd ps)) (input s)) = Inl err)"
  using assms
proof (induction d s rule: peekTwo_fill.induct)
  case (1 d s)
  show ?case
  proof (cases "length (b_peeked s) < 2")
    case False
    with "1.prems" have "e = None" "s' = s" by (simp_all add: peekTwo_fill_cases)
    with False "1.prems" show ?thesis by (intro exI [of _ "b_peeked s"]) simp
  next
    case less: True
    show ?thesis
    proof (cases "decode1 (drop d (input s))")
      case (Inl err)
      with less "1.prems" have "e = Some err" "s' = s" by (auto simp: peekTwo_fill_cases)
      with Inl less "1.prems" show ?thesis by (intro exI [of _ "b_peeked s"]) simp
    next
      case (Inr p)
      with less "1.prems" have "peekTwo_fill (d + snd p) (s\<lparr>b_peeked := b_peeked s @ [p]\<rparr>) = (e, s')"
        by (auto simp: peekTwo_fill_cases)
      from "1.IH" [OF less Inr _ _ this, unfolded input_update] "1.prems" Inr less show ?thesis
        by (auto simp: cached_snoc)
    qed
  qed
qed

lemma peekAt_fill_spec:
  assumes "cached (b_peeked s) (input s)" "d = sum_list (map snd (b_peeked s))"
    "peekAt_fill n d s = (e, s')" "b_r s = None"
  shows "\<exists>ps. s' = s\<lparr>b_peeked := ps\<rparr> \<and> cached ps (input s)
    \<and> (case e of None \<Rightarrow> n < length ps
        | Some err \<Rightarrow> length ps \<le> n \<and> decode1 (drop (sum_list (map snd ps)) (input s)) = Inl err)"
  using assms
proof (induction n d s rule: peekAt_fill.induct)
  case (1 n d s)
  have r: "(if length (input s) \<le> d then refill s else s) = s" using "1.prems" by (simp add: refill_def)
  show ?case
  proof (cases "length (b_peeked s) \<le> n")
    case False
    with "1.prems" have "e = None" "s' = s" by (simp_all add: peekAt_fill_cases)
    with False "1.prems" show ?thesis by (intro exI [of _ "b_peeked s"]) simp
  next
    case less: True
    show ?thesis
    proof (cases "decode1 (drop d (input s))")
      case (Inl err)
      with less "1.prems" r have "e = Some err" "s' = s" by (auto simp: peekAt_fill_cases)
      with Inl less "1.prems" show ?thesis by (intro exI [of _ "b_peeked s"]) simp
    next
      case (Inr p)
      with less "1.prems" r have "peekAt_fill n (d + snd p) (s\<lparr>b_peeked := b_peeked s @ [p]\<rparr>) = (e, s')"
        by (auto simp: peekAt_fill_cases)
      from "1.IH" [OF less r [symmetric] Inr _ _ this, unfolded input_update] "1.prems" Inr show ?thesis
        by (auto simp: cached_snoc)
    qed
  qed
qed

lemma decode_at_short:
  "cached ps inp \<Longrightarrow> length ps \<le> n \<Longrightarrow> decode1 (drop (sum_list (map snd ps)) inp) = Inl e \<Longrightarrow>
     decode_at n inp = Inl e"
proof (induction ps arbitrary: n inp)
  case Nil then show ?case by (cases n) auto
next
  case (Cons p ps) then show ?case by (cases n; cases p) (auto simp: add.commute)
qed

lemma agrees_peeked: "agrees s f \<Longrightarrow> cached ps (input s) \<Longrightarrow> agrees (s\<lparr>b_peeked := ps\<rparr>) f"
  by (auto simp: agrees_def fit_def primed_def stands_for_def placed_def faultless_def unread_def)

lemma agrees_input: "agrees s f \<Longrightarrow> b_r s = None \<Longrightarrow> s_input f = input s"
  by (simp add: agrees_def stands_for_def unread_def)

lemma peekAt_agrees:
  assumes "agrees s f" "b_r s = None"
  shows "fst (stream_peekAtSize n s) = peekAtSize n f \<and> agrees (snd (stream_peekAtSize n s)) f
    \<and> b_r (snd (stream_peekAtSize n s)) = None"
proof -
  obtain e s' where f: "peekAt_fill n (sum_list (map snd (b_peeked s))) s = (e, s')" by fastforce
  have c: "cached (b_peeked s) (input s)" using assms by (simp add: agrees_def fit_def)
  from peekAt_fill_spec [OF c refl f assms(2)] obtain ps where ps: "s' = s\<lparr>b_peeked := ps\<rparr>" "cached ps (input s)"
    "case e of None \<Rightarrow> n < length ps
     | Some err \<Rightarrow> length ps \<le> n \<and> decode1 (drop (sum_list (map snd ps)) (input s)) = Inl err"
    by blast
  then have "peekAtSize n f = (case e of None \<Rightarrow> Inr (ps ! n) | Some err \<Rightarrow> Inl err)"
    using agrees_input [OF assms]
    by (auto simp: peekAtSize_def cached_nth decode_at_short [OF ps(2)] split: option.splits)
  then show ?thesis
    using f ps agrees_peeked [OF assms(1) ps(2)] assms(2)
    by (auto simp: stream_peekAtSize_def split: option.splits)
qed

lemma peekTwo_agrees:
  assumes "agrees s f" "b_r s = None"
  shows "fst (stream_peekTwoSize s) = peekTwoSize f \<and> agrees (snd (stream_peekTwoSize s)) f
    \<and> b_r (snd (stream_peekTwoSize s)) = None"
proof -
  define d where "d = (if length (b_peeked s) = 1 then snd (b_peeked s ! 0) else 0)"
  obtain e s' where f: "peekTwo_fill d s = (e, s')" by fastforce
  have c: "cached (b_peeked s) (input s)" using assms by (simp add: agrees_def fit_def)
  have d: "length (b_peeked s) < 2 \<longrightarrow> d = sum_list (map snd (b_peeked s))"
    by (cases "b_peeked s") (auto simp: d_def)
  from peekTwo_fill_spec [OF c d f] obtain ps where ps: "s' = s\<lparr>b_peeked := ps\<rparr>" "cached ps (input s)"
    "case e of None \<Rightarrow> 2 \<le> length ps
     | Some err \<Rightarrow> length ps < 2 \<and> decode1 (drop (sum_list (map snd ps)) (input s)) = Inl err"
    by blast
  have two: "peekTwoSize f = (case decode_at 0 (input s) of Inl e \<Rightarrow> Inl e
     | Inr (c1, n1) \<Rightarrow> (case decode_at 1 (input s) of Inl e \<Rightarrow> Inl e | Inr (c2, n2) \<Rightarrow> Inr (c1, n1, c2, n2)))"
    using agrees_input [OF assms] by (auto simp: peekTwoSize_def split: sum.splits)
  have "peekTwoSize f = (case e of Some err \<Rightarrow> Inl err
     | None \<Rightarrow> Inr (fst (ps ! 0), snd (ps ! 0), fst (ps ! 1), snd (ps ! 1)))"
  proof (cases e)
    case None
    with ps(3) have "0 < length ps" "1 < length ps" by auto
    then have "decode_at 0 (input s) = Inr (ps ! 0)" "decode_at 1 (input s) = Inr (ps ! 1)"
      using cached_nth [OF ps(2)] by blast+
    then show ?thesis using None unfolding two by (cases "ps ! 0"; cases "ps ! 1") simp
  next
    case (Some err)
    with ps(3) decode_at_short [OF ps(2), of 1 err] cached_nth [OF ps(2), of 0] show ?thesis
      by (cases ps) (auto simp: two less_Suc_eq split: prod.splits)
  qed
  then show ?thesis
    using ps agrees_peeked [OF assms(1) ps(2)] assms(2)
    unfolding stream_peekTwoSize_def d_def [symmetric] f by (auto split: option.splits)
qed


section \<open>Runs\<close>

text \<open>What the readers of tokens do with a scanner: a sequence of primitive operations.\<close>

datatype scan_op = OpGet | OpPeek | OpPeekTwo | OpPeekAt nat | OpPush | OpPop | OpCopy

datatype scan_out =
  Got "scan_error + nat"
| Ahead "scan_error + nat \<times> nat"
| TwoAhead "scan_error + nat \<times> nat \<times> nat \<times> nat"
| Copied "bytes option"
| Done

fun stream_op :: "scan_op \<Rightarrow> stream \<Rightarrow> scan_out \<times> stream" where
  "stream_op OpGet s = (case stream_get s of (r, s') \<Rightarrow> (Got r, s'))"
| "stream_op OpPeek s = (case stream_peekSize s of (r, s') \<Rightarrow> (Ahead r, s'))"
| "stream_op OpPeekTwo s = (case stream_peekTwoSize s of (r, s') \<Rightarrow> (TwoAhead r, s'))"
| "stream_op (OpPeekAt n) s = (case stream_peekAtSize n s of (r, s') \<Rightarrow> (Ahead r, s'))"
| "stream_op OpPush s = (Done, stream_pushMark s)"
| "stream_op OpPop s = (Done, stream_popMark s)"
| "stream_op OpCopy s = (Copied (if b_marks s = [] then None else Some (stream_copyFromMark s)), s)"

fun flat_op :: "scan_op \<Rightarrow> scanner \<Rightarrow> scan_out \<times> scanner" where
  "flat_op OpGet s = (case get s of (r, s') \<Rightarrow> (Got r, s'))"
| "flat_op OpPeek s = (Ahead (peekSize s), s)"
| "flat_op OpPeekTwo s = (TwoAhead (peekTwoSize s), s)"
| "flat_op (OpPeekAt n) s = (Ahead (peekAtSize n s), s)"
| "flat_op OpPush s = (Done, pushMark s)"
| "flat_op OpPop s = (Done, popMark s)"
| "flat_op OpCopy s = (Copied (if s_marks s = [] then None else Some (copyFromMark s)), s)"

fun outputs :: "('o \<Rightarrow> 's \<Rightarrow> 'x \<times> 's) \<Rightarrow> 'o list \<Rightarrow> 's \<Rightarrow> 'x list" where
  "outputs step [] s = []"
| "outputs step (x # xs) s = (case step x s of (y, s') \<Rightarrow> y # outputs step xs s')"

text \<open>Two machines that run the same operations, some of them allowed, and cannot be told apart.\<close>

locale simulation =
  fixes concrete :: "'o \<Rightarrow> 's \<Rightarrow> 'x \<times> 's" and abstract :: "'o \<Rightarrow> 't \<Rightarrow> 'x \<times> 't"
    and rel :: "'s \<Rightarrow> 't \<Rightarrow> bool" and allowed :: "'o \<Rightarrow> bool"
  assumes same_output: "rel s t \<Longrightarrow> allowed x \<Longrightarrow> fst (concrete x s) = fst (abstract x t)"
    and still_related: "rel s t \<Longrightarrow> allowed x \<Longrightarrow> rel (snd (concrete x s)) (snd (abstract x t))"
begin

lemma same_outputs: "rel s t \<Longrightarrow> list_all allowed xs \<Longrightarrow> outputs concrete xs s = outputs abstract xs t"
proof (induction xs arbitrary: s t)
  case (Cons x xs)
  have "fst (concrete x s) = fst (abstract x t)" by (rule same_output) (use Cons.prems in simp_all)
  moreover have "rel (snd (concrete x s)) (snd (abstract x t))"
    by (rule still_related) (use Cons.prems in simp_all)
  ultimately show ?case using Cons by (cases "concrete x s"; cases "abstract x t") simp
qed simp

end

text \<open>What looks no further ahead than one rune.\<close>

fun short_sighted :: "scan_op \<Rightarrow> bool" where
  "short_sighted OpPeekTwo \<longleftrightarrow> False"
| "short_sighted (OpPeekAt n) \<longleftrightarrow> False"
| "short_sighted _ \<longleftrightarrow> True"

lemma agrees_marks: "agrees s f \<Longrightarrow> b_marks s = [] \<longleftrightarrow> s_marks f = []"
  by (auto simp: agrees_def stands_for_def)

lemma short_sighted_op:
  assumes "agrees s f" "short_sighted x"
  shows "fst (stream_op x s) = fst (flat_op x f) \<and> agrees (snd (stream_op x s)) (snd (flat_op x f))"
  using assms get_agrees [OF assms(1)] peek_agrees [OF assms(1)] push_agrees [OF assms(1)]
    pop_agrees [OF assms(1)] copy_agrees [OF assms(1)] agrees_marks [OF assms(1)]
  by (cases x) (auto split: prod.splits)

lemma drained_op:
  assumes "agrees s f \<and> b_r s = None"
  shows "fst (stream_op x s) = fst (flat_op x f)
    \<and> agrees (snd (stream_op x s)) (snd (flat_op x f)) \<and> b_r (snd (stream_op x s)) = None"
proof -
  have a: "agrees s f" and r: "b_r s = None" using assms by simp_all
  have "b_r (snd (stream_get s)) = None"
    using r by (auto simp: stream_get_def Let_def split: list.splits sum.splits prod.splits)
  moreover have "b_r (snd (stream_peekSize s)) = None"
    using r by (auto simp: stream_peekSize_def split: list.splits sum.splits)
  note kept = calculation this
  show ?thesis
  proof (cases x)
    case (OpPeekAt n)
    then show ?thesis using peekAt_agrees [OF a r, of n] by (auto split: prod.splits)
  next
    case OpPush
    then show ?thesis using r push_agrees [OF a] by (simp add: stream_pushMark_def)
  next
    case OpPop
    then show ?thesis using r pop_agrees [OF a] by (simp add: stream_popMark_def)
  qed (use kept a r get_agrees [OF a] peek_agrees [OF a] copy_agrees [OF a] agrees_marks [OF a]
      peekTwo_agrees [OF a r] in \<open>auto split: prod.splits\<close>)
qed

interpretation drained: simulation stream_op flat_op "\<lambda>s f. agrees s f \<and> b_r s = None" "\<lambda>_. True"
  by unfold_locales (use drained_op in auto)

interpretation buffered: simulation stream_op flat_op agrees short_sighted
  by unfold_locales (use short_sighted_op in auto)

lemma agrees_slice: "agrees (stream_NewSlice inp) (sliceScanner inp)"
  by (auto simp: agrees_def fit_def primed_def stands_for_def stream_NewSlice_def newScanner_def placed_def
      faultless_def sliceScanner_def wf_def unread_def rest_def input_def raw_def)

lemma agrees_NewBuffer:
  assumes "32 \<le> length b" "rd_fault r = None"
  shows "agrees (NewBuffer r b) (sliceScanner (rd_bytes r))"
proof -
  obtain got err r' where f: "ReadFull (length b) r = ((got, err), r')" by (metis prod.exhaust)
  show ?thesis
    using assms f
    by (auto simp: NewBuffer_def ReadFull_def agrees_def fit_def primed_def stands_for_def newScanner_def
        placed_def faultless_def sliceScanner_def wf_def unread_def rest_def input_def raw_def
        split: if_splits)
qed

text \<open>C26: the cache of peeked runes cannot be seen.  On a scanner over a slice, every sequence of
  gets, peeks of one or more runes, marks and copies gives what it gives when each peek
  decodes the input anew.\<close>

theorem peek_cache_invisible:
  "outputs stream_op ops (stream_NewSlice inp) = outputs flat_op ops (sliceScanner inp)"
  by (rule drained.same_outputs)
    (simp_all add: agrees_slice list_all_iff, simp add: stream_NewSlice_def newScanner_def)

text \<open>C10: the buffer cannot be seen, one rune ahead.  On a scanner over a reader that does not fail,
  with a buffer of at least 32 bytes, every sequence of gets, peeks of one rune, marks and copies
  from a mark gives what it gives on the whole content of the reader, however often the buffer
  is refilled, moved or enlarged on the way.\<close>

theorem buffer_invisible:
  assumes "32 \<le> length b" "rd_fault r = None" "list_all short_sighted ops"
  shows "outputs stream_op ops (NewBuffer r b) = outputs flat_op ops (sliceScanner (rd_bytes r))"
  using assms by (intro buffered.same_outputs agrees_NewBuffer)

lemma buffer_invisible_witness:
  "outputs stream_op ([OpPush] @ replicate 40 OpGet @ [OpCopy, OpPop, OpPeek])
     (NewBuffer \<lparr>rd_bytes = replicate 99 (CHR ''x''), rd_fault = None\<rparr> (replicate 32 (CHR 0x00)))
   = outputs flat_op ([OpPush] @ replicate 40 OpGet @ [OpCopy, OpPop, OpPeek])
     (sliceScanner (replicate 99 (CHR ''x'')))"
  using buffer_invisible [of "replicate 32 (CHR 0x00)"
      "\<lparr>rd_bytes = replicate 99 (CHR ''x''), rd_fault = None\<rparr>"
      "[OpPush] @ replicate 40 OpGet @ [OpCopy, OpPop, OpPeek]"]
  by (simp add: list_all_iff del: outputs.simps)


section \<open>Reading everything\<close>

text \<open>
  \<open>io.ReadAll(s)\<close>: it calls \<open>Read\<close> until an error; \<open>io.EOF\<close> is a clean end.  How much room it
  offers depends on the growth of its own buffer, \<open>Suc (room k)\<close> after \<open>k\<close> bytes.
\<close>

definition left :: "stream \<Rightarrow> nat" where
  "left s = length (input s) + length (rest s)"

lemma ReadFull_lengths:
  "ReadFull n r = ((got, err), r') \<Longrightarrow>
     length got + length (rd_bytes r') = length (rd_bytes r) \<and> (err \<noteq> None \<longrightarrow> rd_bytes r' = [])"
  by (auto simp: ReadFull_def split: if_splits)

lemma length_input_eq: "length (input s) = min (b_len s) (length (b_buf s)) - b_off s"
  by (simp add: input_def raw_def)

lemma left_refill: "left (refill s) \<le> left s"
proof (cases "b_r s")
  case (Some r)
  define k where "k = (if b_marks s \<noteq> [] then hd (b_marks s) else 0)"
  define retained where "retained = (if b_marks s \<noteq> [] then drop k (raw s) else input s)"
  define moved where "moved = retained @ drop (length retained) (b_buf s)"
  define grow where "grow \<longleftrightarrow> b_marks s \<noteq> [] \<and> length retained > length (b_buf s) * 3 div 4"
  define target where "target = (if grow then moved @ replicate (length (b_buf s)) (CHR 0x00) else moved)"
  obtain got err r' where f: "ReadFull (length target - length retained) r = ((got, err), r')"
    by (metis prod.exhaust)
  define filled where "filled = retained @ got @ drop (length retained + length got) target"
  have l: "length got + length (rd_bytes r') = length (rd_bytes r)" "err \<noteq> None \<longrightarrow> rd_bytes r' = []"
    using ReadFull_lengths [OF f] by auto
  have m: "length moved = length (b_buf s)"
    by (auto simp: moved_def retained_def input_def raw_def)
  have "length got \<le> length target - length retained" using f by (auto simp: ReadFull_def split: if_splits)
  then have fl: "\<not> grow \<Longrightarrow> length filled = length (b_buf s)"
    using m by (auto simp: filled_def target_def moved_def)
  have "refill s = (case err of
      Some (Fault e) \<Rightarrow> s\<lparr>b_marks := map (\<lambda>m. m - k) (b_marks s), b_err := err, b_lastErr := err,
        b_r := None, b_buf := if grow then moved else filled\<rparr>
    | _ \<Rightarrow> s\<lparr>b_marks := map (\<lambda>m. m - k) (b_marks s), b_r := if err = None then Some r' else None,
        b_buf := filled, b_len := length retained + length got,
        b_off := if b_marks s \<noteq> [] then length retained - length (input s) else 0\<rparr>)"
    using f unfolding refill_def Let_def Some option.case k_def [symmetric] retained_def [symmetric]
      moved_def [symmetric] grow_def [symmetric] target_def [symmetric]
    by (simp add: filled_def split: option.split read_end.split)
  moreover have "length (input (s\<lparr>b_marks := ms, b_r := r0, b_buf := filled,
      b_len := length retained + length got,
      b_off := if b_marks s \<noteq> [] then length retained - length (input s) else 0\<rparr>)) \<le> length (input s) + length got" for ms r0
    by (simp add: length_input_eq filled_def retained_def) arith
  ultimately show ?thesis
    using l m fl Some unfolding left_def rest_def length_input_eq
    by (cases err; cases "the err"; cases grow) simp_all
qed simp

lemma input_off [simp]: "input (s\<lparr>b_off := b_off s + n\<rparr>) = drop n (input s)"
  by (simp add: input_def raw_def add.commute)

lemma rest_off [simp]: "rest (s\<lparr>b_off := n\<rparr>) = rest s"
  by (simp add: rest_def)

lemma Read_shorter:
  assumes "Read (Suc n) s = ((got, None), s')" shows "left s' < left s"
proof -
  define s1 where "s1 = (if length (input s) = 0 then refill s else s)"
  have "left s1 \<le> left s" using left_refill by (simp add: s1_def)
  moreover define l where "l = length (take (Suc n) (input s1))"
  moreover have "input s1 \<noteq> []" "s' = s1\<lparr>b_off := b_off s1 + l\<rparr>"
    using assms [unfolded Read_def Let_def s1_def [symmetric]] by (auto simp: l_def split: option.splits if_splits)
  moreover have "0 < l" using \<open>input s1 \<noteq> []\<close> by (simp add: l_def)
  ultimately have "left s1 \<le> left s" "0 < l" "left s' = length (input s1) - l + length (rest s1)" "0 < length (input s1)"
    by (simp_all add: left_def)
  then show ?thesis unfolding left_def by linarith
qed

function ReadAll :: "(nat \<Rightarrow> nat) \<Rightarrow> bytes \<Rightarrow> stream \<Rightarrow> (bytes \<times> read_end option) \<times> stream" where
  "ReadAll room b s =
     (case Read (Suc (room (length b))) s of
        ((got, None), s') \<Rightarrow> ReadAll room (b @ got) s'
      | ((got, Some e), s') \<Rightarrow> ((b @ got, if e = EndOfFile then None else Some e), s'))"
  by pat_completeness auto
termination by (relation "measure (\<lambda>(_, _, s). left s)") (auto dest: Read_shorter [OF sym])

declare ReadAll.simps [simp del]

text \<open>
  What reaches the caller from a reader behind a buffer of \<open>n\<close> bytes: everything from a reader that
  ends, but only whole buffers from one that fails.
\<close>

definition delivered :: "nat \<Rightarrow> reader \<Rightarrow> bytes" where
  "delivered n r =
     (case rd_fault r of
        None \<Rightarrow> rd_bytes r
      | Some e \<Rightarrow> take (n * (length (rd_bytes r) div n)) (rd_bytes r))"

lemma delivered_more:
  assumes "0 < n" "n \<le> length (rd_bytes r)"
  shows "delivered n r = take n (rd_bytes r) @ delivered n (r\<lparr>rd_bytes := drop n (rd_bytes r)\<rparr>)"
proof -
  have "length (rd_bytes r) div n = Suc ((length (rd_bytes r) - n) div n)"
    using assms by (simp add: le_div_geq)
  then show ?thesis by (simp add: delivered_def take_add split: option.splits)
qed

lemma delivered_less: "length (rd_bytes r) < n \<Longrightarrow> rd_fault r \<noteq> None \<Longrightarrow> delivered n r = []"
  by (auto simp: delivered_def)

definition to_come :: "stream \<Rightarrow> bytes" where
  "to_come s = input s @ (case b_r s of None \<Rightarrow> [] | Some r \<Rightarrow> delivered (length (b_buf s)) r)"

definition plain :: "stream \<Rightarrow> bool" where
  "plain s \<longleftrightarrow> b_marks s = [] \<and> (b_r s \<noteq> None \<longrightarrow> b_buf s \<noteq> [])"

lemma refill_empty:
  assumes "b_r s = Some r" "b_marks s = []" "input s = []" "ReadFull (length (b_buf s)) r = ((got, err), r')"
  shows "refill s = (case err of
      Some (Fault e) \<Rightarrow> s\<lparr>b_err := err, b_lastErr := err, b_r := None, b_buf := got @ drop (length got) (b_buf s)\<rparr>
    | _ \<Rightarrow> s\<lparr>b_r := if err = None then Some r' else None, b_buf := got @ drop (length got) (b_buf s),
          b_len := length got, b_off := 0\<rparr>)"
  using assms by (cases s) (auto simp: refill_def Let_def split: option.split read_end.split)

lemma take_rest: "take n xs @ drop (length (take n xs)) xs = xs"
  by (simp add: min_def)

lemma refill_plain:
  assumes "plain s" "input s = []"
  shows "plain (refill s) \<and> (if input (refill s) = [] then to_come s = []
    else to_come (refill s) = to_come s \<and> b_lastErr (refill s) = b_lastErr s)"
proof (cases "b_r s")
  case None
  then show ?thesis using assms by (simp add: to_come_def)
next
  case (Some r)
  obtain got err r' where f: "ReadFull (length (b_buf s)) r = ((got, err), r')" by (metis prod.exhaust)
  have m: "b_marks s = []" and b: "b_buf s \<noteq> []" using assms Some by (simp_all add: plain_def)
  note r = refill_empty [OF Some m assms(2) f]
  show ?thesis
  proof (cases "length (b_buf s) \<le> length (rd_bytes r)")
    case True
    then have "err = None" "got = take (length (b_buf s)) (rd_bytes r)"
      "r' = r\<lparr>rd_bytes := drop (length (b_buf s)) (rd_bytes r)\<rparr>"
      using f by (auto simp: ReadFull_def)
    with r m b True assms(2) Some delivered_more [of "length (b_buf s)" r] show ?thesis
      by (auto simp: plain_def to_come_def input_def raw_def)
  next
    case False
    then have e: "got = rd_bytes r" "err = Some (case rd_fault r of Some e \<Rightarrow> Fault e
        | None \<Rightarrow> if rd_bytes r = [] then EndOfFile else UnexpectedEnd)"
      using f by (auto simp: ReadFull_def)
    show ?thesis
    proof (cases "rd_fault r")
      case None
      with e r m Some assms(2) show ?thesis
        by (auto simp: plain_def to_come_def input_def raw_def delivered_def)
    next
      case (Some x)
      with e r m \<open>b_r s = Some r\<close> assms(2) False show ?thesis
        by (auto simp: plain_def to_come_def input_def raw_def delivered_less)
    qed
  qed
qed

lemma ReadAll_delivers:
  "plain s \<Longrightarrow> b_lastErr s = None \<Longrightarrow> fst (ReadAll room b s) = (b @ to_come s, None)"
proof (induction room b s rule: ReadAll.induct)
  case (1 room b s)
  define s1 where "s1 = (if length (input s) = 0 then refill s else s)"
  define n where "n = Suc (room (length b))"
  have s1: "plain s1" "if input s1 = [] then to_come s = [] else to_come s1 = to_come s \<and> b_lastErr s1 = None"
    using refill_plain [of s] "1.prems" by (auto simp: s1_def)
  have R: "Read n s = (if input s1 = [] then (([], Some EndOfFile), s1)
      else ((take n (input s1), None), s1\<lparr>b_off := b_off s1 + length (take n (input s1))\<rparr>))"
    using "1.prems" unfolding Read_def Let_def s1_def [symmetric] by simp
  show ?case
  proof (cases "input s1 = []")
    case True
    then show ?thesis using R s1(2) by (simp add: ReadAll.simps [of room b s] n_def [symmetric])
  next
    case False
    define s2 where "s2 = s1\<lparr>b_off := b_off s1 + length (take n (input s1))\<rparr>"
    have "plain s2" "b_lastErr s2 = None" using s1 False by (auto simp: s2_def plain_def)
    moreover have "take n (input s1) @ to_come s2 = to_come s1"
      unfolding s2_def to_come_def input_off append_assoc [symmetric] take_rest by (simp split: option.split)
    moreover have R': "Read n s = ((take n (input s1), None), s2)" using R False by (simp add: s2_def)
    moreover have "to_come s1 = to_come s" using s1(2) False by simp
    ultimately show ?thesis
      using "1.IH" [of "(take n (input s1), None)" s2 "take n (input s1)" None]
      by (simp add: ReadAll.simps [of room b s] n_def [symmetric])
  qed
qed


section \<open>Parsing what a reader gives\<close>

text \<open>
  \<open>kdl.Parse(r)\<close> on a reader, in automatic mode: \<open>parse\<close> reads everything, then works on the slice.
\<close>

definition Parse_reader :: "(nat \<Rightarrow> nat) \<Rightarrow> reader \<Rightarrow> read_end + (read_error + document)" where
  "Parse_reader room r =
     (case ReadAll room [] (stream_New r) of
        ((data, Some e), _) \<Rightarrow> Inl e
      | ((data, None), _) \<Rightarrow> Inr (kdl_parse (configure 0 False VersionAuto (NewSlice data))))"

lemma kdl_parse_New: "kdl_parse (configure 0 False VersionAuto (NewSlice inp)) = kdl_Parse inp"
  by (simp add: kdl_Parse_def ParseWithOptions_def DefaultParseOptions_def kdl_parse_def configure_def New_def
      NewSlice_def)

lemma stream_New_to_come:
  "plain (stream_New r) \<and> b_lastErr (stream_New r) = None \<and> to_come (stream_New r) = delivered 65536 r"
proof -
  obtain got err r' where f: "ReadFull 65536 r = ((got, err), r')" by (metis prod.exhaust)
  have b: "stream_New r = (if err \<noteq> None \<and> err \<noteq> Some UnexpectedEnd then newScanner\<lparr>b_err := err\<rparr>
     else newScanner\<lparr>b_r := if err = None then Some r' else None,
            b_buf := got @ drop (length got) (replicate 65536 (CHR 0x00)), b_len := length got\<rparr>)"
    using f unfolding stream_New_def NewBuffer_def DefaultBufferSize_def by simp
  show ?thesis
  proof (cases "65536 \<le> length (rd_bytes r)")
    case True
    with f delivered_more [of 65536 r] show ?thesis
      by (auto simp: b ReadFull_def plain_def newScanner_def to_come_def input_def raw_def)
  next
    case False
    with f show ?thesis
      by (auto simp: b ReadFull_def plain_def newScanner_def to_come_def input_def raw_def delivered_def
          split: option.splits if_splits)
  qed
qed

text \<open>C36: automatic parsing never reports an error of the reader.  \<open>Read\<close> gives \<open>io.EOF\<close> in the very
  call in which \<open>refill\<close> fails, and \<open>parse\<close> does not look at \<open>Err()\<close>: the document is parsed from
  what came in whole buffers of 64 KiB before the error, and from nothing at all when the first
  buffer was not filled.  A reader that ends without an error is read to its end.\<close>

theorem read_error_unreported:
  "Parse_reader room r = Inr (kdl_Parse
     (case rd_fault r of
        None \<Rightarrow> rd_bytes r
      | Some e \<Rightarrow> take (65536 * (length (rd_bytes r) div 65536)) (rd_bytes r)))"
  using ReadAll_delivers [of "stream_New r" room "[]"] stream_New_to_come [of r]
  by (auto simp: Parse_reader_def kdl_parse_New delivered_def split: prod.splits)


text \<open>\<open>n\<close> calls of \<open>Read\<close> with a buffer of \<open>k + 1\<close> bytes.\<close>

fun reads :: "nat \<Rightarrow> nat \<Rightarrow> stream \<Rightarrow> bytes" where
  "reads k 0 s = []"
| "reads k (Suc n) s = (case Read (Suc k) s of ((got, _), s') \<Rightarrow> got @ reads k n s')"

lemma reads_deliver: "plain s \<Longrightarrow> b_lastErr s = None \<Longrightarrow> \<exists>n. reads k n s = to_come s"
proof (induction s rule: measure_induct_rule [of left])
  case (less s)
  define s1 where "s1 = (if length (input s) = 0 then refill s else s)"
  have s1: "plain s1" "if input s1 = [] then to_come s = [] else to_come s1 = to_come s \<and> b_lastErr s1 = None"
    using refill_plain [of s] less.prems by (auto simp: s1_def)
  show ?case
  proof (cases "input s1 = []")
    case True
    then show ?thesis using s1 by (intro exI [of _ 0]) simp
  next
    case False
    define s2 where "s2 = s1\<lparr>b_off := b_off s1 + length (take (Suc k) (input s1))\<rparr>"
    have R: "Read (Suc k) s = ((take (Suc k) (input s1), None), s2)"
      using less.prems False unfolding Read_def Let_def s1_def [symmetric] by (simp add: s2_def)
    have "plain s2" "b_lastErr s2 = None" using s1 False by (auto simp: s2_def plain_def)
    then obtain n where n: "reads k n s2 = to_come s2" using less.IH [OF Read_shorter [OF R]] by blast
    have "take (Suc k) (input s1) @ to_come s2 = to_come s1"
      unfolding s2_def to_come_def input_off append_assoc [symmetric] take_rest by (simp split: option.split)
    then show ?thesis using R n s1 False by (intro exI [of _ "Suc n"]) simp
  qed
qed

text \<open>C11: a client that keeps calling \<open>Read\<close>, with a buffer of any fixed size, comes by every byte
  of a reader that ends, whatever the portions.\<close>

theorem Read_delivers_everything:
  "\<exists>n. reads k n (stream_New \<lparr>rd_bytes = inp, rd_fault = None\<rparr>) = inp"
  using reads_deliver [of "stream_New \<lparr>rd_bytes = inp, rd_fault = None\<rparr>" k]
    stream_New_to_come [of "\<lparr>rd_bytes = inp, rd_fault = None\<rparr>"]
  by (simp add: delivered_def)

section \<open>Runes that lie across the end of the buffer\<close>

lemma gets_before_boundary:
  assumes "input s = replicate k (CHR ''a'') @ t" "9 \<le> length t" "b_peeked s = []"
  shows "outputs stream_op (replicate k OpGet @ ops) s
    = replicate k (Got (Inr 97)) @ outputs stream_op ops (s\<lparr>b_off := b_off s + k, b_column := b_column s + k\<rparr>)"
  using assms
proof (induction k arbitrary: s)
  case (Suc k)
  define s' where "s' = s\<lparr>b_column := b_column s + 1, b_off := b_off s + 1\<rparr>"
  have "stream_get s = (Inr 97, s')"
    using Suc.prems by (simp add: stream_get_def decode1_ascii isNewline_def s'_def)
  moreover have "input s' = drop 1 (input s)" by (simp add: s'_def input_def raw_def)
  then have "input s' = replicate k (CHR ''a'') @ t" "b_peeked s' = []"
    using Suc.prems by (simp_all add: s'_def)
  ultimately show ?case using Suc.IH [of s'] Suc.prems by (simp add: s'_def add.commute)
qed simp

lemma flat_gets:
  assumes "s_input f = replicate k (CHR ''a'') @ t"
  shows "outputs flat_op (replicate k OpGet @ ops) f
    = replicate k (Got (Inr 97)) @ outputs flat_op ops (f\<lparr>s_input := t, s_column := s_column f + k\<rparr>)"
  using assms
proof (induction k arbitrary: f)
  case (Suc k)
  define f' where "f' = f\<lparr>s_column := s_column f + 1, s_input := replicate k (CHR ''a'') @ t\<rparr>"
  have "get f = (Inr 97, f')"
    using Suc.prems by (simp add: get_def decode1_ascii isNewline_def f'_def)
  then show ?case using Suc.IH [of f'] by (simp add: f'_def add.commute)
next
  case 0
  then have "f\<lparr>s_input := t, s_column := s_column f + 0\<rparr> = f" by (cases f) simp
  then show ?case by simp
qed

text \<open>Four bytes, and the state in which \<open>peekTwo\<close> goes wrong: five of them in the array after \<open>get\<close>.\<close>

definition smiley :: bytes where
  "smiley = encode_rune 0x1F600"

lemma smiley_decodes:
  "smiley = [CHR 0xF0, CHR 0x9F, CHR 0x98, CHR 0x80]" "decode1 (smiley @ t) = Inr (0x1F600, 4)"
proof -
  show s: "smiley = [CHR 0xF0, CHR 0x9F, CHR 0x98, CHR 0x80]" by code_simp
  show "decode1 (smiley @ t) = Inr (0x1F600, 4)" by (simp add: s decode1_def byte_in_def RuneError_def)
qed

lemma smiley_length [simp]: "length smiley = 4"
  by (simp add: smiley_decodes)

lemma peekTwo_short:
  assumes "input s = smiley @ [CHR 0xF0]" "b_peeked s = []"
  shows "fst (stream_peekTwoSize s) = Inl ErrInvalidRune"
proof -
  define s' where "s' = s\<lparr>b_peeked := [(0x1F600, 4)]\<rparr>"
  have "peekTwo_fill 0 s = peekTwo_fill 4 s'"
    using peekTwo_fill_cases(3) [of s 0 "(0x1F600, 4)"] assms smiley_decodes(2) by (simp add: s'_def)
  also have "\<dots> = (Some ErrInvalidRune, s')"
    by (rule peekTwo_fill_cases(2)) (simp_all add: s'_def assms decode1_def RuneError_def)
  finally show ?thesis using assms by (simp add: stream_peekTwoSize_def)
qed

text \<open>C37: looking two runes ahead is wrong near the end of the buffer.  \<open>get\<close> refills when at most
  eight bytes are left, so it can leave five; \<open>peekTwo\<close> does not refill, and a second rune that lies
  across the end of the buffer is reported as invalid UTF-8, for a buffer of any size, where
  the scanner over the whole content sees it.\<close>

theorem peekTwo_splits_rune:
  "let content = replicate (n + 23) (CHR ''a'') @ smiley @ smiley @ smiley;
       ops = replicate (n + 23) OpGet @ [OpGet, OpPeekTwo]
   in last (outputs stream_op ops (NewBuffer \<lparr>rd_bytes = content, rd_fault = None\<rparr> (replicate (n + 32) (CHR 0x00))))
        = TwoAhead (Inl ErrInvalidRune)
    \<and> last (outputs flat_op ops (sliceScanner content)) = TwoAhead (Inr (0x1F600, 4, 0x1F600, 4))"
proof -
  define content where "content = replicate (n + 23) (CHR ''a'') @ smiley @ smiley @ smiley"
  define t where "t = smiley @ smiley @ [CHR 0xF0]"
  define s where "s = NewBuffer \<lparr>rd_bytes = content, rd_fault = None\<rparr> (replicate (n + 32) (CHR 0x00))"
  define s1 where "s1 = s\<lparr>b_off := b_off s + (n + 23), b_column := b_column s + (n + 23)\<rparr>"
  have "take (n + 32) content = replicate (n + 23) (CHR ''a'') @ t"
    by (simp add: content_def t_def smiley_decodes(1))
  then have s: "input s = replicate (n + 23) (CHR ''a'') @ t" "b_peeked s = []"
    by (auto simp: s_def NewBuffer_def ReadFull_def newScanner_def input_def raw_def content_def)
  have "input s1 = drop (n + 23) (input s)" by (simp add: s1_def input_def raw_def add_ac)
  with s have s1: "input s1 = t" "b_peeked s1 = []" by (simp_all add: s1_def)
  have "stream_get s1 = (Inr 0x1F600, taken 0x1F600 4 s1)"
    using s1 smiley_decodes(2) by (simp add: stream_get_def t_def taken_def)
  moreover have "fst (stream_peekTwoSize (taken 0x1F600 4 s1)) = Inl ErrInvalidRune"
    using s1 by (intro peekTwo_short) (simp_all add: t_def)
  ultimately have "last (outputs stream_op (replicate (n + 23) OpGet @ [OpGet, OpPeekTwo]) s)
      = TwoAhead (Inl ErrInvalidRune)"
    using gets_before_boundary [OF s(1) _ s(2), of "[OpGet, OpPeekTwo]"]
    by (auto simp: s1_def [symmetric] t_def split: prod.splits)
  moreover have "last (outputs flat_op (replicate (n + 23) OpGet @ [OpGet, OpPeekTwo]) (sliceScanner content))
      = TwoAhead (Inr (0x1F600, 4, 0x1F600, 4))"
    using flat_gets [of "sliceScanner content" "n + 23" "smiley @ smiley @ smiley"]
      smiley_decodes(2) smiley_decodes(2) [of "[]"]
    by (simp add: content_def sliceScanner_def get_def peekTwoSize_def isNewline_def)
  ultimately show ?thesis unfolding content_def [symmetric] s_def [symmetric] Let_def by simp
qed

end
