(* ===== verification/Comments.thy ===== *)
theory Comments
  imports Index
begin

text \<open>
  The comments that a struct keeps in its field tagged \<open>,structure\<close>: \<open>structStructure\<close> of
  \<open>internal/marshaler/typeindex.go\<close>, which unmarshalling fills, and the functions of \<open>marshal.go\<close>
  that put the comments back.  A Go map is a HOL map, a pointer to a comment the comment.
\<close>

section \<open>The table\<close>

record structStructure =
  ss_Comments :: "bytes \<rightharpoonup> comment"
  ss_Children :: "bytes \<rightharpoonup> (bytes \<rightharpoonup> comment)"

definition empty_structure :: structStructure where
  "empty_structure = \<lparr>ss_Comments = Map.empty, ss_Children = Map.empty\<rparr>"

fun append_args :: "nat \<Rightarrow> kdl_value list \<Rightarrow> bytes \<Rightarrow> bytes" where
  "append_args i [] b = b"
| "append_args i (arg # args) b = append_args (Suc i) args (AppendTo arg (if i > 0 then b @ '','' else b))"

text \<open>\<open>node.Name.String()\<close>; it panics on a node without a name.\<close>

definition name_String :: "dnode \<Rightarrow> bytes option" where
  "name_String n = map_option String (dn_Name n)"

definition getKey :: "bytes \<Rightarrow> dnode option \<Rightarrow> bytes" where
  "getKey name node =
     (case node of
        None \<Rightarrow> name
      | Some n \<Rightarrow>
          if length (dn_Children n) = 0 \<or> (length (dn_Arguments n) = 0 \<and> Len (dn_Properties n) = 0) then name
          else properties_AppendTo (dn_Properties n) (append_args 0 (dn_Arguments n) (name @ '':'') @ '':''))"

definition Set :: "bytes \<Rightarrow> dnode \<Rightarrow> structStructure \<Rightarrow> structStructure" where
  "Set name node s =
     (case dn_Comment node of
        None \<Rightarrow> s
      | Some c \<Rightarrow> s\<lparr>ss_Comments := (ss_Comments s)(getKey name (Some node) \<mapsto> c)\<rparr>)"

definition structure_Get :: "bytes \<Rightarrow> dnode \<Rightarrow> structStructure \<Rightarrow> comment option" where
  "structure_Get name node s = ss_Comments s (getKey name (Some node))"

text \<open>The two operations on the entries of a map; \<open>None\<close> is a panic.\<close>

definition SetChildStructure :: "dnode \<Rightarrow> dnode \<Rightarrow> structStructure \<Rightarrow> structStructure option" where
  "SetChildStructure mapnode kv s =
     (case dn_Comment kv of
        None \<Rightarrow> Some s
      | Some c \<Rightarrow>
          (case (name_String mapnode, name_String kv) of
             (Some mapname, Some kvname) \<Rightarrow>
               let childStructureKey = getKey mapname (Some mapnode);
                   childStructure = (case ss_Children s childStructureKey of None \<Rightarrow> Map.empty | Some m \<Rightarrow> m);
                   kvKey = getKey kvname (Some kv)
               in Some (s\<lparr>ss_Children := (ss_Children s)(childStructureKey \<mapsto> childStructure(kvKey \<mapsto> c))\<rparr>)
           | _ \<Rightarrow> None))"

definition GetChildStructure :: "dnode \<Rightarrow> dnode \<Rightarrow> structStructure \<Rightarrow> comment option option" where
  "GetChildStructure mapnode kv s =
     (case name_String mapnode of
        None \<Rightarrow> None
      | Some mapname \<Rightarrow>
          (case ss_Children s (getKey mapname (Some mapnode)) of
             None \<Rightarrow> Some None
           | Some childStructure \<Rightarrow>
               map_option (\<lambda>kvname. childStructure (getKey kvname (Some kv))) (name_String kv)))"

section \<open>The field that holds it\<close>

text \<open>
  What the field tagged \<open>,structure\<close> holds, an \<open>interface{}\<close>: nothing, the table, or something else.
  The outer option is \<open>None\<close> for a type without such a field.
\<close>

datatype held = HeldNil | Held structStructure | HeldOther

definition getStructureStructField :: "bool \<Rightarrow> held option \<Rightarrow> structStructure option \<times> held option" where
  "getStructureStructField create field =
     (case field of
        None \<Rightarrow> (None, None)
      | Some existing \<Rightarrow>
          let ss = (case existing of Held s \<Rightarrow> Some s | _ \<Rightarrow> None)
          in if ss = None \<and> create then (Some empty_structure, Some (Held empty_structure))
             else (ss, field))"

definition SetStructure :: "bytes \<Rightarrow> dnode \<Rightarrow> held option \<Rightarrow> held option" where
  "SetStructure name node field =
     (case getStructureStructField True field of
        (None, field') \<Rightarrow> field'
      | (Some ss, _) \<Rightarrow> Some (Held (Set name node ss)))"

definition GetStructure :: "held option \<Rightarrow> structStructure option" where
  "GetStructure field = fst (getStructureStructField False field)"

section \<open>Putting the comments back\<close>

definition with_comment :: "dnode \<Rightarrow> comment option \<Rightarrow> dnode" where
  "with_comment n c = DNode (dn_Name n) (dn_Type n) (dn_Arguments n) (dn_Properties n) (dn_Children n) c"

definition assignCommentToNode ::
  "(nat \<Rightarrow> nat) \<Rightarrow> bool \<Rightarrow> structStructure option \<Rightarrow> dnode \<Rightarrow> dnode option" where
  "assignCommentToNode lower cs structure node =
     (case structure of
        None \<Rightarrow> Some node
      | Some s \<Rightarrow>
          if dn_Comment node \<noteq> None then Some node
          else map_option (\<lambda>name. with_comment node (structure_Get (normalizeKey lower name cs) node s))
                 (name_String node))"

fun assignCommentToNodes ::
  "(nat \<Rightarrow> nat) \<Rightarrow> bool \<Rightarrow> structStructure option \<Rightarrow> dnode list \<Rightarrow> dnode list option" where
  "assignCommentToNodes lower cs structure [] = Some []"
| "assignCommentToNodes lower cs structure (n # ns) =
     (case (assignCommentToNode lower cs structure n, assignCommentToNodes lower cs structure ns) of
        (Some n', Some ns') \<Rightarrow> Some (n' # ns')
      | _ \<Rightarrow> None)"

text \<open>
  What unmarshalling records: the children of a node with its own \<open>UnmarshalKDL\<close>
  (\<open>unmarshalNodeWithUnmarshaler\<close>), and a node that goes to a struct field
  (\<open>unmarshalNodeToStructField\<close>).  \<open>None\<close> is again a panic.
\<close>

fun record_children :: "(nat \<Rightarrow> nat) \<Rightarrow> bool \<Rightarrow> dnode list \<Rightarrow> held option \<Rightarrow> held option option" where
  "record_children lower cs [] field = Some field"
| "record_children lower cs (child # children) field =
     (case name_String child of
        None \<Rightarrow> None
      | Some name \<Rightarrow>
          record_children lower cs children (SetStructure (normalizeKey lower name cs) child field))"

definition record_field :: "(nat \<Rightarrow> nat) \<Rightarrow> bool \<Rightarrow> dnode \<Rightarrow> held option \<Rightarrow> held option option" where
  "record_field lower cs node field =
     (case dn_Name node of
        None \<Rightarrow> None
      | Some name \<Rightarrow>
          Some (if dn_Comment node \<noteq> None then SetStructure (normalizeKey lower (ValueString name) cs) node field
                else field))"

text \<open>The nodes of a struct, one after the other (\<open>unmarshalNodesToStruct\<close>), as far as comments go.\<close>

fun record_fields :: "(nat \<Rightarrow> nat) \<Rightarrow> bool \<Rightarrow> dnode list \<Rightarrow> held option \<Rightarrow> held option option" where
  "record_fields lower cs [] field = Some field"
| "record_fields lower cs (node # nodes) field =
     Option.bind (record_field lower cs node field) (record_fields lower cs nodes)"

section \<open>A store of comments\<close>

text \<open>What both tables promise: a comment is found under every node with the key it was put under.\<close>

locale comment_store =
  fixes put :: "'n \<Rightarrow> 'c \<Rightarrow> 's \<Rightarrow> 's" and find :: "'n \<Rightarrow> 's \<Rightarrow> 'c option"
    and key :: "'n \<Rightarrow> 'k" and ok :: "'n \<Rightarrow> bool"
  assumes find_put: "ok n \<Longrightarrow> ok m \<Longrightarrow> find m (put n c s) = (if key m = key n then Some c else find m s)"
begin

definition put_all :: "('n \<times> 'c option) list \<Rightarrow> 's \<Rightarrow> 's" where
  "put_all ns s = fold (\<lambda>(n, c). case c of None \<Rightarrow> id | Some x \<Rightarrow> put n x) ns s"

lemma find_other:
  "ok m \<Longrightarrow> list_all (\<lambda>(n, _). ok n) ns \<Longrightarrow> key m \<notin> set (map (key \<circ> fst) ns) \<Longrightarrow>
     find m (put_all ns s) = find m s"
  by (induction ns arbitrary: s) (auto simp: put_all_def find_put split: option.splits)

lemma find_all:
  "list_all (\<lambda>(n, _). ok n) ns \<Longrightarrow> distinct (map (key \<circ> fst) ns) \<Longrightarrow> (n, c) \<in> set ns \<Longrightarrow>
     find n (put_all ns s) = (case c of None \<Rightarrow> find n s | Some x \<Rightarrow> Some x)"
proof (induction ns arbitrary: s)
  case (Cons m ns)
  obtain m0 d where m: "m = (m0, d)" by fastforce
  show ?case
  proof (cases "(n, c) = m")
    case True
    with Cons.prems m find_other [of n ns] show ?thesis
      by (auto simp: put_all_def find_put split: option.splits)
  next
    case False
    with Cons.prems m have n: "(n, c) \<in> set ns" "ok n" "key n \<noteq> key m0"
      by (force simp: list_all_iff)+
    with Cons m show ?thesis by (auto simp: put_all_def find_put split: option.splits)
  qed
qed simp

end

lemma getKey_comment [simp]: "getKey name (Some (with_comment n c)) = getKey name (Some n)"
  by (simp add: getKey_def with_comment_def)

lemma name_String_comment [simp]: "name_String (with_comment n c) = name_String n"
  by (simp add: name_String_def with_comment_def)

lemma dn_comment [simp]: "dn_Comment (with_comment n c) = c"
  by (simp add: with_comment_def)

interpretation comments: comment_store
  "\<lambda>(name, n) c. Set name (with_comment n (Some c))" "\<lambda>(name, n). structure_Get name n"
  "\<lambda>(name, n). getKey name (Some n)" "\<lambda>_. True"
  by unfold_locales (auto simp: Set_def structure_Get_def)

definition child_key :: "dnode \<times> dnode \<Rightarrow> bytes \<times> bytes" where
  "child_key p = (getKey (the (name_String (fst p))) (Some (fst p)), getKey (the (name_String (snd p))) (Some (snd p)))"

interpretation child_comments: comment_store
  "\<lambda>(m, kv) c s. the (SetChildStructure m (with_comment kv (Some c)) s)" "\<lambda>(m, kv) s. the (GetChildStructure m kv s)"
  child_key "\<lambda>(m, kv). name_String m \<noteq> None \<and> name_String kv \<noteq> None"
proof (unfold_locales, clarify)
  fix m kv m' kv' :: dnode and c s and a b a' b'
  assume "name_String m = Some a" "name_String kv = Some b" "name_String m' = Some a'" "name_String kv' = Some b'"
  then show "the (GetChildStructure m' kv' (the (SetChildStructure m (with_comment kv (Some c)) s)))
      = (if child_key (m', kv') = child_key (m, kv) then Some c else the (GetChildStructure m' kv' s))"
    by (simp add: SetChildStructure_def GetChildStructure_def child_key_def Let_def split: option.split)
qed

section \<open>Comments come back\<close>

definition node_key :: "(nat \<Rightarrow> nat) \<Rightarrow> bool \<Rightarrow> dnode \<Rightarrow> bytes" where
  "node_key lower cs n = normalizeKey lower (the (name_String n)) cs"

definition entry :: "(nat \<Rightarrow> nat) \<Rightarrow> bool \<Rightarrow> dnode \<Rightarrow> (bytes \<times> dnode) \<times> comment option" where
  "entry lower cs n = ((node_key lower cs n, n), dn_Comment n)"

lemma with_own_comment [simp]: "with_comment n (dn_Comment n) = n"
  by (simp add: with_comment_def)

lemma with_no_comment: "dn_Comment n = None \<Longrightarrow> with_comment n None = n"
  using with_own_comment [of n] by simp

lemma SetStructure_held: "SetStructure name n (Some (Held s)) = Some (Held (Set name n s))"
  by (simp add: SetStructure_def getStructureStructField_def)

lemma SetStructure_nil: "SetStructure name n (Some HeldNil) = SetStructure name n (Some (Held empty_structure))"
  by (simp add: SetStructure_def getStructureStructField_def)

lemma record_held:
  "list_all (\<lambda>n. dn_Name n \<noteq> None) ns \<Longrightarrow>
     record_children lower cs ns (Some (Held s)) = Some (Some (Held (comments.put_all (map (entry lower cs) ns) s)))"
proof (induction ns arbitrary: s)
  case (Cons n ns)
  have "Set (node_key lower cs n) n s = (case dn_Comment n of None \<Rightarrow> s
      | Some c \<Rightarrow> Set (node_key lower cs n) (with_comment n (Some c)) s)"
    by (simp add: Set_def split: option.split)
  with Cons show ?case
    by (auto simp: comments.put_all_def entry_def name_String_def node_key_def SetStructure_held split: option.splits)
qed (simp add: comments.put_all_def)

lemma record_fresh:
  assumes "list_all (\<lambda>n. dn_Name n \<noteq> None) ns" "ns \<noteq> []"
  shows "record_children lower cs ns (Some HeldNil)
    = Some (Some (Held (comments.put_all (map (entry lower cs) ns) empty_structure)))"
proof (cases ns)
  case (Cons n ns')
  then show ?thesis
    using record_held [OF assms(1), of lower cs empty_structure] SetStructure_nil
    by (auto split: option.splits)
qed (use assms in simp)

lemma assign_all:
  "list_all (\<lambda>n. dn_Name n \<noteq> None) ns \<Longrightarrow>
     assignCommentToNodes lower cs (Some s) (map (\<lambda>n. with_comment n None) ns)
     = Some (map (\<lambda>n. with_comment n (structure_Get (node_key lower cs n) n s)) ns)"
  by (induction ns)
    (auto simp: assignCommentToNode_def node_key_def name_String_def with_comment_def structure_Get_def getKey_def)

lemma assign_found:
  assumes "list_all (\<lambda>n. dn_Name n \<noteq> None) ns"
    and "distinct (map (\<lambda>n. getKey (node_key lower cs n) (Some n)) ns)"
  shows "assignCommentToNodes lower cs (Some (comments.put_all (map (entry lower cs) ns) empty_structure))
      (map (\<lambda>n. with_comment n None) ns) = Some ns"
proof -
  let ?s = "comments.put_all (map (entry lower cs) ns) empty_structure"
  have "structure_Get (node_key lower cs n) n ?s = dn_Comment n" if "n \<in> set ns" for n
    using comments.find_all [of "map (entry lower cs) ns" "(node_key lower cs n, n)" "dn_Comment n" empty_structure]
      assms(2) that
    by (auto simp: entry_def comp_def list_all_iff structure_Get_def empty_structure_def split: option.splits)
  then have "map (\<lambda>n. with_comment n (structure_Get (node_key lower cs n) n ?s)) ns = ns"
    by (simp add: map_idI)
  with assign_all [OF assms(1)] show ?thesis by simp
qed

text \<open>The key under which a node of a struct is recorded: the bare text of its name, where looking up
  takes the name as it would be written, with quotes if it needs them.\<close>

definition field_key :: "(nat \<Rightarrow> nat) \<Rightarrow> bool \<Rightarrow> dnode \<Rightarrow> bytes" where
  "field_key lower cs n = normalizeKey lower (ValueString (the (dn_Name n))) cs"

lemma record_field_step:
  "dn_Name n \<noteq> None \<Longrightarrow> field_key lower cs n = node_key lower cs n \<Longrightarrow>
     record_field lower cs n field =
       Some (if dn_Comment n = None then field else SetStructure (node_key lower cs n) n field)"
  by (auto simp: record_field_def field_key_def)

lemma record_fields_held:
  "list_all (\<lambda>n. dn_Name n \<noteq> None \<and> field_key lower cs n = node_key lower cs n) ns \<Longrightarrow>
     record_fields lower cs ns (Some (Held s)) = Some (Some (Held (comments.put_all (map (entry lower cs) ns) s)))"
proof (induction ns arbitrary: s)
  case (Cons n ns)
  have "Set (node_key lower cs n) n s = (case dn_Comment n of None \<Rightarrow> s
      | Some c \<Rightarrow> Set (node_key lower cs n) (with_comment n (Some c)) s)"
    by (simp add: Set_def split: option.split)
  with Cons show ?case
    by (auto simp: comments.put_all_def entry_def record_field_step SetStructure_held split: option.splits)
qed (simp add: comments.put_all_def)

lemma record_fields_fresh:
  "list_all (\<lambda>n. dn_Name n \<noteq> None \<and> field_key lower cs n = node_key lower cs n) ns \<Longrightarrow>
     record_fields lower cs ns (Some HeldNil) =
       Some (Some (if list_all (\<lambda>n. dn_Comment n = None) ns then HeldNil
                   else Held (comments.put_all (map (entry lower cs) ns) empty_structure)))"
proof (induction ns)
  case (Cons n ns)
  show ?case
  proof (cases "dn_Comment n")
    case None
    with Cons show ?thesis by (simp add: record_field_step comments.put_all_def entry_def)
  next
    case (Some c)
    have "record_fields lower cs (n # ns) (Some HeldNil) = record_fields lower cs (n # ns) (Some (Held empty_structure))"
      using Some Cons.prems by (simp add: record_field_step SetStructure_nil)
    with record_fields_held [OF Cons.prems] Some show ?thesis by simp
  qed
qed simp

text \<open>C12: comments survive in a field tagged \<open>,structure\<close>.  When the comments of nodes are recorded in
  a struct whose field is still empty, and the nodes are then written anew without them, each
  gets its own comment back, provided that their keys differ: a key is the name, with arguments
  and properties for a node that has children.  This holds for the children of a node whose type
  has its own \<open>UnmarshalKDL\<close>, whatever their names, and for the nodes that go to the fields of a
  struct if their names are written without quotes, since there the two keys are made from
  different texts of the name.\<close>

theorem comments_come_back:
  assumes "list_all (\<lambda>n. dn_Name n \<noteq> None) ns"
    and "distinct (map (\<lambda>n. getKey (node_key lower cs n) (Some n)) ns)"
  shows "(\<exists>field. record_children lower cs ns (Some HeldNil) = Some field
      \<and> assignCommentToNodes lower cs (GetStructure field) (map (\<lambda>n. with_comment n None) ns) = Some ns)
    \<and> (list_all (\<lambda>n. field_key lower cs n = node_key lower cs n) ns \<longrightarrow>
       (\<exists>field. record_fields lower cs ns (Some HeldNil) = Some field
          \<and> assignCommentToNodes lower cs (GetStructure field) (map (\<lambda>n. with_comment n None) ns) = Some ns))"
proof (intro conjI impI)
  show "\<exists>field. record_children lower cs ns (Some HeldNil) = Some field
      \<and> assignCommentToNodes lower cs (GetStructure field) (map (\<lambda>n. with_comment n None) ns) = Some ns"
  proof (cases "ns = []")
    case False
    with record_fresh [OF assms(1)] assign_found [OF assms] show ?thesis
      by (auto simp: GetStructure_def getStructureStructField_def)
  qed (simp add: GetStructure_def getStructureStructField_def)
  assume "list_all (\<lambda>n. field_key lower cs n = node_key lower cs n) ns"
  with assms(1) have k: "list_all (\<lambda>n. dn_Name n \<noteq> None \<and> field_key lower cs n = node_key lower cs n) ns"
    by (simp add: list_all_iff)
  show "\<exists>field. record_fields lower cs ns (Some HeldNil) = Some field
      \<and> assignCommentToNodes lower cs (GetStructure field) (map (\<lambda>n. with_comment n None) ns) = Some ns"
  proof (cases "list_all (\<lambda>n. dn_Comment n = None) ns")
    case True
    then have "map (\<lambda>n. with_comment n None) ns = ns"
      by (intro map_idI) (simp add: list_all_iff with_no_comment)
    moreover have "assignCommentToNodes lower cs None ns = Some ns" for ns
      by (induction ns) (simp_all add: assignCommentToNode_def)
    ultimately show ?thesis using record_fields_fresh [OF k] True
      by (simp add: GetStructure_def getStructureStructField_def)
  next
    case False
    with record_fields_fresh [OF k] assign_found [OF assms] show ?thesis
      by (simp add: GetStructure_def getStructureStructField_def)
  qed
qed

text \<open>A node that has two children of one name, told apart by their keys, and one without a comment.\<close>

definition noted :: "bytes \<Rightarrow> comment option \<Rightarrow> dnode list \<Rightarrow> int list \<Rightarrow> dnode" where
  "noted name c children args = DNode (Some (no_value\<lparr>v_Value := VString name\<rparr>)) []
     (map (\<lambda>i. no_value\<lparr>v_Value := VInt i\<rparr>) args) no_properties children c"

definition remark :: "bytes \<Rightarrow> comment option" where
  "remark b = Some \<lparr>cm_Before = Some b, cm_After = None\<rparr>"

definition noted_nodes :: "dnode list" where
  "noted_nodes =
     [noted ''a'' (remark ''x'') [noted ''c'' None [] []] [1], noted ''a'' (remark ''y'') [noted ''c'' None [] []] [2],
      noted ''b'' None [] []]"

lemma comments_come_back_witness:
  "(\<exists>field. record_children (\<lambda>r. r) False noted_nodes (Some HeldNil) = Some field
      \<and> assignCommentToNodes (\<lambda>r. r) False (GetStructure field) (map (\<lambda>n. with_comment n None) noted_nodes)
        = Some noted_nodes)
   \<and> (\<exists>field. record_fields (\<lambda>r. r) False noted_nodes (Some HeldNil) = Some field
      \<and> assignCommentToNodes (\<lambda>r. r) False (GetStructure field) (map (\<lambda>n. with_comment n None) noted_nodes)
        = Some noted_nodes)"
proof -
  have "list_all (\<lambda>n. dn_Name n \<noteq> None) noted_nodes" by (simp add: noted_nodes_def noted_def)
  moreover have "distinct (map (\<lambda>n. getKey (node_key (\<lambda>r. r) False n) (Some n)) noted_nodes)" by code_simp
  moreover have "list_all (\<lambda>n. field_key (\<lambda>r. r) False n = node_key (\<lambda>r. r) False n) noted_nodes" by code_simp
  ultimately show ?thesis using comments_come_back [of noted_nodes "\<lambda>r. r" False] by blast
qed

section \<open>Comments that are lost\<close>

text \<open>The comment of a node that goes to a field of a struct and whose name needs quotes is recorded
  under one key and looked up under another.\<close>

lemma quoted_field_comment_lost:
  "let n = noted ''a b'' (remark ''x'') [] [1] in
     \<exists>field. record_field (\<lambda>r. r) False n (Some HeldNil) = Some field
       \<and> assignCommentToNodes (\<lambda>r. r) False (GetStructure field) [with_comment n None] = Some [with_comment n None]"
proof -
  let ?n = "noted ''a b'' (remark ''x'') [] [1]"
  have "case record_field (\<lambda>r. r) False ?n (Some HeldNil) of None \<Rightarrow> False | Some field \<Rightarrow>
      map_option (map dn_Comment) (assignCommentToNodes (\<lambda>r. r) False (GetStructure field) [with_comment ?n None])
        = Some [None]"
    by code_simp
  then obtain field where f: "record_field (\<lambda>r. r) False ?n (Some HeldNil) = Some field"
    "map_option (map dn_Comment) (assignCommentToNodes (\<lambda>r. r) False (GetStructure field) [with_comment ?n None])
      = Some [None]" by (auto split: option.splits)
  then have "assignCommentToNodes (\<lambda>r. r) False (GetStructure field) [with_comment ?n None] = Some [with_comment ?n None]"
    by (auto simp: assignCommentToNode_def with_comment_def split: option.splits if_splits)
  with f(1) show ?thesis by (simp add: Let_def)
qed

lemma AppendTo_int: "v_Value v = VInt k \<Longrightarrow> AppendTo v b = append_int b k 10"
  by (simp add: AppendTo_def append_value_def numeric_base_def vo_defs Has_def Let_def)

lemma append_int_longer: "length b \<le> length (append_int b k 10)"
  by (simp add: append_int_def Let_def)

lemma append_args_longer:
  "list_all (\<lambda>v. \<exists>k. v_Value v = VInt k) args \<Longrightarrow> length b \<le> length (append_args i args b)"
proof (induction args arbitrary: i b)
  case (Cons v args)
  then obtain k where k: "v_Value v = VInt k" by auto
  define b' where "b' = (if i > 0 then b @ '','' else b)"
  have "length b \<le> length b'" by (simp add: b'_def)
  also have "\<dots> \<le> length (AppendTo v b')" by (simp add: AppendTo_int [OF k] append_int_longer)
  also have "\<dots> \<le> length (append_args (Suc i) args (AppendTo v b'))" using Cons by simp
  finally show ?case by (simp add: b'_def)
qed simp

text \<open>Comments on the entries of a map are lost when its node has arguments.  They are stored under
  the whole node, but looked up while the marshaler still builds it, when it has no argument yet.
  Here the node has integers for arguments, and no property has been added to the new one.\<close>

theorem map_entry_comment_lost:
  assumes "dn_Name m = Some x" "dn_Name m' = Some x" "dn_Name kv = Some y"
    and "list_all (\<lambda>v. \<exists>k. v_Value v = VInt k) (dn_Arguments m)" "dn_Arguments m \<noteq> []" "dn_Children m \<noteq> []"
    and "dn_Arguments m' = []" "Len (dn_Properties m') = 0"
  shows "\<exists>s. SetChildStructure m kv empty_structure = Some s \<and> GetChildStructure m' kv s = Some None"
proof -
  have "length (String x) < length (getKey (String x) (Some m))"
    using append_args_longer [OF assms(4), of "String x @ '':''" 0] assms(5,6)
    by (simp add: getKey_def properties_AppendTo_def)
  then have "getKey (String x) (Some m) \<noteq> getKey (String x) (Some m')"
    using assms(5-8) by (auto simp: getKey_def [of _ "Some m'"])
  then show ?thesis
    using assms(1-3)
    by (simp add: SetChildStructure_def GetChildStructure_def name_String_def Let_def empty_structure_def split: option.split)
qed

lemma map_entry_comment_lost_witness:
  "\<exists>s. SetChildStructure (noted ''m'' None [noted ''k'' (remark ''c'') [] []] [1]) (noted ''k'' (remark ''c'') [] []) empty_structure = Some s
    \<and> GetChildStructure (noted ''m'' None [noted ''k'' None [] []] []) (noted ''k'' (remark ''c'') [] []) s = Some None"
  by (rule map_entry_comment_lost) (simp_all add: noted_def Len_def order_def no_properties_def)

end
