(* ===== verification/Building.thy ===== *)
theory Building
  imports Context
begin

text \<open>
  Nodes built by a caller (\<open>document/node.go\<close>, lines 37 to 167), on the node records of the parser's
  store, and the pooling allocator (\<open>document/allocator.go\<close>) behind \<open>newNode\<close> and \<open>newValue\<close> of
  \<open>parser/context.go\<close>.
\<close>

section \<open>Nodes\<close>

text \<open>\<open>ShallowCopy\<close>: a new node with the fields of the old one.\<close>

definition ShallowCopy :: "ref \<Rightarrow> node list \<Rightarrow> ref \<times> node list" where
  "ShallowCopy n store = (length store, store @ [store ! n])"

definition SetName :: "bytes \<Rightarrow> node \<Rightarrow> node" where
  "SetName name n = n\<lparr>n_Name := Some (no_value\<lparr>v_Value := VString name\<rparr>)\<rparr>"

definition AddArgument :: "go_value \<Rightarrow> bytes \<Rightarrow> node \<Rightarrow> kdl_value \<times> node" where
  "AddArgument x typeAnnot n =
     (let v = no_value\<lparr>v_Value := x, v_Type := typeAnnot\<rparr>
      in (v, n\<lparr>n_Arguments := n_Arguments n @ [v]\<rparr>))"

definition AddProperty :: "bytes \<Rightarrow> go_value \<Rightarrow> bytes \<Rightarrow> node \<Rightarrow> kdl_value \<times> node" where
  "AddProperty name x typeAnnot n =
     (let v = no_value\<lparr>v_Type := typeAnnot, v_Value := x, v_Flag := 0\<rparr>
      in (v, n\<lparr>n_Properties := AddAllocated name v (n_Properties n)\<rparr>))"

definition SetNameToken :: "token \<Rightarrow> node \<Rightarrow> value_error + node" where
  "SetNameToken t n =
     (case ValueFromToken t of Inl err \<Rightarrow> Inl err | Inr v \<Rightarrow> Inr (n\<lparr>n_Name := Some v\<rparr>))"

definition AddArgumentToken :: "token \<Rightarrow> token \<Rightarrow> node \<Rightarrow> value_error + node" where
  "AddArgumentToken t typeAnnot n =
     (case ValueFromToken t of
        Inl err \<Rightarrow> Inl err
      | Inr v \<Rightarrow>
          let v' = (if Valid typeAnnot then v\<lparr>v_Type := t_Data typeAnnot\<rparr> else v)
          in Inr (n\<lparr>n_Arguments := n_Arguments n @ [v']\<rparr>))"

definition AddPropertyToken :: "token \<Rightarrow> token \<Rightarrow> token \<Rightarrow> node \<Rightarrow> value_error + kdl_value \<times> node" where
  "AddPropertyToken name val typeAnnot n =
     (case ValueFromToken name of
        Inl err \<Rightarrow> Inl err
      | Inr nt \<Rightarrow>
          (case ValueFromToken val of
             Inl err \<Rightarrow> Inl err
           | Inr vt \<Rightarrow>
               let vt' = (if Valid typeAnnot then vt\<lparr>v_Type := t_Data typeAnnot\<rparr> else vt)
               in Inr (vt', n\<lparr>n_Properties := AddAllocated (ValueString nt) vt' (n_Properties n)\<rparr>)))"

section \<open>Property lists\<close>

definition properties_String :: "properties \<Rightarrow> bytes" where
  "properties_String p = properties_string False VersionV1 p"

definition properties_UnformattedString :: "properties \<Rightarrow> bytes" where
  "properties_UnformattedString p = properties_string True VersionV1 p"

definition properties_StringV2 :: "properties \<Rightarrow> bytes" where
  "properties_StringV2 p = properties_string False VersionV2 p"

definition properties_UnformattedStringV2 :: "properties \<Rightarrow> bytes" where
  "properties_UnformattedStringV2 p = properties_string True VersionV2 p"

section \<open>The allocator\<close>

text \<open>
  The addresses of nodes: a slot of the pool, or an object of its own, which the runtime numbers.
  A nil allocator is \<open>None\<close>; the last component of the state is the runtime's counter.
\<close>

datatype address = Pooled nat | Fresh nat

record allocator =
  al_nodes :: "node list"
  al_values :: "kdl_value list"
  al_ni :: nat
  al_vi :: nat

definition NewAllocator :: "int \<Rightarrow> allocator" where
  "NewAllocator estimatedNodes =
     (let n = nat (if estimatedNodes < 1 then 1 else estimatedNodes)
      in \<lparr>al_nodes = replicate n new_node, al_values = replicate (n * 2) no_value, al_ni = 0, al_vi = 0\<rparr>)"

definition NewNode :: "allocator option \<Rightarrow> nat \<Rightarrow> address \<times> allocator option \<times> nat" where
  "NewNode a heap =
     (case a of
        None \<Rightarrow> (Fresh heap, a, heap + 1)
      | Some al \<Rightarrow>
          if al_ni al \<ge> length (al_nodes al) then (Fresh heap, a, heap + 1)
          else (Pooled (al_ni al),
                Some (al\<lparr>al_ni := al_ni al + 1, al_nodes := (al_nodes al)[al_ni al := new_node]\<rparr>), heap))"

definition NewValue :: "allocator option \<Rightarrow> nat \<Rightarrow> address \<times> allocator option \<times> nat" where
  "NewValue a heap =
     (case a of
        None \<Rightarrow> (Fresh heap, a, heap + 1)
      | Some al \<Rightarrow>
          if al_vi al \<ge> length (al_values al) then (Fresh heap, a, heap + 1)
          else (Pooled (al_vi al),
                Some (al\<lparr>al_vi := al_vi al + 1, al_values := (al_values al)[al_vi al := no_value]\<rparr>), heap))"

text \<open>
  The parser's context has an allocator when the size of the input is known, one node for each 25
  bytes, and takes objects of its own otherwise (\<open>NewContextOptions\<close>, \<open>newNode\<close>, \<open>newValue\<close>).
\<close>

definition context_allocator :: "int \<Rightarrow> allocator option" where
  "context_allocator InputSizeEstimate =
     (if InputSizeEstimate > 0 then Some (NewAllocator (InputSizeEstimate div 25)) else None)"

definition context_newNode :: "allocator option \<Rightarrow> nat \<Rightarrow> address \<times> allocator option \<times> nat" where
  "context_newNode a heap = (if a \<noteq> None then NewNode a heap else (Fresh heap, a, heap + 1))"

definition context_newValue :: "allocator option \<Rightarrow> nat \<Rightarrow> address \<times> allocator option \<times> nat" where
  "context_newValue a heap = (if a \<noteq> None then NewValue a heap else (Fresh heap, a, heap + 1))"

text \<open>The test for nil in the context repeats the one in the allocator.\<close>

lemma context_new: "context_newNode a heap = NewNode a heap \<and> context_newValue a heap = NewValue a heap"
  by (simp add: context_newNode_def context_newValue_def NewNode_def NewValue_def)

text \<open>What a slot of the pool, or a new object, holds when it is handed out.\<close>

definition node_at :: "address \<Rightarrow> allocator option \<Rightarrow> node" where
  "node_at p a = (case (p, a) of (Pooled i, Some al) \<Rightarrow> al_nodes al ! i | _ \<Rightarrow> new_node)"

text \<open>
  A sequence of allocations; between two of them the client changes the nodes of the pool as it
  likes (\<open>f\<close> is any change that keeps their number).
\<close>

fun allocations :: "(node list \<Rightarrow> node list) list \<Rightarrow> allocator option \<Rightarrow> nat \<Rightarrow> (address \<times> node) list" where
  "allocations [] a heap = []"
| "allocations (f # fs) a heap =
     (case context_newNode (map_option (\<lambda>al. al\<lparr>al_nodes := f (al_nodes al)\<rparr>) a) heap of
        (p, a', heap') \<Rightarrow> (p, node_at p a') # allocations fs a' heap')"

fun beyond :: "allocator option \<Rightarrow> nat \<Rightarrow> address \<Rightarrow> bool" where
  "beyond a heap (Pooled i) \<longleftrightarrow> (case a of None \<Rightarrow> False | Some al \<Rightarrow> al_ni al \<le> i)"
| "beyond a heap (Fresh i) \<longleftrightarrow> heap \<le> i"

lemma allocations_beyond:
  "(p, n) \<in> set (allocations fs a heap) \<Longrightarrow> beyond a heap p \<and> n = new_node"
proof (induction fs arbitrary: a heap)
  case (Cons f fs)
  define a1 where "a1 = map_option (\<lambda>al. al\<lparr>al_nodes := f (al_nodes al)\<rparr>) a"
  obtain q a2 heap2 where N: "NewNode a1 heap = (q, a2, heap2)" by (metis prod_cases3)
  have "beyond a heap q \<and> node_at q a2 = new_node"
    using N by (auto simp: NewNode_def a1_def node_at_def split: option.splits if_splits)
  moreover have "beyond a2 heap2 p \<Longrightarrow> beyond a heap p"
    using N by (cases p) (auto simp: NewNode_def a1_def split: option.splits if_splits)
  ultimately show ?case using Cons N by (auto simp: a1_def context_new)
qed simp

text \<open>C25: the pool never gives a node twice.  However many nodes the parser asks for, with any estimate
  of their number or with no pool at all, and whatever it writes into the nodes it has, each
  comes at an address of its own and is a zero node.\<close>

theorem allocated_nodes_fresh:
  "distinct (map fst (allocations fs a heap)) \<and> list_all (\<lambda>(_, n). n = new_node) (allocations fs a heap)"
proof (induction fs arbitrary: a heap)
  case (Cons f fs)
  define a1 where "a1 = map_option (\<lambda>al. al\<lparr>al_nodes := f (al_nodes al)\<rparr>) a"
  obtain q a2 heap2 where N: "NewNode a1 heap = (q, a2, heap2)" by (metis prod_cases3)
  have "\<not> beyond a2 heap2 q" "node_at q a2 = new_node"
    using N by (auto simp: NewNode_def a1_def node_at_def split: option.splits if_splits)
  moreover have "q \<notin> fst ` set (allocations fs a2 heap2)"
    using allocations_beyond [of _ _ fs a2 heap2] calculation(1) by auto
  ultimately show ?case using Cons N by (simp add: a1_def [symmetric] context_new)
qed simp

end
