(* ===== verification/Times.thy ===== *)
theory Times
  imports Durations
begin

text \<open>
  Moments and complex numbers: \<open>timeFormat\<close> and \<open>unmarshalValueTime\<close> of
  \<open>internal/marshaler/unmarshal.go\<close>, \<open>marshalTimeValue\<close> of \<open>marshal.go\<close>, and \<open>ToComplex128\<close> of
  \<open>internal/coerce/complex.go\<close>.  Writing and reading a moment by a layout (\<open>Format\<close> and \<open>Parse\<close> of
  the package \<open>time\<close>) and reading a complex number (\<open>strconv.ParseComplex\<close>) are parameters.
\<close>

section \<open>Moments\<close>

text \<open>Seconds since the epoch, nanoseconds within the second, and the zone it is written in, 0 for the local one.\<close>

record moment =
  tm_sec :: int
  tm_nsec :: int
  tm_zone :: nat

definition moment_ok :: "moment \<Rightarrow> bool" where
  "moment_ok t \<longleftrightarrow> 0 \<le> tm_nsec t \<and> tm_nsec t < 1000000000"

text \<open>\<open>time.Unix(sec, nsec)\<close>, which brings the nanoseconds into their range, \<open>UnixMilli\<close> and \<open>UnixMicro\<close>.\<close>

definition time_Unix :: "int \<Rightarrow> int \<Rightarrow> moment" where
  "time_Unix sec nsec =
     \<lparr>tm_sec = wrap_int 64 (sec + nsec div 1000000000), tm_nsec = nsec mod 1000000000, tm_zone = 0\<rparr>"

definition time_UnixMilli :: "int \<Rightarrow> moment" where
  "time_UnixMilli m = time_Unix (trunc_div m 1000) ((m - trunc_div m 1000 * 1000) * 1000000)"

definition time_UnixMicro :: "int \<Rightarrow> moment" where
  "time_UnixMicro u = time_Unix (trunc_div u 1000000) ((u - trunc_div u 1000000 * 1000000) * 1000)"

definition Unix :: "moment \<Rightarrow> int" where
  "Unix t = tm_sec t"

definition UnixMilli :: "moment \<Rightarrow> int" where
  "UnixMilli t = wrap_int 64 (tm_sec t * 1000 + tm_nsec t div 1000000)"

definition UnixMicro :: "moment \<Rightarrow> int" where
  "UnixMicro t = wrap_int 64 (tm_sec t * 1000000 + tm_nsec t div 1000)"

definition UnixNano :: "moment \<Rightarrow> int" where
  "UnixNano t = wrap_int 64 (tm_sec t * 1000000000 + tm_nsec t)"

section \<open>Formats\<close>

definition RFC3339 :: bytes where
  "RFC3339 = ''2006-01-02T15:04:05Z07:00''"

definition layouts :: "(bytes \<times> bytes) list" where
  "layouts =
     [(''ANSIC'', ''Mon Jan _2 15:04:05 2006''),
      (''UnixDate'', ''Mon Jan _2 15:04:05 MST 2006''),
      (''RubyDate'', ''Mon Jan 02 15:04:05 -0700 2006''),
      (''RFC822'', ''02 Jan 06 15:04 MST''),
      (''RFC822Z'', ''02 Jan 06 15:04 -0700''),
      (''RFC850'', ''Monday, 02-Jan-06 15:04:05 MST''),
      (''RFC1123'', ''Mon, 02 Jan 2006 15:04:05 MST''),
      (''RFC1123Z'', ''Mon, 02 Jan 2006 15:04:05 -0700''),
      (''RFC3339'', RFC3339),
      (''RFC3339Nano'', ''2006-01-02T15:04:05.999999999Z07:00''),
      (''Kitchen'', ''3:04PM''),
      (''Stamp'', ''Jan _2 15:04:05''),
      (''StampMilli'', ''Jan _2 15:04:05.000''),
      (''StampMicro'', ''Jan _2 15:04:05.000000''),
      (''StampNano'', ''Jan _2 15:04:05.000000000'')]"

definition timeFormat :: "bytes \<Rightarrow> bytes" where
  "timeFormat fmt =
     (case map_of layouts fmt of
        Some layout \<Rightarrow> layout
      | None \<Rightarrow>
          if length fmt \<ge> 2 \<and> hd fmt = CHR 0x27 \<and> last fmt = CHR 0x27
          then take (length fmt - 2) (drop 1 fmt) else [])"

datatype 'e time_error = ParseError 'e | BadTimeFormat bytes

definition unmarshalValueTime ::
  "(bytes \<Rightarrow> bytes \<Rightarrow> 'e + moment) \<Rightarrow> (gtype \<Rightarrow> gval \<Rightarrow> bytes) \<Rightarrow> iface \<Rightarrow> bytes \<Rightarrow> 'e time_error + moment" where
  "unmarshalValueTime parse sprint val fmt =
     (if fmt = ''unix'' then Inr (time_Unix (ToInt64 val) 0)
      else if fmt = ''unixmilli'' then Inr (time_UnixMilli (ToInt64 val))
      else if fmt = ''unixmicro'' then Inr (time_UnixMicro (ToInt64 val))
      else if fmt = ''unixnano'' then Inr (time_Unix 0 (ToInt64 val))
      else if timeFormat fmt \<noteq> [] then
        (case parse (timeFormat fmt) (ToString sprint val) of Inl e \<Rightarrow> Inl (ParseError e) | Inr t \<Rightarrow> Inr t)
      else Inl (BadTimeFormat fmt))"

definition marshalTimeValue :: "(bytes \<Rightarrow> moment \<Rightarrow> bytes) \<Rightarrow> moment \<Rightarrow> bytes \<Rightarrow> 'e time_error + go_value" where
  "marshalTimeValue format t fmt =
     (if fmt = [] then Inr (VString (format RFC3339 t))
      else if fmt = ''unix'' then Inr (VInt (Unix t))
      else if fmt = ''unixmilli'' then Inr (VInt (UnixMilli t))
      else if fmt = ''unixmicro'' then Inr (VInt (UnixMicro t))
      else if fmt = ''unixnano'' then Inr (VInt (UnixNano t))
      else if timeFormat fmt \<noteq> [] then Inr (VString (format (timeFormat fmt) t))
      else Inl (BadTimeFormat fmt))"

text \<open>A moment is written in a format exactly when one can be read in it, but for the empty format.\<close>

lemma time_formats_agree:
  "fmt \<noteq> [] \<Longrightarrow> (marshalTimeValue format t fmt = Inl (BadTimeFormat fmt)
     \<longleftrightarrow> unmarshalValueTime parse sprint val fmt = Inl (BadTimeFormat fmt))"
  by (auto simp: marshalTimeValue_def unmarshalValueTime_def split: sum.splits)

section \<open>Moments come back\<close>

text \<open>What a format with \<open>u\<close> nanoseconds to the unit keeps of a moment.\<close>

definition cut :: "int \<Rightarrow> moment \<Rightarrow> moment" where
  "cut u t = \<lparr>tm_sec = tm_sec t, tm_nsec = tm_nsec t - tm_nsec t mod u, tm_zone = 0\<rparr>"

definition time_units :: "(bytes \<times> int) list" where
  "time_units = [(''unix'', 1000000000), (''unixmilli'', 1000000), (''unixmicro'', 1000), (''unixnano'', 1)]"


lemma time_Unix_scaled:
  assumes "b * k = (1000000000 :: int)" "0 < b" "0 < k"
  shows "time_Unix q ((a - q * b) * k) = \<lparr>tm_sec = wrap_int 64 (a div b), tm_nsec = a mod b * k, tm_zone = 0\<rparr>"
proof -
  define c where "c = b * k"
  have c: "c \<noteq> 0" "b * k = c" using assms by (simp_all add: c_def)
  have e: "(a - q * b) * k = a * k + (- q) * c" by (simp add: c_def algebra_simps)
  have d: "a * k div c = a div b" "a * k mod c = a mod b * k"
    using assms(3) by (simp_all add: c_def mult_mod_left)
  have "q + ((a - q * b) * k) div c = a div b" "((a - q * b) * k) mod c = a mod b * k"
    unfolding e using div_mult_self1 [OF c(1), of "a * k" "- q"] mod_mult_self1 [of "a * k" "- q" c] d by simp_all
  then show ?thesis using assms(1) c(2) by (simp add: time_Unix_def)
qed

definition representable :: "moment \<Rightarrow> bool" where
  "representable t \<longleftrightarrow> moment_ok t \<and> - (2 ^ 63) \<le> tm_sec t * 1000000000
     \<and> tm_sec t * 1000000000 + tm_nsec t < 2 ^ 63"

lemma floor_le: "0 < k \<Longrightarrow> n div k * k \<le> (n :: int)"
  using pos_mod_sign [of k n] by (simp add: minus_mod_eq_div_mult [symmetric])

lemma unit_range:
  assumes "representable t" "b * k = (1000000000 :: int)" "0 < b" "0 < k"
  shows "wrap_int 64 (tm_sec t * b + tm_nsec t div k) = tm_sec t * b + tm_nsec t div k"
proof -
  define v where "v = tm_sec t * b + tm_nsec t div k"
  have "v * k = tm_sec t * 1000000000 + tm_nsec t div k * k"
    by (simp add: v_def assms(2) [symmetric] algebra_simps)
  moreover have "0 \<le> tm_nsec t div k * k" "tm_nsec t div k * k \<le> tm_nsec t"
    using assms(1,4) floor_le [of k "tm_nsec t"]
    by (simp_all add: representable_def moment_ok_def pos_imp_zdiv_nonneg_iff)
  ultimately have r: "- (2 ^ 63) \<le> v * k" "v * k < 2 ^ 63" using assms(1) by (simp_all add: representable_def)
  have "v \<le> v * k \<or> v < 0" "v * k \<le> v \<or> 0 \<le> v" using assms(4) by (auto simp: mult_le_cancel_left1 mult_le_cancel_left2)
  then have "- (2 ^ 63) \<le> v" "v < 2 ^ 63" using r by linarith+
  then show ?thesis unfolding v_def [symmetric] by (intro wrap_int_id) simp_all
qed

lemma unit_back:
  assumes "representable t" "b * k = (1000000000 :: int)" "0 < b" "0 < k" "v = tm_sec t * b + tm_nsec t div k"
  shows "time_Unix q ((v - q * b) * k) = cut k t"
proof -
  have n: "0 \<le> tm_nsec t" "tm_nsec t < b * k" using assms(1,2) by (simp_all add: representable_def moment_ok_def)
  then have "0 \<le> tm_nsec t div k" using assms(4) by (simp add: pos_imp_zdiv_nonneg_iff)
  moreover have "\<not> b \<le> tm_nsec t div k"
  proof
    assume "b \<le> tm_nsec t div k"
    then have "b * k \<le> tm_nsec t div k * k" using assms(4) by (intro mult_right_mono) simp_all
    with n floor_le [OF assms(4), of "tm_nsec t"] show False by linarith
  qed
  ultimately have "v div b = tm_sec t" "v mod b = tm_nsec t div k"
    using assms(3,5) by (simp_all add: div_pos_pos_trivial mod_pos_pos_trivial)
  moreover have "wrap_int 64 (tm_sec t) = tm_sec t"
    using unit_range [OF assms(1), of 1 1000000000] assms(1) by (simp add: representable_def moment_ok_def)
  ultimately show ?thesis
    using time_Unix_scaled [OF assms(2-4), of q v] by (simp add: cut_def minus_mod_eq_div_mult)
qed

text \<open>C23: moments come back from the formats that are numbers, down to their unit.  A moment that an
  \<open>int64\<close> of nanoseconds can hold is written as an integer and read as the same second, with
  its nanoseconds rounded down to the unit of the format, in the local zone; with \<open>unixnano\<close> none
  are lost.\<close>

theorem time_formats_round_trip:
  assumes "representable t" "(fmt, u) \<in> set time_units"
  shows "\<exists>n. marshalTimeValue format t fmt = Inr (VInt n)
    \<and> unmarshalValueTime parse sprint (iface_of (VInt n)) fmt = Inr (cut u t)"
proof -
  have i: "ToInt64 (iface_of (VInt n)) = wrap_int 64 n" for n by (simp add: ToInt64_def is_int_type_def int_of_def)
  have s: "tm_nsec t div 1000000000 = 0" using assms(1) by (simp add: representable_def moment_ok_def)
  note r = unit_range [OF assms(1)] and b = unit_back [OF assms(1) _ _ _ refl]
  note defs = marshalTimeValue_def unmarshalValueTime_def i Unix_def UnixMilli_def UnixMicro_def UnixNano_def
    time_UnixMilli_def time_UnixMicro_def
  consider "fmt = ''unix''" "u = 1000000000" | "fmt = ''unixmilli''" "u = 1000000"
    | "fmt = ''unixmicro''" "u = 1000" | "fmt = ''unixnano''" "u = 1"
    using assms(2) by (auto simp: time_units_def)
  then show ?thesis
  proof cases
    case 1
    then show ?thesis using r [of 1 1000000000] b [of 1 1000000000 "tm_sec t"] s
      by (simp add: defs del: iface_of.simps)
  next
    case 2
    then show ?thesis using r [of 1000 1000000] b [of 1000 1000000 "trunc_div (UnixMilli t) 1000"]
      by (simp add: defs del: iface_of.simps)
  next
    case 3
    then show ?thesis using r [of 1000000 1000] b [of 1000000 1000 "trunc_div (UnixMicro t) 1000000"]
      by (simp add: defs del: iface_of.simps)
  next
    case 4
    then show ?thesis using r [of 1000000000 1] b [of 1000000000 1 0] by (simp add: defs del: iface_of.simps)
  qed
qed

lemma time_formats_round_trip_witness:
  "\<exists>n. marshalTimeValue (\<lambda>_ _. []) \<lparr>tm_sec = - 3, tm_nsec = 123456789, tm_zone = 7\<rparr> ''unixmilli'' = Inr (VInt n)
    \<and> unmarshalValueTime (\<lambda>_ _. Inl ()) (\<lambda>_ _. []) (iface_of (VInt n)) ''unixmilli''
      = Inr (cut 1000000 \<lparr>tm_sec = - 3, tm_nsec = 123456789, tm_zone = 7\<rparr>)"
  by (rule time_formats_round_trip) (simp_all add: representable_def moment_ok_def time_units_def)

section \<open>Complex numbers\<close>

text \<open>A real and an imaginary part; \<open>parse\<close> is what \<open>strconv.ParseComplex\<close> returns beside its error.\<close>

type_synonym complex128 = "float64 \<times> float64"

definition ToComplex128 :: "(bytes \<Rightarrow> complex128) \<Rightarrow> iface \<Rightarrow> complex128" where
  "ToComplex128 parse x =
     (case x of
        None \<Rightarrow> (float_zero, float_zero)
      | Some (t, v) \<Rightarrow>
          if t = TFloat then (float_of v, float_zero)
          else if is_int_type t then (float_of_int (int_of v), float_zero)
          else (case text_of t v of
                  Some s \<Rightarrow> parse s
                | None \<Rightarrow>
                    (case stringer t v of
                       Some s \<Rightarrow> parse s
                     | None \<Rightarrow> if ToBool x then (float_of_int 1, float_zero) else (float_zero, float_zero))))"

text \<open>Of what is not a duration, the complex number is the float, if texts are read alike.\<close>

lemma ToComplex128_ToFloat64:
  assumes "\<forall>s. parse s = (ParseFloat_value s, float_zero)" "\<forall>v. x \<noteq> Some (TDuration, v)"
  shows "ToComplex128 parse x = (ToFloat64 x, float_zero)"
  using assms by (auto simp: ToComplex128_def ToFloat64_def split: option.splits)

end
