(* ===== verification/Registry.thy ===== *)
theory Registry
  imports Index
begin

text \<open>
  Functions registered for a type (\<open>AddCustomMarshaler\<close> and its three relatives in \<open>marshal.go\<close> and
  \<open>unmarshal.go\<close> of \<open>internal/marshaler\<close>) and the flags by which \<open>typeindex.go\<close> remembers them.
  Four maps of the package hold the functions; a fifth variable, \<open>createdTypeIndexer\<close>, forbids to
  register more once a type has been indexed.  A function is the user's: here it is any value
  \<open>'f\<close>.  A panic is \<open>None\<close>.  \<open>name\<close> is the \<open>String\<close> method of \<open>reflect.Type\<close>, by which types are
  indexed.
\<close>

unbundle bit_operations_syntax

section \<open>Flags\<close>

type_synonym arshaler_flags = "8 word"

definition flags_Has :: "arshaler_flags \<Rightarrow> arshaler_flags \<Rightarrow> bool" where
  "flags_Has c f \<longleftrightarrow> c AND f \<noteq> 0"

definition hasCustomUnmarshaler :: arshaler_flags where "hasCustomUnmarshaler = push_bit 0 1"
definition hasCustomValueUnmarshaler :: arshaler_flags where "hasCustomValueUnmarshaler = push_bit 1 1"
definition hasCustomMarshaler :: arshaler_flags where "hasCustomMarshaler = push_bit 2 1"
definition hasCustomValueMarshaler :: arshaler_flags where "hasCustomValueMarshaler = push_bit 3 1"

lemmas arshaler_flag_defs = hasCustomUnmarshaler_def hasCustomValueUnmarshaler_def hasCustomMarshaler_def
  hasCustomValueMarshaler_def

section \<open>The registry\<close>

record 'f registry =
  createdTypeIndexer :: bool
  customUnmarshalers :: "gtype \<rightharpoonup> 'f"
  customValueUnmarshalers :: "gtype \<rightharpoonup> 'f"
  customMarshalers :: "gtype \<rightharpoonup> 'f"
  customValueMarshalers :: "gtype \<rightharpoonup> 'f"

definition no_customs :: "'f registry" where
  "no_customs = \<lparr>createdTypeIndexer = False, customUnmarshalers = Map.empty,
     customValueUnmarshalers = Map.empty, customMarshalers = Map.empty, customValueMarshalers = Map.empty\<rparr>"

definition assertNoIndexers :: "'f registry \<Rightarrow> 'f registry option" where
  "assertNoIndexers r = (if createdTypeIndexer r then None else Some r)"

definition AddCustomUnmarshaler :: "gtype \<Rightarrow> 'f \<Rightarrow> 'f registry \<Rightarrow> 'f registry option" where
  "AddCustomUnmarshaler t f r =
     map_option (\<lambda>r. r\<lparr>customUnmarshalers := (customUnmarshalers r)(t \<mapsto> f)\<rparr>) (assertNoIndexers r)"

definition AddCustomValueUnmarshaler :: "gtype \<Rightarrow> 'f \<Rightarrow> 'f registry \<Rightarrow> 'f registry option" where
  "AddCustomValueUnmarshaler t f r =
     map_option (\<lambda>r. r\<lparr>customValueUnmarshalers := (customValueUnmarshalers r)(t \<mapsto> f)\<rparr>) (assertNoIndexers r)"

definition AddCustomMarshaler :: "gtype \<Rightarrow> 'f \<Rightarrow> 'f registry \<Rightarrow> 'f registry option" where
  "AddCustomMarshaler t f r =
     map_option (\<lambda>r. r\<lparr>customMarshalers := (customMarshalers r)(t \<mapsto> f)\<rparr>) (assertNoIndexers r)"

definition AddCustomValueMarshaler :: "gtype \<Rightarrow> 'f \<Rightarrow> 'f registry \<Rightarrow> 'f registry option" where
  "AddCustomValueMarshaler t f r =
     map_option (\<lambda>r. r\<lparr>customValueMarshalers := (customValueMarshalers r)(t \<mapsto> f)\<rparr>) (assertNoIndexers r)"

section \<open>Indexing\<close>

text \<open>A function registered for a type or for the pointer to it sets the flag of the type.\<close>

definition flag_if :: "bool \<Rightarrow> arshaler_flags \<Rightarrow> arshaler_flags \<Rightarrow> arshaler_flags" where
  "flag_if b f fl = (if b then fl OR f else fl)"

definition CustomArshalers :: "'f registry \<Rightarrow> gtype \<Rightarrow> arshaler_flags" where
  "CustomArshalers r typ =
     (let own = flag_if (customValueMarshalers r typ \<noteq> None) hasCustomValueMarshaler
                  (flag_if (customMarshalers r typ \<noteq> None) hasCustomMarshaler
                    (flag_if (customValueUnmarshalers r typ \<noteq> None) hasCustomValueUnmarshaler
                      (flag_if (customUnmarshalers r typ \<noteq> None) hasCustomUnmarshaler 0)));
          ptrTyp = TPtr typ
      in flag_if (customValueMarshalers r ptrTyp \<noteq> None) hasCustomValueMarshaler
           (flag_if (customMarshalers r ptrTyp \<noteq> None) hasCustomMarshaler
             (flag_if (customValueUnmarshalers r ptrTyp \<noteq> None) hasCustomValueUnmarshaler
               (flag_if (customUnmarshalers r ptrTyp \<noteq> None) hasCustomUnmarshaler own))))"

type_synonym type_index = "bytes \<rightharpoonup> arshaler_flags"

definition newTypeIndexer :: "'f registry \<Rightarrow> type_index \<times> 'f registry" where
  "newTypeIndexer r = (Map.empty, r\<lparr>createdTypeIndexer := True\<rparr>)"

fun without_pointers :: "gtype \<Rightarrow> gtype" where
  "without_pointers (TPtr t) = without_pointers t"
| "without_pointers t = t"

text \<open>What \<open>indexType\<close> enters for one type; the types inside it follow in the same way.\<close>

definition enter_type :: "(gtype \<Rightarrow> bytes) \<Rightarrow> 'f registry \<Rightarrow> gtype \<Rightarrow> type_index \<Rightarrow> type_index" where
  "enter_type name r typ0 i =
     (let typ = without_pointers typ0
      in if i (name typ) \<noteq> None then i else i(name typ \<mapsto> CustomArshalers r typ))"

text \<open>
  Looking up: a star at the front of the name is dropped.  Then the function to call, for a
  value of the given type: \<open>Inr None\<close> is the method of the type itself, \<open>Inl ()\<close> the call of a nil
  function, which panics.
\<close>

definition index_Get :: "bytes \<Rightarrow> type_index \<Rightarrow> arshaler_flags option" where
  "index_Get n i = (if n = [] then None else i (if hd n = CHR ''*'' then tl n else n))"

definition custom_function :: "arshaler_flags \<Rightarrow> arshaler_flags \<Rightarrow> (gtype \<rightharpoonup> 'f) \<Rightarrow> gtype \<Rightarrow> unit + 'f option" where
  "custom_function flag fl m destType =
     (if flags_Has fl flag then (case m destType of None \<Rightarrow> Inl () | Some f \<Rightarrow> Inr (Some f)) else Inr None)"

lemma flag_or: "flags_Has (a OR b) f \<longleftrightarrow> flags_Has a f \<or> flags_Has b f"
  by (auto simp: flags_Has_def bit.conj_disj_distrib2 or_eq_0_iff)

lemma flags_apart [simp]:
  "flags_Has hasCustomUnmarshaler hasCustomUnmarshaler" "flags_Has hasCustomMarshaler hasCustomMarshaler"
  "flags_Has hasCustomValueUnmarshaler hasCustomValueUnmarshaler"
  "flags_Has hasCustomValueMarshaler hasCustomValueMarshaler"
  "\<not> flags_Has hasCustomUnmarshaler hasCustomMarshaler" "\<not> flags_Has hasCustomMarshaler hasCustomUnmarshaler"
  "\<not> flags_Has hasCustomUnmarshaler hasCustomValueUnmarshaler" "\<not> flags_Has hasCustomValueUnmarshaler hasCustomUnmarshaler"
  "\<not> flags_Has hasCustomUnmarshaler hasCustomValueMarshaler" "\<not> flags_Has hasCustomValueMarshaler hasCustomUnmarshaler"
  "\<not> flags_Has hasCustomMarshaler hasCustomValueUnmarshaler" "\<not> flags_Has hasCustomValueUnmarshaler hasCustomMarshaler"
  "\<not> flags_Has hasCustomMarshaler hasCustomValueMarshaler" "\<not> flags_Has hasCustomValueMarshaler hasCustomMarshaler"
  "\<not> flags_Has hasCustomValueUnmarshaler hasCustomValueMarshaler"
  "\<not> flags_Has hasCustomValueMarshaler hasCustomValueUnmarshaler" "\<not> flags_Has 0 f"
  by (simp_all add: flags_Has_def arshaler_flag_defs)

lemma has_flag_if: "flags_Has (flag_if b f fl) g \<longleftrightarrow> flags_Has fl g \<or> (b \<and> flags_Has f g)"
  by (simp add: flag_if_def flag_or)

lemma custom_flags:
  "flags_Has (CustomArshalers r t) hasCustomUnmarshaler
     \<longleftrightarrow> customUnmarshalers r t \<noteq> None \<or> customUnmarshalers r (TPtr t) \<noteq> None"
  "flags_Has (CustomArshalers r t) hasCustomValueUnmarshaler
     \<longleftrightarrow> customValueUnmarshalers r t \<noteq> None \<or> customValueUnmarshalers r (TPtr t) \<noteq> None"
  "flags_Has (CustomArshalers r t) hasCustomMarshaler
     \<longleftrightarrow> customMarshalers r t \<noteq> None \<or> customMarshalers r (TPtr t) \<noteq> None"
  "flags_Has (CustomArshalers r t) hasCustomValueMarshaler
     \<longleftrightarrow> customValueMarshalers r t \<noteq> None \<or> customValueMarshalers r (TPtr t) \<noteq> None"
  by (auto simp: CustomArshalers_def Let_def has_flag_if)

section \<open>The registry and its indexes\<close>

text \<open>
  What programs do with them: they register functions, create indexes (one for each call of a
  marshaling or unmarshaling function) and enter types.
\<close>

datatype 'f custom =
    CustomUnmarshaler gtype 'f
  | CustomValueUnmarshaler gtype 'f
  | CustomMarshaler gtype 'f
  | CustomValueMarshaler gtype 'f

fun add_custom :: "'f custom \<Rightarrow> 'f registry \<Rightarrow> 'f registry option" where
  "add_custom (CustomUnmarshaler t f) = AddCustomUnmarshaler t f"
| "add_custom (CustomValueUnmarshaler t f) = AddCustomValueUnmarshaler t f"
| "add_custom (CustomMarshaler t f) = AddCustomMarshaler t f"
| "add_custom (CustomValueMarshaler t f) = AddCustomValueMarshaler t f"

inductive reach :: "(gtype \<Rightarrow> bytes) \<Rightarrow> 'f registry \<Rightarrow> type_index list \<Rightarrow> bool" for name where
  start: "reach name no_customs []"
| add: "reach name r is \<Longrightarrow> add_custom f r = Some r' \<Longrightarrow> reach name r' is"
| create: "reach name r is \<Longrightarrow> newTypeIndexer r = (i, r') \<Longrightarrow> reach name r' (is @ [i])"
| enter: "reach name r is \<Longrightarrow> k < length is \<Longrightarrow> reach name r (is[k := enter_type name r t (is ! k)])"

definition agrees_with :: "(gtype \<Rightarrow> bytes) \<Rightarrow> 'f registry \<Rightarrow> type_index \<Rightarrow> bool" where
  "agrees_with name r i \<longleftrightarrow> (\<forall>n fl. i n = Some fl \<longrightarrow> (\<exists>t. name t = n \<and> fl = CustomArshalers r t))"

lemma add_custom_created: "add_custom f r = Some r' \<Longrightarrow> \<not> createdTypeIndexer r \<and> \<not> createdTypeIndexer r'"
  by (cases f) (auto simp: AddCustomUnmarshaler_def AddCustomValueUnmarshaler_def AddCustomMarshaler_def
      AddCustomValueMarshaler_def assertNoIndexers_def split: if_splits)

lemma customs_created: "CustomArshalers (r\<lparr>createdTypeIndexer := b\<rparr>) t = CustomArshalers r t"
  by (simp add: CustomArshalers_def Let_def)

lemma enter_agrees: "agrees_with name r i \<Longrightarrow> agrees_with name r (enter_type name r t i)"
  by (auto simp: agrees_with_def enter_type_def Let_def)

lemma reach_agrees:
  "reach name r is \<Longrightarrow> (is \<noteq> [] \<longrightarrow> createdTypeIndexer r) \<and> (\<forall>i \<in> set is. agrees_with name r i)"
proof (induction rule: reach.induct)
  case (add r "is" f r')
  then show ?case using add_custom_created by fastforce
next
  case (create r "is" i r')
  then show ?case by (auto simp: newTypeIndexer_def agrees_with_def customs_created)
next
  case (enter r "is" k t)
  then show ?case using enter_agrees [of name r "is ! k" t] by (auto dest!: set_update_subset_insert [THEN subsetD])
qed auto

text \<open>C24: an index never disagrees with the registry.  Whatever is registered and indexed, in whatever
  order, the flags that any index has for a name are those of a type with that name in the
  registry as it is now, because registering after the first index panics; if types have names
  of their own, they are the flags of that very type.\<close>

theorem index_agrees_with_registry:
  assumes "reach name r is" "i \<in> set is" "i n = Some fl"
  shows "(\<exists>t. name t = n \<and> fl = CustomArshalers r t) \<and> (inj name \<longrightarrow> (\<forall>t. name t = n \<longrightarrow> fl = CustomArshalers r t))
     \<and> (\<forall>f. add_custom f r = None)"
proof -
  from reach_agrees [OF assms(1)] assms(2) have c: "createdTypeIndexer r" and "agrees_with name r i" by auto
  with assms(3) obtain t where t: "name t = n" "fl = CustomArshalers r t" by (auto simp: agrees_with_def)
  have "add_custom f r = None" for f
    using add_custom_created [of f r] c by (cases "add_custom f r") auto
  with t show ?thesis by (auto dest: injD)
qed

lemma index_agrees_with_registry_witness:
  "\<exists>r i. add_custom (CustomMarshaler TBool ()) no_customs = Some r \<and> i ''bool'' = Some hasCustomMarshaler
     \<and> (\<exists>t. (\<lambda>_. ''bool'') t = ''bool'' \<and> hasCustomMarshaler = CustomArshalers (r\<lparr>createdTypeIndexer := True\<rparr>) t)"
proof -
  obtain r where r: "add_custom (CustomMarshaler TBool ()) no_customs = Some r" "\<not> createdTypeIndexer r"
    "CustomArshalers (r\<lparr>createdTypeIndexer := True\<rparr>) TBool = hasCustomMarshaler"
    by (auto simp: AddCustomMarshaler_def assertNoIndexers_def no_customs_def CustomArshalers_def Let_def flag_if_def)
  let ?r = "r\<lparr>createdTypeIndexer := True\<rparr>" and ?n = "\<lambda>_. ''bool''"
  let ?i = "enter_type ?n ?r TBool Map.empty"
  have "reach ?n r []" by (rule reach.add [OF reach.start r(1)])
  then have "reach ?n ?r [Map.empty]" using reach.create [of ?n r "[]" Map.empty ?r] by (simp add: newTypeIndexer_def)
  then have "reach ?n ?r [?i]" using reach.enter [of ?n ?r "[Map.empty]" 0 TBool] by simp
  then show ?thesis using index_agrees_with_registry [of ?n ?r "[?i]" ?i "''bool''" hasCustomMarshaler] r
    by (intro exI [of _ r] exI [of _ ?i]) (simp_all add: enter_type_def)
qed

text \<open>A function registered for a pointer type is not called but makes the call panic.  The flag
  is set for the type without the pointer, and the function is then looked up under the type of
  the value, where there is none; likewise the other way round.\<close>

theorem custom_for_pointer_panics:
  assumes "add_custom (CustomUnmarshaler p f) r = Some r'" "p = TPtr t \<and> q = t \<or> p = t \<and> q = TPtr t"
    and "customUnmarshalers r q = None"
  shows "custom_function hasCustomUnmarshaler (CustomArshalers r' t) (customUnmarshalers r') p = Inr (Some f)
     \<and> custom_function hasCustomUnmarshaler (CustomArshalers r' t) (customUnmarshalers r') q = Inl ()"
proof -
  have r': "r' = r\<lparr>customUnmarshalers := (customUnmarshalers r)(p \<mapsto> f)\<rparr>"
    using assms(1) by (auto simp: AddCustomUnmarshaler_def assertNoIndexers_def split: if_splits)
  have "p \<noteq> q" using assms(2) by auto
  then show ?thesis using assms(2,3) by (auto simp: custom_function_def custom_flags r')
qed

end
