(* ===== verification/Lexemes.thy ===== *)
theory Lexemes
  imports Reading
begin

text \<open>
  What the scanner makes of well-formed text, in version 2 and without relaxed syntax: a text that
  is put together from lexemes, each followed by something it cannot be confused with, is scanned
  into exactly these lexemes.  \<open>Lexing\<close> says what a reader has consumed when it succeeds; here it is
  shown to succeed, and where it stops.
\<close>

section \<open>Reading while a closure accepts\<close>

lemma peek_ascii: "s_input s = b # t \<Longrightarrow> rune b < 128 \<Longrightarrow> peek s = Inr (rune b)"
  by (simp add: peek_def peekSize_def decode1_ascii)

lemma skip_ascii: "s_input s = b # t \<Longrightarrow> rune b < 128 \<Longrightarrow> s_input (skip s) = t \<and> adv s [b] (skip s)"
  using skip_adv [OF peek_ascii, of s b t] by (auto simp: skip_def get_def decode1_ascii adv_def)

lemma peek_Nil: "s_input s = [] \<Longrightarrow> peek s = Inl io_EOF"
  by (simp add: peek_EOF_iff)

text \<open>
  What may follow a lexeme: nothing, or a character of ASCII with a property.  \<open>P\<close> holds of what
  the closure accepts, \<open>Q\<close> of what it refuses, in every state with the invariant \<open>I\<close>.
\<close>

definition stops :: "(char \<Rightarrow> bool) \<Rightarrow> bytes \<Rightarrow> bool" where
  "stops Q rest \<longleftrightarrow> (case rest of [] \<Rightarrow> True | c # _ \<Rightarrow> rune c < 128 \<and> Q c)"

definition decides :: "('c \<Rightarrow> bool) \<Rightarrow> (char \<Rightarrow> bool) \<Rightarrow> (char \<Rightarrow> bool) \<Rightarrow> 'c closure \<Rightarrow> bool" where
  "decides I P Q p \<longleftrightarrow> (\<forall>st c s. I st \<longrightarrow>
     (P c \<longrightarrow> (\<exists>st'. p st (rune c) s = (True, st') \<and> I st')) \<and>
     (Q c \<longrightarrow> (\<exists>st'. p st (rune c) s = (False, st') \<and> I st')))"

lemma decidesD:
  "decides I P Q p \<Longrightarrow> I st \<Longrightarrow> P c \<Longrightarrow> \<exists>st'. p st (rune c) s = (True, st') \<and> I st'"
  "decides I P Q p \<Longrightarrow> I st \<Longrightarrow> Q c \<Longrightarrow> \<exists>st'. p st (rune c) s = (False, st') \<and> I st'"
  unfolding decides_def by blast+

lemma readWhile_loop_run:
  assumes "s_input s = d @ rest" "\<forall>c \<in> set d. rune c < 128 \<and> P c" "stops Q rest" "I st" "valid \<or> d \<noteq> []"
    and "decides I P Q p"
  shows "\<exists>s' st' c. adv s d s' \<and> I st' \<and>
    readWhile_loop p m valid st s = ((readWhile_stop True c m s', st'), s')"
  using assms(1-5)
proof (induction d arbitrary: s st valid)
  case Nil
  show ?case
  proof (cases rest)
    case Nil
    with Nil.prems show ?thesis
      by (intro exI [of _ s] exI [of _ st] exI [of _ 0])
        (simp add: readWhile_loop.simps [of p m _ st s] peek_Nil)
  next
    case (Cons c t)
    then have c: "rune c < 128" "Q c" using Nil.prems(3) by (simp_all add: stops_def)
    from decidesD(2) [OF assms(6) Nil.prems(4) c(2), of s] obtain st' where "p st (rune c) s = (False, st')" "I st'"
      by blast
    with Nil.prems Cons c show ?thesis
      by (intro exI [of _ s] exI [of _ st'] exI [of _ "rune c"])
        (simp add: readWhile_loop.simps [of p m _ st s] peek_ascii)
  qed
next
  case (Cons b d)
  then have i: "s_input s = b # d @ rest" "rune b < 128" "P b" by simp_all
  note a = skip_ascii [OF i(1,2)]
  from decidesD(1) [OF assms(6) Cons.prems(4) i(3), of s] obtain st1 where
    st1: "p st (rune b) s = (True, st1)" "I st1" by blast
  from Cons.IH [of "skip s" st1 True] a st1(2) Cons.prems obtain s' st' c where
    r: "adv (skip s) d s'" "I st'" "readWhile_loop p m True st1 (skip s) = ((readWhile_stop True c m s', st'), s')"
    by auto
  have "adv s (b # d) s'" using adv_trans [of s "[b]" "skip s" d s'] a r(1) by simp
  with r(2,3) st1(1) i show ?case
    by (intro exI [of _ s'] exI [of _ st'] exI [of _ c])
      (simp add: readWhile_loop.simps [of p m _ st s] peek_ascii)
qed

lemma readWhileC_run:
  assumes "readWhile_loop p m False st (pushMark s) = ((readWhile_stop True c m s1, st'), s1)"
    and "adv (pushMark s) d s1" "wf s" "m \<le> length d"
  shows "readWhileC p st m s = ((Inr d, st'), popMark s1) \<and> adv s d (popMark s1)"
proof -
  have "copyFromMark s1 = d"
    using copyFromMark_adv [OF assms(2) wf_mark_pushMark [OF assms(3)]] by simp
  with assms show ?thesis
    by (simp add: readWhileC_def with_mark_def readWhile_stop_def Let_def pop_push_adv)
qed

lemma readWhileC_takes:
  assumes "s_input s = d @ rest" "wf s" "\<forall>c \<in> set d. rune c < 128 \<and> P c" "stops Q rest" "I st"
    and "m \<le> length d" "d \<noteq> []" "decides I P Q p"
  obtains st' s' where "readWhileC p st m s = ((Inr d, st'), s')" "adv s d s'" "I st'"
proof -
  have "s_input (pushMark s) = d @ rest" using assms(1) by simp
  from readWhile_loop_run [where p = p and P = P and Q = Q and I = I and m = m and valid = False,
      OF this assms(3-5) disjI2 [OF assms(7)] assms(8)]
  obtain s1 st1 c where "adv (pushMark s) d s1" "I st1"
    "readWhile_loop p m False st (pushMark s) = ((readWhile_stop True c m s1, st1), s1)" by blast
  with readWhileC_run [OF this(3,1) assms(2,6)] that show ?thesis by blast
qed

lemma readWhile_takes:
  assumes "s_input s = d @ rest" "wf s" "\<forall>c \<in> set d. rune c < 128 \<and> P (rune c)"
    and "stops (\<lambda>c. \<not> P (rune c)) rest" "m \<le> length d" "d \<noteq> []"
  obtains s' where "readWhile P m s = (Inr d, s')" "adv s d s'"
proof -
  have "decides (\<lambda>_. True) (\<lambda>c. P (rune c)) (\<lambda>c. \<not> P (rune c)) (\<lambda>_ c _. (P c, ()))"
    by (simp add: decides_def)
  from readWhileC_takes [OF assms(1-4) TrueI assms(5,6) this]
  obtain st' s' where "readWhileC (\<lambda>_ c _. (P c, ())) () m s = ((Inr d, st'), s')" "adv s d s'" by metis
  with that show ?thesis by (simp add: readWhile_def)
qed


section \<open>Lexemes\<close>

definition letters :: string where
  "letters = ''abcdefghijklmnopqrstuvwxyzABCDEFGHIJKLMNOPQRSTUVWXYZ_''"

definition plain_name :: "bytes \<Rightarrow> bool" where
  "plain_name d \<longleftrightarrow> d \<noteq> [] \<and> hd d \<in> set letters \<and> (\<forall>c \<in> set d. c \<in> set letters \<union> set ''0123456789-.'')
     \<and> d \<notin> {''true'', ''false'', ''null'', ''inf'', ''nan''}"

definition digits :: "bytes \<Rightarrow> bool" where
  "digits d \<longleftrightarrow> d \<noteq> [] \<and> (\<forall>c \<in> set d. c \<in> set ''0123456789'')"

definition integer_literal :: "bytes \<Rightarrow> bool" where
  "integer_literal d \<longleftrightarrow> digits d \<or> (\<exists>t. d = CHR ''-'' # t \<and> digits t)"

text \<open>The fixed tokens of one character.\<close>

definition punctuation :: "token_id \<Rightarrow> char option" where
  "punctuation tid =
     (case tid of
        Equals \<Rightarrow> Some (CHR ''='') | BraceOpen \<Rightarrow> Some (CHR ''{'') | BraceClose \<Rightarrow> Some (CHR ''}'')
      | Semicolon \<Rightarrow> Some (CHR '';'') | Newline \<Rightarrow> Some (CHR 0x0A) | _ \<Rightarrow> None)"

definition follows :: "string \<Rightarrow> bytes \<Rightarrow> bool" where
  "follows cs rest \<longleftrightarrow> rest \<noteq> [] \<and> hd rest \<in> set cs"

lemma letter_facts:
  "\<forall>c \<in> set letters. rune c < 128 \<and> \<not> isWhiteSpace (rune c) \<and> \<not> isNewline (rune c) \<and> \<not> isDigit (rune c)
     \<and> rune c \<notin> set (map rune ''/(){}=;,?+-0.#:'') \<union> {0x5C, 0x22, 0x27, 0x60} \<and> 0x20 < rune c
     \<and> isBareIdentifierCharVersion (rune c) 0 True VersionV2"
  by code_simp

lemma name_char_facts:
  "\<forall>c \<in> set letters \<union> set ''0123456789-.''. rune c < 128 \<and> isBareIdentifierCharVersion (rune c) 0 False VersionV2"
  by code_simp

lemma name_end_facts:
  "\<forall>c \<in> set ['' ''!0, CHR 0x0A, CHR ''='']. rune c < 128 \<and> \<not> isBareIdentifierCharVersion (rune c) 0 False VersionV2"
  by code_simp

lemma blank_facts: "\<forall>c \<in> {CHR '' '', CHR 0x09}. rune c < 128 \<and> isWhiteSpace (rune c)"
  by code_simp

text \<open>A scanner in version 2 with nothing relaxed.\<close>

definition ready :: "scanner \<Rightarrow> bool" where
  "ready s \<longleftrightarrow> s_version s = VersionV2 \<and> s_relaxed s = 0 \<and> wf s"

lemma ready_skip: "ready s \<Longrightarrow> ready (skip s)"
  using skip_adv_ex [of s] by (auto simp: ready_def adv_def wf_def suffix_def)

lemma ready_pushMark: "ready s \<Longrightarrow> ready (pushMark s)"
  using wf_mark_pushMark [of s] wf_mark_wf [of "pushMark s"] by (auto simp: ready_def pushMark_def)

lemma peekSize_ascii: "s_input s = b # t \<Longrightarrow> rune b < 128 \<Longrightarrow> peekSize s = Inr (rune b, 1)"
  by (simp add: peekSize_def decode1_ascii)

lemma next_name:
  assumes "ready s" "s_input s = d @ rest" "plain_name d" "follows ('' ='' @ [CHR 0x0A]) rest"
  shows "\<exists>s'. next_lexeme s = (Inr (BareIdentifier, d), s') \<and> adv s d s'"
proof -
  obtain c d' where d: "d = c # d'" "c \<in> set letters" using assms(3) by (cases d) (auto simp: plain_name_def)
  note l = letter_facts [rule_format, OF d(2)]
  have i: "s_input s = c # d' @ rest" using assms(2) d(1) by simp
  have p: "peekSize s = Inr (rune c, 1)" "peek s = Inr (rune c)"
    using peekSize_ascii [OF i] peek_ascii [OF i] l by simp_all
  let ?P = "\<lambda>c. isBareIdentifierCharVersion c (s_relaxed s) False (s_version s)"
  have v: "s_version s = VersionV2" "s_relaxed s = 0" "wf s" using assms(1) by (simp_all add: ready_def)
  have "\<forall>c \<in> set d. rune c < 128 \<and> ?P (rune c)"
    using assms(3) name_char_facts unfolding v plain_name_def by blast
  moreover have "stops (\<lambda>c. \<not> ?P (rune c)) rest"
    using assms(4) name_end_facts v by (cases rest) (auto simp: follows_def stops_def)
  ultimately obtain s' where r: "readWhile ?P 1 s = (Inr d, s')" "adv s d s'"
    using readWhile_takes [OF assms(2) v(3), of ?P 1] d(1) by auto
  have "s_version s' = VersionV2" using r(2) v(1) by (simp add: adv_def)
  moreover have "d \<notin> {''true'', ''false'', ''null'', ''inf'', ''nan''}" using assms(3) unfolding plain_name_def by blast
  moreover have "d \<noteq> ''-inf''" using d(1) l by auto
  ultimately have b: "bare_read s = (Inr (BareIdentifier, d), s')" using r(1) by (simp add: bare_read_def)
  then have "readBareIdentifier s = (Inr (BareIdentifier, d), s')"
    using l p v by (simp add: readBareIdentifier_def isBareIdentifierStartCharVersion_def)
  then have "readIdentifier s = (Inr (BareIdentifier, d), s')"
    using l p v by (simp add: readIdentifier_def identifier_rest_def isBareIdentifierStartCharVersion_def
        split: sum.split)
  with l p v r(2) show ?thesis by (simp add: next_lexeme_def next_default_def)
qed

lemma next_blank:
  assumes "ready s" "s_input s = d @ rest" "d \<noteq> []" "set d \<subseteq> {CHR '' '', CHR 0x09}"
    and "stops (\<lambda>c. \<not> isWhiteSpace (rune c)) rest"
  shows "\<exists>s'. next_lexeme s = (Inr (Whitespace, d), s') \<and> adv s d s'"
proof -
  obtain c d' where d: "d = c # d'" using assms(3) by (cases d) auto
  have w: "rune c < 128 \<and> isWhiteSpace (rune c)" if "c \<in> set d" for c
    using assms(4) that blank_facts by blast
  have p: "peekSize s = Inr (rune c, 1)" using peekSize_ascii [of s c "d' @ rest"] assms(2) d w by simp
  obtain s' where "readWhile isWhiteSpace 1 s = (Inr d, s')" "adv s d s'"
    using readWhile_takes [OF assms(2), of isWhiteSpace 1] assms(1,5) w d by (auto simp: ready_def)
  with p w d show ?thesis by (simp add: next_lexeme_def readWhitespace_def)
qed

lemma next_punctuation:
  assumes "ready s" "s_input s = c # rest" "punctuation tid = Some c"
  shows "\<exists>s'. next_lexeme s = (Inr (tid, [c]), s') \<and> adv s [c] s'"
proof -
  consider "tid = Equals" "c = CHR ''=''" | "tid = BraceOpen" "c = CHR ''{''" | "tid = BraceClose" "c = CHR ''}''"
    | "tid = Semicolon" "c = CHR '';''" | "tid = Newline" "c = CHR 0x0A"
    using assms(3) by (cases tid) (simp_all add: punctuation_def)
  then show ?thesis
    by cases (use assms(1,2) peekSize_ascii [OF assms(2)] skip_ascii [OF assms(2)] in
      \<open>simp_all add: next_lexeme_def next_single_def copyInput_def isWhiteSpace_def isNewline_def ready_def\<close>)
qed

text \<open>Integers.\<close>

lemma digit_facts:
  "\<forall>c \<in> set ''0123456789''. rune c < 128 \<and> isDigit (rune c) \<and> \<not> isWhiteSpace (rune c) \<and> \<not> isNewline (rune c)
     \<and> rune c \<notin> set (map rune ''/(){}=;,?+-.#:'') \<union> {0x5C, 0x22, 0x27, 0x60}"
  by code_simp

definition breaks :: string where
  "breaks = [CHR '' '', CHR 0x0A]"

lemma break_facts:
  "\<forall>c \<in> set breaks. rune c < 128 \<and> \<not> isDigit (rune c) \<and> isSeparator (rune c)
     \<and> rune c \<notin> set (map rune ''_.eExob'')"
  by code_simp

lemma integer_rune_decides:
  "decides (\<lambda>st. \<not> i_hasMultiplier st) (\<lambda>c. isDigit (rune c)) (\<lambda>c. \<not> isDigit (rune c) \<and> rune c \<noteq> rune CHR ''_'')
     (integer_rune 0)"
  by (simp add: decides_def integer_rune_def)

lemma readInteger_run:
  assumes "s_relaxed s = 0" "wf s" "s_input s = d @ rest" "digits d" "follows breaks rest"
  shows "\<exists>s'. readInteger s = (Inr (Decimal, d), s') \<and> adv s d s'"
proof -
  have d: "\<forall>c \<in> set d. rune c < 128 \<and> isDigit (rune c)" "d \<noteq> []"
    using assms(4) digit_facts unfolding digits_def by blast+
  obtain b r where "rest = b # r" "b \<in> set breaks" using assms(5) by (cases rest) (auto simp: follows_def)
  with break_facts have "stops (\<lambda>c. \<not> isDigit (rune c) \<and> rune c \<noteq> rune CHR ''_'') rest"
    by (auto simp: stops_def)
  from readWhileC_takes [OF assms(3,2) d(1) this _ _ d(2) integer_rune_decides, of integer_start 1] d(2)
  obtain st s' where "readWhileC (integer_rune 0) integer_start 1 s = ((Inr d, st), s')" "adv s d s'"
    "\<not> i_hasMultiplier st" by (auto simp: integer_start_def Suc_le_eq)
  with assms(1) show ?thesis by (simp add: readInteger_def)
qed

lemma readSignedInteger_run:
  assumes "ready s" "s_input s = d @ rest" "integer_literal d" "follows breaks rest"
  shows "\<exists>x s'. readSignedInteger s = (Inr (Decimal, x), s') \<and> adv s d s'"
proof -
  let ?s = "pushMark s"
  have i: "s_input ?s = d @ rest" "s_relaxed ?s = 0" "wf ?s"
    using assms(2) ready_pushMark [OF assms(1)] by (simp_all add: ready_def)
  have "\<exists>x s'. signedInteger_body ?s = (Inr (Decimal, x), s') \<and> adv ?s d s'"
  proof (cases "digits d")
    case True
    then obtain c t where c: "d = c # t" "c \<in> set ''0123456789''" by (cases d) (auto simp: digits_def)
    note f = digit_facts [rule_format, OF c(2)]
    have "peek ?s = Inr (rune c)" using i(1) c(1) f by (intro peek_ascii [of _ c "t @ rest"]) simp_all
    with readInteger_run [OF i(2,3,1) True assms(4)] f show ?thesis by (auto simp: signedInteger_body_def)
  next
    case False
    then obtain t where t: "d = CHR ''-'' # t" "digits t" using assms(3) by (auto simp: integer_literal_def)
    have m: "rune CHR ''-'' < 128" "s_input ?s = CHR ''-'' # t @ rest" using i(1) t(1) by simp_all
    note sk = skip_ascii [OF m(2,1)]
    have "s_relaxed (skip ?s) = 0" "wf (skip ?s)" using sk i(2,3) by (auto simp: adv_def wf_def suffix_def)
    from readInteger_run [OF this _ t(2) assms(4)] sk obtain s' where
      "readInteger (skip ?s) = (Inr (Decimal, t), s')" "adv (skip ?s) t s'" by auto
    with sk adv_trans [of ?s "[CHR ''-'']" "skip ?s" t s'] peek_ascii [OF m(2,1)] t(1) show ?thesis
      by (simp add: signedInteger_body_def)
  qed
  then show ?thesis by (auto simp: readSignedInteger_def with_mark_def intro: pop_push_adv)
qed

lemma readDecimal_run:
  assumes "ready s" "s_input s = d @ rest" "integer_literal d" "follows breaks rest"
  shows "\<exists>x s'. readDecimal s = (Inr (Decimal, x), s') \<and> adv s d s'"
proof -
  let ?s = "pushMark s"
  have i: "s_input ?s = d @ rest" "ready ?s"
    using assms(2) ready_pushMark [OF assms(1)] by simp_all
  from readSignedInteger_run [OF i(2,1) assms(3,4)] obtain x s' where
    r: "readSignedInteger ?s = (Inr (Decimal, x), s')" "adv ?s d s'" by blast
  obtain c t where c: "rest = c # t" "c \<in> set breaks" using assms(4) by (cases rest) (auto simp: follows_def)
  note f = break_facts [rule_format, OF c(2)]
  have "s_input s' = c # t" using r(2) i(1) c(1) by (simp add: adv_def)
  then have p: "peek s' = Inr (rune c)" using f by (simp add: peek_ascii)
  have "decimal_body ?s = (Inr (Decimal, copyFromMark s'), s')"
    using r(1) p f by (simp add: decimal_body_def decimal_fraction_def decimal_exponent_def decimal_end_def)
  with r(2) show ?thesis by (simp add: readDecimal_def with_mark_def pop_push_adv)
qed

text \<open>What a lexeme has taken is its text.\<close>

lemma next_lexeme_text:
  assumes "next_lexeme s = (Inr (tid, x), s')" "wf s" "adv s d s'" "stops (\<lambda>_. True) (s_input s')"
  shows "x = d"
proof -
  have "peek s' = Inl e \<Longrightarrow> e = io_EOF" for e
    using assms(4) peek_ascii [of s'] peek_Nil [of s'] by (cases "s_input s'") (auto simp: stops_def)
  with next_lexeme_spec [OF assms(1)] assms(2,3) show ?thesis by (auto dest: adv_unique)
qed

lemma next_integer:
  assumes "ready s" "s_input s = d @ rest" "integer_literal d" "follows breaks rest"
  shows "\<exists>s'. next_lexeme s = (Inr (Decimal, d), s') \<and> adv s d s'"
proof -
  from readDecimal_run [OF assms] obtain x s' where r: "readDecimal s = (Inr (Decimal, x), s')" "adv s d s'"
    by blast
  obtain b t where b: "rest = b # t" "b \<in> set breaks" using assms(4) by (cases rest) (auto simp: follows_def)
  note fb = break_facts [rule_format, OF b(2)]
  have "next_lexeme s = readDecimal s"
  proof (cases "digits d")
    case True
    then obtain c u where c: "d = c # u" "c \<in> set ''0123456789''" "\<forall>x \<in> set u. x \<in> set ''0123456789''"
      by (cases d) (auto simp: digits_def)
    note f = digit_facts [rule_format, OF c(2)]
    have i: "s_input s = c # u @ rest" using assms(2) c(1) by simp
    obtain n v where n: "u @ rest = n # v" "n \<in> set ''0123456789'' \<union> set breaks"
      using b c(3) by (cases u) auto
    have nf: "rune n < 128" "rune n \<notin> set (map rune ''xob'')"
      using n(2) digit_facts break_facts by (auto dest!: bspec)
    have "peekTwo s = Inr (rune c, rune n)"
      using i n(1) f nf(1) by (simp add: peekTwo_def peekTwoSize_def decode1_ascii)
    with peekSize_ascii [OF i] f nf(2) assms(1) show ?thesis
      by (auto simp: next_lexeme_def next_zero_def ready_def isDigit_def)
  next
    case False
    then obtain v where v: "d = CHR ''-'' # v" "digits v" using assms(3) unfolding integer_literal_def by blast
    then obtain c u where "v = c # u" "c \<in> set ''0123456789''" by (cases v) (auto simp: digits_def)
    with v(1) have t: "d = CHR ''-'' # c # u" "c \<in> set ''0123456789''" by simp_all
    note f = digit_facts [rule_format, OF t(2)]
    have i: "s_input s = CHR ''-'' # c # u @ rest" using assms(2) t(1) by simp
    have "peekTwo s = Inr (rune CHR ''-'', rune c)"
      using i f by (simp add: peekTwo_def peekTwoSize_def decode1_ascii)
    with peekSize_ascii [OF i] f show ?thesis
      by (simp add: next_lexeme_def next_signed_def isWhiteSpace_def isNewline_def)
  qed
  with r(1) have n: "next_lexeme s = (Inr (Decimal, x), s')" by simp
  have "s_input s' = b # t" using r(2) assms(2) b(1) by (simp add: adv_def)
  then have "stops (\<lambda>_. True) (s_input s')" using fb by (simp add: stops_def)
  with next_lexeme_text [OF n _ r(2)] assms(1) have "x = d" by (simp add: ready_def)
  with n r(2) show ?thesis by simp
qed

section \<open>Quoted strings\<close>

text \<open>
  Strings that are written in a form that is read: UTF-8 without control characters but those with
  an escape of their own, without U+FFFD, which the scanner takes for invalid, and without a slash
  after a backslash, which the scanner refuses even when the backslash is itself escaped.
\<close>

function readable :: "bytes \<Rightarrow> bool" where
  "readable [] = True"
| "readable (c # s) =
     (if rune c < 0x80 then
        (noEscapeTable c \<or> c \<in> {CHR 0x22, CHR 0x5C, CHR 0x0A, CHR 0x0D, CHR 0x09, CHR 0x08, CHR 0x0C})
        \<and> (c = CHR 0x5C \<longrightarrow> s = [] \<or> hd s \<noteq> CHR ''/'') \<and> readable s
      else (case decode1 (c # s) of Inl _ \<Rightarrow> False | Inr (r, sz) \<Rightarrow> readable (drop sz (c # s))))"
  by pat_completeness auto
termination
  by (relation "measure length") (auto dest!: decode1_Inr)

declare readable.simps(2) [simp del]

lemma decode1_rune: "decode1 s = Inr (r, sz) \<Longrightarrow> decode_rune s = (r, sz) \<and> r \<noteq> RuneError"
  by (auto simp: decode1_def split: prod.splits if_splits)

lemma readable_quotable: "readable s \<Longrightarrow> quotable s"
proof (induction s rule: readable.induct)
  case (2 c s)
  show ?case
  proof (cases "rune c < 0x80")
    case True
    with 2 show ?thesis by (simp add: readable.simps quotable.simps)
  next
    case False
    then obtain r sz where d: "decode1 (c # s) = Inr (r, sz)" "readable (drop sz (c # s))"
      using "2.prems" by (auto simp: readable.simps split: sum.splits)
    then have "decode_rune (c # s) = (r, sz)" "r \<noteq> RuneError"
      by (auto simp: decode1_def split: prod.splits if_splits)
    with "2.IH"(2) [OF False d(1) refl d(2)] False show ?thesis by (simp add: quotable.simps)
  qed
qed simp

text \<open>Inside the quotes: nothing pending but an escape.\<close>

definition inside :: "bool \<Rightarrow> quote_state" where
  "inside esc = \<lparr>q_escaped = esc, q_foldingWhitespace = False, q_done = False, q_first = False\<rparr>"

definition closed :: quote_state where
  "closed = \<lparr>q_escaped = False, q_foldingWhitespace = False, q_done = True, q_first = False\<rparr>"

text \<open>From one state of the loop to a later one, taking \<open>d\<close>.\<close>

definition takes :: "quote_state \<Rightarrow> scanner \<Rightarrow> bytes \<Rightarrow> quote_state \<Rightarrow> scanner \<Rightarrow> bool" where
  "takes st s d st' s' \<longleftrightarrow> adv s d s' \<and> (\<forall>m v. readWhile_loop (quoted_rune 0x22) m v st s
     = readWhile_loop (quoted_rune 0x22) m (v \<or> d \<noteq> []) st' s')"

lemma takes_refl: "takes st s [] st s"
  by (simp add: takes_def)

lemma takes_trans: "takes st s d st1 s1 \<Longrightarrow> takes st1 s1 e st2 s2 \<Longrightarrow> takes st s (d @ e) st2 s2"
  unfolding takes_def using adv_trans by (auto simp: disj_assoc)

lemma takes_rune:
  assumes "decode1 (s_input s) = Inr (r, sz)" "quoted_rune 0x22 st r s = (True, st')"
  shows "takes st s (take sz (s_input s)) st' (skip s)"
proof -
  have p: "peek s = Inr r" using assms(1) by (simp add: peek_def peekSize_def)
  have "readWhile_loop (quoted_rune 0x22) m v st s = readWhile_loop (quoted_rune 0x22) m True st' (skip s)" for m v
    using p assms(2) by (simp add: readWhile_loop.simps [of _ m v st s])
  moreover have "take sz (s_input s) \<noteq> []" using decode1_Inr [OF assms(1)] by auto
  ultimately show ?thesis using skip_adv [OF p] decode1_Inr [OF assms(1)] by (simp add: takes_def)
qed

lemma takes_ascii:
  assumes "s_input s = c # t" "rune c < 128" "quoted_rune 0x22 st (rune c) s = (True, st')"
  shows "takes st s [c] st' (skip s)"
  using takes_rune [OF _ assms(3), of 1] assms(1,2) by (simp add: decode1_ascii)

lemma takes_input: "takes st s d st' s' \<Longrightarrow> s_input s = d @ t \<Longrightarrow> s_input s' = t \<and> s_version s' = s_version s"
  by (auto simp: takes_def adv_def)

lemma takes_escape:
  assumes "s_input s = CHR 0x5C # e # t" "s_version s = VersionV2"
    and "e \<in> {CHR 0x22, CHR 0x5C, CHR ''n'', CHR ''r'', CHR ''t'', CHR ''b'', CHR ''f''}"
    and "e = CHR 0x5C \<Longrightarrow> hd t \<noteq> CHR ''/''"
  shows "takes (inside False) s [CHR 0x5C, e] (inside False) (skip (skip s))"
proof -
  have e: "rune e < 128 \<and> rune e \<noteq> 47" using assms(3) by auto
  then have "peekAt 1 s \<noteq> Inr (rune CHR ''/'')"
    using assms(1) by (simp add: peekAt_def peekAtSize_def decode1_ascii)
  then have "quoted_rune 0x22 (inside False) (rune CHR 0x5C) s = (True, inside True)"
    by (simp add: quoted_rune_def inside_def isWhiteSpace_def isNewline_def Let_def)
  then have a: "takes (inside False) s [CHR 0x5C] (inside True) (skip s)"
    using takes_ascii [OF assms(1)] by simp
  have i: "s_input (skip s) = e # t" "s_version (skip s) = VersionV2"
    using takes_input [OF a, of "e # t"] assms(1,2) by simp_all
  have "quoted_rune 0x22 (inside True) (rune e) (skip s) = (True, inside False)"
  proof (cases "e = CHR 0x5C")
    case True
    have "peekAt 1 (skip s) \<noteq> Inr 47"
    proof
      assume "peekAt 1 (skip s) = Inr 47"
      then obtain n where "decode1 t = Inr (47, n)"
        using i(1) True by (auto simp: peekAt_def peekAtSize_def decode1_ascii split: sum.splits)
      then have "decode_rune t = (47, n)" by (auto simp: decode1_def split: prod.splits if_splits)
      from decode_rune_lt_128 [OF this] obtain b u where b: "t = b # u" "rune b = 47" by auto
      have "rune (hd t) \<noteq> rune CHR ''/''" using assms(4) [OF True] by (simp only: rune_inject not_False_eq_True)
      with b show False by simp
    qed
    with True i(2) show ?thesis by (simp add: quoted_rune_def inside_def Let_def)
  next
    case False
    with assms(3) show ?thesis by (auto simp: quoted_rune_def inside_def Let_def)
  qed
  then have "takes (inside True) (skip s) [e] (inside False) (skip (skip s))"
    using takes_ascii [OF i(1)] e by simp
  from takes_trans [OF a this] show ?thesis by simp
qed

lemma plain_rune:
  "r \<notin> {0x22, 0x5C, 0x0A, 0x0D} \<Longrightarrow> quoted_rune 0x22 (inside False) r s = (True, inside False)"
  by (simp add: quoted_rune_def inside_def Let_def)

lemma plain_char: "noEscapeTable c \<Longrightarrow> rune c \<notin> {0x22, 0x5C, 0x0A, 0x0D} \<and> rune c < 128"
proof -
  assume n: "noEscapeTable c"
  then have "rune c \<noteq> rune CHR 0x22" "rune c \<noteq> rune CHR 0x5C"
    unfolding noEscapeTable_def rune_inject by simp_all
  with n show ?thesis by (simp add: noEscapeTable_def)
qed

lemma quote_escape_escape:
  assumes "\<not> noEscapeTable c" "c \<in> {CHR 0x22, CHR 0x5C, CHR 0x0A, CHR 0x0D, CHR 0x09, CHR 0x08, CHR 0x0C}"
  shows "\<exists>e \<in> {CHR 0x22, CHR 0x5C, CHR ''n'', CHR ''r'', CHR ''t'', CHR ''b'', CHR ''f''}.
    quote_escape (CHR 0x22) c = [CHR 0x5C, e]"
  using assms(2) by (auto simp: quote_escape_def)

lemma quoted_multi:
  assumes "decode1 (c # x) = Inr (r, sz)" "\<not> rune c < 0x80"
  shows "quote_bytes (CHR 0x22) (c # x) = take sz (c # x) @ quote_bytes (CHR 0x22) (drop sz (c # x))"
proof -
  have "\<not> noEscapeTable c" using assms(2) by (simp add: noEscapeTable_def)
  with decode1_rune [OF assms(1)] assms(2) show ?thesis
    by (simp only: quote_bytes.simps(2) if_True if_False prod.case simp_thms not_less)
qed

lemma quoted_first:
  assumes "readable (c # y)"
  shows "\<exists>b u. quote_bytes (CHR 0x22) (c # y) = b # u \<and> (b = c \<and> c \<noteq> CHR 0x22 \<or> b = CHR 0x5C)"
proof (cases "rune c < 0x80")
  case True
  then have "noEscapeTable c \<or> c \<in> {CHR 0x22, CHR 0x5C, CHR 0x0A, CHR 0x0D, CHR 0x09, CHR 0x08, CHR 0x0C}"
    using assms by (simp add: readable.simps)
  then consider "noEscapeTable c" | e where "\<not> noEscapeTable c" "quote_escape (CHR 0x22) c = [CHR 0x5C, e]"
    using quote_escape_escape [of c] by blast
  then show ?thesis
    by cases (use True in \<open>simp_all add: quote_bytes.simps(2) noEscapeTable_def\<close>)
next
  case False
  then obtain r sz where d: "decode1 (c # y) = Inr (r, sz)"
    using assms by (auto simp: readable.simps split: sum.splits)
  then obtain n where "sz = Suc n" using decode1_Inr [OF d] by (cases sz) auto
  with quoted_multi [OF d False] False show ?thesis by auto
qed

lemma quoted_head:
  assumes "readable x" "x = [] \<or> hd x \<noteq> CHR ''/''"
  shows "hd (quote_bytes (CHR 0x22) x @ CHR 0x22 # t) \<noteq> CHR ''/''"
  using assms quoted_first by (cases x) fastforce+

lemma takes_quoted:
  assumes "readable x" "s_input s = quote_bytes (CHR 0x22) x @ CHR 0x22 # t" "s_version s = VersionV2"
  shows "\<exists>s'. takes (inside False) s (quote_bytes (CHR 0x22) x) (inside False) s'"
  using assms
proof (induction x arbitrary: s rule: readable.induct)
  case 1
  then show ?case using takes_refl by auto
next
  case (2 c x)
  have "\<exists>d r s1. quote_bytes (CHR 0x22) (c # x) = d @ quote_bytes (CHR 0x22) r
     \<and> takes (inside False) s d (inside False) s1 \<and> (\<forall>s. s_input s = quote_bytes (CHR 0x22) r @ CHR 0x22 # t \<longrightarrow>
        s_version s = VersionV2 \<longrightarrow> (\<exists>s'. takes (inside False) s (quote_bytes (CHR 0x22) r) (inside False) s'))"
  proof (cases "rune c < 0x80")
    case True
    then have x: "readable x" "c = CHR 0x5C \<Longrightarrow> x = [] \<or> hd x \<noteq> CHR ''/''" "noEscapeTable c
        \<or> c \<in> {CHR 0x22, CHR 0x5C, CHR 0x0A, CHR 0x0D, CHR 0x09, CHR 0x08, CHR 0x0C}"
      using "2.prems"(1) by (simp_all add: readable.simps)
    note IH = "2.IH"(1) [OF True x(1)]
    show ?thesis
    proof (cases "noEscapeTable c")
      case plain: True
      have "takes (inside False) s [c] (inside False) (skip s)"
        using "2.prems"(2) plain plain_rune [of "rune c" s] plain_char [OF plain]
        by (intro takes_ascii [of _ c "quote_bytes (CHR 0x22) x @ CHR 0x22 # t"]) (simp_all add: quote_bytes.simps)
      with plain IH show ?thesis by (intro exI [of _ "[c]"] exI [of _ x]) (auto simp: quote_bytes.simps)
    next
      case False
      with x(3) quote_escape_escape [OF False] obtain e where
        e: "e \<in> {CHR 0x22, CHR 0x5C, CHR ''n'', CHR ''r'', CHR ''t'', CHR ''b'', CHR ''f''}"
          "quote_escape (CHR 0x22) c = [CHR 0x5C, e]" by blast
      have q: "quote_bytes (CHR 0x22) (c # x) = [CHR 0x5C, e] @ quote_bytes (CHR 0x22) x"
        using False True e(2) by (simp add: quote_bytes.simps)
      have c: "e = CHR 0x5C \<Longrightarrow> c = CHR 0x5C" using e(2) x(3) False by (auto simp: quote_escape_def split: if_splits)
      have "s_input s = CHR 0x5C # e # quote_bytes (CHR 0x22) x @ CHR 0x22 # t" using "2.prems"(2) q by simp
      from takes_escape [OF this "2.prems"(3) e(1) quoted_head [OF x(1) x(2) [OF c]]] q IH
      show ?thesis by (intro exI [of _ "[CHR 0x5C, e]"] exI [of _ x]) auto
    qed
  next
    case False
    then obtain r sz where d: "decode1 (c # x) = Inr (r, sz)" "readable (drop sz (c # x))"
      using "2.prems"(1) by (auto simp: readable.simps split: sum.splits)
    note dr = decode1_rune [OF d(1)] and q = quoted_multi [OF d(1) False]
    have sz: "0 < sz" "sz \<le> length (c # x)" using decode1_Inr [OF d(1)] by auto
    have i: "s_input s = take sz (c # x) @ quote_bytes (CHR 0x22) (drop sz (c # x)) @ CHR 0x22 # t"
      using "2.prems"(2) q by simp
    have "decode_rune (s_input s) = (r, sz)" unfolding i by (rule decode_rune_append [OF conjunct1 [OF dr]]) (simp add: dr)
    then have "decode1 (s_input s) = Inr (r, sz)" using dr sz by (simp add: decode1_def)
    moreover have "\<not> r < 128" using decode_rune_lt_128 [OF conjunct1 [OF dr]] False by auto
    ultimately have "takes (inside False) s (take sz (s_input s)) (inside False) (skip s)"
      by (intro takes_rune [of s r] plain_rune) auto
    moreover have "take sz (s_input s) = take sz (c # x)" using i sz(2) by simp
    ultimately show ?thesis using q "2.IH"(2) [OF False d(1) refl d(2)]
      by (intro exI [of _ "take sz (c # x)"] exI [of _ "drop sz (c # x)"] exI [of _ "skip s"]) auto
  qed
  then obtain d r s1 where r: "quote_bytes (CHR 0x22) (c # x) = d @ quote_bytes (CHR 0x22) r"
    "takes (inside False) s d (inside False) s1"
    "\<And>s. s_input s = quote_bytes (CHR 0x22) r @ CHR 0x22 # t \<Longrightarrow> s_version s = VersionV2 \<Longrightarrow>
       (\<exists>s'. takes (inside False) s (quote_bytes (CHR 0x22) r) (inside False) s')" by blast
  from takes_input [OF r(2), of "quote_bytes (CHR 0x22) r @ CHR 0x22 # t"] "2.prems"(2,3) r(1)
  have "s_input s1 = quote_bytes (CHR 0x22) r @ CHR 0x22 # t" "s_version s1 = VersionV2" by simp_all
  from r(3) [OF this] takes_trans [OF r(2)] r(1) show ?case by auto
qed

text \<open>A quoted string, and then anything of ASCII or nothing.\<close>

lemma readQuotedString_run:
  assumes "ready s" "s_input s = QuoteString x @ rest" "readable x" "stops (\<lambda>_. True) rest"
  shows "\<exists>s'. readQuotedString s = (Inr (QuoteString x), s') \<and> adv s (QuoteString x) s'"
proof -
  let ?q = "CHR 0x22" and ?s = "pushMark s"
  have Q: "QuoteString x = [?q] @ quote_bytes ?q x @ [?q]" by (simp add: QuoteString_def quoted_bytes)
  have i: "s_input ?s = ?q # quote_bytes ?q x @ ?q # rest" "s_version ?s = VersionV2"
    using assms(1,2) by (simp_all add: Q ready_def pushMark_def)
  have "quoted_rune 0x22 quote_start (rune ?q) ?s = (True, inside False)"
    by (simp add: quoted_rune_def quote_start_def inside_def)
  then have a: "takes quote_start ?s [?q] (inside False) (skip ?s)" using takes_ascii [OF i(1)] by simp
  have i1: "s_input (skip ?s) = quote_bytes ?q x @ ?q # rest" "s_version (skip ?s) = VersionV2"
    using takes_input [OF a, of "quote_bytes ?q x @ ?q # rest"] i by simp_all
  from takes_quoted [OF assms(3) i1] obtain s2 where b: "takes (inside False) (skip ?s) (quote_bytes ?q x) (inside False) s2"
    by blast
  have i2: "s_input s2 = ?q # rest" using takes_input [OF b, of "?q # rest"] i1 by simp
  have "quoted_rune 0x22 (inside False) (rune ?q) s2 = (True, closed)"
    by (simp add: quoted_rune_def inside_def closed_def isWhiteSpace_def isNewline_def)
  then have c: "takes (inside False) s2 [?q] closed (skip s2)" using takes_ascii [OF i2] by simp
  from takes_trans [OF takes_trans [OF a b] c] have t: "takes quote_start ?s (QuoteString x) closed (skip s2)"
    by (simp add: Q)
  have i3: "s_input (skip s2) = rest" using takes_input [OF c, of rest] i2 by simp
  have end_rune: "quoted_rune 0x22 closed r s = (False, closed)" for r s by (simp add: quoted_rune_def closed_def)
  have "\<exists>c. readWhile_loop (quoted_rune 0x22) 2 True closed (skip s2)
      = ((readWhile_stop True c 2 (skip s2), closed), skip s2)"
  proof (cases rest)
    case Nil
    with i3 show ?thesis
      by (intro exI [of _ 0]) (simp add: readWhile_loop.simps [of _ 2 True closed "skip s2"] peek_Nil)
  next
    case (Cons r t)
    then have "rune r < 128" using assms(4) by (simp add: stops_def)
    with i3 Cons show ?thesis
      by (intro exI [of _ "rune r"])
        (simp add: readWhile_loop.simps [of _ 2 True closed "skip s2"] peek_ascii [of _ r t] end_rune)
  qed
  then obtain e where "readWhile_loop (quoted_rune 0x22) 2 False quote_start ?s
      = ((readWhile_stop True e 2 (skip s2), closed), skip s2)"
    using t by (auto simp: takes_def Q)
  moreover have "adv ?s (QuoteString x) (skip s2)" using t by (simp add: takes_def)
  ultimately have "readWhileC (quoted_rune 0x22) quote_start 2 s = ((Inr (QuoteString x), closed), popMark (skip s2))
      \<and> adv s (QuoteString x) (popMark (skip s2))"
    using assms(1) by (intro readWhileC_run) (simp_all add: Q ready_def)
  moreover have "peek s = Inr 0x22" using peek_ascii [of s ?q] assms(2) by (simp add: Q)
  ultimately show ?thesis by (auto simp: readQuotedString_def readQuotedStringQ_def)
qed

lemma next_quoted:
  assumes "ready s" "s_input s = QuoteString x @ rest" "readable x" "stops (\<lambda>c. c \<noteq> CHR 0x22) rest"
  shows "\<exists>s'. next_lexeme s = (Inr (QuotedString, QuoteString x), s') \<and> adv s (QuoteString x) s'"
proof -
  let ?q = "CHR 0x22"
  have Q: "QuoteString x = [?q] @ quote_bytes ?q x @ [?q]" by (simp add: QuoteString_def quoted_bytes)
  have i: "s_input s = ?q # quote_bytes ?q x @ ?q # rest" using assms(2) by (simp add: Q)
  have st: "stops (\<lambda>_. True) rest" using assms(4) by (auto simp: stops_def split: list.splits)
  have "peekThree s \<noteq> Inr (0x22, 0x22, 0x22)"
  proof (cases x)
    case Nil
    have "decode1 rest \<noteq> Inr (0x22, k)" for k
    proof (cases rest)
      case (Cons c t)
      with assms(4) have c: "rune c < 128" "c \<noteq> CHR 0x22" by (simp_all add: stops_def)
      from c(2) have "rune c \<noteq> rune CHR 0x22" by (simp only: rune_inject not_False_eq_True)
      with Cons c(1) show ?thesis by (simp add: decode1_ascii)
    qed (simp add: decode1_def)
    with Nil i show ?thesis
      by (auto simp: peekThree_def peekAtSize_def decode1_ascii numeral_2_eq_2 split: sum.splits)
  next
    case (Cons c y)
    from quoted_first [of c y] assms(3) Cons obtain b u where
      b: "quote_bytes ?q x = b # u" "b \<noteq> ?q" by auto
    have "decode1 (quote_bytes ?q x @ ?q # rest) \<noteq> Inr (0x22, k)" for k
    proof
      assume "decode1 (quote_bytes ?q x @ ?q # rest) = Inr (0x22, k)"
      from decode_rune_lt_128 [OF conjunct1 [OF decode1_rune [OF this]]] b have "rune b = rune ?q" by simp
      with b(2) show False by (simp only: rune_inject)
    qed
    with i show ?thesis
      by (auto simp: peekThree_def peekAtSize_def decode1_ascii split: sum.splits)
  qed
  with readQuotedString_run [OF assms(1,2,3) st] peekSize_ascii [OF i] peek_ascii [OF i] assms(1) show ?thesis
    by (auto simp: next_lexeme_def next_default_def readIdentifier_def as_token_def ready_def isWhiteSpace_def
        isNewline_def isDigit_def)
qed

section \<open>Texts of lexemes\<close>

text \<open>
  A lexeme is a token id with its text; \<open>fits\<close> says that it is read as such before \<open>rest\<close>, and
  \<open>spelled\<close> that a list of them is.
\<close>

definition fits :: "token_id \<times> bytes \<Rightarrow> bytes \<Rightarrow> bool" where
  "fits l rest \<longleftrightarrow> (case l of (tid, d) \<Rightarrow>
     tid = BareIdentifier \<and> plain_name d \<and> follows ('' ='' @ [CHR 0x0A]) rest
   \<or> tid = Whitespace \<and> d \<noteq> [] \<and> set d \<subseteq> {CHR '' '', CHR 0x09} \<and> stops (\<lambda>c. \<not> isWhiteSpace (rune c)) rest
   \<or> tid = Decimal \<and> integer_literal d \<and> follows breaks rest
   \<or> tid = QuotedString \<and> (\<exists>x. d = QuoteString x \<and> readable x) \<and> stops (\<lambda>c. c \<noteq> CHR 0x22) rest
   \<or> (\<exists>c. d = [c] \<and> punctuation tid = Some c))"

fun spelled :: "(token_id \<times> bytes) list \<Rightarrow> bool" where
  "spelled [] \<longleftrightarrow> True"
| "spelled (l # ls) \<longleftrightarrow> fits l (concat (map snd ls)) \<and> spelled ls"

lemma next_fits:
  assumes "ready s" "s_input s = snd l @ rest" "fits l rest"
  shows "\<exists>s'. next_lexeme s = (Inr l, s') \<and> adv s (snd l) s'"
proof -
  obtain tid d where l: "l = (tid, d)" by fastforce
  have i: "s_input s = d @ rest" using assms(2) l by simp
  show ?thesis
    using assms(3) next_name [OF assms(1) i] next_blank [OF assms(1) i] next_integer [OF assms(1) i]
      next_quoted [OF assms(1), of _ rest] next_punctuation [OF assms(1), of _ rest tid] i
    unfolding fits_def l by fastforce
qed

lemma readNext_fits:
  assumes "ready s" "s_input s = snd l @ rest" "fits l rest"
  shows "\<exists>t s'. readNext s = (Inr t, s') \<and> (t_ID t, t_Data t) = l \<and> s_input s' = rest \<and> ready s'"
proof -
  obtain tid d where l: "l = (tid, d)" by fastforce
  from next_fits [OF assms] obtain s' where s': "next_lexeme s = (Inr l, s')" "adv s (snd l) s'" by blast
  then have "s_input s' = rest \<and> ready s'"
    using assms(1,2) by (auto simp: adv_def ready_def wf_def suffix_def)
  with s'(1) l assms(1) show ?thesis by (simp add: readNext_def ready_def)
qed

lemma ScanAll_spelled:
  assumes "ready s" "s_input s = concat (map snd ls)" "spelled ls"
  shows "\<exists>ts s'. ScanAll_loop acc s = (Inr (acc @ ts), s') \<and> map (\<lambda>t. (t_ID t, t_Data t)) ts = ls"
  using assms
proof (induction ls arbitrary: acc s)
  case Nil
  then have "readNext s = (Inl io_EOF, s)"
    by (simp add: readNext_def next_lexeme_def peekSize_def decode1_def ready_def)
  then show ?case by (intro exI [of _ "[]"] exI [of _ s]) (simp add: ScanAll_loop.simps [of acc s])
next
  case (Cons l ls)
  then obtain t s1 where t: "readNext s = (Inr t, s1)" "(t_ID t, t_Data t) = l"
    "s_input s1 = concat (map snd ls)" "ready s1"
    using readNext_fits [of s l "concat (map snd ls)"] by auto
  from Cons.IH [OF t(4,3), of "acc @ [t]"] Cons.prems(3) obtain ts s' where
    "ScanAll_loop (acc @ [t]) s1 = (Inr (acc @ t # ts), s')" "map (\<lambda>t. (t_ID t, t_Data t)) ts = ls" by auto
  with t(1,2) show ?case
    by (intro exI [of _ "t # ts"] exI [of _ s']) (simp add: ScanAll_loop.simps [of acc s])
qed

end
