(* ===== verification/Plain.thy ===== *)
theory Plain
  imports Lexemes Trees Writing
begin

text \<open>
  Plain documents, which are written in the same way in both versions, and the lexemes of a node:
  what a tree of tokens means as a node, which documents are plain, and that what
  \<open>document/node.go\<close> and \<open>internal/generator\<close> write for them is the text of these lexemes.
\<close>

section \<open>What a tree of tokens means\<close>

fun meaning :: "tree \<Rightarrow> dnode" where
  "meaning (Tree ty n es cs) =
     (let h = fold add_entry es (header ty n)
      in DNode (n_Name h) (n_Type h) (n_Arguments h) (n_Properties h) (map meaning cs) (n_Comment h))"

text \<open>A document that denotes trees unfolds into what they mean.\<close>

lemma denotes_meaning:
  "denotes s r t \<Longrightarrow> r < length s \<and> resolve s r = meaning t"
  "denotes_all s rs ts \<Longrightarrow> (\<forall>r \<in> set rs. r < length s) \<and> map (resolve s) rs = map meaning ts"
proof (induction s r t and s rs ts rule: denotes_denotes_all.induct)
  case (1 s r ty n es cs)
  let ?h = "fold add_entry es (header ty n)"
  from "1.prems" have h: "r < length s" "s ! r = ?h\<lparr>n_Children := n_Children (s ! r)\<rparr>"
    "\<forall>k \<in> set (n_Children (s ! r)). r < k" and d: "denotes_all s (n_Children (s ! r)) cs" by simp_all
  from "1.IH" [OF d] have k: "\<forall>k \<in> set (n_Children (s ! r)). k < length s"
    "map (resolve s) (n_Children (s ! r)) = map meaning cs" by simp_all
  have f: "filter (\<lambda>k. r < k \<and> k < length s) (n_Children (s ! r)) = n_Children (s ! r)"
    using h(3) k(1) by (simp add: filter_id_conv)
  obtain ks where n: "s ! r = ?h\<lparr>n_Children := ks\<rparr>" using h(2) by blast
  have "resolve s r = DNode (n_Name (s ! r)) (n_Type (s ! r)) (n_Arguments (s ! r)) (n_Properties (s ! r))
      (map meaning cs) (n_Comment (s ! r))"
    by (simp add: resolve.simps [of s r] Let_def f k(2))
  with n h(1) show ?case by (simp add: Let_def)
qed simp_all

lemma denotes_trees: "denotes_all (d_store d) (d_Nodes d) ts \<Longrightarrow> trees d = map meaning ts"
  using denotes_meaning(2) by (simp add: trees_def)

section \<open>Plain documents\<close>

text \<open>
  Values with the flags that reading gives them: integers, held as \<open>int64\<close> when they fit, and
  strings.
\<close>

definition int64 :: "int \<Rightarrow> bool" where
  "int64 n \<longleftrightarrow> - (2 ^ 63) \<le> n \<and> n < 2 ^ 63"

definition simple_value :: "kdl_value \<Rightarrow> bool" where
  "simple_value v =
     (case v_Value v of
        VInt n \<Rightarrow> int64 n \<and> v = no_value\<lparr>v_Value := VInt n\<rparr>
      | VBigInt n \<Rightarrow> \<not> int64 n \<and> v = no_value\<lparr>v_Value := VBigInt n\<rparr>
      | VString x \<Rightarrow> readable x \<and> v = no_value\<lparr>v_Value := VString x, v_Flag := FlagQuoted\<rparr>
      | _ \<Rightarrow> False)"

definition name_value :: "bytes \<Rightarrow> kdl_value" where
  "name_value x = no_value\<lparr>v_Value := VString x, v_Flag := FlagBare\<rparr>"

definition listed :: "(bytes \<times> kdl_value) list \<Rightarrow> properties" where
  "listed kvs = fold (\<lambda>(k, v). AddAllocated k v) kvs no_properties"

definition property_entries :: "properties \<Rightarrow> (bytes \<times> kdl_value) list" where
  "property_entries p = map (\<lambda>k. (k, the (p_props p k))) (order p)"

definition plain_properties :: "properties \<Rightarrow> bool" where
  "plain_properties p \<longleftrightarrow> p = listed (property_entries p)
     \<and> list_all (\<lambda>(k, v). plain_name k \<and> simple_value v) (property_entries p)"

fun plain_node :: "dnode \<Rightarrow> bool" where
  "plain_node (DNode name ty args props cs cm) \<longleftrightarrow>
     (case name of None \<Rightarrow> False | Some v \<Rightarrow>
        (case v_Value v of VString x \<Rightarrow> plain_name x \<and> v = name_value x | _ \<Rightarrow> False))
     \<and> ty = [] \<and> list_all simple_value args \<and> plain_properties props \<and> list_all plain_node cs \<and> cm = None"

text \<open>Options under which such a document is written in a form of the language, indented by blanks.\<close>

definition faithful :: "generator_options \<Rightarrow> bool" where
  "faithful g \<longleftrightarrow> \<not> g_IgnoreFlags g \<and> \<not> g_AddSemicolons g \<and> \<not> g_AddEquals g \<and> \<not> g_AddColons g
     \<and> \<not> g_EmitVersionMarker g \<and> set (g_Indent g) \<subseteq> {CHR '' '', CHR 0x09}"

section \<open>The lexemes of a node\<close>

abbreviation lexeme :: "token \<Rightarrow> token_id \<times> bytes" where
  "lexeme t \<equiv> (t_ID t, t_Data t)"

abbreviation texts :: "(token_id \<times> bytes) list \<Rightarrow> bytes" where
  "texts ls \<equiv> concat (map snd ls)"

definition value_lexeme :: "kdl_value \<Rightarrow> token_id \<times> bytes" where
  "value_lexeme v =
     (case v_Value v of
        VInt n \<Rightarrow> (Decimal, append_int [] n 10)
      | VBigInt n \<Rightarrow> (Decimal, append_int [] n 10)
      | VString x \<Rightarrow> (QuotedString, QuoteString x)
      | _ \<Rightarrow> (Unknown, []))"

definition space :: "token_id \<times> bytes" where "space = (Whitespace, '' '')"
definition newline :: "token_id \<times> bytes" where "newline = (Newline, [CHR 0x0A])"

definition margin :: "bytes \<Rightarrow> int \<Rightarrow> (token_id \<times> bytes) list" where
  "margin ind d = (if Repeat ind d = [] then [] else [(Whitespace, Repeat ind d)])"

definition argument_lexemes :: "kdl_value list \<Rightarrow> (token_id \<times> bytes) list" where
  "argument_lexemes args = concat (map (\<lambda>v. [space, value_lexeme v]) args)"

definition property_lexemes :: "(bytes \<times> kdl_value) list \<Rightarrow> (token_id \<times> bytes) list" where
  "property_lexemes kvs = concat (map (\<lambda>(k, v). [space, (BareIdentifier, k), (Equals, ''=''), value_lexeme v]) kvs)"

definition node_name :: "kdl_value option \<Rightarrow> bytes" where
  "node_name v = (case v of None \<Rightarrow> [] | Some v \<Rightarrow> (case v_Value v of VString x \<Rightarrow> x | _ \<Rightarrow> []))"

fun lexemes :: "bytes \<Rightarrow> int \<Rightarrow> dnode \<Rightarrow> (token_id \<times> bytes) list" where
  "lexemes ind d (DNode name ty args props cs cm) =
     margin ind d @ (BareIdentifier, node_name name) # argument_lexemes args
     @ property_lexemes (property_entries props)
     @ (if cs = [] then []
        else [space, (BraceOpen, ''{''), newline] @ concat (map (lexemes ind (d + 1)) cs)
          @ margin ind d @ [(BraceClose, ''}'')])
     @ [newline]"


lemma texts_concat: "texts (concat (map f xs)) = concat (map (\<lambda>x. texts (f x)) xs)"
  by (induction xs) simp_all

section \<open>Values and names\<close>

lemma simple_value_cases:
  assumes "simple_value v"
  obtains (int) n where "v = no_value\<lparr>v_Value := VInt n\<rparr>" "int64 n"
  | (big) n where "v = no_value\<lparr>v_Value := VBigInt n\<rparr>" "\<not> int64 n"
  | (string) x where "v = no_value\<lparr>v_Value := VString x, v_Flag := FlagQuoted\<rparr>" "readable x"
  using assms by (auto simp: simple_value_def split: go_value.splits)

lemma no_value_Flag: "no_value\<lparr>v_Value := w, v_Flag := FlagNone\<rparr> = no_value\<lparr>v_Value := w\<rparr>"
  by (simp add: no_value_def FlagNone_def)

lemma not_multiline: "readable x \<Longrightarrow> \<not> isMultilineStringToken (QuoteString x)"
  using quoted_first by (cases x)
    (fastforce simp: isMultilineStringToken_def QuoteString_def quoted_bytes triple_quote_def)+

lemma value_of_lexeme:
  assumes "simple_value v" "lexeme t = value_lexeme v"
  shows "ValueFromTokenInto t = Inr v \<and> t_ID t \<in> {Decimal, QuotedString}"
  using assms(1)
proof (cases v rule: simple_value_cases)
  case (int n)
  with assms(2) parse_written [of 10 n "[]"] show ?thesis
    by (simp add: value_lexeme_def ValueFromTokenInto_def token_number_def no_value_Flag int64_def)
next
  case (big n)
  with assms(2) parse_written [of 10 n "[]"] show ?thesis
    by (simp add: value_lexeme_def ValueFromTokenInto_def token_number_def no_value_Flag int64_def)
next
  case (string x)
  with assms(2) unquote_quoted [OF readable_quotable [OF string(2)]] not_multiline [OF string(2)] show ?thesis
    by (simp add: value_lexeme_def ValueFromTokenInto_def unquoteQuotedTokenString_def)
qed

lemma value_of_name: "lexeme t = (BareIdentifier, x) \<Longrightarrow> ValueFromTokenInto t = Inr (name_value x)"
  by (simp add: ValueFromTokenInto_def name_value_def)

text \<open>How they are written, in either version.\<close>

lemma written_value:
  assumes "simple_value v"
  shows "FormattedString v = snd (value_lexeme v)" "FormattedStringV2 v = snd (value_lexeme v)"
proof -
  have f: "Has (voNoBare OR voUseNumericFlags) voVersionV2 = False"
    "Has ((voNoBare OR voUseNumericFlags OR voStrictStringFlags) OR voVersionV2) voVersionV2"
    "Has (voNoBare OR voUseNumericFlags) voNoBare"
    "Has ((voNoBare OR voUseNumericFlags OR voStrictStringFlags) OR voVersionV2) voNoBare"
    "Has 0 f = False" "Has FlagQuoted FlagBinary = False" "Has FlagQuoted FlagOctal = False"
    "Has FlagQuoted FlagHexadecimal = False" "Has FlagQuoted FlagBareSuffixed = False"
    "Has FlagQuoted FlagBare = False" "Has FlagQuoted FlagMultiLine = False" "Has FlagQuoted FlagRaw = False"
    "Has FlagQuoted FlagQuoted" for f
    by (simp add: Has_def | code_simp)+
  from assms show "FormattedString v = snd (value_lexeme v)" "FormattedStringV2 v = snd (value_lexeme v)"
    by (cases v rule: simple_value_cases,
      simp_all add: FormattedString_def FormattedStringV2_def value_string_def append_value_def numeric_base_def
        append_string_value_def value_lexeme_def no_value_def QuoteString_def Let_def f)+
qed

lemma bare_loop_plain:
  "\<forall>c \<in> set d. rune c < 128 \<and> isBareIdentifierCharVersion (rune c) 0 False v \<Longrightarrow> bare_loop 0 v False (rune_list d)"
  by (induction d) simp_all

lemma v1_name_facts:
  "\<forall>c \<in> set letters. isBareIdentifierCharVersion (rune c) 0 True VersionV1"
  "\<forall>c \<in> set letters \<union> set ''0123456789-.''. isBareIdentifierCharVersion (rune c) 0 False VersionV1"
  by code_simp+

lemma plain_name_bare:
  assumes "plain_name x" "v = VersionV1 \<or> v = VersionV2"
  shows "IsBareIdentifierVersion x 0 v"
proof -
  obtain c d where x: "x = c # d" "c \<in> set letters" using assms(1) by (cases x) (auto simp: plain_name_def)
  have "\<forall>e \<in> set d. e \<in> set letters \<union> set ''0123456789-.''" using assms(1) x(1) by (simp add: plain_name_def)
  then have "\<forall>e \<in> set d. rune e < 128 \<and> isBareIdentifierCharVersion (rune e) 0 False v"
    using name_char_facts v1_name_facts(2) assms(2) by blast
  moreover have "rune c < 128 \<and> isBareIdentifierCharVersion (rune c) 0 True v"
    using letter_facts v1_name_facts(1) assms(2) x(2) by blast
  ultimately show ?thesis using x(1) by (simp add: IsBareIdentifierVersion_def bare_loop_plain)
qed

lemma written_name:
  assumes "plain_name x"
  shows "NodeNameString (name_value x) = x" "NodeNameStringV2 (name_value x) = x"
proof -
  have f: "Has voSimpleString voVersionV2 = False" "Has (voSimpleString OR voVersionV2) voVersionV2"
    "Has voSimpleString voNoBare = False" "Has (voSimpleString OR voVersionV2) voNoBare = False"
    "Has voSimpleString voSimpleString" "Has voSimpleString voUseNumericFlags = False"
    "Has (voSimpleString OR voVersionV2) voUseNumericFlags = False" "Has FlagBare FlagBare"
    by code_simp+
  show "NodeNameString (name_value x) = x" "NodeNameStringV2 (name_value x) = x"
    using plain_name_bare [OF assms]
    by (simp_all add: NodeNameString_def NodeNameStringV2_def value_string_def append_value_def numeric_base_def
        append_string_value_def name_value_def no_value_def Let_def f)
qed

section \<open>The lexemes are what is written\<close>

definition writes_plain :: "node_write_options \<Rightarrow> bool" where
  "writes_plain opts \<longleftrightarrow> w_LeadingTrailingSpace opts \<and> w_NameAndType opts \<and> \<not> w_IgnoreFlags opts
     \<and> \<not> w_AddSemicolons opts \<and> \<not> w_AddEquals opts \<and> \<not> w_AddColons opts
     \<and> (w_Version opts = VersionV1 \<or> w_Version opts = VersionV2)"

lemma text_margin: "texts (margin ind d) = Repeat ind d"
  by (simp add: margin_def)

lemma indent_margin: "writes_plain opts \<Longrightarrow> indent_bytes opts = Repeat (w_Indent opts) (w_Depth opts)"
  by (simp add: writes_plain_def indent_bytes_def Repeat_def)

lemma text_arguments:
  assumes "writes_plain opts" "list_all simple_value args"
  shows "arguments_text opts True args = texts (argument_lexemes args)"
  using assms(2)
proof (induction args)
  case (Cons v args)
  have "argument_text opts v = snd (value_lexeme v)"
    using assms(1) Cons.prems written_value [of v] by (simp add: argument_text_def writes_plain_def)
  with Cons show ?case by (simp add: argument_lexemes_def space_def)
qed (simp add: argument_lexemes_def)

lemma listed_ok: "plain_properties p \<Longrightarrow> ok_properties p"
  using props.ok_build [of "property_entries p"] by (simp add: plain_properties_def props.build_def listed_def)

lemma text_properties:
  assumes "writes_plain opts" "plain_properties p"
  shows "property_list_text opts p = texts (property_lexemes (property_entries p))"
proof -
  let ?ver = "w_Version opts" and ?show = "if w_Version opts = VersionV2 then FormattedStringV2 else FormattedString"
  have "'' '' @ property_key k ?ver @ ''='' @ (case p_props p k of None \<Rightarrow> [] | Some v \<Rightarrow> ?show v)
      = texts [space, (BareIdentifier, k), (Equals, ''=''), value_lexeme (the (p_props p k))]"
    if "k \<in> set (order p)" for k
  proof -
    have "k \<in> dom (p_props p)" using that listed_ok [OF assms(2)] by (simp add: ok_properties_def)
    then obtain v where v: "p_props p k = Some v" by blast
    have e: "plain_name k \<and> simple_value v"
      using assms(2) that v by (auto simp: plain_properties_def property_entries_def list_all_iff)
    then have "IsBareIdentifierVersion k 0 ?ver" "k \<noteq> []"
      using assms(1) plain_name_bare by (simp_all add: writes_plain_def plain_name_def)
    with e v written_value [of v] show ?thesis by (simp add: property_key_def space_def)
  qed
  then have "properties_string False ?ver p = texts (property_lexemes (property_entries p))"
    unfolding properties_string_def property_text_def property_lexemes_def property_entries_def texts_concat map_map
    by (intro arg_cong [where f = concat] map_cong refl) simp
  with assms(1) show ?thesis
    by (auto simp: property_list_text_def writes_plain_def Exist_def property_lexemes_def property_entries_def)
qed

lemma text_node:
  "plain_node n \<Longrightarrow> writes_plain opts \<Longrightarrow> node_text opts n = texts (lexemes (w_Indent opts) (w_Depth opts) n)"
proof (induction n arbitrary: opts)
  case (DNode name ty args props cs cm)
  let ?opts = "opts\<lparr>w_Depth := w_Depth opts + 1\<rparr>"
  from DNode.prems obtain x where x: "name = Some (name_value x)" "plain_name x"
    by (auto split: option.splits go_value.splits)
  have "writes_plain ?opts" using DNode.prems(2) by (simp add: writes_plain_def)
  then have "node_text ?opts c = texts (lexemes (w_Indent opts) (w_Depth opts + 1) c)" if "c \<in> set cs" for c
    using DNode.IH [OF that, of ?opts] DNode.prems(1) that by (simp add: list_all_iff)
  then have "concat (map (node_text ?opts) cs) = texts (concat (map (lexemes (w_Indent opts) (w_Depth opts + 1)) cs))"
    by (simp add: texts_concat cong: map_cong)
  moreover have "head_text opts [] name = x" "separator_text opts args props (cs \<noteq> []) = []"
    "w_NameAndType opts" "w_LeadingTrailingSpace opts" "\<not> w_AddSemicolons opts"
    using DNode.prems(2) x written_name [OF x(2)]
    by (auto simp: head_text_def separator_text_def writes_plain_def)
  moreover have "arguments_text opts True args = texts (argument_lexemes args)"
    "property_list_text opts props = texts (property_lexemes (property_entries props))"
    using DNode.prems text_arguments text_properties by simp_all
  moreover have "(if w_Depth opts > 0 then Repeat (w_Indent opts) (w_Depth opts) else []) = Repeat (w_Indent opts) (w_Depth opts)"
    by (simp add: Repeat_def)
  moreover have "ty = []" "cm = None" "node_name name = x" using DNode.prems(1) x(1) by (simp_all add: node_name_def name_value_def)
  ultimately show ?case
    by (simp add: indent_margin [OF DNode.prems(2)] text_margin space_def newline_def)
qed

end
