(* ===== verification/TextTrip.thy ===== *)
theory TextTrip
  imports Plain
begin

text \<open>
  The whole way of a text: a document of plain nodes is generated (\<open>internal/generator\<close>), scanned
  (\<open>internal/tokenizer\<close>) and parsed (\<open>internal/parser\<close>), and comes back.  The lexemes of \<open>Plain\<close>
  stand in the middle: their texts make up what is written, they are what the scanner finds
  (\<open>Lexemes\<close>), and they spell the tree that the parser builds (\<open>Trees\<close>).
\<close>

section \<open>The lexemes are read as such\<close>

definition firm :: "bytes \<Rightarrow> bool" where
  "firm rest \<longleftrightarrow> (\<exists>c r. rest = c # r \<and> rune c < 128 \<and> \<not> isWhiteSpace (rune c))"

lemma firm_append: "firm x \<Longrightarrow> firm (x @ y)"
  by (auto simp: firm_def)

lemma number_char_facts:
  "\<forall>c \<in> set ''-0123456789''. rune c < 128 \<and> \<not> isWhiteSpace (rune c)" "rune CHR 0x22 < 128 \<and> \<not> isWhiteSpace (rune CHR 0x22)"
  "rune CHR ''{'' < 128 \<and> \<not> isWhiteSpace (rune CHR ''{'')" "rune CHR ''}'' < 128 \<and> \<not> isWhiteSpace (rune CHR ''}'')"
  by code_simp+

lemma digit_written: "d < 10 \<Longrightarrow> hex_digit_char d \<in> set ''0123456789''"
proof -
  assume "d < 10"
  then have "d \<in> {0, 1, 2, 3, 4, 5, 6, 7, 8, 9}" by auto
  then show ?thesis by (auto simp: hex_digit_char_def)
qed

lemma integer_written: "integer_literal (append_int [] n 10)"
proof -
  have "digits (map hex_digit_char (nat_digits 10 k))" for k
    using nat_digits_less [of 10 _ k] digit_written by (auto simp: digits_def)
  then show ?thesis by (auto simp: append_int_def integer_literal_def)
qed

lemma firm_Cons: "firm (c # r) \<longleftrightarrow> rune c < 128 \<and> \<not> isWhiteSpace (rune c)"
  by (auto simp: firm_def)

lemma all_hd: "d \<noteq> [] \<and> (\<forall>c \<in> set d. c \<in> S) \<Longrightarrow> \<exists>c r. d = c # r \<and> c \<in> S"
  by (cases d) auto

lemma digits_hd: "digits d \<Longrightarrow> \<exists>c r. d = c # r \<and> c \<in> set ''0123456789''"
  unfolding digits_def by (rule all_hd)

lemma firm_integer: "integer_literal d \<Longrightarrow> firm d"
proof -
  assume "integer_literal d"
  then obtain c r where d: "d = c # r" "c = CHR ''-'' \<or> c \<in> set ''0123456789''"
    using digits_hd unfolding integer_literal_def by blast
  then have "c \<in> set ''-0123456789''" by (simp only: list.set insert_iff)
  with number_char_facts(1) have "rune c < 128 \<and> \<not> isWhiteSpace (rune c)" by blast
  then show ?thesis unfolding d(1) firm_Cons .
qed

lemma firm_value:
  assumes "simple_value v" shows "firm (snd (value_lexeme v))"
  using assms
proof (cases v rule: simple_value_cases)
  case (string x)
  with number_char_facts(2) show ?thesis by (simp add: value_lexeme_def QuoteString_def quoted_bytes firm_Cons)
qed (simp_all add: value_lexeme_def firm_integer integer_written)

lemma firm_name: "plain_name x \<Longrightarrow> firm x"
  using letter_facts by (cases x) (auto simp: plain_name_def firm_def)

lemma fits_space: "firm rest \<Longrightarrow> fits space rest"
  by (auto simp: fits_def space_def stops_def firm_def)

lemma follows_breaks:
  assumes "follows breaks rest"
  shows "follows ('' ='' @ [CHR 0x0A]) rest" "stops (\<lambda>c. c \<noteq> CHR 0x22) rest"
  using assms break_facts by (auto simp: follows_def breaks_def stops_def neq_Nil_conv)

lemma fits_value:
  assumes "simple_value v" "follows breaks rest" shows "fits (value_lexeme v) rest"
  using assms(1)
  by (cases v rule: simple_value_cases)
    (use assms(2) integer_written follows_breaks(2) [OF assms(2)] in \<open>auto simp: value_lexeme_def fits_def\<close>)

lemma fits_name: "plain_name x \<Longrightarrow> follows ('' ='' @ [CHR 0x0A]) rest \<Longrightarrow> fits (BareIdentifier, x) rest"
  by (simp add: fits_def)

lemma fits_punctuation: "punctuation tid = Some c \<Longrightarrow> fits (tid, [c]) rest"
  by (auto simp: fits_def)

lemma follows_space: "follows breaks (snd space @ rest)"
  by (simp add: space_def follows_def breaks_def)

lemma spelled_arguments:
  assumes "list_all simple_value args" "spelled ls" "follows breaks (texts ls)"
  shows "spelled (argument_lexemes args @ ls) \<and> follows breaks (texts (argument_lexemes args @ ls))"
  using assms(1)
proof (induction args)
  case (Cons v args)
  with fits_value [of v] fits_space [OF firm_append [OF firm_value]] follows_space
  show ?case by (auto simp: argument_lexemes_def)
qed (simp add: argument_lexemes_def assms)

lemma spelled_properties:
  assumes "list_all (\<lambda>(k, v). plain_name k \<and> simple_value v) kvs" "spelled ls" "follows breaks (texts ls)"
  shows "spelled (property_lexemes kvs @ ls) \<and> follows breaks (texts (property_lexemes kvs @ ls))"
  using assms(1)
proof (induction kvs)
  case (Cons kv kvs)
  obtain k v where kv: "kv = (k, v)" by fastforce
  have "fits (Equals, ''='') r" "follows ('' ='' @ [CHR 0x0A]) (CHR ''='' # r)" for r
    using fits_punctuation [of Equals "CHR ''=''"] by (simp_all add: punctuation_def follows_def)
  with Cons kv fits_value [of v] fits_space [OF firm_append [OF firm_name, of k]] fits_name [of k] follows_space
  show ?case by (auto simp: property_lexemes_def)
qed (simp add: property_lexemes_def assms)

lemma spelled_margin:
  assumes "firm (texts ls)" "spelled ls" "set ind \<subseteq> {CHR '' '', CHR 0x09}"
  shows "spelled (margin ind d @ ls)"
proof (cases "Repeat ind d = []")
  case False
  have "set (Repeat ind d) \<subseteq> {CHR '' '', CHR 0x09}" using assms(3) by (auto simp: Repeat_def)
  moreover have "stops (\<lambda>c. \<not> isWhiteSpace (rune c)) (texts ls)" using assms(1) by (auto simp: stops_def firm_def)
  ultimately show ?thesis using False assms(2) by (simp add: margin_def fits_def)
qed (simp add: margin_def assms)

lemma spelled_concat:
  assumes "\<And>x ls. x \<in> set xs \<Longrightarrow> spelled ls \<Longrightarrow> spelled (f x @ ls)" "spelled ls"
  shows "spelled (concat (map f xs) @ ls)"
  using assms(1) by (induction xs) (auto simp: assms(2))

lemma plain_DNode:
  assumes "plain_node (DNode name ty args props cs cm)"
  obtains x where "name = Some (name_value x)" "plain_name x" "node_name name = x" "ty = []" "cm = None"
    "list_all simple_value args" "plain_properties props" "\<forall>c \<in> set cs. plain_node c"
    "list_all (\<lambda>(k, v). plain_name k \<and> simple_value v) (property_entries props)"
  using assms by (auto simp: node_name_def plain_properties_def list_all_iff name_value_def
      split: option.splits go_value.splits)

lemma spelled_node:
  assumes ind: "set ind \<subseteq> {CHR '' '', CHR 0x09}"
  shows "plain_node n \<Longrightarrow> spelled ls \<Longrightarrow> spelled (lexemes ind d n @ ls)"
proof (induction n arbitrary: d ls)
  case (DNode name ty args props cs cm)
  obtain x where x: "plain_name x" "node_name name = x" "list_all simple_value args" "\<forall>c \<in> set cs. plain_node c"
    "list_all (\<lambda>(k, v). plain_name k \<and> simple_value v) (property_entries props)"
    using plain_DNode [OF DNode.prems(1)] by metis
  have p: "fits newline r" "fits (BraceOpen, ''{'') r" "fits (BraceClose, ''}'') r" for r
    using fits_punctuation by (simp_all add: newline_def punctuation_def)
  have f: "firm (CHR ''{'' # r)" "firm (CHR ''}'' # r)" "follows breaks (snd newline @ r)" for r
    using number_char_facts by (auto simp: firm_def newline_def follows_def breaks_def)
  let ?close = "margin ind d @ (BraceClose, ''}'') # newline # ls"
  let ?block = "if cs = [] then [] else [space, (BraceOpen, ''{''), newline] @ concat (map (lexemes ind (d + 1)) cs)
    @ margin ind d @ [(BraceClose, ''}'')]"
  have l: "spelled (newline # ls)" using p(1) DNode.prems(2) by simp
  have "spelled ?close" using p(3) l f(2) by (intro spelled_margin ind) simp_all
  then have k: "spelled (concat (map (lexemes ind (d + 1)) cs) @ ?close)"
    using DNode.IH x(4) by (intro spelled_concat) auto
  have tail: "spelled (?block @ newline # ls)" "follows breaks (texts (?block @ newline # ls))"
    using l k p fits_space [OF f(1)] follows_space f(3) by simp_all
  from spelled_arguments [OF x(3)] spelled_properties [OF x(5) tail]
  have "spelled (argument_lexemes args @ property_lexemes (property_entries props) @ ?block @ newline # ls)"
    "follows breaks (texts (argument_lexemes args @ property_lexemes (property_entries props) @ ?block @ newline # ls))"
    by blast+
  with fits_name [OF x(1) follows_breaks(1)]
  have "spelled ((BareIdentifier, x) # argument_lexemes args @ property_lexemes (property_entries props) @ ?block @ newline # ls)"
    by simp
  from spelled_margin [OF _ this ind, of d] firm_append [OF firm_name [OF x(1)]] show ?case
    by (simp add: x(2))
qed

section \<open>The lexemes spell the document\<close>

lemma lexeme_value:
  assumes "simple_value v" "lexeme t = value_lexeme v"
  shows "arg_token True t" "value_token t" "token_value t = v"
  using value_of_lexeme [OF assms] by (auto simp: arg_token_def value_token_def is_good_def token_value_def)

lemma lexeme_name:
  assumes "lexeme t = (BareIdentifier, x)"
  shows "name_token t" "token_value t = name_value x"
  using value_of_name [OF assms] assms by (simp_all add: name_token_def is_good_def token_value_def)

definition with_entries :: "kdl_value list \<Rightarrow> (bytes \<times> kdl_value) list \<Rightarrow> node \<Rightarrow> node" where
  "with_entries args kvs n = n\<lparr>n_Arguments := n_Arguments n @ args,
     n_Properties := fold (\<lambda>(k, v). AddAllocated k v) kvs (n_Properties n)\<rparr>"

lemma name_value_text: "ValueString (name_value x) = x"
proof -
  have "Has (voNoQuotes OR voUseNumericFlags) voVersionV2 = False" "Has (voNoQuotes OR voUseNumericFlags) voNoBare = False"
    "Has (voNoQuotes OR voUseNumericFlags) voNoQuotes" "Has FlagBare FlagBinary = False" "Has FlagBare FlagOctal = False"
    "Has FlagBare FlagHexadecimal = False"
    by code_simp+
  then show ?thesis
    by (simp add: ValueString_def append_value_def append_string_value_def numeric_base_def name_value_def Let_def)
qed

lemma not_annotated: "typed (annot None) v = v"
  by (simp add: typed_def annot_def)

lemma spells_properties:
  assumes "list_all (\<lambda>(k, v). plain_name k \<and> simple_value v) kvs" "map lexeme ts = property_lexemes kvs"
  shows "\<exists>es. spells_entries True p ts es \<and> (\<forall>n. fold add_entry es n = with_entries [] kvs n)"
  using assms
proof (induction kvs arbitrary: ts p)
  case Nil
  then show ?case by (intro exI [of _ "[]"]) (simp add: property_lexemes_def with_entries_def spells_entries.stop)
next
  case (Cons kv kvs)
  obtain k v where kv: "kv = (k, v)" "simple_value v" using Cons.prems(1) by (cases kv) auto
  with Cons.prems(2) obtain w kt e x ts' where ts: "ts = w # kt # e # x # ts'" "lexeme w = space"
    "lexeme kt = (BareIdentifier, k)" "lexeme e = (Equals, ''='')" "lexeme x = value_lexeme v"
    "map lexeme ts' = property_lexemes kvs"
    by (auto simp: property_lexemes_def map_eq_Cons_conv)
  from Cons.IH [OF _ ts(6), of False] Cons.prems(1) obtain es where
    es: "spells_entries True False ts' es" "\<And>n. fold add_entry es n = with_entries [] kvs n" by auto
  have "spells_entries True p (w # kt # e # [] @ x # ts') (Prop kt None x # es)"
    using ts lexeme_name(1) [OF ts(3)] lexeme_value(2) [OF kv(2) ts(5)] es(1)
    by (intro spells_entries.property spells_annot.none) (simp_all add: space_def)
  then have "spells_entries True p ts (Prop kt None x # es)" by (simp add: ts(1))
  moreover have "fold add_entry (Prop kt None x # es) n = with_entries [] (kv # kvs) n" for n
    by (simp add: es(2) lexeme_name(2) [OF ts(3)] lexeme_value(3) [OF kv(2) ts(5)] kv(1) name_value_text not_annotated
        with_entries_def AddPropertyValue_def)
  ultimately show ?case by blast
qed

lemma spells_arguments:
  assumes "list_all simple_value args" "map lexeme ts = argument_lexemes args @ property_lexemes kvs"
    and "list_all (\<lambda>(k, v). plain_name k \<and> simple_value v) kvs"
  shows "\<exists>es. spells_entries True p ts es \<and> (\<forall>n. fold add_entry es n = with_entries args kvs n)"
  using assms(1,2)
proof (induction args arbitrary: ts p)
  case Nil
  then show ?case using spells_properties [OF assms(3)] by (simp add: argument_lexemes_def)
next
  case (Cons v args)
  from Cons.prems obtain w x ts' where ts: "ts = w # x # ts'" "lexeme w = space" "lexeme x = value_lexeme v"
    "map lexeme ts' = argument_lexemes args @ property_lexemes kvs" "simple_value v"
    by (auto simp: argument_lexemes_def map_eq_Cons_conv)
  from Cons.IH [OF _ ts(4), of True] Cons.prems(1) obtain es where
    es: "spells_entries True True ts' es" "\<And>n. fold add_entry es n = with_entries args kvs n" by auto
  have "spells_entries True p (w # [] @ x # ts') (Arg None x # es)"
    using ts lexeme_value(1) [OF ts(5,3)] es(1)
    by (intro spells_entries.argument spells_annot.none) (simp_all add: space_def)
  then have "spells_entries True p ts (Arg None x # es)" by (simp add: ts(1))
  moreover have "fold add_entry (Arg None x # es) n = with_entries (v # args) kvs n" for n
    by (simp add: es(2) lexeme_value(3) [OF ts(5,3)] not_annotated with_entries_def AddArgumentValue_def)
  ultimately show ?case by blast
qed

lemma spells_blank:
  assumes "spells v x t" "blank b" shows "spells v (b # x) t"
  using assms(1)
proof (cases rule: spells.cases)
  case (leaf bs a ty n e es z)
  with assms(2) spells_spells_all.leaf [of "b # bs" a ty n v e es z] show ?thesis by simp
next
  case (block bs a ty n e es w w' l k cs b' r z)
  with assms(2) spells_spells_all.block [of "b # bs" a ty n v e es w w' l k cs b' r z] show ?thesis by simp
qed

lemma spells_all_blank:
  assumes "spells_all v x ts" "blank b" "ts \<noteq> []" shows "spells_all v (b # x) ts"
  using assms(1)
proof (cases rule: spells_all.cases)
  case (more y t z us)
  with spells_spells_all.more [OF spells_blank [OF more(3) assms(2)]] show ?thesis by simp
qed (use assms(3) in simp)

lemma spells_nodes:
  assumes "\<And>n ts. n \<in> set ns \<Longrightarrow> map lexeme ts = f n \<Longrightarrow> \<exists>t. spells True ts t \<and> meaning t = n"
    and "map lexeme ts = concat (map f ns)"
  shows "\<exists>us. spells_all True ts us \<and> map meaning us = ns"
  using assms
proof (induction ns arbitrary: ts)
  case Nil
  then show ?case by (intro exI [of _ "[]"]) (simp add: spells_spells_all.none)
next
  case (Cons n ns)
  then obtain x y where ts: "ts = x @ y" "map lexeme x = f n" "map lexeme y = concat (map f ns)"
    by (auto simp: map_eq_append_conv)
  from Cons.prems(1) [OF _ ts(2)] obtain t where "spells True x t" "meaning t = n" by auto
  moreover from Cons.IH [OF Cons.prems(1) ts(3)] obtain us where "spells_all True y us" "map meaning us = ns" by auto
  ultimately show ?case using ts(1) by (intro exI [of _ "t # us"]) (simp add: spells_spells_all.more)
qed

lemma map_eq_parts:
  assumes "map f ts = xs @ y # ys"
  obtains a b c where "ts = a @ b # c" "map f a = xs" "f b = y" "map f c = ys"
  using assms by (auto simp: map_eq_append_conv map_eq_Cons_conv)

lemma map_eq_halves:
  assumes "map f ts = xs @ ys"
  obtains a b where "ts = a @ b" "map f a = xs" "map f b = ys"
  using assms by (auto simp: map_eq_append_conv)

lemma block_parts:
  assumes "map f ts = [x, y, z] @ us @ vs @ [p, q]"
  obtains w l i k b r e where "ts = w # l # i # k @ b @ [r, e]" "f w = x" "f l = y" "f i = z" "map f k = us"
    "map f b = vs" "f r = p" "f e = q"
proof -
  from assms obtain w l i c where c: "ts = w # l # i # c" "f w = x" "f l = y" "f i = z" "map f c = us @ vs @ [p, q]"
    by (auto simp: map_eq_Cons_conv)
  from c(5) obtain k d where k: "c = k @ d" "map f k = us" "map f d = vs @ [p, q]" by (metis map_eq_append_conv)
  from k(3) obtain b r e where "d = b @ r # e" "map f b = vs" "f r = p" "map f e = [q]" by (rule map_eq_parts)
  with that c k show thesis by (auto simp: map_eq_Cons_conv)
qed

lemma spells_node:
  "plain_node n \<Longrightarrow> map lexeme ts = lexemes ind d n \<Longrightarrow> \<exists>t. spells True ts t \<and> meaning t = n"
proof (induction n arbitrary: d ts)
  case (DNode name ty args props cs cm)
  obtain x where x: "name = Some (name_value x)" "node_name name = x" "ty = []" "cm = None"
    "list_all simple_value args" "plain_properties props" "\<forall>c \<in> set cs. plain_node c"
    "list_all (\<lambda>(k, v). plain_name k \<and> simple_value v) (property_entries props)"
    using plain_DNode [OF DNode.prems(1)] by metis
  let ?block = "if cs = [] then [] else [space, (BraceOpen, ''{''), newline] @ concat (map (lexemes ind (d + 1)) cs)
    @ margin ind d @ [(BraceClose, ''}'')]"
  obtain b nt e rest where ts: "ts = b @ nt # e @ rest" "map lexeme b = margin ind d"
    "lexeme nt = (BareIdentifier, x)" "map lexeme e = argument_lexemes args @ property_lexemes (property_entries props)"
    "map lexeme rest = ?block @ [newline]"
  proof -
    have "map lexeme ts = margin ind d @ (BareIdentifier, x)
        # (argument_lexemes args @ property_lexemes (property_entries props)) @ ?block @ [newline]"
      using DNode.prems(2) by (simp only: lexemes.simps x(2) append_assoc append_Cons)
    then obtain b nt c where "ts = b @ nt # c" "map lexeme b = margin ind d" "lexeme nt = (BareIdentifier, x)"
      and c: "map lexeme c = (argument_lexemes args @ property_lexemes (property_entries props)) @ ?block @ [newline]"
      by (rule map_eq_parts)
    moreover from c obtain e r where "c = e @ r"
      "map lexeme e = argument_lexemes args @ property_lexemes (property_entries props)"
      "map lexeme r = ?block @ [newline]" by (rule map_eq_halves)
    ultimately show thesis by (intro that [of b nt e r]) simp_all
  qed
  have blanks: "\<forall>t \<in> set c. blank t" if "map lexeme c = margin ind d" for c
    using that by (auto simp: margin_def blank_def map_eq_Cons_conv split: if_splits)
  from spells_arguments [OF x(5) ts(4) x(8), of False] obtain es where
    es: "spells_entries True False e es" "\<And>n. fold add_entry es n = with_entries args (property_entries props) n" by blast
  have props: "fold (\<lambda>(k, v). AddAllocated k v) (property_entries props) no_properties = props"
    using x(6) by (simp add: plain_properties_def listed_def)
  have mean: "meaning (Tree None nt es us) = DNode name ty args props (map meaning us) cm" for us
    by (simp add: es(2) header_def lexeme_name(2) [OF ts(3)] with_entries_def props new_node_def x)
  show ?case
  proof (cases "cs = []")
    case True
    then obtain z where z: "rest = [z]" "lexeme z = newline" using ts(5) by (auto simp: map_eq_Cons_conv)
    have "spells True (b @ [] @ nt # e @ [z]) (Tree None nt es [])"
      using z(2) by (intro spells_spells_all.leaf blanks ts(2) spells_annot.none lexeme_name(1) [OF ts(3)] es(1))
        (simp add: newline_def)
    with mean [of "[]"] True show ?thesis by (intro exI [of _ "Tree None nt es []"]) (simp add: ts(1) z(1))
  next
    case False
    then have "map lexeme rest = [space, (BraceOpen, ''{''), newline] @ concat (map (lexemes ind (d + 1)) cs)
        @ margin ind d @ [(BraceClose, ''}''), newline]"
      using ts(5) by simp
    then obtain w l i k b' r z where rest: "rest = w # l # i # k @ b' @ [r, z]" "lexeme w = space"
      "lexeme l = (BraceOpen, ''{'')" "lexeme i = newline" "map lexeme k = concat (map (lexemes ind (d + 1)) cs)"
      "map lexeme b' = margin ind d" "lexeme r = (BraceClose, ''}'')" "lexeme z = newline"
      by (rule block_parts)
    have "\<exists>t. spells True ts t \<and> meaning t = c" if "c \<in> set cs" "map lexeme ts = lexemes ind (d + 1) c" for c ts
      using DNode.IH that x(7) by blast
    from spells_nodes [OF this rest(5)] obtain us where us: "spells_all True k us" "map meaning us = cs" by blast
    then have "us \<noteq> []" "blank i" using False rest(4) by (auto simp: blank_def newline_def)
    from spells_all_blank [OF us(1) this(2,1)]
    have "spells True (b @ [] @ nt # e @ [w] @ l # (i # k) @ b' @ [r, z]) (Tree None nt es us)"
      using rest by (intro spells_spells_all.block [where w' = w] blanks ts(2) spells_annot.none lexeme_name(1) [OF ts(3)] es(1))
        (simp_all add: newline_def space_def)
    with mean [of us] us(2) show ?thesis by (intro exI [of _ "Tree None nt es us"]) (simp add: ts(1) rest(1))
  qed
qed

section \<open>The way of a document\<close>

lemma plain_named: "plain_node n \<Longrightarrow> named n"
proof (induction n)
  case (DNode name ty args props cs cm)
  from plain_DNode [OF DNode.prems] DNode.IH show ?case by simp metis
qed

definition written_options :: "generator_options \<Rightarrow> node_write_options" where
  "written_options g = node_options (generator_NewOptions g) True True"

lemma faithful_plain:
  assumes "faithful g"
  shows "writes_plain (written_options g)" "w_Depth (written_options g) = 0" "w_Indent (written_options g) = g_Indent g"
  using assms by (cases "g_Version g"; simp add: faithful_def writes_plain_def written_options_def node_options_def
      generator_NewOptions_def Let_def)+

lemma document_lexemes:
  assumes "list_all plain_node nodes" "faithful g"
  shows "document_text (generator_NewOptions g) nodes = texts (concat (map (lexemes (g_Indent g) 0) nodes))"
proof -
  have "node_text (written_options g) n = texts (lexemes (g_Indent g) 0 n)" if "n \<in> set nodes" for n
    using text_node [of n "written_options g"] that assms faithful_plain [OF assms(2)] by (simp add: list_all_iff)
  moreover have "\<not> g_EmitVersionMarker (g_options (generator_NewOptions g))"
    using assms(2) by (simp add: faithful_def generator_NewOptions_def)
  ultimately show ?thesis
    by (simp add: document_text_def written_options_def [symmetric] texts_concat cong: map_cong)
qed

text \<open>What is scanned and parsed, when a text of lexemes is read in version 2.\<close>

lemma lexemes_parsed:
  assumes "list_all plain_node nodes" "set ind \<subseteq> {CHR '' '', CHR 0x09}"
    and "t = texts (concat (map (lexemes ind 0) nodes))"
  shows "\<exists>d. fst (parseOne (configure 0 False VersionV2 (NewSlice t))) = Inr d \<and> trees d = nodes"
proof -
  let ?s = "configure 0 False VersionV2 (NewSlice t)" and ?ls = "concat (map (lexemes ind 0) nodes)"
  have r: "ready (sc ?s)" "s_input (sc ?s) = texts ?ls" "s_version (sc ?s) \<noteq> VersionAuto" "s_err ?s = None"
    by (simp_all add: configure_def NewSlice_def sliceScanner_def ready_def wf_def assms(3))
  have "spelled (?ls @ [])"
    using assms(1) by (intro spelled_concat spelled_node [OF assms(2)]) (auto simp: list_all_iff)
  with ScanAll_spelled [OF r(1,2), of "[]"] obtain ts s' where
    ts: "ScanAll_loop [] (sc ?s) = (Inr ts, s')" "map lexeme ts = ?ls" by auto
  have "\<exists>us. spells_all True ts us \<and> map meaning us = nodes"
    using assms(1) by (intro spells_nodes [OF _ ts(2)] spells_node) (auto simp: list_all_iff)
  then obtain us where us: "spells_all True ts us" "map meaning us = nodes" by blast
  have o: "context_options ?s = \<lparr>o_RelaxedNonCompliant = 0, o_Flags = 0, o_Version = VersionV2\<rparr>"
    by (simp add: context_options_def configure_def NewSlice_def sliceScanner_def)
  from spelled_trees_parsed [of "context_options ?s" ts us "[]"] us(1) obtain d where
    d: "ParseAllContext (NewContextOptions (context_options ?s)) ts = Inr d" "denotes_all (d_store d) (d_Nodes d) us"
    by (auto simp: o compliant_def)
  have "fst (ScanAll ?s) = Inr ts" using ts(1) r(4) by (simp add: ScanAll_def)
  with parseOne_tokens [OF r(3,4)] d(1) have "fst (parseOne ?s) = Inr d" by blast
  with denotes_trees [OF d(2)] us(2) show ?thesis by blast
qed

text \<open>C3: what is written is what is read.  Every document of plain nodes (named by a plain word,
  with integers of any size and readable strings as arguments and properties, and with children to
  any depth), generated into a buffer in either version with any indentation by blanks, gives a
  text without an error; and reading this text, without saying in which version it is, succeeds and
  gives the same nodes, with every name, value, flag, property order and child as they were.\<close>

theorem generated_document_reads_back:
  assumes "list_all plain_node nodes" "faithful gen"
  shows "\<exists>text d. GenerateWithOptions nodes buffer_write gen [] = Some (None, text)
    \<and> kdl_Parse text = Inr d \<and> trees d = nodes"
proof -
  let ?t = "document_text (generator_NewOptions gen) nodes"
  have "\<forall>n \<in> set nodes. named n" using assms(1) plain_named by (simp add: list_all_iff)
  then have w: "GenerateWithOptions nodes buffer_write gen [] = Some (None, ?t)"
    by (simp add: GenerateWithOptions_def Generate_buffer)
  obtain d where "fst (parseOne (configure 0 False VersionV2 (NewSlice ?t))) = Inr d" "trees d = nodes"
    using lexemes_parsed [OF assms(1) _ document_lexemes [OF assms]] assms(2) by (auto simp: faithful_def)
  moreover from this(1) have "kdl_Parse ?t = Inr d"
    by (auto simp: kdl_Parse_def ParseWithOptions_def DefaultParseOptions_def kdl_parse_def configure_def New_def NewSlice_def
        sliceScanner_def Let_def split: prod.split sum.split)
  ultimately show ?thesis using w by blast
qed

text \<open>A node with an integer beyond 64 bits, a string that needs escapes, a property and a child.\<close>

definition plain_sample :: dnode where
  "plain_sample = DNode (Some (name_value ''server'')) []
     [no_value\<lparr>v_Value := VInt (- 7)\<rparr>, no_value\<lparr>v_Value := VBigInt (2 ^ 70)\<rparr>,
      no_value\<lparr>v_Value := VString (''a'' @ [CHR 0x22, CHR 0x0A] @ ''b''), v_Flag := FlagQuoted\<rparr>]
     (listed [(''port'', no_value\<lparr>v_Value := VInt 80\<rparr>)])
     [DNode (Some (name_value ''log-to'')) [] [no_value\<lparr>v_Value := VString ''x y'', v_Flag := FlagQuoted\<rparr>]
        no_properties [] None] None"

lemma generated_document_reads_back_witness:
  "\<exists>text d. GenerateWithOptions [plain_sample, plain_sample] buffer_write DefaultOptions [] = Some (None, text)
    \<and> kdl_Parse text = Inr d \<and> trees d = [plain_sample, plain_sample]"
proof (rule generated_document_reads_back)
  have "readable (''a'' @ [CHR 0x22, CHR 0x0A] @ ''b'')" "readable ''x y''" "plain_name ''server''" "plain_name ''port''"
    "plain_name ''log-to''"
    by code_simp+
  moreover have "property_entries (listed [(k, v)]) = [(k, v)]" "listed [] = no_properties" "property_entries no_properties = []"
    for k v
    by (simp_all add: property_entries_def listed_def AddAllocated_def Add_def Allocated_def Alloc_def no_properties_def
        order_def)
  ultimately show "list_all plain_node [plain_sample, plain_sample]"
    by (simp add: plain_sample_def plain_properties_def simple_value_def int64_def name_value_def no_value_def)
  show "faithful DefaultOptions" by code_simp
qed

end
