(* ===== verification/Spec2Isabelle.thy ===== *)
theory Spec2Isabelle
  imports Trees Quirks Recent TypeSound Api Streaming Comments Building Times Registry TextTrip
begin

text \<open>
  Verification development for \<open>gokdl2\<close>, a reader, writer and marshaler for KDL documents in Go.

  \<^bold>\<open>The program and its model.\<close>  Reading goes through three parts that call each other in one
  direction.  The scanner (\<open>internal/tokenizer\<close>) turns bytes into tokens; the parser
  (\<open>internal/parser\<close>) feeds each token through a table of transitions and builds nodes; the
  document (\<open>document\<close>) turns tokens into values, holds the nodes, and writes values.  The
  generator (\<open>internal/generator\<close>) writes documents.  The marshaler (\<open>internal/marshaler\<close>, with
  \<open>internal/coerce\<close>) moves values between nodes and Go variables, whose types it learns by
  reflection.  \<open>kdl.go\<close>, \<open>marshal.go\<close> and \<open>unmarshal.go\<close> join the parts.  A Go pointer to a scanner
  or a context is explicit state passing here: an operation takes the record and returns the
  changed one.  An error return is the left side of a sum or the \<open>Some\<close> of an optional error; a
  panic is a value of its own (\<open>None\<close> of an excerpt, \<open>RawOutOfRange\<close>, \<open>NilNode\<close>, \<open>Panics\<close>, \<open>Crash\<close>),
  so that its absence is a theorem.  Bytes are characters, runes natural numbers, \<open>int\<close> values
  integers.  Go types and values are trees (\<open>gtype\<close>, \<open>gval\<close>), and \<open>reflect\<close> is what the code uses
  of it: a value with its type and whether it can be set.

  \<^bold>\<open>Theories.\<close>
  \<^item> \<open>Prelude\<close>: types, result binding and the generic lemmas.  \<open>Utf8\<close>: decoding and encoding of
    runes as in the standard library.
  \<^item> \<open>Ctype\<close>, \<open>Token\<close>: \<open>tokenizer/ctype.go\<close>, \<open>token.go\<close> and \<open>relaxed.go\<close>.
  \<^item> \<open>Scanner\<close>, \<open>Excerpt\<close>: the scanner's state (\<open>Scanner\<close> of \<open>scanner.go\<close>), look-ahead,
    consumption, marks, \<open>readWhile\<close>, version detection; the excerpts of error messages.
    \<open>Streaming\<close>: the same scanner over a reader, with its buffer, \<open>refill\<close> and \<open>Read\<close>, and the
    cache of peeked runes, as a simulation of the scanner over the whole content.
  \<^item> \<open>ReadType\<close>, \<open>ReadIdent\<close>, \<open>ReadNext\<close>: the token readers of \<open>readtype.go\<close> and the dispatch on
    the next rune (\<open>readNext\<close>).  \<open>Lexing\<close>: what every reader does to the input (it consumes a
    prefix, and which); \<open>Scan\<close>: \<open>Scan\<close>, \<open>ScanAll\<close>, \<open>ScanOne\<close>, \<open>Close\<close>.  \<open>Lexemes\<close>: which texts are
    read as which tokens.
  \<^item> \<open>Quote\<close>, \<open>MultiLine\<close>: \<open>document/strings.go\<close>.  \<open>Numbers\<close>, \<open>Value\<close>, \<open>Render\<close>: \<open>document/value.go\<close> and
    \<open>suffixeddec.go\<close>, with the parts of \<open>strconv\<close> and \<open>math/big\<close> they call, over exact rationals.
    \<open>Properties\<close>: \<open>document/properties.go\<close>.
  \<^item> \<open>Context\<close>, \<open>Transitions\<close>, \<open>Parser\<close>: the parser's state and nodes, the transition table, one
    definition for each handler, and \<open>parse\<close>.  \<open>Stacks\<close>: the invariant of the context.
    \<open>Recent\<close>: the ring of recent tokens against a window.  \<open>Building\<close>: the constructors of nodes for
    callers and the pooling allocator of \<open>document/allocator.go\<close>.
  \<^item> \<open>Reading\<close>: the drivers of \<open>parser.go\<close> and \<open>kdl.go\<close>, and what a whole read returns.  \<open>Trees\<close>:
    the parser against a grammar of node trees.  \<open>Quirks\<close>: documents that are not read as the
    language leads one to expect.
  \<^item> \<open>Kept\<close>: properties that every operation on the node store keeps.  \<open>Nodes\<close>: documents as
    trees.  \<open>Writing\<close>: the writing half of \<open>document/node.go\<close> and \<open>internal/generator\<close>.
    \<open>Plain\<close>, \<open>TextTrip\<close>: documents of plain nodes through generator, scanner and parser and back.
  \<^item> \<open>GoLib\<close>, \<open>GoTypes\<close>: the parts of the standard library that the coercions call; Go types and
    values.  \<open>Coerce\<close>: \<open>internal/coerce\<close>.  \<open>Durations\<close>, \<open>Codec\<close>: the formats of durations and byte
    slices in \<open>marshal.go\<close> and \<open>unmarshal.go\<close>, and \<open>suffixeddec.go\<close>.  \<open>Times\<close>: the formats of times,
    and \<open>coerce/complex.go\<close>.
  \<^item> \<open>Index\<close>: \<open>typeindex.go\<close> and \<open>util.go\<close>; \<open>Comments\<close>: the table of comments of a struct, and what
    \<open>marshal.go\<close> and \<open>unmarshal.go\<close> do with it; \<open>Registry\<close>: functions registered with
    \<open>AddCustom...\<close> and the flags that the index keeps of them.  \<open>Setting\<close>, \<open>Unmarshal\<close>: \<open>internal/marshaler/unmarshal.go\<close>,
    one value, then nodes.  \<open>Typing\<close>, \<open>TypeSound\<close>: the typing of what it leaves behind.  \<open>Marshal\<close>:
    \<open>internal/marshaler/marshal.go\<close>.  \<open>RoundTrip\<close>, \<open>Marshaling\<close>: marshalling against unmarshalling.
    \<open>Api\<close>: \<open>marshal.go\<close> and \<open>unmarshal.go\<close> of the package.

  \<^bold>\<open>What the lemmas show.\<close>  Scanning loses no byte except in a few named places at the end of the
  input; parsing never runs into an empty stack, a nil node or a lost re-entry, and leaves a
  forest of nodes; parsing while scanning equals scanning, then parsing; a token list that spells
  trees is parsed to these trees; strings and integers come back from what is written for them;
  the loops over indices equal byte-by-byte references, dedenting is described line by line, and
  the excerpts of errors index nothing out of range; the property list and the ring of recent
  tokens meet their abstract contracts, stated as locales and interpreted on the model.  A
  document that was read is written without a panic, and a document of plain nodes is read back
  from its text.  Unmarshalling leaves values of the type of their place; what is marshalled of
  scalars, structs and slices comes back when unmarshalled; no node is dropped where that is not
  allowed; integers that do not fit are cut off.
  A scanner over a reader that does not fail behaves as one over its content as long as it looks
  one rune ahead; \<open>Read\<close> comes by every byte; comments and times come back.
  The theorems of kind error state where the code departs from what it says or means.

  \<^bold>\<open>Bounds.\<close>  Loops are structural or have a termination proof with the remaining input, the index
  to the end or the height of the state stack as measure, so every function is total.  Only the
  search for the shortest digits of a float takes fuel: 16 steps, from one digit to the seventeen
  that always suffice.  The marshaler recurs on the height of a node or the size of a value.

  \<^bold>\<open>Not modelled.\<close>  The token readers over a buffer that is refilled: they are modelled on the
  whole content, and \<open>Streaming\<close> says what of it a buffer can be seen through.  In the
  marshaler: \<open>float32\<close>, \<open>time.Time\<close> as a type of the model (its formats are functions of \<open>Times\<close>),
  complex numbers, named types and types that contain themselves; calls of functions registered with \<open>AddCustom...\<close> (methods of struct types are parameters);
  the place in the recursion at which comments are recorded and looked up; \<open>*big.Int\<close>, \<open>*big.Float\<close> and
  \<open>SuffixedDecimal\<close> as destinations, which give the result \<open>Outside\<close>, and slices and the like as
  values of a document, which give \<open>NoValue\<close>; what a failed operation has already written; and
  the sharing of pointers.
\<close>

end
